(* ===== verification/Xtrax_Prelude.thy ===== *)
theory Xtrax_Prelude
  imports Complex_Main "HOL-Library.AList"
begin

text \<open>
  Shared vocabulary of the development.

  \<^item> Python exceptions are values: an \<open>exn\<close> carries the exception class, the fixed text that
    opens its message and the values the message interpolates. A fallible operation returns
    \<open>'a res\<close>, that is \<open>exn + 'a\<close>; \<open>bind_res\<close> is the propagation of an uncaught exception
    and \<open>traverse_res\<close> a comprehension whose element expression may raise.
  \<^item> A Python \<open>dict\<close> that is iterated is an association list in insertion order: \<open>AList.update\<close>
    keeps the position of an existing key and appends a new one, as \<open>d[k] = v\<close> does.
  \<^item> \<open>bisect_left\<close> is the standard library's binary search, \<open>fromkeys\<close> the key order of
    \<open>dict.fromkeys\<close>.
  \<^item> An \<open>ndarray\<close> is a shape and its elements in row-major order; \<open>axis_blocks\<close> cuts the
    elements into the contiguous blocks that slicing and padding along one axis act on.
\<close>

named_theorems res_simps \<open>how results of fallible operations decompose\<close>

section \<open>Exceptions and results\<close>

datatype exn_class =
    ValueError | TypeError | KeyError | IndexError | RuntimeError | NotImplementedError
  | OSError | AmbiguousAxisError | BudgetInfeasibleError | DedupSpecCollisionError
  | DedupSynthesisCollisionError | DedupSynthesisUnsupportedError
  | DedupSpecVerificationError | DispatchRejected | PlanTopologyError
  | MaterializeFuseConflictError | MaterializeWithoutSinkError | MultipleMaterializeAxesError
  | ExecutorError | AttributeError | LedgerRecordError | SchemaVersionMismatchError
  | LedgerUnavailableError | BlobStoreError | BlobCorrupt | UnrecordedRunError
  | OverflowError | FileNotFoundError | FileExistsError | UnitIndexError | RowError | SchemaMismatchError
  | UnknownPrefixError | CommitConflictError | QuarantineRaceError | NotALeafKeyError | NotADurableStoreError
  | StoreIdentityMismatch | BaseZarrError | MemoryError | OtherError string

datatype exn =
    Exn exn_class string "exn_arg list"
and exn_arg =
    ArgInt int | ArgStr string | ArgInts "int list" | ArgStrs "string list"
  | ArgPairs "(string \<times> string) list" | ArgCause exn

primrec class_of :: "exn \<Rightarrow> exn_class" where
  "class_of (Exn c m as) = c"

type_synonym 'a res = "exn + 'a"

definition bind_res :: "'a res \<Rightarrow> ('a \<Rightarrow> 'b res) \<Rightarrow> 'b res" where
  "bind_res m f = (case m of Inl e \<Rightarrow> Inl e | Inr x \<Rightarrow> f x)"

lemma bind_res_Inl [simp]: "bind_res (Inl e) f = Inl e"
  by (simp add: bind_res_def)

lemma bind_res_Inr [simp]: "bind_res (Inr x) f = f x"
  by (simp add: bind_res_def)

lemma bind_res_eq_Inr [res_simps]:
  "bind_res m f = Inr y \<longleftrightarrow> (\<exists>x. m = Inr x \<and> f x = Inr y)"
  by (cases m) auto

lemma bind_res_eq_Inl [res_simps]:
  "bind_res m f = Inl e \<longleftrightarrow> m = Inl e \<or> (\<exists>x. m = Inr x \<and> f x = Inl e)"
  by (cases m) auto

lemma guard_eq_Inr [res_simps]: "(if c then Inl e else m) = Inr y \<longleftrightarrow> \<not> c \<and> m = Inr y"
  by simp

lemma bind_res_assoc: "bind_res (bind_res m f) g = bind_res m (\<lambda>x. bind_res (f x) g)"
  by (cases m) auto

lemma bind_res_cong [fundef_cong]:
  "m = m' \<Longrightarrow> (\<And>x. m' = Inr x \<Longrightarrow> f x = f' x) \<Longrightarrow> bind_res m f = bind_res m' f'"
  by (cases m') auto

fun traverse_res :: "('a \<Rightarrow> 'b res) \<Rightarrow> 'a list \<Rightarrow> 'b list res" where
  "traverse_res f [] = Inr []"
| "traverse_res f (x # xs) =
     bind_res (f x) (\<lambda>y. bind_res (traverse_res f xs) (\<lambda>ys. Inr (y # ys)))"

lemma traverse_res_cong [fundef_cong]:
  assumes "xs = ys" "\<And>x. x \<in> set ys \<Longrightarrow> f x = g x"
  shows "traverse_res f xs = traverse_res g ys"
  unfolding assms(1) using assms(2) by (induction ys) auto

lemma traverse_res_eq_Inr [res_simps]:
  "traverse_res f xs = Inr ys \<longleftrightarrow> list_all2 (\<lambda>x y. f x = Inr y) xs ys"
  by (induction xs arbitrary: ys) (auto simp: res_simps list_all2_Cons1)

lemma bind_res_right [simp]: "bind_res m Inr = m"
  by (cases m) auto

lemma traverse_res_append:
  "traverse_res f (xs @ ys) = bind_res (traverse_res f xs) (\<lambda>a. bind_res (traverse_res f ys) (\<lambda>b. Inr (a @ b)))"
  by (induction xs) (simp_all add: bind_res_assoc)

lemma set_map_filter_iff: "set (List.map_filter f xs) = {y. \<exists>x\<in>set xs. f x = Some y}"
  by (induction xs) (auto simp: map_filter_simps split: option.splits)

lemma list_all2_pick:
  assumes "list_all2 P xs ys"
  shows "x \<in> set xs \<Longrightarrow> \<exists>y\<in>set ys. P x y" "y \<in> set ys \<Longrightarrow> \<exists>x\<in>set xs. P x y"
  using assms by (induction rule: list_all2_induct) auto

lemma traverse_res_total:
  assumes "\<And>x. x \<in> set xs \<Longrightarrow> f x = Inr (g x)"
  shows "traverse_res f xs = Inr (map g xs)"
  using assms by (induction xs) auto

definition is_ok :: "'a res \<Rightarrow> bool" where
  "is_ok m = (case m of Inl _ \<Rightarrow> False | Inr _ \<Rightarrow> True)"

lemma is_ok_simps [simp]: "is_ok (Inl e) = False" "is_ok (Inr x) = True"
  by (simp_all add: is_ok_def)

lemma is_ok_iff: "is_ok m \<longleftrightarrow> (\<exists>x. m = Inr x)"
  by (cases m) auto

section \<open>Standard-library lists and dictionaries\<close>

definition fromkeys :: "'a list \<Rightarrow> 'a list" where
  "fromkeys xs = rev (remdups (rev xs))"

lemma set_fromkeys [simp]: "set (fromkeys xs) = set xs"
  by (simp add: fromkeys_def)

lemma distinct_fromkeys [simp]: "distinct (fromkeys xs)"
  by (simp add: fromkeys_def)

lemma fromkeys_distinct: "distinct xs \<Longrightarrow> fromkeys xs = xs"
  by (simp add: fromkeys_def distinct_remdups_id)

lemma fromkeys_snoc:
  "fromkeys (xs @ [x]) = (if x \<in> set xs then fromkeys xs else fromkeys xs @ [x])"
  by (simp add: fromkeys_def)

lemma length_takeWhile_neq:
  assumes "r \<in> set u"
  shows "length (takeWhile (\<lambda>v. v \<noteq> r) u) < length u"
    and "u ! length (takeWhile (\<lambda>v. v \<noteq> r) u) = r"
    and "\<And>j. j < length (takeWhile (\<lambda>v. v \<noteq> r) u) \<Longrightarrow> u ! j \<noteq> r"
proof -
  show less: "length (takeWhile (\<lambda>v. v \<noteq> r) u) < length u"
    using assms by (induction u) auto
  from nth_length_takeWhile [OF this] show "u ! length (takeWhile (\<lambda>v. v \<noteq> r) u) = r" by simp
  show "u ! j \<noteq> r" if j: "j < length (takeWhile (\<lambda>v. v \<noteq> r) u)" for j
    using nth_mem [OF j] takeWhile_nth [OF j] by (auto dest: set_takeWhileD)
qed

text \<open>The loop of \<open>bisect.bisect_left\<close> with its default bounds.\<close>

function bisect_left_loop :: "'a::linorder list \<Rightarrow> 'a \<Rightarrow> nat \<Rightarrow> nat \<Rightarrow> nat" where
  "bisect_left_loop a x lo hi =
     (if lo < hi
      then let mid = (lo + hi) div 2
           in if a ! mid < x then bisect_left_loop a x (mid + 1) hi
              else bisect_left_loop a x lo mid
      else lo)"
  by pat_completeness auto
termination
  by (relation "measure (\<lambda>(a, x, lo, hi). hi - lo)") auto

declare bisect_left_loop.simps [simp del]

definition bisect_left :: "'a::linorder list \<Rightarrow> 'a \<Rightarrow> nat" where
  "bisect_left a x = bisect_left_loop a x 0 (length a)"

lemma bisect_left_loop_spec:
  assumes "sorted a" "lo \<le> hi" "hi \<le> length a"
    and "\<forall>i<lo. a ! i < x" and "\<forall>i. hi \<le> i \<and> i < length a \<longrightarrow> x \<le> a ! i"
  shows "bisect_left_loop a x lo hi \<le> length a
    \<and> (\<forall>i<bisect_left_loop a x lo hi. a ! i < x)
    \<and> (\<forall>i. bisect_left_loop a x lo hi \<le> i \<and> i < length a \<longrightarrow> x \<le> a ! i)"
  using assms
proof (induction a x lo hi rule: bisect_left_loop.induct)
  case (1 a x lo hi)
  show ?case
  proof (cases "lo < hi")
    case False
    then have "bisect_left_loop a x lo hi = lo" by (simp add: bisect_left_loop.simps)
    with False "1.prems" show ?thesis by auto
  next
    case True
    define mid where "mid = (lo + hi) div 2"
    have mid: "lo \<le> mid" "mid < hi" "mid < length a"
      using True "1.prems" by (auto simp: mid_def)
    show ?thesis
    proof (cases "a ! mid < x")
      case less: True
      have below: "\<forall>i<mid + 1. a ! i < x"
        using less mid "1.prems"(1) by (metis le_less_trans less_Suc_eq_le Suc_eq_plus1 sorted_nth_mono)
      have step: "bisect_left_loop a x lo hi = bisect_left_loop a x (mid + 1) hi"
        using True less by (subst bisect_left_loop.simps) (simp add: Let_def mid_def)
      have "mid + 1 \<le> hi" using mid by simp
      from "1.IH"(1) [OF True mid_def less "1.prems"(1) this "1.prems"(3) below "1.prems"(5)]
      show ?thesis unfolding step .
    next
      case ge: False
      have above: "\<forall>i. mid \<le> i \<and> i < length a \<longrightarrow> x \<le> a ! i"
        using ge "1.prems"(1) by (meson le_less_trans not_less order_trans sorted_nth_mono)
      have step: "bisect_left_loop a x lo hi = bisect_left_loop a x lo mid"
        using True ge by (subst bisect_left_loop.simps) (simp add: Let_def mid_def)
      have "mid \<le> length a" using mid by simp
      from "1.IH"(2) [OF True mid_def ge "1.prems"(1) mid(1) this "1.prems"(4) above]
      show ?thesis unfolding step .
    qed
  qed
qed

lemma bisect_left_spec:
  assumes "sorted a"
  shows "bisect_left a x \<le> length a"
    and "i < bisect_left a x \<Longrightarrow> a ! i < x"
    and "bisect_left a x \<le> i \<Longrightarrow> i < length a \<Longrightarrow> x \<le> a ! i"
proof -
  have "bisect_left a x \<le> length a \<and> (\<forall>i<bisect_left a x. a ! i < x)
    \<and> (\<forall>i. bisect_left a x \<le> i \<and> i < length a \<longrightarrow> x \<le> a ! i)"
    unfolding bisect_left_def by (rule bisect_left_loop_spec [OF assms]) auto
  then show "bisect_left a x \<le> length a"
    and "i < bisect_left a x \<Longrightarrow> a ! i < x"
    and "bisect_left a x \<le> i \<Longrightarrow> i < length a \<Longrightarrow> x \<le> a ! i"
    by auto
qed

section \<open>Row-major arrays\<close>

record 'a ndarray =
  nd_shape :: "nat list"
  nd_data :: "'a list"

definition nd_wf :: "'a ndarray \<Rightarrow> bool" where
  "nd_wf a \<longleftrightarrow> length (nd_data a) = prod_list (nd_shape a)"

definition nd_ndim :: "'a ndarray \<Rightarrow> nat" where
  "nd_ndim a = length (nd_shape a)"

text \<open>
  The elements at positions \<open>0, \<dots>, outer - 1\<close> of the leading axes, each a block of \<open>sz\<close>
  consecutive elements.
\<close>

definition blocks :: "nat \<Rightarrow> nat \<Rightarrow> 'a list \<Rightarrow> 'a list list" where
  "blocks outer sz xs = map (\<lambda>i. take sz (drop (i * sz) xs)) [0..<outer]"

lemma length_blocks [simp]: "length (blocks outer sz xs) = outer"
  by (simp add: blocks_def)

lemma blocks_Suc: "blocks (Suc n) sz xs = take sz xs # blocks n sz (drop sz xs)"
  unfolding blocks_def upt_conv_Cons [OF zero_less_Suc] map_Suc_upt [symmetric]
  by (simp add: comp_def add.commute)

lemma blocks_length:
  "b \<in> set (blocks outer sz xs) \<Longrightarrow> length xs = outer * sz \<Longrightarrow> length b = sz"
proof (induction outer arbitrary: xs)
  case 0
  then show ?case by (simp add: blocks_def)
next
  case (Suc n)
  then show ?case by (auto simp: blocks_Suc)
qed

lemma concat_blocks: "length xs = outer * sz \<Longrightarrow> concat (blocks outer sz xs) = xs"
proof (induction outer arbitrary: xs)
  case 0
  then show ?case by (simp add: blocks_def)
next
  case (Suc n)
  then show ?case by (simp add: blocks_Suc)
qed

lemma blocks_concat:
  "length bs = outer \<Longrightarrow> (\<forall>b\<in>set bs. length b = sz) \<Longrightarrow> blocks outer sz (concat bs) = bs"
proof (induction outer arbitrary: bs)
  case 0
  then show ?case by (simp add: blocks_def)
next
  case (Suc n)
  then obtain b cs where "bs = b # cs" "length cs = n" "length b = sz" "\<forall>c\<in>set cs. length c = sz"
    by (cases bs) auto
  with Suc.IH [of cs] show ?case by (simp add: blocks_Suc)
qed

lemma length_concat_same:
  "(\<forall>b\<in>set bs. length b = sz) \<Longrightarrow> length (concat bs) = length bs * sz"
  by (induction bs) auto

definition axis_outer :: "nat list \<Rightarrow> nat \<Rightarrow> nat" where
  "axis_outer sh k = prod_list (take k sh)"

definition axis_inner :: "nat list \<Rightarrow> nat \<Rightarrow> nat" where
  "axis_inner sh k = prod_list (drop (Suc k) sh)"

lemma prod_list_axis:
  "k < length sh \<Longrightarrow> prod_list sh = axis_outer sh k * (sh ! k * axis_inner sh k)"
  using arg_cong [OF id_take_nth_drop [of k sh], of prod_list]
  by (simp add: axis_outer_def axis_inner_def del: take_drop)

lemma axis_outer_update [simp]: "axis_outer (sh[k := n]) k = axis_outer sh k"
  by (simp add: axis_outer_def)

lemma axis_inner_update [simp]: "axis_inner (sh[k := n]) k = axis_inner sh k"
  by (simp add: axis_inner_def)

text \<open>The blocks along one axis of an array: \<open>outer\<close> blocks of \<open>sh ! k * inner\<close> elements.\<close>

definition axis_blocks :: "'a ndarray \<Rightarrow> nat \<Rightarrow> 'a list list" where
  "axis_blocks a k =
     blocks (axis_outer (nd_shape a) k) (nd_shape a ! k * axis_inner (nd_shape a) k) (nd_data a)"

section \<open>Machine integers\<close>

text \<open>A JAX or NumPy scalar of type \<open>int32\<close>: a value outside its range wraps.\<close>

definition int32 :: "int \<Rightarrow> int" where
  "int32 i = (i + 2 ^ 31) mod 2 ^ 32 - 2 ^ 31"

lemma int32_small: "0 \<le> i \<Longrightarrow> i < 2 ^ 31 \<Longrightarrow> int32 i = i"
  by (simp add: int32_def)

end
