(* ===== verification/Tiling_Bucket.thy ===== *)
theory Tiling_Bucket
  imports Xtrax_Prelude
begin

text \<open>
  Host-side length bucketing: \<open>src/src/xtrax/tiling/bucket.py\<close>, in the order of the file, and
  \<open>BucketIterator\<close> of \<open>src/src/xtrax/tiling/iterator.py\<close>.

  Arrays are row-major \<open>ndarray\<close>s, so slicing and padding along an axis act on the contiguous
  blocks of that axis. A pytree is the list of its leaves (flatten and unflatten keep the
  structure). The lemmas give the bucket selection its order-theoretic meaning, show that
  padding is undone by trimming, and that a mask's span is the least length that keeps every
  valid entry.
\<close>

section \<open>Model\<close>

definition BUCKET_LADDER :: "int list" where
  "BUCKET_LADDER = [64, 128, 256, 512, 1024, 1536, 2048]"

definition select_bucket :: "int \<Rightarrow> int list \<Rightarrow> int res" where
  "select_bucket len boundaries =
     (if len < 0 then
        Inl (Exn ValueError ''select_bucket: length must be >= 0'' [ArgInt len])
      else if boundaries = [] then
        Inl (Exn ValueError ''select_bucket: boundaries must be non-empty.'' [])
      else
        let idx = bisect_left boundaries len in
        if idx \<ge> length boundaries then
          Inl (Exn ValueError ''select_bucket: length exceeds the largest bucket boundary''
                 [ArgInt len, ArgInt (last boundaries)])
        else Inr (boundaries ! idx))"

text \<open>\<open>np.argmax\<close> of one row of booleans: the first \<open>True\<close>, and 0 when there is none.\<close>

definition argmax_bool :: "bool list \<Rightarrow> nat" where
  "argmax_bool r = (if True \<in> set r then length (takeWhile Not r) else 0)"

definition row_span :: "nat \<Rightarrow> bool list \<Rightarrow> nat" where
  "row_span len r = (if True \<in> set r then len - argmax_bool (rev r) else 0)"

definition mask_rows :: "int ndarray \<Rightarrow> bool list list" where
  "mask_rows msk =
     (let len = last (nd_shape msk)
      in blocks (length (nd_data msk) div len) len (map (\<lambda>v. v > 0) (nd_data msk)))"

definition valid_span :: "int ndarray \<Rightarrow> nat" where
  "valid_span msk =
     (if nd_ndim msk = 0 \<or> nd_data msk = [] \<or> last (nd_shape msk) = 0 then 0
      else
        let len = last (nd_shape msk); valid = mask_rows msk
        in if \<not> list_ex (\<lambda>r. True \<in> set r) valid then 0
           else Max (set (map (row_span len) valid)))"

definition select_rung :: "int \<Rightarrow> int \<Rightarrow> int list \<Rightarrow> int res" where
  "select_rung len cap ladder =
     (if cap < 0 then Inl (Exn ValueError ''select_rung: cap must be >= 0'' [ArgInt cap])
      else bind_res (select_bucket len ladder) (\<lambda>b. Inr (min b cap)))"

definition normalize_axis :: "int \<Rightarrow> nat \<Rightarrow> string \<Rightarrow> nat res" where
  "normalize_axis axis ndim op =
     (let axis_norm = (if axis \<ge> 0 then axis else int ndim + axis)
      in if axis_norm < 0 \<or> axis_norm \<ge> int ndim
         then Inl (Exn IndexError (op @ '': axis is out of range'') [ArgInt axis, ArgInt (int ndim)])
         else Inr (nat axis_norm))"

text \<open>The slice \<open>0:n\<close> along one axis, and \<open>np.pad\<close> at the end of one axis.\<close>

definition slice_axis :: "'a ndarray \<Rightarrow> nat \<Rightarrow> nat \<Rightarrow> 'a ndarray" where
  "slice_axis a k n =
     a\<lparr>nd_shape := (nd_shape a)[k := min n (nd_shape a ! k)],
       nd_data := concat (map (take (n * axis_inner (nd_shape a) k)) (axis_blocks a k))\<rparr>"

definition pad_end :: "'a ndarray \<Rightarrow> nat \<Rightarrow> nat \<Rightarrow> 'a \<Rightarrow> 'a ndarray" where
  "pad_end a k amount fill =
     a\<lparr>nd_shape := (nd_shape a)[k := nd_shape a ! k + amount],
       nd_data := concat (map (\<lambda>b. b @ replicate (amount * axis_inner (nd_shape a) k) fill)
                    (axis_blocks a k))\<rparr>"

definition trim_axis :: "'a ndarray option \<Rightarrow> int \<Rightarrow> int \<Rightarrow> 'a ndarray option res" where
  "trim_axis arr n axis =
     (case arr of
        None \<Rightarrow> Inr None
      | Some a \<Rightarrow>
          if n < 0 then Inl (Exn ValueError ''trim_axis: n must be >= 0'' [ArgInt n])
          else bind_res (normalize_axis axis (nd_ndim a) ''trim_axis'')
                 (\<lambda>k. Inr (Some (slice_axis a k (nat n)))))"

definition pad_axis :: "'a ndarray option \<Rightarrow> int \<Rightarrow> int \<Rightarrow> 'a \<Rightarrow> 'a ndarray option res" where
  "pad_axis arr n axis fill =
     (case arr of
        None \<Rightarrow> Inr None
      | Some a \<Rightarrow>
          if n < 0 then Inl (Exn ValueError ''pad_axis: target length must be >= 0'' [ArgInt n])
          else bind_res (normalize_axis axis (nd_ndim a) ''pad_axis'')
            (\<lambda>k. let current = int (nd_shape a ! k) in
                 if current = n then Inr (Some a)
                 else if current > n then
                   Inl (Exn ValueError ''pad_axis: cannot pad axis''
                          [ArgInt axis, ArgInt current, ArgInt n])
                 else Inr (Some (pad_end a k (nat (n - current)) fill))))"

definition leading_len :: "'a ndarray \<Rightarrow> nat res" where
  "leading_len a =
     (case nd_shape a of [] \<Rightarrow> Inl (Exn IndexError ''tuple index out of range'' [])
                       | n # _ \<Rightarrow> Inr n)"

fun check_leading :: "nat \<Rightarrow> 'a ndarray list \<Rightarrow> unit res" where
  "check_leading seq_len [] = Inr ()"
| "check_leading seq_len (a # as) =
     bind_res (leading_len a) (\<lambda>n.
       if n \<noteq> seq_len then
         Inl (Exn ValueError ''bucketize: all leaves must share the same leading-axis length''
                [ArgInt (int seq_len), ArgInt (int n)])
       else check_leading seq_len as)"

definition bucketize :: "'a::zero ndarray list \<Rightarrow> int \<Rightarrow> ('a ndarray list \<times> bool list) res" where
  "bucketize leaves bucket_size =
     (case leaves of
        [] \<Rightarrow> Inl (Exn ValueError ''bucketize: xs has no array leaves to pad.'' [])
      | a # _ \<Rightarrow>
          bind_res (leading_len a) (\<lambda>seq_len.
            bind_res (check_leading seq_len leaves) (\<lambda>_.
              if bucket_size < int seq_len then
                Inl (Exn ValueError ''bucketize: bucket_size is smaller than the input''
                       [ArgInt bucket_size, ArgInt (int seq_len)])
              else
                let pad_amount = nat (bucket_size - int seq_len) in
                Inr (map (\<lambda>arr. pad_end arr 0 pad_amount 0) leaves,
                     map (\<lambda>i. i < seq_len) [0..<nat bucket_size]))))"

text \<open>
  \<open>BucketIterator\<close>: the constructor's check, and the generator as the list of what it yields.
  \<open>jnp.pad\<close> of the leading axis is a parameter: it may reject its pad width.
\<close>

record ('a, 'r) bucket_iterator =
  bi_boundaries :: "int list"
  bi_batch_sizes :: "int list"
  bi_fn :: "'a ndarray list \<Rightarrow> 'r"
  bi_xs :: "'a ndarray list"

definition BucketIterator_init ::
  "int list \<Rightarrow> int list \<Rightarrow> ('a ndarray list \<Rightarrow> 'r) \<Rightarrow> 'a ndarray list \<Rightarrow> ('a, 'r) bucket_iterator res"
where
  "BucketIterator_init boundaries batch_sizes fn xs =
     (if length batch_sizes \<noteq> length boundaries + 1 then
        Inl (Exn ValueError ''len(batch_sizes) must equal len(boundaries) + 1''
               [ArgInt (int (length batch_sizes)), ArgInt (int (length boundaries) + 1)])
      else Inr \<lparr>bi_boundaries = boundaries, bi_batch_sizes = batch_sizes, bi_fn = fn, bi_xs = xs\<rparr>)"

definition BucketIterator_iter ::
  "('a ndarray \<Rightarrow> int \<Rightarrow> 'a ndarray res) \<Rightarrow> ('a, 'r) bucket_iterator \<Rightarrow> ('r \<times> bool list) list res"
where
  "BucketIterator_iter jnp_pad it =
     (case bi_xs it of
        [] \<Rightarrow> Inr []
      | a # _ \<Rightarrow>
          bind_res (leading_len a) (\<lambda>seq_len.
            let bucket_idx = bisect_left (bi_boundaries it) (int seq_len) in
            if bucket_idx \<ge> length (bi_boundaries it) then
              (if bi_boundaries it = [] then Inl (Exn IndexError ''list index out of range'' [])
               else Inl (Exn ValueError ''Input length exceeds maximum bucket size''
                           [ArgInt (int seq_len), ArgInt (last (bi_boundaries it))]))
            else
              let bucket_size = bi_boundaries it ! bucket_idx;
                  pad_amount = bucket_size - int seq_len
              in bind_res (traverse_res (\<lambda>x. jnp_pad x pad_amount) (bi_xs it)) (\<lambda>padded_xs.
                   Inr [(bi_fn it padded_xs, map (\<lambda>i. i < seq_len) [0..<nat bucket_size])])))"

text \<open>
  What the iterator relies on from \<open>jnp.pad\<close>: a non-negative pad width on the leading axis appends
  that many zero rows.
\<close>

definition pads_leading :: "('a::zero ndarray \<Rightarrow> int \<Rightarrow> 'a ndarray res) \<Rightarrow> bool" where
  "pads_leading jnp_pad \<longleftrightarrow>
     (\<forall>x m. nd_shape x \<noteq> [] \<longrightarrow> 0 \<le> m \<longrightarrow> jnp_pad x m = Inr (pad_end x 0 (nat m) 0))"

section \<open>Bucket selection\<close>

lemma select_bucket_Inr_iff:
  assumes "sorted bs"
  shows "select_bucket len bs = Inr b \<longleftrightarrow>
    0 \<le> len \<and> b \<in> set bs \<and> len \<le> b \<and> (\<forall>c\<in>set bs. len \<le> c \<longrightarrow> b \<le> c)"
proof
  assume ok: "select_bucket len bs = Inr b"
  define idx where "idx = bisect_left bs len"
  from ok have "0 \<le> len" "idx < length bs" "b = bs ! idx"
    by (auto simp: select_bucket_def Let_def idx_def split: if_splits)
  moreover have "len \<le> bs ! idx"
    using bisect_left_spec(3) [OF assms, of len idx] \<open>idx < length bs\<close> by (simp add: idx_def)
  moreover have "bs ! idx \<le> c" if c: "c \<in> set bs" "len \<le> c" for c
  proof -
    obtain j where j: "j < length bs" "c = bs ! j" using c(1) by (auto simp: in_set_conv_nth)
    have "idx \<le> j"
      using bisect_left_spec(2) [OF assms, of j len] c(2) j by (force simp: idx_def)
    with assms j show ?thesis by (simp add: sorted_nth_mono)
  qed
  ultimately show "0 \<le> len \<and> b \<in> set bs \<and> len \<le> b \<and> (\<forall>c\<in>set bs. len \<le> c \<longrightarrow> b \<le> c)"
    by auto
next
  assume rhs: "0 \<le> len \<and> b \<in> set bs \<and> len \<le> b \<and> (\<forall>c\<in>set bs. len \<le> c \<longrightarrow> b \<le> c)"
  define idx where "idx = bisect_left bs len"
  obtain j where j: "j < length bs" "b = bs ! j" using rhs by (auto simp: in_set_conv_nth)
  have idx_le: "idx \<le> j"
    using bisect_left_spec(2) [OF assms, of j len] rhs j by (force simp: idx_def)
  then have idx: "idx < length bs" using j by simp
  then have "len \<le> bs ! idx"
    using bisect_left_spec(3) [OF assms, of len idx] by (simp add: idx_def)
  then have "bs ! idx = b"
    using rhs idx idx_le j assms by (metis nth_mem order_antisym sorted_nth_mono)
  with rhs idx show "select_bucket len bs = Inr b"
    by (auto simp: select_bucket_def Let_def idx_def)
qed

lemma select_bucket_ok_iff:
  assumes "sorted bs"
  shows "is_ok (select_bucket len bs) \<longleftrightarrow> 0 \<le> len \<and> (\<exists>b\<in>set bs. len \<le> b)"
proof -
  have "is_ok (select_bucket len bs) \<longleftrightarrow> 0 \<le> len \<and> bs \<noteq> [] \<and> bisect_left bs len < length bs"
    by (auto simp: select_bucket_def Let_def)
  also have "\<dots> \<longleftrightarrow> 0 \<le> len \<and> (\<exists>b\<in>set bs. len \<le> b)"
  proof (cases "bisect_left bs len < length bs")
    case True
    then show ?thesis using bisect_left_spec(3) [OF assms order_refl True] by auto
  next
    case False
    then have "\<forall>b\<in>set bs. b < len"
      using bisect_left_spec(2) [OF assms] by (metis in_set_conv_nth linorder_not_less order_less_le_trans)
    with False show ?thesis by force
  qed
  finally show ?thesis .
qed

section \<open>Trimming and padding along an axis\<close>

lemma axis_blocks_length:
  assumes "nd_wf a" "k < nd_ndim a" "b \<in> set (axis_blocks a k)"
  shows "length b = nd_shape a ! k * axis_inner (nd_shape a) k"
  using assms by (auto simp: axis_blocks_def nd_wf_def nd_ndim_def prod_list_axis [of k] dest: blocks_length)

lemma concat_axis_blocks:
  assumes "nd_wf a" "k < nd_ndim a"
  shows "concat (axis_blocks a k) = nd_data a"
  using assms by (simp add: axis_blocks_def nd_wf_def nd_ndim_def prod_list_axis [of k] concat_blocks)

lemma nd_shape_pad_end [simp]:
  "nd_shape (pad_end a k m fill) = (nd_shape a)[k := nd_shape a ! k + m]"
  by (simp add: pad_end_def)

lemma axis_blocks_pad_end:
  assumes "nd_wf a" "k < nd_ndim a"
  shows "axis_blocks (pad_end a k m fill) k =
    map (\<lambda>b. b @ replicate (m * axis_inner (nd_shape a) k) fill) (axis_blocks a k)"
  unfolding axis_blocks_def [of "pad_end a k m fill"]
  using assms
  by (auto simp: pad_end_def nd_ndim_def add_mult_distrib axis_blocks_length axis_blocks_def
      intro!: blocks_concat dest: axis_blocks_length [unfolded axis_blocks_def])

lemma pad_end_wf:
  assumes "nd_wf a" "k < nd_ndim a"
  shows "nd_wf (pad_end a k m fill)"
proof -
  let ?sh = "(nd_shape a)[k := nd_shape a ! k + m]"
  have "length (nd_data (pad_end a k m fill)) =
      axis_outer (nd_shape a) k * ((nd_shape a ! k + m) * axis_inner (nd_shape a) k)"
    using assms
    by (subst pad_end_def, simp, subst length_concat_same
        [where sz = "(nd_shape a ! k + m) * axis_inner (nd_shape a) k"])
      (auto simp: axis_blocks_length add_mult_distrib axis_blocks_def)
  also have "\<dots> = prod_list ?sh"
    using assms by (subst prod_list_axis [of k]) (auto simp: nd_ndim_def)
  finally show ?thesis by (simp add: nd_wf_def pad_end_def)
qed

lemma slice_pad_end:
  assumes "nd_wf a" "k < nd_ndim a"
  shows "slice_axis (pad_end a k m fill) k (nd_shape a ! k) = a"
proof -
  have "map (take (nd_shape a ! k * axis_inner (nd_shape a) k))
      (axis_blocks (pad_end a k m fill) k) = axis_blocks a k"
    using assms
    by (auto simp: axis_blocks_pad_end comp_def axis_blocks_length intro!: map_idI)
  then have "nd_data (slice_axis (pad_end a k m fill) k (nd_shape a ! k)) = nd_data a"
    and "nd_shape (slice_axis (pad_end a k m fill) k (nd_shape a ! k)) = nd_shape a"
    using assms by (simp_all add: slice_axis_def concat_axis_blocks nd_ndim_def)
  then show ?thesis
    by (cases a) (simp add: slice_axis_def pad_end_def)
qed

lemma normalize_axis_less: "normalize_axis axis ndim op = Inr k \<Longrightarrow> k < ndim"
  by (auto simp: normalize_axis_def Let_def split: if_splits)

lemma normalize_axis_op:
  "normalize_axis axis ndim op = Inr k \<Longrightarrow> normalize_axis axis ndim op' = Inr k"
  by (auto simp: normalize_axis_def Let_def split: if_splits)

lemma slice_axis_full:
  assumes "nd_wf a" "k < nd_ndim a"
  shows "slice_axis a k (nd_shape a ! k) = a"
  using slice_pad_end [OF assms, of 0 undefined]
  by (simp add: pad_end_def concat_axis_blocks [OF assms])

section \<open>The span of a mask\<close>

lemma row_span_spec:
  assumes "length r = len"
  shows "\<And>j. j < len \<Longrightarrow> r ! j \<Longrightarrow> j < row_span len r"
    and "0 < row_span len r \<Longrightarrow> r ! (row_span len r - 1)"
    and "row_span len r \<le> len"
proof -
  define t where "t = length (takeWhile Not (rev r))"
  have before: "\<not> rev r ! j" if "j < t" for j
    using that by (metis t_def nth_mem set_takeWhileD takeWhile_nth)
  show "row_span len r \<le> len" by (simp add: row_span_def)
  show "j < row_span len r" if j: "j < len" "r ! j" for j
  proof -
    have mem: "True \<in> set r" using j assms by (metis (full_types) nth_mem)
    have "rev r ! (len - Suc j)" using j assms by (simp add: rev_nth)
    then have "t \<le> len - Suc j" using before not_less by blast
    with mem j show ?thesis by (auto simp: row_span_def argmax_bool_def t_def)
  qed
  show "r ! (row_span len r - 1)" if pos: "0 < row_span len r"
  proof -
    have mem: "True \<in> set r" using pos by (auto simp: row_span_def split: if_splits)
    then have less: "t < length (rev r)"
      unfolding t_def by (metis (full_types) length_takeWhile_le nat_less_le set_rev
          takeWhile_eq_all_conv takeWhile_eq_take take_all_iff)
    then have "rev r ! t" using nth_length_takeWhile [of Not "rev r"] by (simp add: t_def)
    moreover have "row_span len r - 1 = len - Suc t"
      using mem by (simp add: row_span_def argmax_bool_def t_def)
    ultimately show ?thesis using less assms by (simp add: rev_nth)
  qed
qed

lemma flat_index_less: "q < outer \<Longrightarrow> c < sz \<Longrightarrow> q * sz + c < outer * (sz :: nat)"
  by (metis add_less_cancel_left less_eq_Suc_le mult_Suc add.commute mult_le_mono1
      order_less_le_trans)

lemma blocks_nth:
  "q < outer \<Longrightarrow> c < sz \<Longrightarrow> length xs = outer * sz \<Longrightarrow> blocks outer sz xs ! q ! c = xs ! (q * sz + c)"
  using flat_index_less [of q outer c sz] by (simp add: blocks_def)

lemma nd_wf_last:
  assumes "nd_wf a" "nd_shape a \<noteq> []"
  shows "length (nd_data a) = prod_list (butlast (nd_shape a)) * last (nd_shape a)"
  using assms by (metis append_butlast_last_id nd_wf_def prod_list.Cons prod_list.Nil
      prod_list.append mult.right_neutral)

lemma mask_rows_shape:
  assumes "nd_wf m" "nd_shape m \<noteq> []" "0 < last (nd_shape m)"
  shows "length (mask_rows m) * last (nd_shape m) = length (nd_data m)"
    and "\<forall>r\<in>set (mask_rows m). length r = last (nd_shape m)"
  using nd_wf_last [OF assms(1,2)] assms(3)
  by (auto simp: mask_rows_def Let_def dest: blocks_length)

lemma mask_rows_nth:
  assumes "nd_wf m" "nd_shape m \<noteq> []" "q < length (mask_rows m)" "c < last (nd_shape m)"
  shows "mask_rows m ! q ! c \<longleftrightarrow> 0 < nd_data m ! (q * last (nd_shape m) + c)"
proof -
  have size: "length (mask_rows m) * last (nd_shape m) = length (nd_data m)"
    using mask_rows_shape(1) [OF assms(1,2)] assms(4) by simp
  then have "q * last (nd_shape m) + c < length (nd_data m)"
    using flat_index_less assms(3,4) by metis
  with assms size show ?thesis by (simp add: mask_rows_def Let_def blocks_nth)
qed

lemma valid_span_Max:
  assumes "nd_wf m" "nd_shape m \<noteq> []" "0 < last (nd_shape m)"
  shows "valid_span m = Max (insert 0 (row_span (last (nd_shape m)) ` set (mask_rows m)))"
proof (cases "list_ex (\<lambda>r. True \<in> set r) (mask_rows m)")
  case True
  then have ne: "mask_rows m \<noteq> []" by auto
  then have "nd_data m \<noteq> []" using mask_rows_shape(1) [OF assms] assms(3) by auto
  with True assms ne show ?thesis by (simp add: valid_span_def nd_ndim_def Let_def max_def)
next
  case False
  then have "row_span (last (nd_shape m)) ` set (mask_rows m) \<subseteq> {0}"
    by (auto simp: row_span_def list_ex_iff)
  then have "Max (insert 0 (row_span (last (nd_shape m)) ` set (mask_rows m))) = 0"
    by (metis Max_singleton insert_absorb2 subset_singletonD)
  with False show ?thesis by (simp add: valid_span_def Let_def)
qed

lemma valid_span_upper:
  assumes "nd_wf m" "nd_shape m \<noteq> []" "i < length (nd_data m)" "0 < nd_data m ! i"
  shows "i mod last (nd_shape m) < valid_span m"
proof -
  let ?len = "last (nd_shape m)"
  have pos: "0 < ?len" using assms nd_wf_last [OF assms(1,2)] by (cases "?len = 0") auto
  define q c where "q = i div ?len" and "c = i mod ?len"
  have qc: "q < length (mask_rows m)" "c < ?len" "i = q * ?len + c"
    using assms(3) pos mask_rows_shape(1) [OF assms(1,2) pos]
    by (auto simp: q_def c_def less_mult_imp_div_less)
  then have "c < row_span ?len (mask_rows m ! q)"
    using row_span_spec(1) mask_rows_nth [OF assms(1,2) qc(1,2)] assms(4)
      mask_rows_shape(2) [OF assms(1,2) pos] by auto
  also have "\<dots> \<le> valid_span m"
    using qc by (auto simp: valid_span_Max [OF assms(1,2) pos] intro!: Max_ge)
  finally show ?thesis by (simp add: c_def)
qed

lemma valid_span_le: "nd_wf m \<Longrightarrow> nd_shape m \<noteq> [] \<Longrightarrow> valid_span m \<le> last (nd_shape m)"
proof (cases "last (nd_shape m) = 0")
  case True
  then show ?thesis by (simp add: valid_span_def)
next
  case False
  assume m: "nd_wf m" "nd_shape m \<noteq> []"
  then have "\<forall>r\<in>set (mask_rows m). row_span (last (nd_shape m)) r \<le> last (nd_shape m)"
    using mask_rows_shape(2) [of m] False by (metis neq0_conv row_span_spec(3))
  with m False show ?thesis by (simp add: valid_span_Max)
qed

lemma valid_span_attained:
  assumes "nd_wf m" "nd_shape m \<noteq> []" "0 < valid_span m"
  shows "\<exists>i<length (nd_data m). 0 < nd_data m ! i \<and> i mod last (nd_shape m) = valid_span m - 1"
proof -
  let ?len = "last (nd_shape m)"
  have pos: "0 < ?len" using assms(3) by (auto simp: valid_span_def split: if_splits)
  have "valid_span m \<in> insert 0 (row_span ?len ` set (mask_rows m))"
    unfolding valid_span_Max [OF assms(1,2) pos] by (rule Max_in) auto
  then obtain q where q: "q < length (mask_rows m)" "row_span ?len (mask_rows m ! q) = valid_span m"
    using assms(3) by (auto simp: in_set_conv_nth)
  define c where "c = valid_span m - 1"
  have c: "c < ?len" using valid_span_le [OF assms(1,2)] assms(3) by (simp add: c_def)
  have "mask_rows m ! q ! c"
    using row_span_spec(2) [of "mask_rows m ! q" ?len] q mask_rows_shape(2) [OF assms(1,2) pos] assms(3)
    by (simp add: c_def)
  then have "0 < nd_data m ! (q * ?len + c)" using mask_rows_nth [OF assms(1,2) q(1) c] by simp
  moreover have "q * ?len + c < length (nd_data m)"
    using flat_index_less [OF q(1) c] mask_rows_shape(1) [OF assms(1,2) pos] by simp
  ultimately show ?thesis using c by (auto simp: c_def)
qed

section \<open>What a rung keeps\<close>

lemma select_rung_Inr:
  assumes "sorted ladder" "select_rung len cap ladder = Inr r"
  shows "r \<in> insert cap (set ladder)" "r \<le> cap" "len \<le> cap \<Longrightarrow> len \<le> r" "0 \<le> r"
proof -
  from assms(2) obtain b where b: "select_bucket len ladder = Inr b" "r = min b cap" "0 \<le> cap"
    by (auto simp: select_rung_def res_simps split: if_splits)
  with select_bucket_Inr_iff [OF assms(1), of len b]
  show "r \<in> insert cap (set ladder)" "r \<le> cap" "len \<le> cap \<Longrightarrow> len \<le> r" "0 \<le> r"
    by (auto simp: min_def)
qed

lemma filter_concat_take:
  assumes "\<forall>b\<in>set bs. \<forall>x\<in>set (drop n b). \<not> P x"
  shows "filter P (concat (map (take n) bs)) = filter P (concat bs)"
proof -
  have "filter P (take n b) = filter P b" if "b \<in> set bs" for b
    using that assms by (metis (no_types, lifting) append_Nil2 append_take_drop_id filter_False filter_append)
  then show ?thesis by (simp add: filter_concat comp_def cong: map_cong)
qed

lemma axis_last: "nd_shape a \<noteq> [] \<Longrightarrow> axis_inner (nd_shape a) (nd_ndim a - Suc 0) = 1"
  by (simp add: axis_inner_def nd_ndim_def)

lemma axis_blocks_last_tail:
  assumes "nd_wf m" "nd_shape m \<noteq> []" "b \<in> set (axis_blocks m (nd_ndim m - Suc 0))"
    "v \<in> set (drop (valid_span m) b)"
  shows "\<not> 0 < v"
proof
  assume pos: "0 < v"
  let ?k = "nd_ndim m - Suc 0" let ?len = "last (nd_shape m)"
  have shape: "nd_shape m ! ?k = ?len" "?k < nd_ndim m"
    using assms(2) by (simp_all add: nd_ndim_def last_conv_nth)
  have blocks: "axis_blocks m ?k = blocks (axis_outer (nd_shape m) ?k) ?len (nd_data m)"
    using assms(2) by (simp add: axis_blocks_def axis_last shape)
  obtain q where q: "q < axis_outer (nd_shape m) ?k" "b = axis_blocks m ?k ! q"
    using assms(3) by (auto simp: in_set_conv_nth blocks)
  obtain j where j: "j < length b - valid_span m" "v = drop (valid_span m) b ! j"
    using assms(4) by (auto simp: in_set_conv_nth)
  define c where "c = valid_span m + j"
  have c: "valid_span m \<le> c" "c < length b" "v = b ! c" using j by (simp_all add: c_def)
  have len_b: "length b = ?len"
    using axis_blocks_length [OF assms(1) shape(2) assms(3)] by (simp add: axis_last assms(2) shape)
  have size: "length (nd_data m) = axis_outer (nd_shape m) ?k * ?len"
    using assms(1) prod_list_axis [of ?k "nd_shape m"] shape
    by (simp add: nd_wf_def nd_ndim_def [symmetric] axis_last assms(2))
  have "v = nd_data m ! (q * ?len + c)"
    using q c len_b size by (simp add: blocks blocks_nth)
  moreover have "q * ?len + c < length (nd_data m)"
    using flat_index_less [OF q(1), of c ?len] c len_b size by simp
  ultimately have "(q * ?len + c) mod ?len < valid_span m"
    using valid_span_upper [OF assms(1,2)] pos by blast
  then show False using c len_b by simp
qed

lemma bucketize_Inr:
  assumes "bucketize leaves n = Inr (padded, msk)"
  shows "leaves \<noteq> []"
    and "\<forall>a\<in>set leaves. nd_shape a \<noteq> [] \<and> nd_shape a ! 0 = nd_shape (hd leaves) ! 0"
    and "int (nd_shape (hd leaves) ! 0) \<le> n"
    and "padded = map (\<lambda>a. pad_end a 0 (nat n - nd_shape a ! 0) 0) leaves"
    and "msk = map (\<lambda>i. i < nd_shape (hd leaves) ! 0) [0..<nat n]"
proof -
  obtain a as where leaves: "leaves = a # as"
    using assms by (cases leaves) (auto simp: bucketize_def)
  obtain len where len: "leading_len a = Inr len" "check_leading len leaves = Inr ()" "int len \<le> n"
    and out: "padded = map (\<lambda>arr. pad_end arr 0 (nat (n - int len)) 0) leaves"
      "msk = map (\<lambda>i. i < len) [0..<nat n]"
    using assms by (auto simp: bucketize_def leaves res_simps Let_def split: if_splits)
  have lead: "leading_len x = Inr k \<Longrightarrow> nd_shape x \<noteq> [] \<and> nd_shape x ! 0 = k" for x :: "'a ndarray" and k
    by (auto simp: leading_len_def split: list.splits)
  have checked: "check_leading k xs = Inr () \<Longrightarrow> \<forall>x\<in>set xs. nd_shape x \<noteq> [] \<and> nd_shape x ! 0 = k"
    for k and xs :: "'a ndarray list"
    by (induction xs) (auto simp: res_simps dest: lead split: if_splits)
  from len lead checked show "leaves \<noteq> []"
    and "\<forall>a\<in>set leaves. nd_shape a \<noteq> [] \<and> nd_shape a ! 0 = nd_shape (hd leaves) ! 0"
    and "int (nd_shape (hd leaves) ! 0) \<le> n"
    and "msk = map (\<lambda>i. i < nd_shape (hd leaves) ! 0) [0..<nat n]"
    by (auto simp: leaves out)
  have "nat (n - int len) = nat n - len" using len by simp
  with checked [OF len(2)] show "padded = map (\<lambda>a. pad_end a 0 (nat n - nd_shape a ! 0) 0) leaves"
    by (simp add: out)
qed

lemma prefix_mask_count: "len \<le> n \<Longrightarrow> length (filter id (map (\<lambda>i. i < len) [0..<n])) = len"
proof -
  assume "len \<le> n"
  then have "[0..<n] = [0..<len] @ [len..<n]" by (metis le_add_diff_inverse upt_add_eq_append zero_le)
  then show ?thesis by (simp add: filter_map comp_def)
qed

section \<open>Properties\<close>

text \<open>
  For sorted boundaries \<open>select_bucket\<close> returns the least boundary that is at least the
  length, and it raises \<open>ValueError\<close> exactly when the length is negative or exceeds every
  boundary.
\<close>

theorem select_bucket_least:
  assumes "sorted bs"
  shows "case select_bucket len bs of
      Inr b \<Rightarrow> 0 \<le> len \<and> b \<in> set bs \<and> len \<le> b \<and> (\<forall>c\<in>set bs. len \<le> c \<longrightarrow> b \<le> c)
    | Inl e \<Rightarrow> class_of e = ValueError \<and> (len < 0 \<or> (\<forall>b\<in>set bs. b < len))"
proof (cases "select_bucket len bs")
  case (Inl e)
  then have "class_of e = ValueError"
    by (auto simp: select_bucket_def Let_def split: if_splits)
  moreover have "\<not> (0 \<le> len \<and> (\<exists>b\<in>set bs. len \<le> b))"
    using select_bucket_ok_iff [OF assms, of len] Inl by simp
  ultimately show ?thesis using Inl by force
next
  case (Inr b)
  then show ?thesis using select_bucket_Inr_iff [OF assms, of len b] by simp
qed

theorem select_bucket_least_witness:
  "sorted BUCKET_LADDER \<and> select_bucket 129 BUCKET_LADDER = Inr 256
   \<and> [c\<leftarrow>BUCKET_LADDER. 129 \<le> c \<and> c < 256] = []"
proof -
  have s: "sorted BUCKET_LADDER" by (simp add: BUCKET_LADDER_def)
  have v: "select_bucket 129 BUCKET_LADDER = Inr 256" by code_simp
  from select_bucket_least [OF s, of 129] v s show ?thesis by (fastforce simp: filter_empty_conv)
qed

text \<open>
  Padding an axis and then trimming it to its old length is the identity: whenever
  \<open>pad_axis\<close> succeeds on an array, its result is well formed, has the requested length on that
  axis, and \<open>trim_axis\<close> gives the original array back.
\<close>

theorem pad_trim_roundtrip:
  assumes "nd_wf a" "pad_axis (Some a) n axis fill = Inr (Some b)"
    "normalize_axis axis (nd_ndim a) ''pad_axis'' = Inr k"
  shows "nd_wf b \<and> nd_shape b = (nd_shape a)[k := nat n]
    \<and> trim_axis (Some b) (int (nd_shape a ! k)) axis = Inr (Some a)"
proof -
  have k: "k < nd_ndim a" using assms(3) by (rule normalize_axis_less)
  have le: "int (nd_shape a ! k) \<le> n"
    and b: "b = (if int (nd_shape a ! k) = n then a
                 else pad_end a k (nat (n - int (nd_shape a ! k))) fill)"
    using assms(2,3) by (auto simp: pad_axis_def Let_def split: if_splits)
  have dim: "nd_ndim b = nd_ndim a" by (simp add: b pad_end_def nd_ndim_def)
  then have trim: "trim_axis (Some b) (int (nd_shape a ! k)) axis =
      Inr (Some (slice_axis b k (nd_shape a ! k)))"
    using normalize_axis_op [OF assms(3)] by (simp add: trim_axis_def)
  show ?thesis
  proof (cases "int (nd_shape a ! k) = n")
    case True
    then show ?thesis using assms(1) k trim b slice_axis_full by auto
  next
    case False
    moreover have "nd_shape a ! k + nat (n - int (nd_shape a ! k)) = nat n" using le by simp
    ultimately show ?thesis
      using assms(1) k trim b by (simp add: pad_end_wf slice_pad_end)
  qed
qed

theorem pad_trim_roundtrip_witness:
  "pad_axis (Some \<lparr>nd_shape = [2, 1], nd_data = [7, 8 :: int]\<rparr>) 3 (-1) 0
     = Inr (Some \<lparr>nd_shape = [2, 3], nd_data = [7, 0, 0, 8, 0, 0]\<rparr>)
   \<and> trim_axis (Some \<lparr>nd_shape = [2, 3], nd_data = [7, 0, 0, 8, 0, 0 :: int]\<rparr>) 1 (-1)
     = Inr (Some \<lparr>nd_shape = [2, 1], nd_data = [7, 8]\<rparr>)"
proof -
  let ?a = "\<lparr>nd_shape = [2, 1], nd_data = [7, 8 :: int]\<rparr>"
  let ?b = "\<lparr>nd_shape = [2, 3], nd_data = [7, 0, 0, 8, 0, 0 :: int]\<rparr>"
  have wf: "nd_wf ?a" by (simp add: nd_wf_def)
  have pad: "pad_axis (Some ?a) 3 (-1) 0 = Inr (Some ?b)" by code_simp
  have ax: "normalize_axis (-1) (nd_ndim ?a) ''pad_axis'' = Inr 1" by code_simp
  from pad_trim_roundtrip [OF wf pad ax] pad show ?thesis by simp
qed

text \<open>
  Trimming a mask to the rung selected for its span loses no valid entry: with a sorted
  ladder, the rung covers the span, never exceeds the current length, and the trimmed mask has
  exactly the positive entries of the original, in order.
\<close>

theorem rung_trim_keeps_valid:
  assumes "nd_wf m" "nd_shape m \<noteq> []" "sorted ladder"
    "select_rung (int (valid_span m)) (int (last (nd_shape m))) ladder = Inr r"
  shows "int (valid_span m) \<le> r \<and> r \<le> int (last (nd_shape m)) \<and>
    (\<exists>t. trim_axis (Some m) r (-1) = Inr (Some t) \<and> int (last (nd_shape t)) = r
       \<and> filter (\<lambda>v. 0 < v) (nd_data t) = filter (\<lambda>v. 0 < v) (nd_data m))"
proof -
  let ?k = "nd_ndim m - Suc 0"
  have r: "int (valid_span m) \<le> r" "r \<le> int (last (nd_shape m))" "0 \<le> r"
    using select_rung_Inr [OF assms(3,4)] valid_span_le [OF assms(1,2)] by auto
  have k: "?k < nd_ndim m" and shape: "nd_shape m ! ?k = last (nd_shape m)"
    using assms(2) by (simp_all add: nd_ndim_def last_conv_nth)
  have "normalize_axis (-1) (nd_ndim m) ''trim_axis'' = Inr ?k"
    using k by (auto simp: normalize_axis_def Let_def nat_diff_distrib)
  then have trim: "trim_axis (Some m) r (-1) = Inr (Some (slice_axis m ?k (nat r)))"
    using r by (simp add: trim_axis_def)
  have "nd_data (slice_axis m ?k (nat r)) = concat (map (take (nat r)) (axis_blocks m ?k))"
    using assms(2) by (simp add: slice_axis_def axis_last)
  moreover have "\<forall>b\<in>set (axis_blocks m ?k). \<forall>v\<in>set (drop (nat r) b). \<not> 0 < v"
    using axis_blocks_last_tail [OF assms(1,2)] r(1)
    by (meson nat_le_iff set_drop_subset_set_drop subsetD nat_int le_nat_iff r(3))
  ultimately have "filter (\<lambda>v. 0 < v) (nd_data (slice_axis m ?k (nat r))) =
      filter (\<lambda>v. 0 < v) (nd_data m)"
    by (simp add: filter_concat_take concat_axis_blocks [OF assms(1) k])
  moreover have "int (last (nd_shape (slice_axis m ?k (nat r)))) = r"
    using assms(2) r shape k by (simp add: slice_axis_def last_list_update nd_ndim_def)
  ultimately show ?thesis using trim r by blast
qed

theorem rung_trim_keeps_valid_witness:
  "select_rung (int (valid_span \<lparr>nd_shape = [2, 4], nd_data = [1, 0, 0, 0, 0, 1, 0, 0]\<rparr>)) 4 [1, 2, 3]
     = Inr 2
   \<and> trim_axis (Some \<lparr>nd_shape = [2, 4], nd_data = [1, 0, 0, 0, 0, 1, 0, 0 :: int]\<rparr>) 2 (-1)
     = Inr (Some \<lparr>nd_shape = [2, 2], nd_data = [1, 0, 0, 1]\<rparr>)"
proof -
  let ?m = "\<lparr>nd_shape = [2, 4], nd_data = [1, 0, 0, 0, 0, 1, 0, 0 :: int]\<rparr>"
  have wf: "nd_wf ?m" "nd_shape ?m \<noteq> []" "sorted [1, 2, 3 :: int]" by (simp_all add: nd_wf_def)
  have rung: "select_rung (int (valid_span ?m)) (int (last (nd_shape ?m))) [1, 2, 3] = Inr 2"
    by code_simp
  have "\<exists>t. trim_axis (Some ?m) 2 (-1) = Inr (Some t)"
    using rung_trim_keeps_valid [OF wf rung] by blast
  moreover have "trim_axis (Some ?m) 2 (-1) = Inr (Some \<lparr>nd_shape = [2, 2], nd_data = [1, 0, 0, 1]\<rparr>)"
    by code_simp
  ultimately show ?thesis using rung by simp
qed

text \<open>
  The generator and the host functions agree. When \<open>select_bucket\<close> picks a bucket for the
  leading length and \<open>bucketize\<close> pads the leaves to it, \<open>BucketIterator\<close> over the same
  boundaries yields exactly one pair: the function applied to those padded leaves, and the same
  mask. Cutting the padded leaves at the old length gives the original leaves, and the mask is
  true on exactly that many positions.
\<close>

theorem bucket_iterator_agrees:
  assumes "pads_leading jnp_pad" "\<forall>a\<in>set (bi_xs it). nd_wf a"
    "leading_len (hd (bi_xs it)) = Inr len"
    "select_bucket (int len) (bi_boundaries it) = Inr b"
    "bucketize (bi_xs it) b = Inr (padded, msk)"
  shows "BucketIterator_iter jnp_pad it = Inr [(bi_fn it padded, msk)]
    \<and> map (\<lambda>p. slice_axis p 0 len) padded = bi_xs it
    \<and> length (filter id msk) = len"
proof -
  note buck = bucketize_Inr [OF assms(5)]
  obtain a as where xs: "bi_xs it = a # as" using buck(1) by (cases "bi_xs it") auto
  have len: "nd_shape a ! 0 = len" "nd_shape a \<noteq> []"
    using assms(3) by (auto simp: xs leading_len_def split: list.splits)
  have same: "nd_shape x \<noteq> [] \<and> nd_shape x ! 0 = len" if "x \<in> set (bi_xs it)" for x
    using that buck(2) len by (auto simp: xs)
  have le: "int len \<le> b" using buck(3) len by (simp add: xs)
  have idx: "bisect_left (bi_boundaries it) (int len) < length (bi_boundaries it)"
    and nth: "bi_boundaries it ! bisect_left (bi_boundaries it) (int len) = b"
    using assms(4) by (auto simp: select_bucket_def Let_def split: if_splits)
  have pad: "nat (b - int len) = nat b - len" using le by simp
  have "traverse_res (\<lambda>x. jnp_pad x (b - int len)) (bi_xs it) =
      Inr (map (\<lambda>x. pad_end x 0 (nat (b - int len)) 0) (bi_xs it))"
    using assms(1) same le by (intro traverse_res_total) (auto simp: pads_leading_def)
  also have "map (\<lambda>x. pad_end x 0 (nat (b - int len)) 0) (bi_xs it) = padded"
    using same by (simp add: buck(4) pad)
  finally have padded: "traverse_res (\<lambda>x. jnp_pad x (b - int len)) (bi_xs it) = Inr padded" .
  have msk: "msk = map (\<lambda>i. i < len) [0..<nat b]" using buck(5) len by (simp add: xs)
  have "BucketIterator_iter jnp_pad it = Inr [(bi_fn it padded, msk)]"
    using padded idx nth assms(3) by (simp add: BucketIterator_iter_def xs Let_def msk)
  moreover have "map (\<lambda>p. slice_axis p 0 len) padded = bi_xs it"
    unfolding buck(4) map_map
  proof (rule map_idI)
    fix x assume x: "x \<in> set (bi_xs it)"
    then have "0 < nd_ndim x" using same by (auto simp: nd_ndim_def)
    with slice_pad_end [of x 0] assms(2) x same [OF x]
    show "((\<lambda>p. slice_axis p 0 len) \<circ> (\<lambda>a. pad_end a 0 (nat b - nd_shape a ! 0) 0)) x = x"
      by fastforce
  qed
  moreover have "length (filter id msk) = len"
    unfolding msk by (rule prefix_mask_count) (use le in simp)
  ultimately show ?thesis by simp
qed

theorem bucket_iterator_agrees_witness:
  "BucketIterator_iter (\<lambda>x m. Inr (pad_end x 0 (nat m) 0))
     \<lparr>bi_boundaries = [2, 4], bi_batch_sizes = [1, 1, 1], bi_fn = (\<lambda>ls. sum_list (map (sum_list \<circ> nd_data) ls)),
      bi_xs = [\<lparr>nd_shape = [3], nd_data = [1, 2, 3 :: int]\<rparr>]\<rparr>
   = Inr [(6, [True, True, True, False])]"
proof -
  let ?it = "\<lparr>bi_boundaries = [2, 4], bi_batch_sizes = [1, 1, 1],
      bi_fn = (\<lambda>ls. sum_list (map (sum_list \<circ> nd_data) ls)),
      bi_xs = [\<lparr>nd_shape = [3], nd_data = [1, 2, 3 :: int]\<rparr>]\<rparr>"
  let ?pad = "\<lambda>(x :: int ndarray) m. Inr (pad_end x 0 (nat m) 0)"
  have "pads_leading ?pad" by (simp add: pads_leading_def)
  moreover have "\<forall>a\<in>set (bi_xs ?it). nd_wf a" by (simp add: nd_wf_def)
  moreover have "leading_len (hd (bi_xs ?it)) = Inr 3" by (simp add: leading_len_def)
  moreover have "select_bucket (int 3) (bi_boundaries ?it) = Inr 4" by code_simp
  moreover have "bucketize (bi_xs ?it) 4 =
      Inr ([\<lparr>nd_shape = [4], nd_data = [1, 2, 3, 0]\<rparr>], [True, True, True, False])" by code_simp
  ultimately have "BucketIterator_iter ?pad ?it =
      Inr [(bi_fn ?it [\<lparr>nd_shape = [4], nd_data = [1, 2, 3, 0]\<rparr>], [True, True, True, False])]"
    using bucket_iterator_agrees by blast
  then show ?thesis by simp
qed

end
