(* ===== verification/Tiling_Strategy.thy ===== *)
theory Tiling_Strategy
  imports Xtrax_Prelude "HOL-Library.Word"
begin

text \<open>
  The strategy vocabulary of the tiling layer: \<open>src/src/xtrax/tiling/strategy.py\<close>, the axis roles
  of \<open>roles.py\<close>, \<open>CarrySpec\<close> of \<open>carry.py\<close> and \<open>DedupSpec\<close> of \<open>dedup.py\<close>.

  A pytree of arrays that share a leading axis is the list of its elements along that axis.
  Type variables: \<open>'c\<close> the carry, \<open>'x\<close> one input element, \<open>'y\<close> one output element. Python does
  not check which of the two callable shapes a carry axis is given, so \<open>carry_fn\<close> keeps both and
  a call with the wrong one is a \<open>TypeError\<close> where it happens. Array indexing by an index array
  is \<open>jax\<close>'s, a parameter with the law \<open>takes_rows\<close>.
\<close>

section \<open>Model\<close>

datatype axis_role = KNOWN | UNKNOWN

datatype ('c, 'x, 'y) carry_fn =
    ScanFn "'c \<Rightarrow> 'x \<Rightarrow> 'c \<times> 'y"
  | BodyFn "'c \<Rightarrow> 'c"

type_synonym 'x index_op = "'x list \<Rightarrow> int list \<Rightarrow> 'x list"

record ('x, 'y) dedup_gather =
  dg_unique_indices :: "int list"
  dg_index_map :: "int list"
  dg_k :: int
  dg_k_bucket :: int
  dg_dedup_fn :: "'x index_op"
  dg_gather_fn :: "'y index_op"

datatype ('c, 'x, 'y) axis_strategy =
    Vmap
  | ChunkedMap int
  | Scan "('c, 'x, 'y) carry_fn option" "'c option" bool
  | DedupGather "('x, 'y) dedup_gather"
  | Bucket "int list"
  | WhileCarry "('c, 'x, 'y) carry_fn option" "('c \<Rightarrow> bool) option" "'c option"

text \<open>\<open>type(strategy).__name__\<close>, which the topology validator matches on.\<close>

fun strategy_name :: "('c, 'x, 'y) axis_strategy \<Rightarrow> string" where
  "strategy_name Vmap = ''Vmap''"
| "strategy_name (ChunkedMap _) = ''ChunkedMap''"
| "strategy_name (Scan _ _ _) = ''Scan''"
| "strategy_name (DedupGather _) = ''DedupGather''"
| "strategy_name (Bucket _) = ''Bucket''"
| "strategy_name (WhileCarry _ _ _) = ''WhileCarry''"

definition default_dedup_fn :: "'x index_op \<Rightarrow> 'x index_op" where
  "default_dedup_fn index xs unique_indices = index xs unique_indices"

definition default_gather_fn :: "'y index_op \<Rightarrow> 'y index_op" where
  "default_gather_fn index ys gather_indices = index ys gather_indices"

text \<open>
  The carry of \<open>fixed_step_count_cond\<close>: a 2-tuple, or an object with a \<open>step_i\<close> field. Inside a
  \<open>lax.while_loop\<close> the counter is an \<open>int32\<close> scalar, so that adding to it wraps. JAX compares it with \<open>n_steps\<close> at its own type
  and refuses an \<open>n_steps\<close> that is no \<open>int32\<close>.
\<close>

datatype 's step_carry = TupleCarry "32 word" 's | StepObject "32 word" 's

fun carry_step_i :: "'s step_carry \<Rightarrow> 32 word" where
  "carry_step_i (TupleCarry i s) = i"
| "carry_step_i (StepObject i s) = i"

definition fixed_step_count_cond :: "int \<Rightarrow> 's step_carry \<Rightarrow> bool" where
  "fixed_step_count_cond n_steps carry = (sint (carry_step_i carry) < n_steps)"

record ('c, 'x, 'y) carry_spec =
  cs_axis_name :: string
  cs_init :: "'c option"
  cs_transition :: "('c, 'x, 'y) carry_fn"
  cs_ordered_sinks :: bool
  cs_collect_outputs :: bool
  cs_cond :: "('c \<Rightarrow> bool) option"

text \<open>\<open>int.bit_length\<close> of a non-negative integer.\<close>

fun bit_length :: "nat \<Rightarrow> nat" where
  "bit_length n = (if n = 0 then 0 else Suc (bit_length (n div 2)))"

declare bit_length.simps [simp del]

definition get_k_bucket :: "int \<Rightarrow> int res" where
  "get_k_bucket k =
     (if k \<le> 0 then Inl (Exn ValueError ''k must be positive'' [ArgInt k])
      else Inr (push_bit (bit_length (nat (k - 1))) 1))"

record ('x, 'y) dedup_spec =
  ds_axis_name :: string
  ds_unique_indices :: "int list"
  ds_index_map :: "int list"
  ds_k :: int
  ds_dedup_fn :: "'x index_op option"
  ds_gather_fn :: "'y index_op option"

text \<open>The constructor: the fields after \<open>__post_init__\<close> has accepted them.\<close>

definition DedupSpec_post_init :: "('x, 'y) dedup_spec \<Rightarrow> ('x, 'y) dedup_spec res" where
  "DedupSpec_post_init ds =
     (if int (length (ds_unique_indices ds)) \<noteq> ds_k ds then
        Inl (Exn ValueError ''DedupSpec.k but len(unique_indices)''
               [ArgInt (ds_k ds), ArgInt (int (length (ds_unique_indices ds)))])
      else if int (length (remdups (ds_index_map ds))) \<noteq> ds_k ds then
        Inl (Exn ValueError ''DedupSpec index_map references distinct slots''
               [ArgInt (int (length (remdups (ds_index_map ds)))), ArgInt (ds_k ds)])
      else if ds_index_map ds \<noteq> []
          \<and> (Min (set (ds_index_map ds)) < 0 \<or> Max (set (ds_index_map ds)) \<ge> ds_k ds) then
        Inl (Exn ValueError ''DedupSpec.index_map values must be in [0, k)''
               [ArgInt (ds_k ds), ArgInt (Min (set (ds_index_map ds))), ArgInt (Max (set (ds_index_map ds)))])
      else Inr ds)"

definition to_dedup_gather ::
  "'x index_op \<Rightarrow> 'y index_op \<Rightarrow> ('x, 'y) dedup_spec \<Rightarrow> ('x, 'y) dedup_gather res"
where
  "to_dedup_gather index_x index_y ds =
     bind_res (get_k_bucket (ds_k ds)) (\<lambda>k_bucket.
       Inr \<lparr>dg_unique_indices = ds_unique_indices ds
              @ replicate (nat (k_bucket - ds_k ds)) (last (ds_unique_indices ds)),
            dg_index_map = ds_index_map ds,
            dg_k = ds_k ds,
            dg_k_bucket = k_bucket,
            dg_dedup_fn = (case ds_dedup_fn ds of Some f \<Rightarrow> f | None \<Rightarrow> default_dedup_fn index_x),
            dg_gather_fn = (case ds_gather_fn ds of Some f \<Rightarrow> f | None \<Rightarrow> default_gather_fn index_y)\<rparr>)"

text \<open>The carry argument is any object: \<open>None\<close> when it has no \<open>axis_name\<close> attribute.\<close>

definition validate_dedup_carry_names :: "('x, 'y) dedup_spec \<Rightarrow> string option \<Rightarrow> unit res" where
  "validate_dedup_carry_names ds carry_axis =
     (case carry_axis of
        None \<Rightarrow> Inl (Exn ValueError ''carry_spec must have axis_name attribute'' [])
      | Some a \<Rightarrow>
          if ds_axis_name ds \<noteq> a then
            Inl (Exn ValueError ''DedupSpec.axis_name does not match CarrySpec.axis_name''
                   [ArgStr (ds_axis_name ds), ArgStr a])
          else Inr ())"

definition takes_rows :: "'x index_op \<Rightarrow> bool" where
  "takes_rows index \<longleftrightarrow>
     (\<forall>xs idx. (\<forall>i\<in>set idx. 0 \<le> i \<and> i < int (length xs))
        \<longrightarrow> index xs idx = map (\<lambda>i. xs ! nat i) idx)"

section \<open>Bucketed unique counts\<close>

lemma bit_length_bounds:
  "n < 2 ^ bit_length n \<and> (0 < n \<longrightarrow> 2 ^ (bit_length n - 1) \<le> n)"
proof (induction n rule: bit_length.induct)
  case (1 n)
  show ?case
  proof (cases "n = 0")
    case True
    then show ?thesis by (simp add: bit_length.simps)
  next
    case False
    have IH: "n div 2 < 2 ^ bit_length (n div 2)"
      "0 < n div 2 \<longrightarrow> 2 ^ (bit_length (n div 2) - 1) \<le> n div 2"
      using 1 False by auto
    have eq: "bit_length n = Suc (bit_length (n div 2))"
      using False by (simp add: bit_length.simps [of n])
    have "n < 2 ^ Suc (bit_length (n div 2))" using IH(1) by simp
    moreover have "2 ^ bit_length (n div 2) \<le> n"
    proof (cases "n div 2 = 0")
      case True
      then show ?thesis using False by (simp add: bit_length.simps)
    next
      case pos: False
      then have "0 < bit_length (n div 2)" by (simp add: bit_length.simps)
      then have "2 ^ bit_length (n div 2) = 2 * (2 :: nat) ^ (bit_length (n div 2) - 1)"
        by (simp flip: power_Suc)
      with IH(2) pos show ?thesis by linarith
    qed
    ultimately show ?thesis using eq by simp
  qed
qed

lemma get_k_bucket_Inr:
  assumes "get_k_bucket k = Inr b"
  shows "0 < k" "k \<le> b" "b < 2 * k" "b = 2 ^ bit_length (nat (k - 1))"
proof -
  from assms have k: "0 < k" and b: "b = push_bit (bit_length (nat (k - 1))) 1"
    by (auto simp: get_k_bucket_def split: if_splits)
  have eq: "b = 2 ^ bit_length (nat (k - 1))" by (simp add: b push_bit_eq_mult)
  have "nat (k - 1) < 2 ^ bit_length (nat (k - 1))"
    using bit_length_bounds by blast
  then have "k - 1 < 2 ^ bit_length (nat (k - 1))"
    using k by (metis nat_less_iff diff_ge_0_iff_ge zless_imp_add1_zle of_nat_numeral of_nat_power
        nat_less_numeral_power_cancel_iff add_0)
  then show "k \<le> b" by (simp add: eq)
  show "b < 2 * k"
  proof (cases "k = 1")
    case True
    then show ?thesis by (simp add: eq bit_length.simps)
  next
    case False
    with k have pos: "0 < nat (k - 1)" by simp
    then have "2 ^ (bit_length (nat (k - 1)) - 1) \<le> nat (k - 1)" using bit_length_bounds by blast
    then have "2 ^ (bit_length (nat (k - 1)) - 1) \<le> k - 1"
      using k by (metis le_nat_iff of_nat_numeral of_nat_power diff_ge_0_iff_ge zless_imp_add1_zle add_0)
    moreover have "0 < bit_length (nat (k - 1))" using pos by (simp add: bit_length.simps)
    then have "b = 2 * 2 ^ (bit_length (nat (k - 1)) - 1)" by (simp add: eq flip: power_Suc)
    ultimately show ?thesis by linarith
  qed
  show "0 < k" "b = 2 ^ bit_length (nat (k - 1))" using k eq by auto
qed

lemma get_k_bucket_ok: "0 < k \<Longrightarrow> \<exists>b. get_k_bucket k = Inr b"
  by (simp add: get_k_bucket_def)

section \<open>Accepted dedup specifications\<close>

lemma DedupSpec_post_init_Inr:
  assumes "DedupSpec_post_init ds = Inr ds'"
  shows "ds' = ds" "int (length (ds_unique_indices ds)) = ds_k ds"
    "\<forall>i\<in>set (ds_index_map ds). 0 \<le> i \<and> i < ds_k ds"
    "card (set (ds_index_map ds)) = length (ds_unique_indices ds)"
proof -
  from assms have "ds' = ds" and k: "int (length (ds_unique_indices ds)) = ds_k ds"
    and d: "int (length (remdups (ds_index_map ds))) = ds_k ds"
    and bounds: "\<not> (ds_index_map ds \<noteq> []
          \<and> (Min (set (ds_index_map ds)) < 0 \<or> Max (set (ds_index_map ds)) \<ge> ds_k ds))"
    by (auto simp: DedupSpec_post_init_def split: if_splits)
  then show "ds' = ds" "int (length (ds_unique_indices ds)) = ds_k ds" by auto
  show "card (set (ds_index_map ds)) = length (ds_unique_indices ds)"
    using k d by (simp add: length_remdups_card_conv)
  show "\<forall>i\<in>set (ds_index_map ds). 0 \<le> i \<and> i < ds_k ds"
    using bounds by (cases "ds_index_map ds = []") (auto simp: not_less not_le)
qed

lemma DedupSpec_post_init_ok:
  assumes "int (length (ds_unique_indices ds)) = ds_k ds"
    "\<forall>i\<in>set (ds_index_map ds). 0 \<le> i \<and> i < ds_k ds"
    "card (set (ds_index_map ds)) = length (ds_unique_indices ds)"
  shows "DedupSpec_post_init ds = Inr ds"
proof -
  have "\<not> (Min (set (ds_index_map ds)) < 0 \<or> Max (set (ds_index_map ds)) \<ge> ds_k ds)"
    if "ds_index_map ds \<noteq> []"
    using that assms(2) by (simp add: not_less not_le)
  then show ?thesis
    using assms(1,3) by (auto simp: DedupSpec_post_init_def length_remdups_card_conv)
qed

end
