(* ===== verification/Tiling_Dedup.thy ===== *)
theory Tiling_Dedup
  imports Tiling_Strategy "HOL-Library.List_Lexorder"
begin

text \<open>
  Dedup synthesis and verification: \<open>src/src/xtrax/tiling/dedup_synthesis.py\<close>.

  A leaf is an array with its elements; its rows along the batch axis are read in row-major
  order after the axis is moved to the front (\<open>leaf_rows\<close>). Rows become bytes by the code's own
  case distinction; the bytes of one element at its dtype and the conversions of one element
  (\<open>astype\<close>, \<open>real\<close>, \<open>imag\<close>) are NumPy's and JAX's work, the record \<open>byte_ops\<close> with the laws of the locale
  \<open>native_bytes\<close>. The \<open>int32\<close> index arrays wrap; the
  theorems take batches of at most \<open>2 ^ 31\<close> rows. \<open>np.unique\<close> over rows is a parameter with the laws of the locale
  \<open>row_unique\<close>, interpreted by the documented sorted-unique function; \<open>np.linspace\<close> with
  \<open>np.round\<close> is the parameter \<open>stride\<close>. Ratios are exact rationals.
\<close>

section \<open>Model\<close>

datatype dtype =
    BoolT | ComplexT nat | IntT nat | UIntT nat | FloatT nat | PrngKeyT | ObjectT
  | OtherT string

text \<open>
  A leaf is a JAX array, a NumPy array, or another Python value together with what
  \<open>np.asarray\<close> makes of it: \<open>None\<close> when that raises the inhomogeneous-shape error.
\<close>

record 'e leaf_array =
  la_array :: "'e ndarray"
  la_dtype :: dtype

datatype 'e leaf =
    JaxLeaf "'e leaf_array"
  | NpLeaf "'e leaf_array"
  | PyLeaf "'e leaf_array option"

datatype array_kind = OnDevice | OnHost

definition ragged :: "nat \<Rightarrow> exn" where
  "ragged i = Exn DedupSynthesisUnsupportedError ''batch_leaves is heterogeneous/ragged'' [ArgInt (int i)]"

definition check_leaf :: "nat \<Rightarrow> 'e leaf \<Rightarrow> (array_kind \<times> 'e leaf_array) res" where
  "check_leaf i leaf =
     bind_res
       (case leaf of
          JaxLeaf a \<Rightarrow> Inr (OnDevice, a)
        | NpLeaf a \<Rightarrow> if la_dtype a = ObjectT then Inl (ragged i) else Inr (OnHost, a)
        | PyLeaf None \<Rightarrow> Inl (ragged i)
        | PyLeaf (Some a) \<Rightarrow> if la_dtype a = ObjectT then Inl (ragged i) else Inr (OnHost, a))
       (\<lambda>(kd, a).
          if la_dtype a = PrngKeyT then
            Inl (Exn DedupSynthesisUnsupportedError ''batch_leaves has a typed PRNG key dtype'' [ArgInt (int i)])
          else Inr (kd, a))"

fun check_lengths :: "nat \<Rightarrow> int \<Rightarrow> nat \<Rightarrow> (array_kind \<times> 'e leaf_array) list \<Rightarrow> unit res" where
  "check_lengths i axis n [] = Inr ()"
| "check_lengths i axis n ((kd, a) # as) =
     (if axis < 0 \<or> axis \<ge> int (nd_ndim (la_array a)) then
        Inl (Exn ValueError ''axis out of range'' [ArgInt axis, ArgInt (int (nd_ndim (la_array a)))])
      else if nd_shape (la_array a) ! nat axis \<noteq> n then
        Inl (Exn ValueError ''batch_leaves has batch dimension''
               [ArgInt (int i), ArgInt (int (nd_shape (la_array a) ! nat axis)), ArgInt (int n)])
      else check_lengths (Suc i) axis n as)"

fun check_leaves :: "nat \<Rightarrow> 'e leaf list \<Rightarrow> (array_kind \<times> 'e leaf_array) list res" where
  "check_leaves i [] = Inr []"
| "check_leaves i (l # ls) =
     bind_res (check_leaf i l) (\<lambda>a. bind_res (check_leaves (Suc i) ls) (\<lambda>as. Inr (a # as)))"

definition validate_batch_leaves ::
  "'e leaf list \<Rightarrow> int \<Rightarrow> ((array_kind \<times> 'e leaf_array) list \<times> nat) res"
where
  "validate_batch_leaves batch_leaves axis =
     (if batch_leaves = [] then Inl (Exn ValueError ''batch_leaves is empty'' [])
      else bind_res (check_leaves 0 batch_leaves) (\<lambda>ls.
        let first = la_array (snd (hd ls)) in
        if axis < 0 \<or> axis \<ge> int (nd_ndim first) then
          Inl (Exn ValueError ''axis out of range'' [ArgInt axis, ArgInt (int (nd_ndim first))])
        else
          let n = nd_shape first ! nat axis in
          if n = 0 then Inl (Exn ValueError ''batch axis has length 0'' [ArgInt axis])
          else bind_res (check_lengths 0 axis n ls) (\<lambda>_. Inr (ls, n))))"

datatype byte_kind = KBool | KComplex | KSubSigned | KSubUnsigned | KPlain

definition row_byte_kind :: "dtype \<Rightarrow> byte_kind res" where
  "row_byte_kind dt =
     (case dt of
        BoolT \<Rightarrow> Inr KBool
      | ComplexT _ \<Rightarrow> Inr KComplex
      | UIntT bits \<Rightarrow> Inr (if bits < 8 then KSubUnsigned else KPlain)
      | IntT bits \<Rightarrow> Inr (if bits < 8 then KSubSigned else KPlain)
      | FloatT bits \<Rightarrow>
          if bits < 8 then
            Inl (Exn DedupSynthesisUnsupportedError ''dedup row identity does not support sub-byte float dtype'' [])
          else Inr KPlain
      | _ \<Rightarrow> Inl (Exn DedupSynthesisUnsupportedError ''dedup row identity does not support dtype'' []))"

type_synonym bytes = "nat list"

text \<open>
  \<open>bo_bitcast\<close>: the bytes of one element under \<open>lax.bitcast_convert_type(_, uint8)\<close>; \<open>bo_view\<close>: under
  \<open>ndarray.view(uint8)\<close>; \<open>bo_astype\<close>: one element converted from a dtype to another; \<open>bo_real\<close> and \<open>bo_imag\<close>: the halves of a
  complex element.
\<close>

record 'e byte_ops =
  bo_bitcast :: "dtype \<Rightarrow> 'e \<Rightarrow> bytes res"
  bo_view :: "dtype \<Rightarrow> 'e \<Rightarrow> bytes res"
  bo_astype :: "dtype \<Rightarrow> dtype \<Rightarrow> 'e \<Rightarrow> 'e"
  bo_real :: "'e \<Rightarrow> 'e"
  bo_imag :: "'e \<Rightarrow> 'e"

definition row_of_bytes :: "('e \<Rightarrow> bytes res) \<Rightarrow> 'e list \<Rightarrow> bytes res" where
  "row_of_bytes element row = bind_res (traverse_res element row) (\<lambda>bs. Inr (concat bs))"

definition host_row_bytes :: "'e byte_ops \<Rightarrow> byte_kind \<Rightarrow> dtype \<Rightarrow> 'e list \<Rightarrow> bytes res" where
  "host_row_bytes ops kind dt row =
     (let narrow = (\<lambda>to. row_of_bytes (bo_view ops to) (map (bo_astype ops dt to) row)) in
      case kind of
        KSubSigned \<Rightarrow> narrow (IntT 8)
      | KSubUnsigned \<Rightarrow> narrow (UIntT 8)
      | _ \<Rightarrow> row_of_bytes (bo_view ops dt) row)"

definition device_bytes_plain :: "'e byte_ops \<Rightarrow> dtype \<Rightarrow> 'e list \<Rightarrow> bytes res" where
  "device_bytes_plain ops dt row = row_of_bytes (bo_bitcast ops dt) row"

text \<open>An array of dtype \<open>uint8\<close> is an array of bytes: its elements are written with \<open>bo_bitcast\<close> at that dtype.\<close>

definition device_bytes_bool :: "'e byte_ops \<Rightarrow> dtype \<Rightarrow> 'e list \<Rightarrow> bytes res" where
  "device_bytes_bool ops dt row = device_bytes_plain ops (UIntT 8) (map (bo_astype ops dt (UIntT 8)) row)"

definition half_dtype :: "dtype \<Rightarrow> dtype" where
  "half_dtype dt = (case dt of ComplexT bits \<Rightarrow> FloatT (bits div 2) | _ \<Rightarrow> dt)"

definition device_bytes_complex :: "'e byte_ops \<Rightarrow> dtype \<Rightarrow> 'e list \<Rightarrow> bytes res" where
  "device_bytes_complex ops dt row =
     bind_res (device_bytes_plain ops (half_dtype dt) (map (bo_real ops) row)) (\<lambda>re.
     bind_res (device_bytes_plain ops (half_dtype dt) (map (bo_imag ops) row)) (\<lambda>im. Inr (re @ im)))"

definition device_bytes_subbyte_signed :: "'e byte_ops \<Rightarrow> dtype \<Rightarrow> 'e list \<Rightarrow> bytes res" where
  "device_bytes_subbyte_signed ops dt row = device_bytes_plain ops (IntT 8) (map (bo_astype ops dt (IntT 8)) row)"

definition device_bytes_subbyte_unsigned :: "'e byte_ops \<Rightarrow> dtype \<Rightarrow> 'e list \<Rightarrow> bytes res" where
  "device_bytes_subbyte_unsigned ops dt row = device_bytes_plain ops (UIntT 8) (map (bo_astype ops dt (UIntT 8)) row)"

definition row_bytes :: "'e byte_ops \<Rightarrow> array_kind \<Rightarrow> byte_kind \<Rightarrow> dtype \<Rightarrow> 'e list \<Rightarrow> bytes res" where
  "row_bytes ops where_is kind dt row =
     (case where_is of
        OnHost \<Rightarrow> host_row_bytes ops kind dt row
      | OnDevice \<Rightarrow>
          (case kind of
             KBool \<Rightarrow> device_bytes_bool ops dt row
           | KComplex \<Rightarrow> device_bytes_complex ops dt row
           | KSubSigned \<Rightarrow> device_bytes_subbyte_signed ops dt row
           | KSubUnsigned \<Rightarrow> device_bytes_subbyte_unsigned ops dt row
           | KPlain \<Rightarrow> device_bytes_plain ops dt row))"

text \<open>\<open>moveaxis(a, axis, 0).reshape(N, -1)\<close>: row \<open>i\<close> collects the elements at position \<open>i\<close> of the axis.\<close>

definition leaf_rows :: "'e ndarray \<Rightarrow> nat \<Rightarrow> nat \<Rightarrow> 'e list list" where
  "leaf_rows a k n =
     map (\<lambda>i. concat (map (\<lambda>b. take (axis_inner (nd_shape a) k) (drop (i * axis_inner (nd_shape a) k) b))
                       (axis_blocks a k)))
       [0..<n]"

definition leaf_row_bytes ::
  "'e byte_ops \<Rightarrow> nat \<Rightarrow> nat \<Rightarrow> array_kind \<times> 'e leaf_array \<Rightarrow> bytes list res"
where
  "leaf_row_bytes ops axis n leaf =
     bind_res (row_byte_kind (la_dtype (snd leaf))) (\<lambda>kind.
       case traverse_res (row_bytes ops (fst leaf) kind (la_dtype (snd leaf))) (leaf_rows (la_array (snd leaf)) axis n) of
         Inr rows \<Rightarrow> Inr rows
       | Inl e \<Rightarrow>
           if class_of e \<in> {TypeError, ValueError} then
             Inl (Exn DedupSynthesisUnsupportedError
                    ''dedup row identity cannot convert dtype to native bytes'' [ArgCause e])
           else Inl e)"

text \<open>Concatenation of the per-leaf blocks along the feature axis: row \<open>i\<close> joins every leaf's row \<open>i\<close>.\<close>

definition concat_row_bytes :: "nat \<Rightarrow> bytes list list \<Rightarrow> bytes list" where
  "concat_row_bytes n bs = map (\<lambda>i. concat (map (\<lambda>b. b ! i) bs)) [0..<n]"

definition stack_batch_leaves :: "'e byte_ops \<Rightarrow> 'e leaf list \<Rightarrow> int \<Rightarrow> (bytes list \<times> nat) res" where
  "stack_batch_leaves ops batch_leaves axis =
     bind_res (validate_batch_leaves batch_leaves axis) (\<lambda>(ls, n).
       bind_res (traverse_res (leaf_row_bytes ops (nat axis) n) ls) (\<lambda>bs.
         Inr (concat_row_bytes n bs, n)))"

definition element_width_bytes :: "bytes list \<Rightarrow> nat" where
  "element_width_bytes stacked = (case stacked of [] \<Rightarrow> 0 | r # _ \<Rightarrow> length r)"

type_synonym 'r unique_op = "'r list \<Rightarrow> 'r list \<times> nat list"

definition estimate_duplication_ratio :: "'r unique_op \<Rightarrow> 'r list \<Rightarrow> rat res" where
  "estimate_duplication_ratio np_unique rows =
     (if rows = [] then Inl (Exn (OtherError ''ZeroDivisionError'') ''division by zero'' [])
      else Inr (1 - of_nat (length (fst (np_unique rows))) / of_nat (length rows)))"

definition sample_stage ::
  "bytes unique_op \<Rightarrow> (nat \<Rightarrow> nat \<Rightarrow> nat list) \<Rightarrow> bytes list \<Rightarrow> nat \<Rightarrow> nat \<Rightarrow> (rat \<times> nat) res"
where
  "sample_stage np_unique stride stacked n max_sample_rows =
     (let idx = sort (remdups (stride n (min n max_sample_rows)));
          sampled_rows = map (\<lambda>i. stacked ! i) idx
      in bind_res (estimate_duplication_ratio np_unique sampled_rows) (\<lambda>sampled_ratio.
           Inr (sampled_ratio, length idx * element_width_bytes stacked)))"

text \<open>\<open>np.where(xs == v)[0][0]\<close>: the first position of \<open>v\<close>.\<close>

definition first_pos :: "nat list \<Rightarrow> nat \<Rightarrow> nat" where
  "first_pos xs v = length (takeWhile (\<lambda>x. x \<noteq> v) xs)"

definition argsort :: "'a::linorder list \<Rightarrow> nat list" where
  "argsort xs = sort_key (\<lambda>i. xs ! i) [0..<length xs]"

text \<open>\<open>arr[pos] = vals\<close> for an array of positions, left to right.\<close>

definition scatter :: "'a list \<Rightarrow> nat list \<Rightarrow> 'a list \<Rightarrow> 'a list" where
  "scatter arr pos vals = fold (\<lambda>(p, v) a. a[p := v]) (zip pos vals) arr"

text \<open>
  The positions and the renumbering are \<open>int32\<close> arrays; converting a position wraps outside their range.
\<close>

definition exact_stage :: "'r unique_op \<Rightarrow> 'r list \<Rightarrow> int list \<times> int list \<times> nat" where
  "exact_stage np_unique all_rows =
     (let (unique_rows, index_map_raw) = np_unique all_rows;
          n_unique = length unique_rows;
          unsorted = map (\<lambda>j. int32 (int (first_pos index_map_raw j))) [0..<n_unique];
          sort_order = argsort unsorted;
          unique_indices = map (\<lambda>i. unsorted ! i) sort_order;
          old_to_new = scatter (replicate n_unique 0) sort_order (map (\<lambda>i. int32 (int i)) [0..<n_unique])
      in (unique_indices, map (\<lambda>r. old_to_new ! r) index_map_raw, n_unique))"

datatype stage = NoDuplication | BelowThreshold | Synthesized | KOverLimit

record ('x, 'y) synthesis_result =
  sr_spec :: "('x, 'y) dedup_spec option"
  sr_stage :: stage
  sr_sampled_ratio :: rat
  sr_transfer_bytes_spent :: nat
  sr_k_bucket_bytes :: int

text \<open>Stage 2 of synthesis, once the sampled ratio has reached the threshold.\<close>

definition synthesize_exact ::
  "bytes unique_op \<Rightarrow> bytes list \<Rightarrow> nat \<Rightarrow> rat \<Rightarrow> nat \<Rightarrow> int \<Rightarrow> ('x, 'y) synthesis_result res"
where
  "synthesize_exact np_unique stacked n ratio sample_bytes max_unique_k =
     (let (unique_indices, index_map, k) = exact_stage np_unique stacked;
          spent = sample_bytes + n * element_width_bytes stacked
      in if unique_indices \<noteq> [] \<and> Max (set unique_indices) \<ge> int n then
           Inl (Exn ValueError ''unique_indices out of bounds'' [ArgInt (int n)])
         else if int k > max_unique_k then
           Inr \<lparr>sr_spec = None, sr_stage = KOverLimit, sr_sampled_ratio = ratio,
                sr_transfer_bytes_spent = spent, sr_k_bucket_bytes = 0\<rparr>
         else if length index_map \<noteq> n then
           Inl (Exn ValueError ''index_map length'' [ArgInt (int (length index_map)), ArgInt (int n)])
         else
           bind_res (DedupSpec_post_init
               \<lparr>ds_axis_name = ''batch'', ds_unique_indices = unique_indices, ds_index_map = index_map, ds_k = int k,
                ds_dedup_fn = None, ds_gather_fn = None\<rparr>) (\<lambda>spec.
             bind_res (get_k_bucket (int k)) (\<lambda>k_bucket.
               Inr \<lparr>sr_spec = Some spec, sr_stage = Synthesized, sr_sampled_ratio = ratio,
                    sr_transfer_bytes_spent = spent,
                    sr_k_bucket_bytes = k_bucket * int (element_width_bytes stacked)\<rparr>)))"

definition synthesize_dedup_spec ::
  "bytes unique_op \<Rightarrow> (nat \<Rightarrow> nat \<Rightarrow> nat list) \<Rightarrow> 'e byte_ops \<Rightarrow> 'e leaf list \<Rightarrow> int \<Rightarrow> rat \<Rightarrow> nat \<Rightarrow> int
     \<Rightarrow> string list option \<Rightarrow> ('x, 'y) synthesis_result res"
where
  "synthesize_dedup_spec np_unique stride ops batch_leaves axis threshold max_sample_rows
       max_unique_k existing_axes =
     (if batch_leaves = [] then Inl (Exn ValueError ''batch_leaves cannot be empty'' [])
      else if existing_axes \<noteq> None \<and> ''batch'' \<in> set (the existing_axes) then
        Inl (Exn DedupSynthesisCollisionError ''existing_specs already declares axis_name'' [ArgStr ''batch''])
      else bind_res (stack_batch_leaves ops batch_leaves axis) (\<lambda>(stacked, n).
        bind_res (sample_stage np_unique stride stacked n max_sample_rows) (\<lambda>(ratio, sample_bytes).
        if ratio < threshold then
          Inr \<lparr>sr_spec = None, sr_stage = (if ratio = 0 then NoDuplication else BelowThreshold),
               sr_sampled_ratio = ratio, sr_transfer_bytes_spent = sample_bytes, sr_k_bucket_bytes = 0\<rparr>
        else synthesize_exact np_unique stacked n ratio sample_bytes max_unique_k)))"

text \<open>
  The index arrays of a specification are one-dimensional integer arrays by construction here,
  so the checks \<open>index_type\<close> and \<open>index_dtype\<close> cannot fail and the structural check starts at
  \<open>k_mismatch\<close>.
\<close>

definition check_spec_structure :: "('x, 'y) dedup_spec \<Rightarrow> nat \<Rightarrow> unit res" where
  "check_spec_structure spec n =
     (let ui = ds_unique_indices spec; im = ds_index_map spec; k = ds_k spec in
      if int (length ui) \<noteq> k then
        Inl (Exn DedupSpecVerificationError ''k_mismatch'' [ArgInt k, ArgInt (int (length ui))])
      else if length im \<noteq> n then
        Inl (Exn DedupSpecVerificationError ''index_map_length'' [ArgInt (int (length im)), ArgInt (int n)])
      else if ui \<noteq> [] \<and> (Min (set ui) < 0 \<or> Max (set ui) \<ge> int n) then
        Inl (Exn DedupSpecVerificationError ''unique_indices_bounds'' [ArgInt (int n)])
      else if im \<noteq> [] \<and> (Min (set im) < 0 \<or> Max (set im) \<ge> k) then
        Inl (Exn DedupSpecVerificationError ''index_map_bounds'' [ArgInt k])
      else Inr ())"

text \<open>The (N, L) mask: leaf \<open>l\<close> of row \<open>i\<close> differs from the same leaf of the canonical row.\<close>

definition mismatch_mask :: "nat \<Rightarrow> bytes list list \<Rightarrow> nat list \<Rightarrow> bool list list" where
  "mismatch_mask n bs canon = map (\<lambda>i. map (\<lambda>b. b ! i \<noteq> b ! (canon ! i)) bs) [0..<n]"

record verification_result =
  vr_n_rows :: nat
  vr_k :: int
  vr_transfer_bytes_spent :: nat

definition verify_dedup_spec ::
  "'e byte_ops \<Rightarrow> ('x, 'y) dedup_spec \<Rightarrow> 'e leaf list \<Rightarrow> int \<Rightarrow> verification_result res"
where
  "verify_dedup_spec ops spec leaves axis =
     bind_res (validate_batch_leaves leaves axis) (\<lambda>(ls, n).
       bind_res (check_spec_structure spec n) (\<lambda>_.
         bind_res (traverse_res (leaf_row_bytes ops (nat axis) n) ls) (\<lambda>bs.
           let canon = map (\<lambda>s. nat (ds_unique_indices spec ! nat s)) (ds_index_map spec);
               msk = mismatch_mask n bs canon;
               union = map (\<lambda>row. True \<in> set row) msk;
               n_bad = length (filter id union)
           in if n_bad \<noteq> 0 then
                let first_bad_row = length (takeWhile Not union);
                    leaf_index = length (takeWhile Not (msk ! first_bad_row))
                in Inl (Exn DedupSpecVerificationError ''row_mismatch''
                          [ArgInt (int n_bad), ArgInt (int first_bad_row), ArgInt (int leaf_index)])
              else Inr \<lparr>vr_n_rows = n, vr_k = ds_k spec, vr_transfer_bytes_spent = n * length ls\<rparr>)))"

fun merge_mapping ::
  "(string \<times> 'v) list \<Rightarrow> (string \<times> 'v) list \<Rightarrow> (string \<times> 'v) list res"
where
  "merge_mapping result [] = Inr result"
| "merge_mapping result ((axis_name, spec) # rest) =
     (if axis_name \<in> fst ` set result then
        Inl (Exn DedupSpecCollisionError ''axis_name appears in multiple spec mappings'' [ArgStr axis_name])
      else merge_mapping (result @ [(axis_name, spec)]) rest)"

text \<open>A mapping argument may be \<open>None\<close>, which is skipped. \<open>seen_axes\<close> always has the keys of \<open>result\<close>.\<close>

fun merge_dedup_specs_from ::
  "(string \<times> 'v) list \<Rightarrow> (string \<times> 'v) list option list \<Rightarrow> (string \<times> 'v) list res"
where
  "merge_dedup_specs_from result [] = Inr result"
| "merge_dedup_specs_from result (None # ms) = merge_dedup_specs_from result ms"
| "merge_dedup_specs_from result (Some m # ms) =
     bind_res (merge_mapping result m) (\<lambda>r. merge_dedup_specs_from r ms)"

definition merge_dedup_specs :: "(string \<times> 'v) list option list \<Rightarrow> (string \<times> 'v) list res" where
  "merge_dedup_specs spec_mappings = merge_dedup_specs_from [] spec_mappings"

section \<open>Sorted unique rows\<close>

text \<open>What the exact stage relies on from \<open>np.unique(rows, axis=0, return_inverse=True)\<close>.\<close>

locale row_unique =
  fixes np_unique :: "'r unique_op"
  assumes unique_distinct: "distinct (fst (np_unique rows))"
    and unique_set: "set (fst (np_unique rows)) = set rows"
    and inverse_length: "length (snd (np_unique rows)) = length rows"
    and inverse_nth: "i < length rows \<Longrightarrow>
      snd (np_unique rows) ! i < length (fst (np_unique rows))
      \<and> fst (np_unique rows) ! (snd (np_unique rows) ! i) = rows ! i"

text \<open>The documented result: the distinct rows in lexicographic order, and each row's position.\<close>

definition sorted_unique :: "'r::linorder unique_op" where
  "sorted_unique rows =
     (let u = sort (remdups rows)
      in (u, map (\<lambda>r. length (takeWhile (\<lambda>v. v \<noteq> r) u)) rows))"

interpretation sorted_unique: row_unique sorted_unique
proof unfold_locales
  fix rows :: "'a::linorder list" and i
  assume i: "i < length rows"
  let ?u = "sort (remdups rows)"
  have "rows ! i \<in> set ?u" using i by simp
  then show "snd (sorted_unique rows) ! i < length (fst (sorted_unique rows))
      \<and> fst (sorted_unique rows) ! (snd (sorted_unique rows) ! i) = rows ! i"
    using i length_takeWhile_neq [of "rows ! i" ?u] by (simp add: sorted_unique_def Let_def)
qed (simp_all add: sorted_unique_def Let_def)

section \<open>The exact stage\<close>

lemma scatter_simps [simp]:
  "scatter arr [] vals = arr" "scatter arr pos [] = arr"
  "scatter arr (p # pos) (v # vals) = scatter (arr[p := v]) pos vals"
  by (simp_all add: scatter_def)

lemma length_scatter [simp]: "length (scatter arr pos vals) = length arr"
  by (induction pos vals arbitrary: arr rule: list_induct2') auto

lemma scatter_other: "q \<notin> set pos \<Longrightarrow> scatter arr pos vals ! q = arr ! q"
  by (induction pos vals arbitrary: arr rule: list_induct2') auto

lemma scatter_nth:
  "distinct pos \<Longrightarrow> length pos = length vals \<Longrightarrow> \<forall>p\<in>set pos. p < length arr \<Longrightarrow> m < length pos
    \<Longrightarrow> scatter arr pos vals ! (pos ! m) = vals ! m"
proof (induction pos vals arbitrary: arr m rule: list_induct2')
  case (4 p pos v vals)
  show ?case
  proof (cases m)
    case 0
    with 4 show ?thesis by (simp add: scatter_other)
  next
    case (Suc m')
    with 4 show ?thesis by simp
  qed
qed auto

lemma argsort_facts:
  shows "set (argsort xs) = {0..<length xs}" "distinct (argsort xs)" "length (argsort xs) = length xs"
    "sorted (map (\<lambda>i. xs ! i) (argsort xs))"
  by (simp_all add: argsort_def)

text \<open>The exact stage with positions of unbounded width, which it is on batches that \<open>int32\<close> can index.\<close>

definition exact_positions :: "'r unique_op \<Rightarrow> 'r list \<Rightarrow> nat list \<times> nat list \<times> nat" where
  "exact_positions np_unique all_rows =
     (let (unique_rows, index_map_raw) = np_unique all_rows;
          n_unique = length unique_rows;
          unsorted = map (first_pos index_map_raw) [0..<n_unique];
          sort_order = argsort unsorted
      in (map (\<lambda>i. unsorted ! i) sort_order,
          map (\<lambda>r. scatter (replicate n_unique 0) sort_order [0..<n_unique] ! r) index_map_raw, n_unique))"

lemma scatter_map: "scatter (map f arr) pos (map f vals) = map f (scatter arr pos vals)"
  by (induction pos vals arbitrary: arr rule: list_induct2') (simp_all flip: map_update)

lemma sort_key_int:
  "(\<And>x. x \<in> set xs \<Longrightarrow> f x = int (g x)) \<Longrightarrow> sort_key f xs = sort_key g xs"
proof -
  have ins: "\<forall>x\<in>insert a (set ys). f x = int (g x) \<Longrightarrow> insort_key f a ys = insort_key g a ys" for a ys
    by (induction ys) simp_all
  show "(\<And>x. x \<in> set xs \<Longrightarrow> f x = int (g x)) \<Longrightarrow> sort_key f xs = sort_key g xs"
    by (induction xs) (simp_all add: ins)
qed

lemma argsort_int: "argsort (map int xs) = argsort xs"
  unfolding argsort_def length_map by (rule sort_key_int) simp

definition first_occurrences :: "'r list \<Rightarrow> nat list" where
  "first_occurrences rows = filter (\<lambda>i. rows ! i \<notin> set (take i rows)) [0..<length rows]"

lemma first_occurrences_sorted_distinct:
  "sorted (first_occurrences rows)" "distinct (first_occurrences rows)"
  by (simp_all add: first_occurrences_def sorted_wrt_filter)

text \<open>Renumbering by rank: \<open>old_to_new\<close> inverts the sort order.\<close>

lemma old_to_new_inverse:
  shows "m < length un \<Longrightarrow>
      scatter (replicate (length un) 0) (argsort un) [0..<length un] ! (argsort un ! m) = m"
    and "r < length un \<Longrightarrow> \<exists>m<length un. argsort un ! m = r"
proof -
  show "scatter (replicate (length un) 0) (argsort un) [0..<length un] ! (argsort un ! m) = m"
    if "m < length un"
    using that argsort_facts [of un] by (subst scatter_nth) auto
  show "\<exists>m<length un. argsort un ! m = r" if "r < length un"
    using that argsort_facts [of un] by (metis atLeastLessThan_iff in_set_conv_nth zero_le)
qed

context row_unique
begin

lemma first_pos_inverse:
  assumes "j < length (fst (np_unique rows))"
  defines "p \<equiv> first_pos (snd (np_unique rows)) j"
  shows "p < length rows" "snd (np_unique rows) ! p = j" "rows ! p = fst (np_unique rows) ! j"
    "\<And>i. i < p \<Longrightarrow> rows ! i \<noteq> fst (np_unique rows) ! j"
proof -
  have "fst (np_unique rows) ! j \<in> set rows" using assms(1) unique_set by (metis nth_mem)
  then obtain i where i: "i < length rows" "rows ! i = fst (np_unique rows) ! j"
    by (metis in_set_conv_nth)
  then have "snd (np_unique rows) ! i = j"
    using inverse_nth [OF i(1)] assms(1) unique_distinct by (metis nth_eq_iff_index_eq)
  then have j: "j \<in> set (snd (np_unique rows))" using i inverse_length by (metis nth_mem)
  from length_takeWhile_neq [OF j] inverse_length
  show p: "p < length rows" "snd (np_unique rows) ! p = j" by (auto simp: p_def first_pos_def)
  then show "rows ! p = fst (np_unique rows) ! j" using inverse_nth by force
  show "rows ! i \<noteq> fst (np_unique rows) ! j" if "i < p" for i
  proof -
    have "snd (np_unique rows) ! i \<noteq> j"
      using length_takeWhile_neq(3) [OF j] that by (simp add: p_def first_pos_def)
    moreover have "i < length rows" using that p by simp
    ultimately show ?thesis using inverse_nth assms(1) unique_distinct by (metis nth_eq_iff_index_eq)
  qed
qed

lemma first_pos_set:
  "first_pos (snd (np_unique rows)) ` {0..<length (fst (np_unique rows))} = set (first_occurrences rows)"
proof (intro equalityI subsetI)
  fix p assume "p \<in> first_pos (snd (np_unique rows)) ` {0..<length (fst (np_unique rows))}"
  then obtain j where j: "j < length (fst (np_unique rows))" "p = first_pos (snd (np_unique rows)) j"
    by auto
  with first_pos_inverse [OF j(1)] have "p < length rows" "\<forall>i<p. rows ! i \<noteq> rows ! p" by auto
  then show "p \<in> set (first_occurrences rows)"
    by (auto simp: first_occurrences_def in_set_conv_nth)
next
  fix p assume "p \<in> set (first_occurrences rows)"
  then have p: "p < length rows" "\<forall>i<p. rows ! i \<noteq> rows ! p"
    by (auto simp: first_occurrences_def in_set_conv_nth)
  define j where "j = snd (np_unique rows) ! p"
  have j: "j < length (fst (np_unique rows))" "fst (np_unique rows) ! j = rows ! p"
    using inverse_nth [OF p(1)] by (auto simp: j_def)
  from first_pos_inverse [OF j(1)] j(2) p have "p = first_pos (snd (np_unique rows)) j"
    by (metis linorder_neqE_nat)
  with j show "p \<in> first_pos (snd (np_unique rows)) ` {0..<length (fst (np_unique rows))}" by auto
qed

lemma first_pos_inj:
  "inj_on (first_pos (snd (np_unique rows))) {0..<length (fst (np_unique rows))}"
  by (rule inj_on_inverseI [where g = "\<lambda>p. snd (np_unique rows) ! p"])
    (simp add: first_pos_inverse)

lemma exact_positions_unfold:
  assumes "exact_positions np_unique rows = (ui, im, k)"
  defines "ivs \<equiv> snd (np_unique rows)"
  defines "un \<equiv> map (first_pos ivs) [0..<k]"
  shows "k = length (fst (np_unique rows))" "ui = map (\<lambda>i. un ! i) (argsort un)"
    "im = map (\<lambda>r. scatter (replicate k 0) (argsort un) [0..<k] ! r) ivs"
  using assms(1) by (auto simp: exact_positions_def Let_def split_def ivs_def un_def)

lemma exact_positions_unique_indices:
  assumes "exact_positions np_unique rows = (ui, im, k)"
  shows "ui = first_occurrences rows" "length ui = k" "k = card (set rows)"
proof -
  note eqs = exact_positions_unfold [OF assms]
  define un where "un = map (first_pos (snd (np_unique rows))) [0..<k]"
  have un: "distinct un" "set un = set (first_occurrences rows)" "length un = k"
    using first_pos_inj first_pos_set by (simp_all add: un_def distinct_map eqs)
  have ui: "ui = map (\<lambda>i. un ! i) (argsort un)" by (simp add: eqs(2) un_def)
  show "length ui = k" by (simp add: ui argsort_facts un)
  have "sorted ui" "distinct ui"
    using argsort_facts [of un] un(1) by (auto simp: ui distinct_map inj_on_def nth_eq_iff_index_eq)
  moreover have "set ui = set un"
    using nth_image [of "length un" un] by (simp add: ui argsort_facts)
  ultimately show "ui = first_occurrences rows"
    using un(2) first_occurrences_sorted_distinct by (intro sorted_distinct_set_unique) auto
  show "k = card (set rows)" using unique_distinct unique_set eqs(1) by (metis distinct_card)
qed

lemma exact_positions_slot:
  assumes "exact_positions np_unique rows = (ui, im, k)" and i: "i < length rows"
  shows "im ! i < k" "ui ! (im ! i) = first_pos (snd (np_unique rows)) (snd (np_unique rows) ! i)"
proof -
  note eqs = exact_positions_unfold [OF assms(1)]
  define un where "un = map (first_pos (snd (np_unique rows))) [0..<k]"
  have len: "length un = k" by (simp add: un_def)
  have r: "snd (np_unique rows) ! i < k" using inverse_nth [OF i] eqs(1) by simp
  from old_to_new_inverse(2) [of _ un] r len obtain m
    where m: "m < k" "argsort un ! m = snd (np_unique rows) ! i" by blast
  from old_to_new_inverse(1) [of m un] m len have "im ! i = m"
    using i by (simp add: eqs(3) inverse_length flip: un_def)
  with m r len show "im ! i < k"
    "ui ! (im ! i) = first_pos (snd (np_unique rows)) (snd (np_unique rows) ! i)"
    by (simp_all add: eqs(2) argsort_facts flip: un_def) (simp add: un_def)
qed

lemma exact_positions_index_map:
  assumes "exact_positions np_unique rows = (ui, im, k)"
  shows "length im = length rows" "set im = {0..<k}"
    "\<And>i. i < length rows \<Longrightarrow> rows ! (ui ! (im ! i)) = rows ! i"
proof -
  note eqs = exact_positions_unfold [OF assms] and slot = exact_positions_slot [OF assms]
  show len: "length im = length rows" by (simp add: eqs(3) inverse_length)
  show "rows ! (ui ! (im ! i)) = rows ! i" if i: "i < length rows" for i
    using slot(2) [OF i] first_pos_inverse(3) inverse_nth [OF i] by simp
  show "set im = {0..<k}"
  proof (intro equalityI subsetI)
    fix m assume "m \<in> set im"
    then show "m \<in> {0..<k}" using slot(1) len by (force simp: in_set_conv_nth)
  next
    fix m assume "m \<in> {0..<k}"
    then have m: "m < k" by simp
    have ui: "distinct ui" "length ui = k"
      using exact_positions_unique_indices [OF assms] first_occurrences_sorted_distinct by auto
    define i where "i = ui ! m"
    have "i \<in> set (first_occurrences rows)"
      using m exact_positions_unique_indices [OF assms] by (metis i_def nth_mem)
    then have i: "i < length rows" "\<forall>j<i. rows ! j \<noteq> rows ! i"
      by (auto simp: first_occurrences_def in_set_conv_nth)
    have "first_pos (snd (np_unique rows)) (snd (np_unique rows) ! i) = i"
      using i inverse_nth [OF i(1)] first_pos_inverse [of "snd (np_unique rows) ! i" rows]
      by (metis linorder_neqE_nat)
    then have "ui ! (im ! i) = ui ! m" using slot(2) [OF i(1)] by (simp add: i_def)
    then have "im ! i = m" using ui m slot(1) [OF i(1)] by (metis nth_eq_iff_index_eq)
    then show "m \<in> set im" using i(1) len by (metis nth_mem)
  qed
qed

lemma exact_stage_positions:
  assumes "length rows \<le> 2 ^ 31" "exact_positions np_unique rows = (ui, im, k)"
  shows "exact_stage np_unique rows = (map int ui, map int im, k)"
proof -
  note eqs = exact_positions_unfold [OF assms(2)]
  define ivs where "ivs = snd (np_unique rows)"
  define un where "un = map (first_pos ivs) [0..<k]"
  have k: "k \<le> length rows" using exact_positions_unique_indices(3) [OF assms(2)] card_length by metis
  have fits: "int32 (int p) = int p" if "p < length rows" for p
    using that assms(1) by (intro int32_small) auto
  have un: "map (\<lambda>j. int32 (int (first_pos ivs j))) [0..<k] = map int un"
    using first_pos_inverse(1) eqs(1) by (auto simp: un_def ivs_def intro: fits)
  have ar: "map (\<lambda>i. int32 (int i)) [0..<k] = map int [0..<k]"
    using k by (auto intro!: fits)
  have "scatter (replicate k 0) (argsort (map int un)) (map int [0..<k]) = map int (scatter (replicate k 0) (argsort un) [0..<k])"
    using scatter_map [of int "replicate k 0"] by (simp add: argsort_int)
  moreover have "snd (np_unique rows) ! i < k" if "i < length rows" for i
    using inverse_nth [OF that] eqs(1) by simp
  then have "\<forall>r\<in>set ivs. r < k" using inverse_length by (auto simp: ivs_def in_set_conv_nth)
  moreover have len: "length un = k" by (simp add: un_def)
  moreover have "set (argsort un) = {0..<k}" using argsort_facts(1) [of un] len by simp
  ultimately have "exact_stage np_unique rows
      = (map int (map (\<lambda>i. un ! i) (argsort un)),
         map int (map (\<lambda>r. scatter (replicate k 0) (argsort un) [0..<k] ! r) ivs), k)"
    unfolding exact_stage_def split_def Let_def eqs(1) [symmetric] ivs_def [symmetric] un ar
    by (simp add: argsort_int)
  then show ?thesis by (simp add: eqs(2,3) un_def ivs_def)
qed

end

section \<open>Validated leaves and their row bytes\<close>

fun leaf_arrays :: "'e leaf \<Rightarrow> 'e leaf_array list" where
  "leaf_arrays (JaxLeaf a) = [a]"
| "leaf_arrays (NpLeaf a) = [a]"
| "leaf_arrays (PyLeaf None) = []"
| "leaf_arrays (PyLeaf (Some a)) = [a]"

definition leaf_wf :: "'e leaf \<Rightarrow> bool" where
  "leaf_wf l = (\<forall>a \<in> set (leaf_arrays l). nd_wf (la_array a))"

text \<open>The elements of a leaf are elements of its dtype.\<close>

definition array_typed :: "(dtype \<Rightarrow> 'e \<Rightarrow> bool) \<Rightarrow> 'e leaf_array \<Rightarrow> bool" where
  "array_typed typed a = (\<forall>e \<in> set (nd_data (la_array a)). typed (la_dtype a) e)"

definition leaf_typed :: "(dtype \<Rightarrow> 'e \<Rightarrow> bool) \<Rightarrow> 'e leaf \<Rightarrow> bool" where
  "leaf_typed typed l = (\<forall>a \<in> set (leaf_arrays l). array_typed typed a)"

lemma check_leaf_array: "check_leaf i l = Inr ka \<Longrightarrow> snd ka \<in> set (leaf_arrays l)"
  by (cases l rule: leaf_arrays.cases) (auto simp: check_leaf_def split: if_splits)

lemma check_leaves_arrays: "check_leaves i ls = Inr as \<Longrightarrow> ka \<in> set as \<Longrightarrow> \<exists>l \<in> set ls. snd ka \<in> set (leaf_arrays l)"
proof (induction ls arbitrary: i as)
  case (Cons l ls)
  from Cons.prems(1) obtain ka' as' where "check_leaf i l = Inr ka'"
    "check_leaves (Suc i) ls = Inr as'" "as = ka' # as'" by (auto simp: res_simps)
  with Cons.IH [of "Suc i" as'] Cons.prems(2) check_leaf_array [of i l ka'] show ?case by auto
qed simp

lemma check_lengths_Inr:
  "check_lengths i axis n as = Inr u \<Longrightarrow>
    \<forall>ka\<in>set as. 0 \<le> axis \<and> nat axis < nd_ndim (la_array (snd ka)) \<and> nd_shape (la_array (snd ka)) ! nat axis = n"
  by (induction i axis n as rule: check_lengths.induct) (auto split: if_splits)

lemma validate_batch_leaves_array:
  assumes "validate_batch_leaves leaves axis = Inr (ls, n)" "ka \<in> set ls"
  shows "\<exists>l \<in> set leaves. snd ka \<in> set (leaf_arrays l)"
  using assms check_leaves_arrays [of 0 leaves ls ka]
  by (auto simp: validate_batch_leaves_def res_simps Let_def split: if_splits)

lemma validate_batch_leaves_Inr:
  assumes "validate_batch_leaves leaves axis = Inr (ls, n)" "\<forall>l\<in>set leaves. leaf_wf l" "ka \<in> set ls"
  shows "nd_wf (la_array (snd ka))" "nat axis < nd_ndim (la_array (snd ka))" "nd_shape (la_array (snd ka)) ! nat axis = n"
  using validate_batch_leaves_array [OF assms(1,3)] assms check_lengths_Inr [of 0 axis n ls]
  by (auto simp: leaf_wf_def validate_batch_leaves_def res_simps Let_def split: if_splits)

lemma length_leaf_rows [simp]: "length (leaf_rows a k n) = n"
  by (simp add: leaf_rows_def)

lemma leaf_rows_same_length:
  assumes "nd_wf a" "k < nd_ndim a" "nd_shape a ! k = n" "r \<in> set (leaf_rows a k n)"
  shows "length r = axis_outer (nd_shape a) k * axis_inner (nd_shape a) k"
proof -
  let ?inner = "axis_inner (nd_shape a) k"
  obtain i where i: "i < n"
    and r: "r = concat (map (\<lambda>b. take ?inner (drop (i * ?inner) b)) (axis_blocks a k))"
    using assms(4) by (auto simp: leaf_rows_def)
  have "length b = n * ?inner" if "b \<in> set (axis_blocks a k)" for b
    using that assms(1-3) prod_list_axis [of k "nd_shape a"]
    unfolding axis_blocks_def by (auto simp: nd_wf_def nd_ndim_def elim!: blocks_length)
  moreover have "?inner \<le> n * ?inner - i * ?inner"
    using mult_le_mono1 [of 1 "n - i" ?inner] i by (simp add: diff_mult_distrib)
  ultimately have "\<forall>b\<in>set (map (\<lambda>b. take ?inner (drop (i * ?inner) b)) (axis_blocks a k)). length b = ?inner"
    by auto
  from length_concat_same [OF this] show ?thesis by (simp add: r axis_blocks_def)
qed

lemma blocks_elements:
  assumes "b \<in> set (blocks outer sz xs)" "e \<in> set b"
  shows "e \<in> set xs"
  using assms by (auto simp: blocks_def dest!: in_set_takeD in_set_dropD)

lemma leaf_rows_data: "r \<in> set (leaf_rows a k n) \<Longrightarrow> set r \<subseteq> set (nd_data a)"
proof
  fix r e
  assume "r \<in> set (leaf_rows a k n)" "e \<in> set r"
  then obtain b where b: "b \<in> set (axis_blocks a k)" "e \<in> set b"
    by (auto simp: leaf_rows_def dest!: in_set_takeD in_set_dropD)
  then show "e \<in> set (nd_data a)" unfolding axis_blocks_def by (rule blocks_elements)
qed

lemma leaf_row_bytes_Inr:
  assumes "leaf_row_bytes ops axis n leaf = Inr b"
  obtains kind where "row_byte_kind (la_dtype (snd leaf)) = Inr kind" "length b = n"
    "\<And>i. i < n \<Longrightarrow> row_bytes ops (fst leaf) kind (la_dtype (snd leaf)) (leaf_rows (la_array (snd leaf)) axis n ! i) = Inr (b ! i)"
proof -
  from assms obtain kind where kind: "row_byte_kind (la_dtype (snd leaf)) = Inr kind"
    "traverse_res (row_bytes ops (fst leaf) kind (la_dtype (snd leaf))) (leaf_rows (la_array (snd leaf)) axis n) = Inr b"
    unfolding leaf_row_bytes_def bind_res_eq_Inr
    by (smt (verit) Inl_Inr_False old.sum.simps(5,6) sumE)
  then have "list_all2 (\<lambda>x y. row_bytes ops (fst leaf) kind (la_dtype (snd leaf)) x = Inr y) (leaf_rows (la_array (snd leaf)) axis n) b"
    by (simp add: res_simps)
  then show thesis using kind(1) by (intro that [of kind]) (auto simp: list_all2_conv_all_nth)
qed

lemma row_of_bytes_Cons:
  assumes "row_of_bytes enc (x # xs) = Inr bs"
  obtains b bs' where "enc x = Inr b" "row_of_bytes enc xs = Inr bs'" "bs = b @ bs'"
  using assms unfolding row_of_bytes_def traverse_res.simps bind_res_eq_Inr
  by (elim exE conjE) (auto simp: bind_res_eq_Inr)

text \<open>The widening conversions of the code.\<close>

definition widens :: "dtype \<Rightarrow> dtype \<Rightarrow> bool" where
  "widens dt dt' = (case dt of
     BoolT \<Rightarrow> dt' = UIntT 8
   | IntT bits \<Rightarrow> bits < 8 \<and> dt' = IntT 8
   | UIntT bits \<Rightarrow> bits < 8 \<and> dt' = UIntT 8
   | _ \<Rightarrow> False)"

text \<open>
  What the row comparison relies on from NumPy and JAX, at each dtype by itself: all its elements have equally many bytes,
  different elements different ones; the widening of \<open>bool\<close> and of the integers below a byte loses nothing, and neither does
  the split of a complex element.
\<close>

locale native_bytes =
  fixes ops :: "'e byte_ops" and typed :: "dtype \<Rightarrow> 'e \<Rightarrow> bool"
  assumes bitcast_width: "\<lbrakk>typed dt x; typed dt y; bo_bitcast ops dt x = Inr bs; bo_bitcast ops dt y = Inr cs\<rbrakk> \<Longrightarrow> length bs = length cs"
    and bitcast_exact: "\<lbrakk>typed dt x; typed dt y; bo_bitcast ops dt x = Inr bs; bo_bitcast ops dt y = Inr bs\<rbrakk> \<Longrightarrow> x = y"
    and view_width: "\<lbrakk>typed dt x; typed dt y; bo_view ops dt x = Inr bs; bo_view ops dt y = Inr cs\<rbrakk> \<Longrightarrow> length bs = length cs"
    and view_exact: "\<lbrakk>typed dt x; typed dt y; bo_view ops dt x = Inr bs; bo_view ops dt y = Inr bs\<rbrakk> \<Longrightarrow> x = y"
    and widen_typed: "\<lbrakk>widens dt dt'; typed dt x\<rbrakk> \<Longrightarrow> typed dt' (bo_astype ops dt dt' x)"
    and widen_exact: "\<lbrakk>widens dt dt'; typed dt x; typed dt y; bo_astype ops dt dt' x = bo_astype ops dt dt' y\<rbrakk> \<Longrightarrow> x = y"
    and half_typed: "typed (ComplexT b) x \<Longrightarrow> typed (FloatT (b div 2)) (bo_real ops x) \<and> typed (FloatT (b div 2)) (bo_imag ops x)"
    and half_exact: "\<lbrakk>typed (ComplexT b) x; typed (ComplexT b) y; bo_real ops x = bo_real ops y; bo_imag ops x = bo_imag ops y\<rbrakk> \<Longrightarrow> x = y"
begin

text \<open>An encoding of elements that is fixed-width and exact on rows of equally many typed elements.\<close>

lemma row_of_bytes_encodes:
  assumes elem: "\<And>x y bs cs. \<lbrakk>typed dt x; typed dt y; enc x = Inr bs; enc y = Inr cs\<rbrakk> \<Longrightarrow> length bs = length cs"
    "\<And>x y bs. \<lbrakk>typed dt x; typed dt y; enc x = Inr bs; enc y = Inr bs\<rbrakk> \<Longrightarrow> x = y"
    and "length xs = length ys" "list_all (typed dt) xs" "list_all (typed dt) ys"
    and "row_of_bytes enc xs = Inr bs" "row_of_bytes enc ys = Inr cs"
  shows "length bs = length cs \<and> (bs = cs \<longrightarrow> xs = ys)"
  using assms(3-)
proof (induction xs ys arbitrary: bs cs rule: list_induct2)
  case Nil
  then show ?case by (simp add: row_of_bytes_def)
next
  case (Cons x xs y ys)
  obtain b bs' where b: "enc x = Inr b" "row_of_bytes enc xs = Inr bs'" "bs = b @ bs'"
    using Cons.prems(3) by (rule row_of_bytes_Cons)
  obtain c cs' where c: "enc y = Inr c" "row_of_bytes enc ys = Inr cs'" "cs = c @ cs'"
    using Cons.prems(4) by (rule row_of_bytes_Cons)
  have "typed dt x" "typed dt y" using Cons.prems(1,2) by simp_all
  with elem [OF this b(1)] c(1) have "length b = length c" "b = c \<longrightarrow> x = y" by auto
  with Cons.IH [OF _ _ b(2) c(2)] Cons.prems(1,2) b(3) c(3) show ?case by auto
qed

lemma plain_encodes:
  "\<lbrakk>length xs = length ys; list_all (typed dt) xs; list_all (typed dt) ys;
    device_bytes_plain ops dt xs = Inr bs; device_bytes_plain ops dt ys = Inr cs\<rbrakk>
    \<Longrightarrow> length bs = length cs \<and> (bs = cs \<longrightarrow> xs = ys)"
  unfolding device_bytes_plain_def by (rule row_of_bytes_encodes [OF bitcast_width bitcast_exact])

lemma view_encodes:
  "\<lbrakk>length xs = length ys; list_all (typed dt) xs; list_all (typed dt) ys;
    row_of_bytes (bo_view ops dt) xs = Inr bs; row_of_bytes (bo_view ops dt) ys = Inr cs\<rbrakk>
    \<Longrightarrow> length bs = length cs \<and> (bs = cs \<longrightarrow> xs = ys)"
  by (rule row_of_bytes_encodes [OF view_width view_exact])

lemma map_exact:
  assumes "\<And>x y. \<lbrakk>typed dt x; typed dt y; f x = f y\<rbrakk> \<Longrightarrow> x = y" "list_all (typed dt) xs" "list_all (typed dt) ys" "map f xs = map f ys"
  shows "xs = ys"
  using assms by (intro map_inj_on [OF assms(4)] inj_onI) (auto simp: list_all_iff)

text \<open>A row that is widened before it is written.\<close>

lemma widened_encodes:
  assumes "widens dt dt'" "length xs = length ys" "list_all (typed dt) xs" "list_all (typed dt) ys"
    and "enc (map (bo_astype ops dt dt') xs) = Inr bs" "enc (map (bo_astype ops dt dt') ys) = Inr cs"
    and enc: "\<And>xs ys bs cs. \<lbrakk>length xs = length ys; list_all (typed dt') xs; list_all (typed dt') ys; enc xs = Inr bs; enc ys = Inr cs\<rbrakk>
      \<Longrightarrow> length bs = length cs \<and> (bs = cs \<longrightarrow> xs = ys)"
  shows "length bs = length cs \<and> (bs = cs \<longrightarrow> xs = ys)"
proof -
  have "list_all (typed dt') (map (bo_astype ops dt dt') zs)" if "list_all (typed dt) zs" for zs
    using that widen_typed [OF assms(1)] by (auto simp: list_all_iff)
  then have "length bs = length cs \<and> (bs = cs \<longrightarrow> map (bo_astype ops dt dt') xs = map (bo_astype ops dt dt') ys)"
    using assms(2-6) by (intro enc) simp_all
  then show ?thesis using map_exact [OF widen_exact [OF assms(1)] assms(3,4)] by blast
qed

lemma complex_encodes:
  assumes "length xs = length ys" "list_all (typed (ComplexT b)) xs" "list_all (typed (ComplexT b)) ys"
    and "device_bytes_complex ops (ComplexT b) xs = Inr bs" "device_bytes_complex ops (ComplexT b) ys = Inr cs"
  shows "length bs = length cs \<and> (bs = cs \<longrightarrow> xs = ys)"
proof -
  from assms(4) obtain re im where x: "device_bytes_plain ops (FloatT (b div 2)) (map (bo_real ops) xs) = Inr re"
      "device_bytes_plain ops (FloatT (b div 2)) (map (bo_imag ops) xs) = Inr im" "bs = re @ im"
    by (auto simp: device_bytes_complex_def half_dtype_def res_simps)
  from assms(5) obtain re' im' where y: "device_bytes_plain ops (FloatT (b div 2)) (map (bo_real ops) ys) = Inr re'"
      "device_bytes_plain ops (FloatT (b div 2)) (map (bo_imag ops) ys) = Inr im'" "cs = re' @ im'"
    by (auto simp: device_bytes_complex_def half_dtype_def res_simps)
  have t: "list_all (typed (FloatT (b div 2))) (map (bo_real ops) zs) \<and> list_all (typed (FloatT (b div 2))) (map (bo_imag ops) zs)"
    if "list_all (typed (ComplexT b)) zs" for zs
    using that half_typed by (auto simp: list_all_iff)
  have re: "length re = length re' \<and> (re = re' \<longrightarrow> map (bo_real ops) xs = map (bo_real ops) ys)"
    using t [OF assms(2)] t [OF assms(3)] assms(1) by (intro plain_encodes [OF _ _ _ x(1) y(1)]) simp_all
  have im: "length im = length im' \<and> (im = im' \<longrightarrow> map (bo_imag ops) xs = map (bo_imag ops) ys)"
    using t [OF assms(2)] t [OF assms(3)] assms(1) by (intro plain_encodes [OF _ _ _ x(2) y(2)]) simp_all
  have "xs = ys" if "map (bo_real ops) xs = map (bo_real ops) ys" "map (bo_imag ops) xs = map (bo_imag ops) ys"
    using assms(1-3) that by (induction xs ys rule: list_induct2) (auto intro: half_exact)
  with re im x(3) y(3) show ?thesis by auto
qed

theorem row_bytes_encode:
  assumes "row_byte_kind dt = Inr kind" "length xs = length ys" "list_all (typed dt) xs" "list_all (typed dt) ys"
    and "row_bytes ops where_is kind dt xs = Inr bs" "row_bytes ops where_is kind dt ys = Inr cs"
  shows "length bs = length cs \<and> (bs = cs \<longrightarrow> xs = ys)"
proof (cases where_is)
  case OnHost
  show ?thesis
  proof (cases "kind = KSubSigned \<or> kind = KSubUnsigned")
    case True
    then obtain dt' where dt': "widens dt dt'" "\<And>zs. row_bytes ops where_is kind dt zs = row_of_bytes (bo_view ops dt') (map (bo_astype ops dt dt') zs)"
      using assms(1) OnHost
      by (auto simp: row_bytes_def host_row_bytes_def row_byte_kind_def widens_def split: dtype.splits if_splits)
    show ?thesis
      by (rule widened_encodes [OF dt'(1) assms(2-4) assms(5,6) [unfolded dt'(2)] view_encodes])
  next
    case False
    then have "row_bytes ops where_is kind dt zs = row_of_bytes (bo_view ops dt) zs" for zs
      using OnHost by (cases kind) (simp_all add: row_bytes_def host_row_bytes_def Let_def)
    with assms show ?thesis by (intro view_encodes) simp_all
  qed
next
  case OnDevice
  consider (wide) dt' where "widens dt dt'" "\<And>zs. row_bytes ops where_is kind dt zs = device_bytes_plain ops dt' (map (bo_astype ops dt dt') zs)"
    | (complex) b where "dt = ComplexT b" "\<And>zs. row_bytes ops where_is kind dt zs = device_bytes_complex ops dt zs"
    | (plain) "\<And>zs. row_bytes ops where_is kind dt zs = device_bytes_plain ops dt zs"
    using assms(1) OnDevice
    by (cases dt) (auto simp: row_bytes_def row_byte_kind_def widens_def device_bytes_bool_def
        device_bytes_subbyte_signed_def device_bytes_subbyte_unsigned_def split: if_splits)
  then show ?thesis
  proof cases
    case wide
    show ?thesis by (rule widened_encodes [OF wide(1) assms(2-4) assms(5,6) [unfolded wide(2)] plain_encodes])
  next
    case complex
    with assms show ?thesis by (intro complex_encodes) simp_all
  next
    case plain
    with assms show ?thesis by (intro plain_encodes) simp_all
  qed
qed

end

text \<open>The rows of one leaf: equally many bytes, and different bytes for different rows.\<close>

lemma leaf_row_bytes_encode:
  assumes "native_bytes ops typed" "leaf_row_bytes ops k n leaf = Inr b" "array_typed typed (snd leaf)"
    "nd_wf (la_array (snd leaf))" "k < nd_ndim (la_array (snd leaf))"
    "nd_shape (la_array (snd leaf)) ! k = n" "i < n" "j < n"
  shows "length (b ! i) = length (b ! j)
    \<and> (b ! i = b ! j \<longrightarrow> leaf_rows (la_array (snd leaf)) k n ! i = leaf_rows (la_array (snd leaf)) k n ! j)"
proof -
  let ?rows = "leaf_rows (la_array (snd leaf)) k n"
  obtain kind where kind: "row_byte_kind (la_dtype (snd leaf)) = Inr kind"
    "\<And>i. i < n \<Longrightarrow> row_bytes ops (fst leaf) kind (la_dtype (snd leaf)) (?rows ! i) = Inr (b ! i)"
    using leaf_row_bytes_Inr [OF assms(2)] by metis
  have row: "?rows ! i \<in> set ?rows" if "i < n" for i using that by simp
  have "length (?rows ! i) = length (?rows ! j)"
    using leaf_rows_same_length [OF assms(4-6) row] assms(7,8) by metis
  moreover have "list_all (typed (la_dtype (snd leaf))) (?rows ! i)" if "i < n" for i
    using leaf_rows_data [OF row [OF that]] assms(3) by (auto simp: array_typed_def list_all_iff)
  ultimately show ?thesis
    using native_bytes.row_bytes_encode [OF assms(1) kind(1) _ _ _ kind(2) kind(2)] assms(7,8) by blast
qed

lemma concat_row_bytes_eq:
  assumes "\<forall>b\<in>set bs. length (b ! i) = length (b ! j)" "i < n" "j < n"
  shows "concat_row_bytes n bs ! i = concat_row_bytes n bs ! j \<longleftrightarrow> (\<forall>b\<in>set bs. b ! i = b ! j)"
proof -
  have "concat (map (\<lambda>b. b ! i) bs) = concat (map (\<lambda>b. b ! j) bs)
    \<longleftrightarrow> map (\<lambda>b. b ! i) bs = map (\<lambda>b. b ! j) bs"
    using assms(1) by (intro concat_eq_concat_iff) (auto simp: set_zip)
  then show ?thesis using assms by (simp add: concat_row_bytes_def)
qed

section \<open>Verification of a specification\<close>

lemma check_spec_structure_Inr:
  "check_spec_structure spec n = Inr () \<longleftrightarrow>
     int (length (ds_unique_indices spec)) = ds_k spec \<and> length (ds_index_map spec) = n
     \<and> (\<forall>u\<in>set (ds_unique_indices spec). 0 \<le> u \<and> u < int n)
     \<and> (\<forall>s\<in>set (ds_index_map spec). 0 \<le> s \<and> s < ds_k spec)"
proof -
  have bounds: "\<not> (xs \<noteq> [] \<and> (Min (set xs) < 0 \<or> Max (set xs) \<ge> m)) \<longleftrightarrow> (\<forall>x\<in>set xs. 0 \<le> x \<and> x < m)"
    for xs :: "int list" and m
    by (cases "xs = []") (auto simp: not_less not_le)
  show ?thesis
    unfolding check_spec_structure_def Let_def bounds [symmetric] by auto
qed

lemma no_true_in_mask:
  "filter id (map (\<lambda>row. True \<in> set row) m) = [] \<longleftrightarrow> (\<forall>row\<in>set m. \<forall>v\<in>set row. \<not> v)"
  by (auto simp: filter_empty_conv)

text \<open>The canonical row of row \<open>i\<close>: \<open>unique_indices[index_map[i]]\<close>.\<close>

definition canonical_row :: "('x, 'y) dedup_spec \<Rightarrow> nat \<Rightarrow> nat" where
  "canonical_row spec i = nat (ds_unique_indices spec ! nat (ds_index_map spec ! i))"

lemma canonical_row_bound:
  assumes "check_spec_structure spec n = Inr ()" "i < n"
  shows "canonical_row spec i < n"
proof -
  from assms have s: "0 \<le> ds_index_map spec ! i" "ds_index_map spec ! i < ds_k spec"
    and k: "int (length (ds_unique_indices spec)) = ds_k spec"
    by (auto simp: check_spec_structure_Inr)
  then have "ds_unique_indices spec ! nat (ds_index_map spec ! i) \<in> set (ds_unique_indices spec)"
    using k by (intro nth_mem) linarith
  then show ?thesis
    using assms unfolding check_spec_structure_Inr canonical_row_def by fastforce
qed

lemma verify_dedup_spec_Inr:
  assumes "validate_batch_leaves leaves axis = Inr (ls, n)"
    "traverse_res (leaf_row_bytes ops (nat axis) n) ls = Inr bs"
  shows "is_ok (verify_dedup_spec ops spec leaves axis) \<longleftrightarrow>
     check_spec_structure spec n = Inr ()
     \<and> (\<forall>i<n. \<forall>b\<in>set bs. b ! i = b ! canonical_row spec i)"
proof (cases "check_spec_structure spec n = Inr ()")
  case True
  then have len: "length (ds_index_map spec) = n" by (simp add: check_spec_structure_Inr)
  let ?canon = "map (\<lambda>s. nat (ds_unique_indices spec ! nat s)) (ds_index_map spec)"
  have "?canon ! i = canonical_row spec i" if "i < n" for i
    using that len by (simp add: canonical_row_def)
  then have "(\<forall>row\<in>set (mismatch_mask n bs ?canon). \<forall>v\<in>set row. \<not> v)
      \<longleftrightarrow> (\<forall>i<n. \<forall>b\<in>set bs. b ! i = b ! canonical_row spec i)"
    by (auto simp: mismatch_mask_def)
  with True show ?thesis
    unfolding verify_dedup_spec_def assms bind_res_Inr prod.case
    by (simp add: assms Let_def no_true_in_mask) blast
next
  case False
  then show ?thesis
    by (cases "check_spec_structure spec n") (auto simp: verify_dedup_spec_def assms is_ok_iff res_simps)
qed

text \<open>
  The exact stage of synthesis returns, for any \<open>np.unique\<close> with its documented laws, the ascending first-occurrence positions
  of the distinct rows, as many as there are distinct rows, and an index map with one entry per
  row that uses every slot \<open>[0, k)\<close> and sends each row to a canonical row equal to it.
\<close>

theorem exact_stage_correct:
  assumes "row_unique np_unique" "length rows \<le> 2 ^ 31" "exact_stage np_unique rows = (ui, im, k)"
  shows "ui = map int (first_occurrences rows) \<and> length ui = k \<and> k = card (set rows)
    \<and> length im = length rows \<and> set im = {0..<int k}
    \<and> (\<forall>i<length rows. rows ! nat (ui ! nat (im ! i)) = rows ! i)"
proof -
  obtain ui' im' k' where pos: "exact_positions np_unique rows = (ui', im', k')"
    by (cases "exact_positions np_unique rows")
  from row_unique.exact_stage_positions [OF assms(1,2) pos] assms(3)
  have eq: "ui = map int ui'" "im = map int im'" "k = k'" by simp_all
  note uq = row_unique.exact_positions_unique_indices [OF assms(1) pos]
    and ix = row_unique.exact_positions_index_map [OF assms(1) pos]
  have "im' ! i < k'" if "i < length rows" for i
    using that ix(1,2) by (metis atLeastLessThan_iff nth_mem)
  moreover have "set im = {0..<int k}" by (simp add: eq ix(2) image_int_atLeastLessThan)
  ultimately show ?thesis using uq ix(1,3) by (simp add: eq)
qed

theorem exact_stage_correct_witness:
  "exact_stage sorted_unique [5, 2, 5, 9, 2::nat] = ([0, 1, 3], [0, 1, 0, 2, 1], 3)
    \<and> [0, 1, 3] = map int (first_occurrences [5, 2, 5, 9, 2::nat]) \<and> 3 = card (set [5, 2, 5, 9, 2::nat])"
proof -
  have run: "exact_stage sorted_unique [5, 2, 5, 9, 2::nat] = ([0, 1, 3], [0, 1, 0, 2, 1], 3)"
    by code_simp
  from exact_stage_correct [OF sorted_unique.row_unique_axioms _ run]
  have "[0, 1, 3] = map int (first_occurrences [5, 2, 5, 9, 2::nat])" "3 = card (set [5, 2, 5, 9, 2::nat])"
    by simp_all
  then show ?thesis using run by blast
qed

lemma leaf_of_bytes:
  assumes "traverse_res (leaf_row_bytes ops (nat axis) n) ls = Inr bs" "b \<in> set bs"
  shows "\<exists>l \<in> set ls. leaf_row_bytes ops (nat axis) n l = Inr b"
proof -
  have rel: "list_all2 (\<lambda>l b. leaf_row_bytes ops (nat axis) n l = Inr b) ls bs"
    using assms(1) by (simp add: res_simps)
  show ?thesis using list_all2_pick(2) [OF rel assms(2)] by blast
qed

lemma batch_rows_encode:
  assumes "native_bytes ops typed" "\<forall>l\<in>set leaves. leaf_wf l \<and> leaf_typed typed l"
    "validate_batch_leaves leaves axis = Inr (ls, n)" "l \<in> set ls" "leaf_row_bytes ops (nat axis) n l = Inr b" "i < n" "j < n"
  shows "length (b ! i) = length (b ! j)
    \<and> (b ! i = b ! j \<longrightarrow> leaf_rows (la_array (snd l)) (nat axis) n ! i = leaf_rows (la_array (snd l)) (nat axis) n ! j)"
proof -
  have "\<forall>l\<in>set leaves. leaf_wf l" using assms(2) by blast
  note wf = validate_batch_leaves_Inr [OF assms(3) this assms(4)]
  have "array_typed typed (snd l)"
    using validate_batch_leaves_array [OF assms(3,4)] assms(2) by (auto simp: leaf_typed_def)
  from leaf_row_bytes_encode [OF assms(1,5) this wf assms(6,7)] show ?thesis .
qed

lemma verified_rows_equal:
  assumes "native_bytes ops typed" "\<forall>l\<in>set leaves. leaf_wf l \<and> leaf_typed typed l"
    "validate_batch_leaves leaves axis = Inr (ls, n)"
    "traverse_res (leaf_row_bytes ops (nat axis) n) ls = Inr bs" "i < n" "j < n"
  shows "concat_row_bytes n bs ! i = concat_row_bytes n bs ! j \<longleftrightarrow> (\<forall>b\<in>set bs. b ! i = b ! j)"
proof (rule concat_row_bytes_eq [OF _ assms(5,6)], intro ballI)
  fix b assume "b \<in> set bs"
  then obtain l where l: "l \<in> set ls" "leaf_row_bytes ops (nat axis) n l = Inr b" using leaf_of_bytes [OF assms(4)] by blast
  from batch_rows_encode [OF assms(1-3) l assms(5,6)] show "length (b ! i) = length (b ! j)" ..
qed

lemma synthesize_dedup_spec_Some:
  assumes "synthesize_dedup_spec np_unique stride ops leaves axis threshold msr muk existing = Inr res"
    "sr_spec res = Some spec"
  obtains stacked n ui im k where "stack_batch_leaves ops leaves axis = Inr (stacked, n)"
    "exact_stage np_unique stacked = (ui, im, k)" "int k \<le> muk" "length im = n"
    "ds_unique_indices spec = ui" "ds_index_map spec = im" "ds_k spec = int k"
    "DedupSpec_post_init spec = Inr spec" "ds_dedup_fn spec = None" "ds_gather_fn spec = None"
proof -
  from assms(1) obtain stacked n ratio spent where
    stack: "stack_batch_leaves ops leaves axis = Inr (stacked, n)"
    and tail: "(if ratio < threshold then Inr \<lparr>sr_spec = None,
          sr_stage = (if ratio = 0 then NoDuplication else BelowThreshold), sr_sampled_ratio = ratio,
          sr_transfer_bytes_spent = spent, sr_k_bucket_bytes = 0\<rparr>
        else synthesize_exact np_unique stacked n ratio spent muk) = Inr res"
    unfolding synthesize_dedup_spec_def guard_eq_Inr bind_res_eq_Inr split_paired_Ex prod.case
    by blast
  from tail assms(2) have exact: "synthesize_exact np_unique stacked n ratio spent muk = Inr res"
    by (auto split: if_split_asm)
  obtain ui im k where ex: "exact_stage np_unique stacked = (ui, im, k)" by (cases "exact_stage np_unique stacked")
  let ?ds = "\<lparr>ds_axis_name = ''batch'', ds_unique_indices = ui, ds_index_map = im,
      ds_k = int k, ds_dedup_fn = None, ds_gather_fn = None\<rparr>"
  from exact assms(2) have "int k \<le> muk" "length im = n" "DedupSpec_post_init ?ds = Inr spec"
    unfolding synthesize_exact_def ex Let_def prod.case guard_eq_Inr
    by (auto simp: bind_res_eq_Inr split: if_split_asm)
  moreover from this(3) have "spec = ?ds" by (rule DedupSpec_post_init_Inr(1))
  ultimately have "int k \<le> muk \<and> length im = n \<and> ds_unique_indices spec = ui
      \<and> ds_index_map spec = im \<and> ds_k spec = int k
      \<and> DedupSpec_post_init spec = Inr spec \<and> ds_dedup_fn spec = None \<and> ds_gather_fn spec = None"
    by simp
  with stack ex that show thesis by blast
qed

lemma synthesize_verifies:
  assumes "row_unique np_unique" "native_bytes ops typed" "\<forall>l\<in>set leaves. leaf_wf l \<and> leaf_typed typed l"
    and "\<forall>rows n. stack_batch_leaves ops leaves axis = Inr (rows, n) \<longrightarrow> n \<le> 2 ^ 31"
    and "synthesize_dedup_spec np_unique stride ops leaves axis threshold msr muk existing = Inr res"
    and "sr_spec res = Some spec"
  shows "is_ok (verify_dedup_spec ops spec leaves axis)
    \<and> (\<exists>rows n. stack_batch_leaves ops leaves axis = Inr (rows, n)
        \<and> ds_k spec = int (card (set rows)) \<and> ds_k spec \<le> muk)"
proof -
  obtain stacked n ui im k where st: "stack_batch_leaves ops leaves axis = Inr (stacked, n)"
    and ex: "exact_stage np_unique stacked = (ui, im, k)" and le: "int k \<le> muk"
    and sp: "ds_unique_indices spec = ui" "ds_index_map spec = im" "ds_k spec = int k"
    using synthesize_dedup_spec_Some [OF assms(5,6)] by metis
  from st obtain ls bs where v: "validate_batch_leaves leaves axis = Inr (ls, n)"
    and bs: "traverse_res (leaf_row_bytes ops (nat axis) n) ls = Inr bs"
    and rows: "stacked = concat_row_bytes n bs"
    by (auto simp: stack_batch_leaves_def bind_res_eq_Inr)
  have n: "length stacked = n" by (simp add: rows concat_row_bytes_def)
  have "length stacked \<le> 2 ^ 31" using assms(4) st n by blast
  note es = exact_stage_correct [OF assms(1) this ex]
  then have uq: "ui = map int (first_occurrences stacked)" "length ui = k" "k = card (set stacked)"
    and im: "length im = n" "set im = {0..<int k}" "\<And>i. i < n \<Longrightarrow> stacked ! nat (ui ! nat (im ! i)) = stacked ! i"
    using n by blast+
  have ui: "\<forall>u\<in>set ui. 0 \<le> u \<and> u < int n" by (auto simp: uq(1) first_occurrences_def n)
  have struct: "check_spec_structure spec n = Inr ()"
    using ui im(1,2) uq(2) n by (auto simp: check_spec_structure_Inr sp)
  have "b ! i = b ! canonical_row spec i" if "i < n" "b \<in> set bs" for i b
  proof -
    have "canonical_row spec i = nat (ui ! nat (im ! i))" by (simp add: canonical_row_def sp)
    moreover have "canonical_row spec i < n" by (rule canonical_row_bound [OF struct that(1)])
    ultimately show ?thesis
      using verified_rows_equal [OF assms(2,3) v bs] im(3) [of i] that n rows by metis
  qed
  with verify_dedup_spec_Inr [OF v bs] struct st sp(3) uq(3) le show ?thesis by auto
qed

lemma verify_sound:
  assumes "native_bytes ops typed" "\<forall>l\<in>set leaves. leaf_wf l \<and> leaf_typed typed l" "verify_dedup_spec ops spec leaves axis = Inr vr"
  shows "\<exists>ls. validate_batch_leaves leaves axis = Inr (ls, vr_n_rows vr)
    \<and> (\<forall>l\<in>set ls. \<forall>i<vr_n_rows vr. canonical_row spec i < vr_n_rows vr
        \<and> leaf_rows (la_array (snd l)) (nat axis) (vr_n_rows vr) ! i
          = leaf_rows (la_array (snd l)) (nat axis) (vr_n_rows vr) ! canonical_row spec i)"
proof -
  from assms(3) obtain ls n bs where v: "validate_batch_leaves leaves axis = Inr (ls, n)"
    and bs: "traverse_res (leaf_row_bytes ops (nat axis) n) ls = Inr bs"
    and struct: "check_spec_structure spec n = Inr ()" and n: "vr_n_rows vr = n"
    by (auto simp: verify_dedup_spec_def bind_res_eq_Inr Let_def split: if_splits)
  note canon = canonical_row_bound [OF struct]
  have eq: "b ! i = b ! canonical_row spec i" if "i < n" "b \<in> set bs" for i b
    using verify_dedup_spec_Inr [OF v bs] assms(3) that by (auto simp: is_ok_iff)
  have "leaf_rows (la_array (snd l)) (nat axis) n ! i = leaf_rows (la_array (snd l)) (nat axis) n ! canonical_row spec i"
    if l: "l \<in> set ls" and i: "i < n" for l i
  proof -
    obtain b where b: "b \<in> set bs" "leaf_row_bytes ops (nat axis) n l = Inr b"
      using list_all2_pick(1) [OF _ l] bs by (auto simp: res_simps)
    from batch_rows_encode [OF assms(1,2) v l b(2) i canon [OF i]] eq [OF i b(1)] show ?thesis by blast
  qed
  with v n canon show ?thesis by auto
qed

text \<open>
  C31. A synthesised specification passes its own verification: whenever \<open>synthesize_dedup_spec\<close>
  produces a spec, \<open>verify_dedup_spec\<close> on the same leaves succeeds, reports the spec's \<open>k\<close>, and
  that \<open>k\<close> is the number of distinct rows and at most \<open>max_unique_k\<close>.
\<close>

theorem synthesized_spec_verifies:
  assumes "row_unique np_unique" "native_bytes ops typed" "\<forall>l\<in>set leaves. leaf_wf l \<and> leaf_typed typed l"
    and "\<forall>rows n. stack_batch_leaves ops leaves axis = Inr (rows, n) \<longrightarrow> n \<le> 2 ^ 31"
    and "synthesize_dedup_spec np_unique stride ops leaves axis threshold msr muk existing = Inr res"
    and "sr_spec res = Some spec"
  shows "is_ok (verify_dedup_spec ops spec leaves axis)
    \<and> (\<exists>rows n. stack_batch_leaves ops leaves axis = Inr (rows, n)
        \<and> ds_k spec = int (card (set rows)) \<and> ds_k spec \<le> muk)"
  using synthesize_verifies [OF assms] .

text \<open>
  Soundness of verification: when it succeeds, every row of
  every leaf equals, element by element, the canonical row the specification assigns to it.
\<close>

theorem verify_dedup_spec_sound:
  assumes "native_bytes ops typed" "\<forall>l\<in>set leaves. leaf_wf l \<and> leaf_typed typed l" "verify_dedup_spec ops spec leaves axis = Inr vr"
  shows "\<exists>ls. validate_batch_leaves leaves axis = Inr (ls, vr_n_rows vr)
    \<and> (\<forall>l\<in>set ls. \<forall>i<vr_n_rows vr. canonical_row spec i < vr_n_rows vr
        \<and> leaf_rows (la_array (snd l)) (nat axis) (vr_n_rows vr) ! i
          = leaf_rows (la_array (snd l)) (nat axis) (vr_n_rows vr) ! canonical_row spec i)"
  using verify_sound [OF assms] .

section \<open>Merging\<close>

lemma merge_mapping_spec:
  "distinct (map fst r) \<Longrightarrow>
    (if distinct (map fst (r @ m)) then merge_mapping r m = Inr (r @ m)
     else \<exists>a. merge_mapping r m = Inl (Exn DedupSpecCollisionError ''axis_name appears in multiple spec mappings'' [ArgStr a]))"
proof (induction r m rule: merge_mapping.induct)
  case (2 r a sp m)
  then show ?case by (cases "a \<in> fst ` set r") (auto split: if_splits)
qed simp

lemma merge_from_spec:
  "distinct (map fst r) \<Longrightarrow> all = r @ concat (map (\<lambda>m. case m of None \<Rightarrow> [] | Some d \<Rightarrow> d) ms) \<Longrightarrow>
    (if distinct (map fst all) then merge_dedup_specs_from r ms = Inr all
     else \<exists>a. merge_dedup_specs_from r ms = Inl (Exn DedupSpecCollisionError ''axis_name appears in multiple spec mappings'' [ArgStr a]))"
proof (induction r ms arbitrary: all rule: merge_dedup_specs_from.induct)
  case (3 r m ms)
  show ?case
  proof (cases "distinct (map fst (r @ m))")
    case True
    with merge_mapping_spec [OF "3.prems"(1), of m] have "merge_mapping r m = Inr (r @ m)" by simp
    with "3.IH" [OF this True, of all] "3.prems" show ?thesis by simp
  next
    case False
    with merge_mapping_spec [OF "3.prems"(1), of m] obtain a where
      "merge_mapping r m = Inl (Exn DedupSpecCollisionError ''axis_name appears in multiple spec mappings'' [ArgStr a])"
      by metis
    moreover have "\<not> distinct (map fst all)" using False "3.prems"(2) by auto
    ultimately show ?thesis by simp
  qed
qed simp_all

text \<open>
  \<open>merge_dedup_specs\<close> returns the concatenation of the mappings in order exactly when no axis
  name occurs twice over all of them, and otherwise raises \<open>DedupSpecCollisionError\<close> naming an axis.
\<close>

theorem merge_dedup_specs_correct:
  "let all = concat (map (\<lambda>m. case m of None \<Rightarrow> [] | Some d \<Rightarrow> d) ms) in
   if distinct (map fst all) then merge_dedup_specs ms = Inr all
   else \<exists>a. merge_dedup_specs ms
     = Inl (Exn DedupSpecCollisionError ''axis_name appears in multiple spec mappings'' [ArgStr a])"
  unfolding Let_def merge_dedup_specs_def by (rule merge_from_spec) simp_all

section \<open>Concrete instances\<close>

text \<open>Elements that are their own bytes, as many as their dtype has; a complex element is its real half and its imaginary half.\<close>

fun byte_width :: "dtype \<Rightarrow> nat" where
  "byte_width (ComplexT bits) = 2 * (bits div 2 div 8)"
| "byte_width (IntT bits) = max 1 (bits div 8)"
| "byte_width (UIntT bits) = max 1 (bits div 8)"
| "byte_width (FloatT bits) = bits div 8"
| "byte_width _ = 1"

definition byte_typed :: "dtype \<Rightarrow> bytes \<Rightarrow> bool" where
  "byte_typed dt e = (length e = byte_width dt)"

definition raw_bytes :: "bytes byte_ops" where
  "raw_bytes = \<lparr>bo_bitcast = (\<lambda>dt e. Inr e), bo_view = (\<lambda>dt e. Inr e), bo_astype = (\<lambda>dt dt' e. e),
     bo_real = (\<lambda>e. take (length e div 2) e), bo_imag = (\<lambda>e. drop (length e div 2) e)\<rparr>"

interpretation raw_bytes: native_bytes raw_bytes byte_typed
proof
  fix b :: nat and x y :: bytes
  assume "bo_real raw_bytes x = bo_real raw_bytes y" "bo_imag raw_bytes x = bo_imag raw_bytes y"
  then have "take (length x div 2) x @ drop (length x div 2) x = take (length y div 2) y @ drop (length y div 2) y"
    by (simp add: raw_bytes_def)
  then show "x = y" by simp
qed (auto simp: raw_bytes_def byte_typed_def widens_def split: dtype.splits)

definition every_row :: "nat \<Rightarrow> nat \<Rightarrow> nat list" where
  "every_row n c = [0..<n]"

text \<open>Leaves of one byte, of four and of eight bytes per element.\<close>

definition pair_leaves :: "bytes leaf list" where
  "pair_leaves =
     [NpLeaf \<lparr>la_array = \<lparr>nd_shape = [4], nd_data = [[7], [3], [7], [7]]\<rparr>, la_dtype = IntT 4\<rparr>,
      JaxLeaf \<lparr>la_array = \<lparr>nd_shape = [4, 1], nd_data = [[6, 0, 0, 2], [5, 0, 0, 5], [6, 0, 0, 2], [6, 0, 0, 2]]\<rparr>, la_dtype = IntT 32\<rparr>,
      JaxLeaf \<lparr>la_array = \<lparr>nd_shape = [4], nd_data = replicate 4 [1, 2, 3, 4, 5, 6, 7, 8]\<rparr>, la_dtype = ComplexT 64\<rparr>]"

definition pair_rows :: "bytes list" where
  "pair_rows = [[7, 6, 0, 0, 2, 1, 2, 3, 4, 5, 6, 7, 8], [3, 5, 0, 0, 5, 1, 2, 3, 4, 5, 6, 7, 8],
     [7, 6, 0, 0, 2, 1, 2, 3, 4, 5, 6, 7, 8], [7, 6, 0, 0, 2, 1, 2, 3, 4, 5, 6, 7, 8]]"

definition pair_spec :: "('x, 'y) dedup_spec" where
  "pair_spec = \<lparr>ds_axis_name = ''batch'', ds_unique_indices = [0, 1], ds_index_map = [0, 1, 0, 0],
     ds_k = 2, ds_dedup_fn = None, ds_gather_fn = None\<rparr>"

definition pair_result :: "('x, 'y) synthesis_result" where
  "pair_result = \<lparr>sr_spec = Some pair_spec, sr_stage = Synthesized, sr_sampled_ratio = 1/2,
     sr_transfer_bytes_spent = 104, sr_k_bucket_bytes = 26\<rparr>"

lemma pair_leaves_wf: "\<forall>l\<in>set pair_leaves. leaf_wf l \<and> leaf_typed byte_typed l"
  by (simp add: pair_leaves_def nd_wf_def leaf_wf_def leaf_typed_def array_typed_def byte_typed_def)

lemma pair_stages:
  "stack_batch_leaves raw_bytes pair_leaves 0 = Inr (pair_rows, 4)"
  "sample_stage sorted_unique every_row pair_rows 4 4096 = Inr (1/2, 52)"
  "exact_stage sorted_unique pair_rows = ([0, 1], [0, 1, 0, 0], 2)"
  "get_k_bucket 2 = Inr 2" "element_width_bytes pair_rows = 13"
  by code_simp+

lemma pair_small: "\<forall>rows n. stack_batch_leaves raw_bytes pair_leaves 0 = Inr (rows, n) \<longrightarrow> n \<le> 2 ^ 31"
  by (simp add: pair_stages)

lemma pair_synthesized:
  "synthesize_dedup_spec sorted_unique every_row raw_bytes pair_leaves 0 (1/2) 4096 256 None = Inr pair_result"
  by (simp add: synthesize_dedup_spec_def synthesize_exact_def pair_stages pair_result_def pair_spec_def
      DedupSpec_post_init_def, simp add: pair_leaves_def)

theorem synthesized_spec_verifies_witness:
  "is_ok (verify_dedup_spec raw_bytes (pair_spec :: (nat, nat) dedup_spec) pair_leaves 0)
    \<and> (\<exists>rows n. stack_batch_leaves raw_bytes pair_leaves 0 = Inr (rows, n)
        \<and> ds_k (pair_spec :: (nat, nat) dedup_spec) = int (card (set rows))
        \<and> ds_k (pair_spec :: (nat, nat) dedup_spec) \<le> 256)"
  by (rule synthesized_spec_verifies [OF sorted_unique.row_unique_axioms raw_bytes.native_bytes_axioms
        pair_leaves_wf pair_small pair_synthesized]) (simp add: pair_result_def)

theorem verify_dedup_spec_sound_witness:
  "verify_dedup_spec raw_bytes (pair_spec :: (nat, nat) dedup_spec) pair_leaves 0
     = Inr \<lparr>vr_n_rows = 4, vr_k = 2, vr_transfer_bytes_spent = 12\<rparr>
   \<and> (\<exists>ls. validate_batch_leaves pair_leaves 0 = Inr (ls, 4)
       \<and> leaf_rows (la_array (snd (hd ls))) 0 4 ! 3
         = leaf_rows (la_array (snd (hd ls))) 0 4 ! canonical_row (pair_spec :: (nat, nat) dedup_spec) 3)"
proof -
  have run: "verify_dedup_spec raw_bytes (pair_spec :: (nat, nat) dedup_spec) pair_leaves 0
     = Inr \<lparr>vr_n_rows = 4, vr_k = 2, vr_transfer_bytes_spent = 12\<rparr>"
    by code_simp
  from verify_dedup_spec_sound [OF raw_bytes.native_bytes_axioms pair_leaves_wf run] obtain ls where
    ls: "validate_batch_leaves pair_leaves 0 = Inr (ls, 4)"
    and eq: "\<forall>l\<in>set ls. \<forall>i<4. leaf_rows (la_array (snd l)) 0 4 ! i
       = leaf_rows (la_array (snd l)) 0 4 ! canonical_row (pair_spec :: (nat, nat) dedup_spec) i"
    by auto
  have "map fst (fst (projr (validate_batch_leaves pair_leaves 0))) = [OnHost, OnDevice, OnDevice]" by code_simp
  then have "ls \<noteq> []" using ls by auto
  with ls eq run show ?thesis by auto
qed

end
