(* ===== verification/Tiling_Transforms.thy ===== *)
theory Tiling_Transforms
  imports Xtrax_Prelude
begin

text \<open>
  The mapping primitives the tiling layer dispatches to: \<open>chunked_map\<close> of
  \<open>src/src/xtrax/transforms/map.py\<close> and \<open>safe_scan\<close> of \<open>src/src/xtrax/transforms/scan.py\<close>.

  A pytree of arrays that share a leading axis is the list of its elements along that axis. One
  output of the mapped function is the list of its array leaves (\<open>'v tree\<close>), each with its static
  structure (shape, dtype) and its data in row-major order. \<open>jax.vmap\<close>, \<open>jax.lax.map\<close> and
  \<open>jax.eval_shape\<close> are the fields of \<open>jax_maps\<close>; the locale \<open>jax_map_laws\<close> states what is relied
  on. Its laws are deliberately silent where the code says that JAX misbehaves: a \<open>vmap\<close> over a
  length-1 axis (issue 2520), a batched \<open>lax.map\<close> with a chunk of length 1, and a batched
  \<open>lax.map\<close> whose function has a zero-size output leaf (issue 6151). That \<open>chunked_map\<close> is
  nevertheless the plain map shows that it never reaches one of these cases.
\<close>

section \<open>Model\<close>

record leaf_struct =
  ls_shape :: "nat list"
  ls_dtype :: string
  ls_extended :: bool

record 'v out_leaf =
  ol_struct :: leaf_struct
  ol_data :: "'v list"

type_synonym 'v tree = "'v out_leaf list"

record ('x, 'v) jax_maps =
  jx_vmap :: "('x \<Rightarrow> 'v tree) \<Rightarrow> 'x list \<Rightarrow> 'v tree list res"
  jx_lax_map :: "('x \<Rightarrow> 'v tree) \<Rightarrow> 'x list \<Rightarrow> int option \<Rightarrow> 'v tree list res"
  jx_eval_shape :: "('x \<Rightarrow> 'v tree) \<Rightarrow> 'x list \<Rightarrow> leaf_struct list res"

text \<open>
  \<open>_is_size1_axis\<close>: the leaves by their shapes, the per-leaf axes as \<open>_broadcast_axes\<close> gives
  them (an \<open>Inl\<close> when the tree prefix does not match).
\<close>

definition py_index :: "'a list \<Rightarrow> int \<Rightarrow> 'a res" where
  "py_index xs i =
     (if - int (length xs) \<le> i \<and> i < int (length xs)
      then Inr (xs ! nat (if i < 0 then i + int (length xs) else i))
      else Inl (Exn IndexError ''index out of range'' [ArgInt i]))"

definition is_size1_axis :: "nat list list \<Rightarrow> int option list res \<Rightarrow> bool" where
  "is_size1_axis leaves axes_res =
     (if leaves = [] then False
      else case axes_res of
        Inl _ \<Rightarrow> False
      | Inr axes \<Rightarrow>
          if length axes \<noteq> length leaves then False
          else let mapped = [(shape, the ax). (shape, ax) \<leftarrow> zip leaves axes, ax \<noteq> None]
               in mapped \<noteq> [] \<and> list_all (\<lambda>(shape, ax). py_index shape ax = Inr 1) mapped)"

text \<open>\<open>_apply_size1\<close> on the only element of a length-1 axis: no \<open>vmap\<close>.\<close>

definition apply_size1 :: "('x \<Rightarrow> 'y) \<Rightarrow> 'x list \<Rightarrow> 'y list" where
  "apply_size1 fn xs = [fn (hd xs)]"

definition zero_size :: "leaf_struct \<Rightarrow> bool" where
  "zero_size s \<longleftrightarrow> prod_list (ls_shape s) = 0"

definition split_zero_size_outputs ::
  "('x, 'v) jax_maps \<Rightarrow> ('x \<Rightarrow> 'v tree) \<Rightarrow> 'x list \<Rightarrow> (leaf_struct list \<times> nat list) option res"
where
  "split_zero_size_outputs J fn xs =
     bind_res (jx_eval_shape J fn xs) (\<lambda>flat.
       let empties = filter (\<lambda>i. zero_size (flat ! i)) [0..<length flat]
       in Inr (if empties = [] \<or> (\<exists>i\<in>set empties. ls_extended (flat ! i)) then None
               else Some (flat, empties)))"

text \<open>\<open>leaves[i] = y\<close> for the kept leaves, then \<open>jnp.zeros\<close> for the empty ones.\<close>

definition zeros_leaf :: "'v \<Rightarrow> leaf_struct \<Rightarrow> 'v out_leaf" where
  "zeros_leaf z s = \<lparr>ol_struct = s, ol_data = replicate (prod_list (ls_shape s)) z\<rparr>"

definition rebuild_leaves :: "'v \<Rightarrow> leaf_struct list \<Rightarrow> nat list \<Rightarrow> nat list \<Rightarrow> 'v tree \<Rightarrow> 'v tree" where
  "rebuild_leaves z flat_struct kept empties y =
     map (\<lambda>i. if i \<in> set empties then zeros_leaf z (flat_struct ! i)
              else y ! length (takeWhile (\<lambda>k. k \<noteq> i) kept))
       [0..<length flat_struct]"

definition keep_nonempty :: "('x \<Rightarrow> 'v tree) \<Rightarrow> nat list \<Rightarrow> 'x \<Rightarrow> 'v tree" where
  "keep_nonempty fn kept x = map (\<lambda>i. fn x ! i) kept"

text \<open>
  \<open>chunked_map\<close> and \<open>_chunked_map_without_zero_size\<close> call each other; the first argument bounds the
  depth of that recursion and running out of it is Python's \<open>RecursionError\<close>. When only empty leaves
  are left, the kept outputs are an empty list of leaves for each of the \<open>n\<close> elements.
\<close>

fun chunked_map_rec ::
  "nat \<Rightarrow> ('x, 'v) jax_maps \<Rightarrow> 'v \<Rightarrow> ('x \<Rightarrow> 'v tree) \<Rightarrow> 'x list \<Rightarrow> int option \<Rightarrow> 'v tree list res"
and chunked_map_without_zero_size ::
  "nat \<Rightarrow> ('x, 'v) jax_maps \<Rightarrow> 'v \<Rightarrow> ('x \<Rightarrow> 'v tree) \<Rightarrow> 'x list \<Rightarrow> int \<Rightarrow> leaf_struct list \<Rightarrow> nat list
     \<Rightarrow> 'v tree list res"
where
  "chunked_map_rec 0 J z fn xs batch_size = Inl (Exn (OtherError ''RecursionError'') ''maximum recursion depth exceeded'' [])"
| "chunked_map_rec (Suc d) J z fn xs batch_size =
     (let n = int (length xs) in
      if n = 1 then Inr (apply_size1 fn xs)
      else case batch_size of
        None \<Rightarrow> jx_vmap J fn xs
      | Some b \<Rightarrow>
          if n \<le> b then jx_vmap J fn xs
          else bind_res (split_zero_size_outputs J fn xs) (\<lambda>split.
            case split of
              Some (out_struct, empties) \<Rightarrow> chunked_map_without_zero_size d J z fn xs b out_struct empties
            | None \<Rightarrow>
                if b = 1 then jx_lax_map J fn xs None
                else if b > 1 \<and> n mod b = 1 then
                  bind_res (jx_lax_map J fn (butlast xs) (Some b)) (\<lambda>prefix_ys.
                    Inr (prefix_ys @ apply_size1 fn [last xs]))
                else jx_lax_map J fn xs (Some b)))"
| "chunked_map_without_zero_size d J z fn xs b flat_struct empties =
     (let kept = filter (\<lambda>i. i \<notin> set empties) [0..<length flat_struct]
      in bind_res
           (if kept \<noteq> [] then chunked_map_rec d J z (keep_nonempty fn kept) xs (Some b)
            else Inr (map (\<lambda>_. []) xs)) (\<lambda>kept_ys.
           Inr (map (rebuild_leaves z flat_struct kept empties) kept_ys)))"

definition chunked_map ::
  "('x, 'v) jax_maps \<Rightarrow> 'v \<Rightarrow> ('x \<Rightarrow> 'v tree) \<Rightarrow> 'x list \<Rightarrow> int option \<Rightarrow> 'v tree list res"
where
  "chunked_map J z fn xs batch_size = chunked_map_rec 2 J z fn xs batch_size"

text \<open>
  \<open>safe_scan\<close>: \<open>xs = None\<close> is a pytree without leaves. \<open>jax.lax.scan\<close> is the argument \<open>scan\<close>, called
  with the transition, the initial carry, the inputs, the length, the direction and the unroll factor.
\<close>

type_synonym ('c, 'x, 'y) lax_scan =
  "('c \<Rightarrow> 'x \<Rightarrow> 'c \<times> 'y) \<Rightarrow> 'c \<Rightarrow> 'x list option \<Rightarrow> int option \<Rightarrow> bool \<Rightarrow> int \<Rightarrow> ('c \<times> 'y list) res"

definition safe_scan ::
  "('c, 'x, 'y) lax_scan \<Rightarrow> ('c \<Rightarrow> 'x \<Rightarrow> 'c \<times> 'y) \<Rightarrow> 'c \<Rightarrow> 'x list option \<Rightarrow> int option \<Rightarrow> bool \<Rightarrow> int
     \<Rightarrow> ('c \<times> 'y list) res"
where
  "safe_scan scan fn init xs len reverse unroll =
     (let effective_length =
        (case len of
           Some l \<Rightarrow> l
         | None \<Rightarrow> (case xs of None \<Rightarrow> 0 | Some ys \<Rightarrow> int (length ys)))
      in if effective_length = 0
         then Inl (Exn ValueError ''safe_scan: xs has leading axis of length 0.'' [])
         else scan fn init xs len reverse unroll)"

section \<open>What is relied on from JAX\<close>

definition leaf_ok :: "'v out_leaf \<Rightarrow> bool" where
  "leaf_ok l \<longleftrightarrow> length (ol_data l) = prod_list (ls_shape (ol_struct l))"

text \<open>A traceable function: every element's output has the same structure, and its data fits it.\<close>

definition traces :: "('x \<Rightarrow> 'v tree) \<Rightarrow> 'x list \<Rightarrow> leaf_struct list \<Rightarrow> bool" where
  "traces fn xs st \<longleftrightarrow> (\<forall>x\<in>set xs. map ol_struct (fn x) = st \<and> list_all leaf_ok (fn x))"

locale jax_map_laws =
  fixes J :: "('x, 'v) jax_maps"
  assumes vmap: "traces fn xs st \<Longrightarrow> length xs \<noteq> 1 \<Longrightarrow> jx_vmap J fn xs = Inr (map fn xs)"
    and lax_map_sequential: "traces fn xs st \<Longrightarrow> jx_lax_map J fn xs None = Inr (map fn xs)"
    and lax_map_batched: "traces fn xs st \<Longrightarrow> \<forall>s\<in>set st. \<not> zero_size s \<Longrightarrow> 1 < b
      \<Longrightarrow> int (length xs) mod b \<noteq> 1 \<Longrightarrow> jx_lax_map J fn xs (Some b) = Inr (map fn xs)"
    and eval_shape: "traces fn xs st \<Longrightarrow> xs \<noteq> [] \<Longrightarrow> jx_eval_shape J fn xs = Inr st"

text \<open>The reference semantics satisfies the laws.\<close>

definition reference_jax :: "('x, 'v) jax_maps" where
  "reference_jax =
     \<lparr>jx_vmap = (\<lambda>fn xs. Inr (map fn xs)),
      jx_lax_map = (\<lambda>fn xs b. Inr (map fn xs)),
      jx_eval_shape = (\<lambda>fn xs. Inr (map ol_struct (fn (hd xs))))\<rparr>"

interpretation reference_jax: jax_map_laws reference_jax
  by unfold_locales (auto simp: reference_jax_def traces_def neq_Nil_conv)

section \<open>Chunked mapping is mapping\<close>

lemma position_in_filter:
  assumes "i < n" "P i"
  shows "length (takeWhile (\<lambda>k. k \<noteq> i) (filter P [0..<n])) < length (filter P [0..<n])"
    "filter P [0..<n] ! length (takeWhile (\<lambda>k. k \<noteq> i) (filter P [0..<n])) = i"
  using length_takeWhile_neq(1,2) [of i "filter P [0..<n]"] assms by auto

lemma rebuild_keep:
  assumes "map ol_struct (fn x) = st" "list_all leaf_ok (fn x)"
    "empties = filter (\<lambda>i. zero_size (st ! i)) [0..<length st]"
    "kept = filter (\<lambda>i. i \<notin> set empties) [0..<length st]"
  shows "rebuild_leaves z st kept empties (keep_nonempty fn kept x) = fn x"
proof (rule nth_equalityI)
  have len: "length (fn x) = length st" using assms(1) by (metis length_map)
  then show "length (rebuild_leaves z st kept empties (keep_nonempty fn kept x)) = length (fn x)"
    by (simp add: rebuild_leaves_def)
  fix i assume "i < length (rebuild_leaves z st kept empties (keep_nonempty fn kept x))"
  then have i: "i < length st" by (simp add: rebuild_leaves_def)
  have st: "ol_struct (fn x ! i) = st ! i" using assms(1) i len by (metis nth_map)
  show "rebuild_leaves z st kept empties (keep_nonempty fn kept x) ! i = fn x ! i"
  proof (cases "zero_size (st ! i)")
    case True
    have "leaf_ok (fn x ! i)" using assms(2) i len by (simp add: list_all_length)
    then have "ol_data (fn x ! i) = []" using True st by (simp add: leaf_ok_def zero_size_def)
    then have "fn x ! i = zeros_leaf z (st ! i)"
      using True st by (simp add: zeros_leaf_def zero_size_def)
    then show ?thesis using True i assms(3) by (simp add: rebuild_leaves_def)
  next
    case False
    then have "i \<notin> set empties" using assms(3) by auto
    with i position_in_filter [of i "length st" "\<lambda>i. i \<notin> set empties"] show ?thesis
      unfolding assms(4) by (simp add: rebuild_leaves_def keep_nonempty_def)
  qed
qed

lemma traces_keep:
  assumes "traces fn xs st" "\<forall>i\<in>set kept. i < length st"
  shows "traces (keep_nonempty fn kept) xs (map (\<lambda>i. st ! i) kept)"
  unfolding traces_def keep_nonempty_def
proof (intro ballI conjI)
  fix x assume "x \<in> set xs"
  then have st: "map ol_struct (fn x) = st" "list_all leaf_ok (fn x)" using assms(1) by (auto simp: traces_def)
  then have len: "length (fn x) = length st" by (metis length_map)
  show "map ol_struct (map ((!) (fn x)) kept) = map ((!) st) kept"
    using st(1) len assms(2) by (auto simp flip: st(1))
  show "list_all leaf_ok (map ((!) (fn x)) kept)"
    using st(2) len assms(2) by (auto simp: list_all_length list_all_iff)
qed

lemma split_zero_size_outputs_None:
  assumes "\<forall>s\<in>set st. \<not> zero_size s" "jx_eval_shape J fn xs = Inr st"
  shows "split_zero_size_outputs J fn xs = Inr None"
  using assms by (simp add: split_zero_size_outputs_def)

context jax_map_laws
begin

lemma chunked_map_no_empty:
  assumes "traces fn xs st" "\<forall>s\<in>set st. \<not> zero_size s" "bs = None \<or> (\<exists>b\<ge>1. bs = Some b)"
  shows "chunked_map_rec (Suc d) J z fn xs bs = Inr (map fn xs)"
proof (cases "length xs = 1 \<or> bs = None \<or> int (length xs) \<le> the bs")
  case True
  then show ?thesis
    using vmap [OF assms(1)] assms(3)
    by (cases xs) (auto simp: apply_size1_def Let_def split: option.splits)
next
  case False
  then obtain b where b: "bs = Some b" "1 \<le> b" "b < int (length xs)" "length xs \<noteq> 1"
    using assms(3) by auto
  then have ne: "xs \<noteq> []" by auto
  have split: "split_zero_size_outputs J fn xs = Inr None"
    using split_zero_size_outputs_None [OF assms(2) eval_shape [OF assms(1) ne]] .
  show ?thesis
  proof (cases "b > 1 \<and> int (length xs) mod b = 1")
    case True
    have tr: "traces fn (butlast xs) st" using assms(1) by (auto simp: traces_def dest: in_set_butlastD)
    have "int (length (butlast xs)) mod b = 0"
    proof -
      have "(int (length xs) - 1) mod b = (int (length xs) mod b - 1) mod b" by (simp add: mod_diff_left_eq)
      then show ?thesis using True ne by (simp add: of_nat_diff Suc_leI)
    qed
    with lax_map_batched [OF tr assms(2), of b] True
    have "jx_lax_map J fn (butlast xs) (Some b) = Inr (map fn (butlast xs))" by simp
    moreover have "map fn (butlast xs) @ [fn (last xs)] = map fn xs"
      using ne by (induction xs) auto
    ultimately show ?thesis using True b split ne by (simp add: Let_def apply_size1_def)
  next
    case False
    then show ?thesis
      using b split lax_map_batched [OF assms(1,2), of b] lax_map_sequential [OF assms(1)]
      by (cases "b = 1") (auto simp: Let_def)
  qed
qed

lemma chunked_map_correct:
  assumes tr: "traces fn xs st" and ext: "\<forall>s\<in>set st. zero_size s \<longrightarrow> \<not> ls_extended s"
    and bs: "bs = None \<or> (\<exists>b\<ge>1. bs = Some b)"
  shows "chunked_map J z fn xs bs = Inr (map fn xs)"
proof -
  define empties where "empties = filter (\<lambda>i. zero_size (st ! i)) [0..<length st]"
  define kept where "kept = filter (\<lambda>i. i \<notin> set empties) [0..<length st]"
  have rebuild: "map (rebuild_leaves z st kept empties) (map (keep_nonempty fn kept) xs) = map fn xs"
    using tr rebuild_keep [OF _ _ empties_def kept_def, of fn _ z] by (simp add: traces_def)
  have kept_tr: "traces (keep_nonempty fn kept) xs (map (\<lambda>i. st ! i) kept)"
    using traces_keep [OF tr] by (simp add: kept_def)
  have kept_ne: "\<forall>s\<in>set (map (\<lambda>i. st ! i) kept). \<not> zero_size s"
    by (auto simp: kept_def empties_def)
  show ?thesis
  proof (cases "length xs = 1 \<or> bs = None \<or> int (length xs) \<le> the bs \<or> empties = []")
    case True
    moreover have "\<forall>s\<in>set st. \<not> zero_size s" if "empties = []"
      using that by (auto simp: empties_def filter_empty_conv in_set_conv_nth)
    ultimately show ?thesis
      using vmap [OF tr] bs chunked_map_no_empty [OF tr _ bs, of 1 z]
      by (cases xs) (auto simp: chunked_map_def numeral_2_eq_2 apply_size1_def Let_def split: option.splits)
  next
    case False
    then obtain b where b: "bs = Some b" "1 \<le> b" "b < int (length xs)" "int (length xs) \<noteq> 1"
      using bs by auto
    then have ne: "xs \<noteq> []" by auto
    have "\<not> (\<exists>i\<in>set empties. ls_extended (st ! i))" using ext by (auto simp: empties_def)
    then have split: "split_zero_size_outputs J fn xs = Inr (Some (st, empties))"
      using False eval_shape [OF tr ne]
      unfolding split_zero_size_outputs_def by (simp only: bind_res_Inr Let_def empties_def [symmetric]) simp
    have "chunked_map_without_zero_size 1 J z fn xs b st empties = Inr (map fn xs)"
      using chunked_map_no_empty [OF kept_tr kept_ne, of "Some b" 0 z] b(2) rebuild
      by (auto simp: Let_def keep_nonempty_def simp flip: kept_def)
    then show ?thesis using b split by (simp add: chunked_map_def numeral_2_eq_2 Let_def)
  qed
qed

end

text \<open>
  A JAX with exactly the faults the code works around also satisfies the laws: a length-1 \<open>vmap\<close>,
  a length-1 chunk and a zero-size leaf in a batched \<open>lax.map\<close> all fail.
\<close>

definition faulty_jax :: "('x, 'v) jax_maps" where
  "faulty_jax =
     \<lparr>jx_vmap = (\<lambda>fn xs. if length xs = 1 then Inl (Exn RuntimeError ''miscompiled vmap of 1'' [])
                    else Inr (map fn xs)),
      jx_lax_map = (\<lambda>fn xs b. case b of
          None \<Rightarrow> Inr (map fn xs)
        | Some c \<Rightarrow>
            if c \<le> 1 \<or> int (length xs) mod c = 1
               \<or> list_ex (\<lambda>x. list_ex (\<lambda>l. zero_size (ol_struct l)) (fn x)) xs
            then Inl (Exn RuntimeError ''miscompiled lax.map chunk'' [])
            else Inr (map fn xs)),
      jx_eval_shape = (\<lambda>fn xs. Inr (map ol_struct (fn (hd xs))))\<rparr>"

interpretation faulty_jax: jax_map_laws faulty_jax
proof unfold_locales
  fix fn :: "'x \<Rightarrow> 'v tree" and xs st and b :: int
  assume "traces fn xs st" "\<forall>s\<in>set st. \<not> zero_size s" "1 < b" "int (length xs) mod b \<noteq> 1"
  moreover have "\<not> list_ex (\<lambda>x. list_ex (\<lambda>l. zero_size (ol_struct l)) (fn x)) xs"
    using calculation(1,2) by (fastforce simp: list_ex_iff traces_def)
  ultimately show "jx_lax_map faulty_jax fn xs (Some b) = Inr (map fn xs)"
    by (simp add: faulty_jax_def)
qed (auto simp: faulty_jax_def traces_def neq_Nil_conv)

text \<open>
  C6. \<open>chunked_map\<close> is the plain map, for every positive batch size and for none, whatever the
  cardinality: when the function traces to one output structure and no zero-size output leaf has
  an extended dtype, the result is the list of the function's values in order and nothing is
  raised. The laws assumed of JAX exclude every mapping over a length-1 axis and every batched
  \<open>lax.map\<close> with an empty output leaf, so none of them is used.
\<close>

theorem chunked_map_is_map:
  assumes "jax_map_laws J" "traces fn xs st" "\<forall>s\<in>set st. zero_size s \<longrightarrow> \<not> ls_extended s"
    and "bs = None \<or> (\<exists>b\<ge>1. bs = Some b)"
  shows "chunked_map J z fn xs bs = Inr (map fn xs)"
  using jax_map_laws.chunked_map_correct [OF assms] .

definition two_leaves :: "int \<Rightarrow> int tree" where
  "two_leaves x =
     [\<lparr>ol_struct = \<lparr>ls_shape = [0, 3], ls_dtype = ''float32'', ls_extended = False\<rparr>, ol_data = []\<rparr>,
      \<lparr>ol_struct = \<lparr>ls_shape = [2], ls_dtype = ''int32'', ls_extended = False\<rparr>, ol_data = [x, x * x]\<rparr>]"

theorem chunked_map_is_map_witness:
  "chunked_map faulty_jax 0 two_leaves [1, 2, 3, 4, 5] (Some 2) = Inr (map two_leaves [1, 2, 3, 4, 5])
   \<and> jx_lax_map faulty_jax two_leaves [1, 2, 3, 4, 5] (Some 2)
     = Inl (Exn RuntimeError ''miscompiled lax.map chunk'' [])"
proof
  have "traces two_leaves [1, 2, 3, 4, 5] (map ol_struct (two_leaves 0))"
    by (simp add: traces_def two_leaves_def leaf_ok_def)
  from chunked_map_is_map [OF faulty_jax.jax_map_laws_axioms this, of "Some 2"]
  show "chunked_map faulty_jax 0 two_leaves [1, 2, 3, 4, 5] (Some 2) = Inr (map two_leaves [1, 2, 3, 4, 5])"
    by (simp add: two_leaves_def)
qed (simp add: faulty_jax_def)

lemma safe_scan_eq:
  "safe_scan scan fn init xs len reverse unroll =
     (if len = Some 0 \<or> len = None \<and> (xs = None \<or> xs = Some [])
      then Inl (Exn ValueError ''safe_scan: xs has leading axis of length 0.'' [])
      else scan fn init xs len reverse unroll)"
  by (auto simp: safe_scan_def split: option.splits)

end
