(* ===== verification/Tiling_Dispatch.thy ===== *)
theory Tiling_Dispatch
  imports Tiling_Strategy Tiling_Transforms "HOL-Library.While_Combinator"
begin

text \<open>
  Axis dispatch: \<open>src/src/xtrax/tiling/dispatch.py\<close> and the iterators of
  \<open>src/src/xtrax/tiling/iterator.py\<close> it selects.

  The interface \<open>map_iterator\<close> is what the callers of a mapping iterator rely on: applied to a
  traceable function it is the plain map. It is provided by the \<open>VmapIterator\<close>, the
  \<open>ChunkedMapIterator\<close> and \<open>chunked_map\<close> (a \<open>sublocale\<close> of the JAX laws each), and the
  dedup-map-gather pipeline is verified once against it. \<open>jax.lax.while_loop\<close> is a parameter
  that returns an option, \<open>None\<close> when the loop does not end. The iterators are modelled for
  \<open>in_axes = 0\<close>, the only value the dispatcher uses.
\<close>

section \<open>Model\<close>

subsection \<open>Iterators\<close>

definition VmapIterator_call :: "('x, 'v) jax_maps \<Rightarrow> ('x \<Rightarrow> 'v tree) \<Rightarrow> 'x list \<Rightarrow> 'v tree list res" where
  "VmapIterator_call J fn xs = (if length xs = 1 then Inr (apply_size1 fn xs) else jx_vmap J fn xs)"

definition ChunkedMapIterator_call ::
  "('x, 'v) jax_maps \<Rightarrow> 'v \<Rightarrow> int \<Rightarrow> int option \<Rightarrow> ('x \<Rightarrow> 'v tree) \<Rightarrow> 'x list \<Rightarrow> 'v tree list res"
where
  "ChunkedMapIterator_call J z tile in_axes fn xs =
     (if in_axes \<noteq> Some 0 then
        Inl (Exn NotImplementedError ''ChunkedMapIterator currently only supports in_axes=0'' [])
      else chunked_map J z fn xs (Some tile))"

definition JaxScanIterator_call ::
  "('c, 'x, 'y) lax_scan \<Rightarrow> ('c \<Rightarrow> 'x \<Rightarrow> 'c \<times> 'y) \<Rightarrow> 'c \<Rightarrow> 'x list option \<Rightarrow> ('c \<times> 'y list) res"
where
  "JaxScanIterator_call scan fn init xs = scan fn init xs None False 1"

type_synonym 's lax_while = "('s \<Rightarrow> bool) \<Rightarrow> ('s \<Rightarrow> 's) \<Rightarrow> 's \<Rightarrow> 's option"

definition WhileLoopIterator_call :: "'c lax_while \<Rightarrow> ('c \<Rightarrow> bool) \<Rightarrow> ('c \<Rightarrow> 'c) \<Rightarrow> 'c \<Rightarrow> 'c option" where
  "WhileLoopIterator_call while_loop cond body init = while_loop cond body init"

text \<open>
  The step counter is an \<open>int32\<close> scalar and its increment wraps. \<open>buf.at[step].set(val)\<close> counts
  a negative index from the end and drops an update that is out of bounds, as \<open>ys[i := y]\<close> does.
\<close>

definition set_at :: "'y list \<Rightarrow> int \<Rightarrow> 'y \<Rightarrow> 'y list" where
  "set_at ys step y =
     (let i = (if step < 0 then step + int (length ys) else step)
      in if 0 \<le> i then ys[nat i := y] else ys)"

definition loop_cond :: "int \<Rightarrow> ('c \<Rightarrow> bool) \<Rightarrow> int \<times> 'c \<times> 'y list \<Rightarrow> bool" where
  "loop_cond max_steps cond = (\<lambda>(step, carry, ys). step < max_steps \<and> cond carry)"

definition loop_body :: "('c \<Rightarrow> 'c \<times> 'y) \<Rightarrow> int \<times> 'c \<times> 'y list \<Rightarrow> int \<times> 'c \<times> 'y list" where
  "loop_body body = (\<lambda>(step, carry, ys).
     let (new_carry, y) = body carry in (int32 (step + 1), new_carry, set_at ys step y))"

definition WhileLoopWithYsIterator_call ::
  "(int \<times> 'c \<times> 'y list) lax_while \<Rightarrow> int \<Rightarrow> ('c \<Rightarrow> bool) \<Rightarrow> ('c \<Rightarrow> 'c \<times> 'y) \<Rightarrow> 'c \<Rightarrow> 'y
     \<Rightarrow> ('c \<times> 'y list \<times> int) option"
where
  "WhileLoopWithYsIterator_call while_loop max_steps cond body init zero_y =
     (case while_loop (loop_cond max_steps cond) (loop_body body)
             (0, init, replicate (nat max_steps) zero_y) of
        None \<Rightarrow> None
      | Some (step, final_carry, ys) \<Rightarrow> Some (final_carry, ys, step))"

subsection \<open>Dispatch\<close>

datatype iterator = VmapIterator | ChunkedMapIterator int | JaxScanIterator | WhileLoopIterator

definition rejected_heterogeneous :: "string \<Rightarrow> string \<Rightarrow> exn" where
  "rejected_heterogeneous strategy_class axis =
     Exn DispatchRejected ''Cannot use strategy on heterogeneous axis'' [ArgStr strategy_class, ArgStr axis]"

definition make_axis_dispatch ::
  "('c, 'x, 'y) axis_strategy \<Rightarrow> string \<Rightarrow> string set option \<Rightarrow> iterator res"
where
  "make_axis_dispatch strategy axis heterogeneous_axes =
     (let het_axes = (case heterogeneous_axes of None \<Rightarrow> {} | Some s \<Rightarrow> s) in
      case strategy of
        DedupGather _ \<Rightarrow> Inl (Exn DispatchRejected ''DedupGather strategy is handled elsewhere'' [])
      | Vmap \<Rightarrow> Inr VmapIterator
      | ChunkedMap b \<Rightarrow> Inr (ChunkedMapIterator b)
      | Scan _ _ _ \<Rightarrow>
          if axis \<in> het_axes then Inl (rejected_heterogeneous ''Scan'' axis) else Inr JaxScanIterator
      | WhileCarry _ _ _ \<Rightarrow>
          if axis \<in> het_axes then Inl (rejected_heterogeneous ''WhileCarry'' axis) else Inr WhileLoopIterator
      | Bucket _ \<Rightarrow> Inl (Exn TypeError ''Unknown strategy type'' [ArgStr ''Bucket'']))"

datatype ('c, 'y) dispatched = Mapped "'y list" | Scanned 'c "'y list" | Carried 'c

definition missing :: "string \<Rightarrow> string \<Rightarrow> exn" where
  "missing strategy_class what = Exn ValueError ''axis_dispatch: strategy requires'' [ArgStr strategy_class, ArgStr what]"

definition wrong_arity :: exn where
  "wrong_arity = Exn TypeError ''wrong number of positional arguments'' []"

text \<open>\<open>None\<close> is a loop that does not end; only \<open>WhileCarry\<close> has one.\<close>

definition axis_dispatch ::
  "('x, 'v) jax_maps \<Rightarrow> 'v \<Rightarrow> ('c, 'x, 'v tree) lax_scan \<Rightarrow> 'c lax_while
     \<Rightarrow> ('c, 'x, 'v tree) axis_strategy \<Rightarrow> ('x \<Rightarrow> 'v tree) option \<Rightarrow> 'x list \<Rightarrow> 'c option
     \<Rightarrow> ('c, 'v tree) dispatched res option"
where
  "axis_dispatch J z scan while_loop strategy fn_arg xs init_arg =
     (case strategy of
        Vmap \<Rightarrow> Some
          (case fn_arg of None \<Rightarrow> Inl (missing ''Vmap'' ''fn'')
           | Some fn \<Rightarrow> bind_res (VmapIterator_call J fn xs) (\<lambda>ys. Inr (Mapped ys)))
      | ChunkedMap b \<Rightarrow> Some
          (case fn_arg of None \<Rightarrow> Inl (missing ''ChunkedMap'' ''fn'')
           | Some fn \<Rightarrow> bind_res (chunked_map J z fn xs (Some b)) (\<lambda>ys. Inr (Mapped ys)))
      | Scan transition strategy_init _ \<Rightarrow> Some
          (case transition of None \<Rightarrow> Inl (missing ''Scan'' ''transition'')
           | Some tr \<Rightarrow>
               (case (case strategy_init of Some c \<Rightarrow> Some c | None \<Rightarrow> init_arg) of
                  None \<Rightarrow> Inl (missing ''Scan'' ''init'')
                | Some carry_init \<Rightarrow>
                    bind_res
                      (case tr of
                         ScanFn f \<Rightarrow> safe_scan scan f carry_init (Some xs) None False 1
                       | BodyFn _ \<Rightarrow>
                           safe_scan (\<lambda>_ _ _ _ _ _. Inl wrong_arity) (\<lambda>c _. (c, [])) carry_init (Some xs) None False 1)
                      (\<lambda>(c, ys). Inr (Scanned c ys))))
      | DedupGather dg \<Rightarrow> Some
          (case fn_arg of None \<Rightarrow> Inl (missing ''DedupGather'' ''fn'')
           | Some fn \<Rightarrow>
               bind_res (chunked_map J z fn (dg_dedup_fn dg xs (dg_unique_indices dg)) None) (\<lambda>deduped_ys.
                 Inr (Mapped (dg_gather_fn dg deduped_ys (dg_index_map dg)))))
      | WhileCarry body cond strategy_init \<Rightarrow>
          (case body of None \<Rightarrow> Some (Inl (missing ''WhileCarry'' ''body''))
           | Some b \<Rightarrow>
               (case cond of None \<Rightarrow> Some (Inl (missing ''WhileCarry'' ''cond''))
                | Some cnd \<Rightarrow>
                    (case (case strategy_init of Some c \<Rightarrow> Some c | None \<Rightarrow> init_arg) of
                       None \<Rightarrow> Some (Inl (missing ''WhileCarry'' ''init''))
                     | Some carry_init \<Rightarrow>
                         (case b of
                            ScanFn _ \<Rightarrow> Some (Inl wrong_arity)
                          | BodyFn f \<Rightarrow> map_option (\<lambda>c. Inr (Carried c)) (while_loop cnd f carry_init)))))
      | Bucket _ \<Rightarrow> Some (Inl (Exn TypeError ''Bucket is a host-side strategy'' [])))"

section \<open>The mapping interface\<close>

definition mappable :: "('x \<Rightarrow> 'v tree) \<Rightarrow> 'x list \<Rightarrow> bool" where
  "mappable fn xs \<longleftrightarrow> (\<exists>st. traces fn xs st \<and> (\<forall>s\<in>set st. zero_size s \<longrightarrow> \<not> ls_extended s))"

lemma mappable_subset: "mappable fn xs \<Longrightarrow> set ys \<subseteq> set xs \<Longrightarrow> mappable fn ys"
  by (auto simp: mappable_def traces_def)

locale map_iterator =
  fixes call :: "('x \<Rightarrow> 'v tree) \<Rightarrow> 'x list \<Rightarrow> 'v tree list res"
  assumes call_is_map: "mappable fn xs \<Longrightarrow> call fn xs = Inr (map fn xs)"
begin

text \<open>Dedup, map, gather: correct as soon as every row equals its canonical row.\<close>

lemma dedup_map_gather:
  assumes "takes_rows dedup" "takes_rows gather" "mappable fn xs"
    and ui: "\<forall>u\<in>set ui. 0 \<le> u \<and> u < int (length xs)"
    and im: "length im = length xs" "\<forall>s\<in>set im. 0 \<le> s \<and> s < int (length ui)"
    and canon: "\<forall>i<length xs. xs ! nat (ui ! nat (im ! i)) = xs ! i"
  shows "bind_res (call fn (dedup xs ui)) (\<lambda>ys. Inr (gather ys im)) = Inr (map fn xs)"
proof -
  have rows: "dedup xs ui = map (\<lambda>i. xs ! nat i) ui"
    using assms(1) ui unfolding takes_rows_def by blast
  moreover have "set (map (\<lambda>i. xs ! nat i) ui) \<subseteq> set xs"
    using ui by (auto simp: nat_less_iff)
  ultimately have "call fn (dedup xs ui) = Inr (map (\<lambda>i. fn (xs ! nat i)) ui)"
    using call_is_map mappable_subset [OF assms(3)] by (simp add: comp_def)
  moreover have "gather (map (\<lambda>i. fn (xs ! nat i)) ui) im = map (\<lambda>s. map (\<lambda>i. fn (xs ! nat i)) ui ! nat s) im"
    using assms(2) im(2) unfolding takes_rows_def by simp
  moreover have "\<dots> = map fn xs"
  proof (rule nth_equalityI)
    fix i assume "i < length (map (\<lambda>s. map (\<lambda>i. fn (xs ! nat i)) ui ! nat s) im)"
    then have i: "i < length im" by simp
    then have "0 \<le> im ! i" "im ! i < int (length ui)" using im(2) by auto
    then show "map (\<lambda>s. map (\<lambda>i. fn (xs ! nat i)) ui ! nat s) im ! i = map fn xs ! i"
      using i im(1) canon by (simp add: nat_less_iff)
  qed (simp add: im(1))
  ultimately show ?thesis by simp
qed

end

sublocale jax_map_laws \<subseteq> vmap_iterator: map_iterator "VmapIterator_call J"
proof
  fix fn :: "'x \<Rightarrow> 'v tree" and xs :: "'x list"
  assume "mappable fn xs"
  then show "VmapIterator_call J fn xs = Inr (map fn xs)"
    by (cases xs) (auto simp: VmapIterator_call_def mappable_def apply_size1_def vmap)
qed

sublocale jax_map_laws \<subseteq> chunked: map_iterator "\<lambda>fn xs. chunked_map J z fn xs None" for z
  by unfold_locales (auto simp: mappable_def intro: chunked_map_correct)

context jax_map_laws
begin

lemma chunked_iterator: "1 \<le> tile \<Longrightarrow> map_iterator (ChunkedMapIterator_call J z tile (Some 0))"
  by unfold_locales (auto simp: ChunkedMapIterator_call_def mappable_def intro!: chunked_map_correct)

end

section \<open>Dispatch of mapping strategies\<close>

text \<open>A \<open>DedupGather\<close> strategy that is right for the inputs \<open>xs\<close>.\<close>

definition gather_sound :: "('x, 'v tree) dedup_gather \<Rightarrow> 'x list \<Rightarrow> bool" where
  "gather_sound dg xs \<longleftrightarrow>
     takes_rows (dg_dedup_fn dg) \<and> takes_rows (dg_gather_fn dg)
     \<and> (\<forall>u\<in>set (dg_unique_indices dg). 0 \<le> u \<and> u < int (length xs))
     \<and> length (dg_index_map dg) = length xs
     \<and> (\<forall>s\<in>set (dg_index_map dg). 0 \<le> s \<and> s < int (length (dg_unique_indices dg)))
     \<and> (\<forall>i<length xs. xs ! nat (dg_unique_indices dg ! nat (dg_index_map dg ! i)) = xs ! i)"

text \<open>Padding the unique indices to the bucket changes no row that the index map selects.\<close>

lemma to_dedup_gather_sound:
  assumes "to_dedup_gather index_x index_y ds = Inr dg" "DedupSpec_post_init ds = Inr ds"
    and fns: "ds_dedup_fn ds = None" "ds_gather_fn ds = None" "takes_rows index_x" "takes_rows index_y"
    and rows: "\<forall>u\<in>set (ds_unique_indices ds). 0 \<le> u \<and> u < int (length xs)"
      "length (ds_index_map ds) = length xs"
      "\<forall>i<length xs. xs ! nat (ds_unique_indices ds ! nat (ds_index_map ds ! i)) = xs ! i"
  shows "gather_sound dg xs"
proof -
  note post = DedupSpec_post_init_Inr [OF assms(2)]
  from assms(1) obtain kb where kb: "get_k_bucket (ds_k ds) = Inr kb"
    and dg: "dg_unique_indices dg = ds_unique_indices ds @ replicate (nat (kb - ds_k ds)) (last (ds_unique_indices ds))"
      "dg_index_map dg = ds_index_map ds" "dg_dedup_fn dg = index_x" "dg_gather_fn dg = index_y"
    using fns by (auto simp: to_dedup_gather_def res_simps default_dedup_fn_def default_gather_fn_def fun_eq_iff)
  from get_k_bucket_Inr(1) [OF kb] post(2) have ne: "ds_unique_indices ds \<noteq> []" by auto
  have sel: "0 \<le> ds_index_map ds ! i \<and> nat (ds_index_map ds ! i) < length (ds_unique_indices ds)"
    if "i < length xs" for i
    using that post(2,3) rows(2) by (metis nat_less_iff nth_mem)
  have "\<forall>i<length xs. xs ! nat (dg_unique_indices dg ! nat (dg_index_map dg ! i)) = xs ! i"
    using rows(3) sel by (simp add: dg nth_append)
  moreover have "\<forall>s\<in>set (dg_index_map dg). 0 \<le> s \<and> s < int (length (dg_unique_indices dg))"
    using post(2,3) by (fastforce simp: dg)
  moreover have "\<forall>u\<in>set (dg_unique_indices dg). 0 \<le> u \<and> u < int (length xs)"
    using rows(1) ne by (auto simp: dg)
  ultimately show ?thesis using fns rows(2) by (simp add: gather_sound_def dg)
qed

fun maps_strategy :: "('c, 'x, 'v tree) axis_strategy \<Rightarrow> 'x list \<Rightarrow> bool" where
  "maps_strategy Vmap xs = True"
| "maps_strategy (ChunkedMap b) xs = (1 \<le> b)"
| "maps_strategy (DedupGather dg) xs = gather_sound dg xs"
| "maps_strategy _ xs = False"

context jax_map_laws
begin

lemma axis_dispatch_maps:
  assumes "mappable fn xs" "maps_strategy strategy xs"
  shows "axis_dispatch J z scan while_loop strategy (Some fn) xs init = Some (Inr (Mapped (map fn xs)))"
proof (cases strategy)
  case Vmap
  then show ?thesis using vmap_iterator.call_is_map [OF assms(1)] by (simp add: axis_dispatch_def)
next
  case (ChunkedMap b)
  then have "map_iterator (ChunkedMapIterator_call J z b (Some 0))" using assms(2) chunked_iterator by simp
  from map_iterator.call_is_map [OF this assms(1)] show ?thesis
    by (simp add: axis_dispatch_def ChunkedMap ChunkedMapIterator_call_def)
next
  case (DedupGather dg)
  then have "gather_sound dg xs" using assms(2) by simp
  then have "bind_res (chunked_map J z fn (dg_dedup_fn dg xs (dg_unique_indices dg)) None)
      (\<lambda>ys. Inr (dg_gather_fn dg ys (dg_index_map dg))) = Inr (map fn xs)"
    unfolding gather_sound_def using assms(1) by (intro chunked.dedup_map_gather) auto
  then show ?thesis by (auto simp: axis_dispatch_def DedupGather res_simps)
qed (use assms(2) in simp_all)

end

section \<open>Loops with a step bound\<close>

text \<open>The specification of a bounded loop that collects its outputs.\<close>

fun run_ys :: "nat \<Rightarrow> ('c \<Rightarrow> bool) \<Rightarrow> ('c \<Rightarrow> 'c \<times> 'y) \<Rightarrow> 'c \<Rightarrow> 'c \<times> 'y list" where
  "run_ys 0 cond body c = (c, [])"
| "run_ys (Suc n) cond body c =
     (if cond c then let (c', y) = body c; (cf, ys) = run_ys n cond body c' in (cf, y # ys) else (c, []))"


lemma run_ys_length: "length (snd (run_ys n cond body c)) \<le> n"
  by (induction n arbitrary: c) (auto simp: split_def Let_def)

lemma run_ys_stops: "length (snd (run_ys n cond body c)) < n \<Longrightarrow> \<not> cond (fst (run_ys n cond body c))"
  by (induction n arbitrary: c) (auto simp: split_def Let_def split: if_splits)

lemma while_ys_from:
  assumes "s + n < 2 ^ 31" "length ys = s + n" "run_ys n cond body c = (cf, os)"
  shows "while_option (loop_cond (int (s + n)) cond) (loop_body body) (int s, c, ys)
    = Some (int (s + length os), cf, take s ys @ os @ drop (s + length os) ys)"
  using assms
proof (induction n arbitrary: s c ys cf os)
  case 0
  then show ?case by (subst while_option_unfold) (simp add: loop_cond_def)
next
  case (Suc n)
  show ?case
  proof (cases "cond c")
    case False
    with Suc.prems show ?thesis by (subst while_option_unfold) (auto simp: loop_cond_def)
  next
    case True
    obtain c' y where body: "body c = (c', y)" by (cases "body c")
    obtain os' where run: "run_ys n cond body c' = (cf, os')" and os: "os = y # os'"
      using Suc.prems(3) True body by (auto split: prod.splits)
    have step: "loop_body body (int s, c, ys) = (int (Suc s), c', ys[s := y])"
      using Suc.prems(1) int32_small [of "int s + 1"]
      by (simp add: loop_body_def body set_at_def Let_def add.commute)
    have "while_option (loop_cond (int (Suc s + n)) cond) (loop_body body) (int (Suc s), c', ys[s := y])
        = Some (int (Suc s + length os'), cf, take (Suc s) (ys[s := y]) @ os' @ drop (Suc s + length os') (ys[s := y]))"
      by (rule Suc.IH) (use Suc.prems run in auto)
    moreover have "take (Suc s) (ys[s := y]) = take s ys @ [y]"
      using Suc.prems(2) by (simp add: take_Suc_conv_app_nth)
    ultimately show ?thesis
      using True step by (subst while_option_unfold) (simp add: loop_cond_def os)
  qed
qed

text \<open>
  C29. \<open>WhileLoopWithYsIterator\<close> always returns when \<open>max_steps\<close> is a non-negative \<open>int32\<close>: the
  result is the bounded run of the loop, its outputs the prefix of the buffer and the rest fill,
  the returned length the number of body calls, and the loop stopped short of the cap only
  because the predicate became false.
\<close>

theorem while_with_ys_returns:
  assumes "\<And>c b s. while_loop c b s = while_option c b s" "0 \<le> max_steps" "max_steps < 2 ^ 31"
    and "run_ys (nat max_steps) cond body init = (cf, os)"
  shows "WhileLoopWithYsIterator_call while_loop max_steps cond body init zero_y
      = Some (cf, os @ replicate (nat max_steps - length os) zero_y, int (length os))
    \<and> length os \<le> nat max_steps \<and> (length os < nat max_steps \<longrightarrow> \<not> cond cf)"
proof -
  have "while_option (loop_cond (int (0 + nat max_steps)) cond) (loop_body body)
      (int 0, init, replicate (nat max_steps) zero_y)
    = Some (int (0 + length os), cf, take 0 (replicate (nat max_steps) zero_y) @ os
        @ drop (0 + length os) (replicate (nat max_steps) zero_y))"
    by (rule while_ys_from) (use assms in auto)
  then show ?thesis
    using assms run_ys_length [of "nat max_steps" cond body init] run_ys_stops [of "nat max_steps" cond body init]
    by (simp add: WhileLoopWithYsIterator_call_def)
qed

theorem while_with_ys_returns_witness:
  "WhileLoopWithYsIterator_call while_option 5 (\<lambda>c. c < 3) (\<lambda>c. (c + 1, c * c)) 0 0
     = Some (3 :: int, [0, 1, 4, 0, 0], 3)"
  using while_with_ys_returns [of while_option 5 "\<lambda>c. c < (3 :: int)" "\<lambda>c. (c + 1, c * c)" 0 3 "[0, 1, 4]" 0]
  by (simp add: numeral_eq_Suc)

text \<open>
  C7. The mapping strategies are interchangeable: for a traceable function, \<open>axis_dispatch\<close> with
  \<open>Vmap\<close>, with \<open>ChunkedMap\<close> of any positive batch size, or with the \<open>DedupGather\<close> made from an
  accepted \<open>DedupSpec\<close> whose canonical rows equal the rows they stand for, returns the function's
  value on every element in order.
\<close>

theorem mapping_strategies_agree:
  assumes "jax_map_laws J" "mappable fn xs"
    and "strategy = Vmap \<or> (\<exists>b\<ge>1. strategy = ChunkedMap b)
      \<or> (\<exists>dg. strategy = DedupGather dg \<and> to_dedup_gather index_x index_y ds = Inr dg)"
    and "DedupSpec_post_init ds = Inr ds" "ds_dedup_fn ds = None" "ds_gather_fn ds = None"
    and "takes_rows index_x" "takes_rows index_y"
    and "\<forall>u\<in>set (ds_unique_indices ds). 0 \<le> u \<and> u < int (length xs)"
    and "length (ds_index_map ds) = length xs"
    and "\<forall>i<length xs. xs ! nat (ds_unique_indices ds ! nat (ds_index_map ds ! i)) = xs ! i"
  shows "axis_dispatch J z scan while_loop strategy (Some fn) xs init = Some (Inr (Mapped (map fn xs)))"
proof (rule jax_map_laws.axis_dispatch_maps [OF assms(1,2)])
  show "maps_strategy strategy xs"
    using assms(3) to_dedup_gather_sound [OF _ assms(4-11)] by auto
qed

definition take_rows :: "'x index_op" where
  "take_rows xs idx = map (\<lambda>i. xs ! nat i) idx"

lemma takes_rows_take_rows: "takes_rows take_rows"
  by (simp add: takes_rows_def take_rows_def)

definition three_of_two :: "(int, int tree) dedup_spec" where
  "three_of_two = \<lparr>ds_axis_name = ''batch'', ds_unique_indices = [0, 1, 3], ds_index_map = [0, 1, 0, 2],
     ds_k = 3, ds_dedup_fn = None, ds_gather_fn = None\<rparr>"

theorem mapping_strategies_agree_witness:
  "axis_dispatch faulty_jax 0 (\<lambda>_ c _ _ _ _. Inr (c :: unit, [])) while_option
     (DedupGather \<lparr>dg_unique_indices = [0, 1, 3, 3], dg_index_map = [0, 1, 0, 2], dg_k = 3, dg_k_bucket = 4,
        dg_dedup_fn = default_dedup_fn take_rows, dg_gather_fn = default_gather_fn take_rows\<rparr>)
     (Some two_leaves) [7, 5, 7, 6] None
   = Some (Inr (Mapped (map two_leaves [7, 5, 7, 6])))"
proof (rule mapping_strategies_agree [of _ _ _ _ take_rows take_rows three_of_two])
  show "jax_map_laws (faulty_jax :: (int, int) jax_maps)" by (rule faulty_jax.jax_map_laws_axioms)
  show "mappable two_leaves [7, 5, 7, 6]"
    unfolding mappable_def
    by (rule exI [of _ "map ol_struct (two_leaves 0)"]) (simp add: traces_def two_leaves_def leaf_ok_def)
  have "get_k_bucket 3 = Inr 4" by code_simp
  then show "DedupGather \<lparr>dg_unique_indices = [0, 1, 3, 3], dg_index_map = [0, 1, 0, 2], dg_k = 3, dg_k_bucket = 4,
        dg_dedup_fn = default_dedup_fn take_rows, dg_gather_fn = default_gather_fn take_rows\<rparr> = Vmap
    \<or> (\<exists>b\<ge>1. DedupGather \<lparr>dg_unique_indices = [0, 1, 3, 3], dg_index_map = [0, 1, 0, 2], dg_k = 3, dg_k_bucket = 4,
        dg_dedup_fn = default_dedup_fn take_rows, dg_gather_fn = default_gather_fn take_rows\<rparr> = ChunkedMap b)
    \<or> (\<exists>dg. DedupGather \<lparr>dg_unique_indices = [0, 1, 3, 3], dg_index_map = [0, 1, 0, 2], dg_k = 3, dg_k_bucket = 4,
        dg_dedup_fn = default_dedup_fn take_rows, dg_gather_fn = default_gather_fn take_rows\<rparr> = DedupGather dg
        \<and> to_dedup_gather take_rows take_rows three_of_two = Inr dg)"
    by (simp add: to_dedup_gather_def three_of_two_def)
  show "DedupSpec_post_init three_of_two = Inr three_of_two"
    by (simp add: DedupSpec_post_init_def three_of_two_def)
  show "\<forall>i<length [7, 5, 7, 6 :: int].
      [7, 5, 7, 6] ! nat (ds_unique_indices three_of_two ! nat (ds_index_map three_of_two ! i)) = [7, 5, 7, 6 :: int] ! i"
    by (simp add: three_of_two_def All_less_Suc numeral_eq_Suc)
qed (simp_all add: three_of_two_def takes_rows_take_rows)

text \<open>A counter below an \<open>int32\<close> bound does not wrap when it is incremented.\<close>

lemma sint_step:
  fixes i :: "32 word"
  assumes "sint i < n" "n < 2 ^ 31"
  shows "sint (i + 1) = sint i + 1"
proof -
  have "- (2 ^ 31) \<le> sint i" using sint_ge [of i] by simp
  then have "signed_take_bit 31 (sint i + 1) = sint i + 1"
    using assms by (intro signed_take_bit_int_eq_self) simp_all
  then show ?thesis by (simp add: sint_word_ariths)
qed

lemma while_step_count:
  assumes step: "\<And>c. carry_step_i (f c) = carry_step_i c + 1" and n: "n < 2 ^ 31"
  shows "while_option (fixed_step_count_cond n) f c = Some ((f ^^ nat (n - sint (carry_step_i c))) c)"
proof (induction "nat (n - sint (carry_step_i c))" arbitrary: c)
  case 0
  then show ?case by (subst while_option_unfold) (simp add: fixed_step_count_cond_def)
next
  case (Suc m)
  then have less: "sint (carry_step_i c) < n" by simp
  then have m: "m = nat (n - sint (carry_step_i (f c)))" and cond: "fixed_step_count_cond n c"
    using Suc.hyps(2) by (auto simp: step sint_step [OF less n] fixed_step_count_cond_def)
  have "(f ^^ nat (n - sint (carry_step_i c))) c = (f ^^ m) (f c)"
    using Suc.hyps(2) by (simp flip: Suc.hyps(2) add: funpow_swap1)
  with Suc.hyps(1) [OF m] cond m show ?case by (subst while_option_unfold) simp
qed

text \<open>
  C30. A \<open>WhileCarry\<close> strategy with \<open>fixed_step_count_cond\<close> for an \<open>int32\<close> number of steps and a body that adds one to the
  \<open>int32\<close> counter, which wraps, returns: after exactly the missing number of body calls, none when the counter is already there.
\<close>

theorem fixed_step_loop_returns:
  assumes "\<And>c b s. while_loop c b s = while_option c b s"
    and "\<And>c. carry_step_i (f c) = carry_step_i c + 1" and "n < 2 ^ 31"
  shows "axis_dispatch J z scan while_loop (WhileCarry (Some (BodyFn f)) (Some (fixed_step_count_cond n)) None)
      fn_arg xs (Some c)
    = Some (Inr (Carried ((f ^^ nat (n - sint (carry_step_i c))) c)))"
  using while_step_count [of f n c] assms by (simp add: axis_dispatch_def)

theorem fixed_step_loop_returns_witness:
  "axis_dispatch (reference_jax :: (int, int) jax_maps) 0 (\<lambda>_ c _ _ _ _. Inr (c, [])) while_option
     (WhileCarry (Some (BodyFn (\<lambda>c. TupleCarry (carry_step_i c + 1) ()))) (Some (fixed_step_count_cond 3)) None)
     None [] (Some (TupleCarry 1 ()))
   = Some (Inr (Carried (TupleCarry 3 ())))"
  using fixed_step_loop_returns [of while_option "\<lambda>c. TupleCarry (carry_step_i c + 1) ()" 3 reference_jax 0
      "\<lambda>_ c _ _ _ _. Inr (c, [])" None "[]" "TupleCarry 1 ()"]
  by (simp add: numeral_eq_Suc)

end
