(* ===== verification/Tiling_Plan.thy ===== *)
theory Tiling_Plan
  imports Tiling_Dedup Tiling_Dispatch
begin

text \<open>
  The batch planner: \<open>src/src/xtrax/tiling/plan.py\<close>, with \<open>budget.py\<close> and \<open>estimators.py\<close>.

  The planner's effects are explicit: \<open>plan_env\<close> holds the axes already warned about, the
  module-level flag of the default-limit log line and the log and warning events in order; an
  operation that may change it returns it beside its result, also when it raises. Reasoning
  strings are the datatype \<open>reasoning\<close>, one constructor per format string with the values it
  interpolates. Callables supplied by the caller (estimators) may raise, so they return a result.
  Python floats are exact rationals. What JAX reports about a device or a compiled function is an
  argument.
\<close>

section \<open>Model\<close>

subsection \<open>Budgets and estimators\<close>

text \<open>An argument whose Python type the code inspects.\<close>

datatype py_val = PyBool bool | PyInt int | PyFloat rat | PyOther string

fun py_type :: "py_val \<Rightarrow> string" where
  "py_type (PyBool _) = ''bool''"
| "py_type (PyInt _) = ''int''"
| "py_type (PyFloat _) = ''float''"
| "py_type (PyOther t) = t"

fun py_real :: "py_val \<Rightarrow> rat option" where
  "py_real (PyInt i) = Some (of_int i)"
| "py_real (PyFloat r) = Some r"
| "py_real _ = None"

text \<open>\<open>int(x)\<close>: truncation toward zero.\<close>

definition py_trunc :: "rat \<Rightarrow> int" where
  "py_trunc r = (if 0 \<le> r then \<lfloor>r\<rfloor> else \<lceil>r\<rceil>)"

definition DEFAULT_DEVICE_MEMORY_BYTES :: int where
  "DEFAULT_DEVICE_MEMORY_BYTES = 4 * 1024 ^ 3"

text \<open>\<open>stats\<close> is what \<open>memory_stats()\<close> returns: nothing, or a dictionary.\<close>

definition device_memory_budget :: "rat \<Rightarrow> (string \<times> int) list option \<Rightarrow> int res" where
  "device_memory_budget fraction stats =
     (if \<not> (0 < fraction \<and> fraction \<le> 1) then Inl (Exn ValueError ''fraction must be in (0, 1]'' [])
      else case stats of
        None \<Rightarrow> Inl (Exn RuntimeError ''device does not report memory_stats()'' [])
      | Some d \<Rightarrow>
          (case map_of d ''bytes_limit'' of
             None \<Rightarrow> Inl (Exn RuntimeError ''device does not report memory_stats()'' [])
           | Some limit \<Rightarrow> Inr (py_trunc (of_int limit * fraction))))"

text \<open>\<open>analysis\<close> is what \<open>memory_analysis()\<close> of the compiled function gives for the three sizes.\<close>

definition lowered_memory_estimate :: "int option list option \<Rightarrow> int res" where
  "lowered_memory_estimate analysis =
     (case analysis of
        None \<Rightarrow> Inl (Exn RuntimeError ''backend returned no usable memory_analysis()'' [])
      | Some sizes \<Rightarrow>
          if None \<in> set sizes then Inl (Exn RuntimeError ''backend returned no usable memory_analysis()'' [])
          else Inr (sum_list (map the sizes)))"

fun extents_product :: "int \<Rightarrow> (string \<times> py_val) list \<Rightarrow> int res" where
  "extents_product product [] = Inr product"
| "extents_product product ((name, extent) # rest) =
     (case extent of
        PyInt e \<Rightarrow>
          if e < 0 then Inl (Exn ValueError ''extent must be >= 0'' [ArgStr name, ArgInt e])
          else extents_product (product * e) rest
      | _ \<Rightarrow> Inl (Exn TypeError ''extent must be an int'' [ArgStr name, ArgStr (py_type extent)]))"

definition estimate_memory_theoretical ::
  "(string \<times> py_val) list \<Rightarrow> py_val \<Rightarrow> py_val \<Rightarrow> py_val \<Rightarrow> int res"
where
  "estimate_memory_theoretical extents bytes_per_element dtype_bytes activation_multiplier =
     (case py_real bytes_per_element of
        None \<Rightarrow> Inl (Exn TypeError ''bytes_per_element must be a real number'' [ArgStr (py_type bytes_per_element)])
      | Some bpe \<Rightarrow>
          if bpe < 0 then Inl (Exn ValueError ''bytes_per_element must be >= 0'' [])
          else case dtype_bytes of
            PyInt db \<Rightarrow>
              if db \<le> 0 then Inl (Exn ValueError ''dtype_bytes must be positive'' [ArgInt db])
              else (case py_real activation_multiplier of
                None \<Rightarrow> Inl (Exn TypeError ''activation_multiplier must be a real number'' [ArgStr (py_type activation_multiplier)])
              | Some am \<Rightarrow>
                  if am < 0 then Inl (Exn ValueError ''activation_multiplier must be >= 0'' [])
                  else bind_res (extents_product 1 extents) (\<lambda>product.
                    Inr (py_trunc (of_int product * bpe * of_int db * am))))
          | _ \<Rightarrow> Inl (Exn TypeError ''dtype_bytes must be an int'' [ArgStr (py_type dtype_bytes)]))"

subsection \<open>Axis specifications\<close>

record axis_spec =
  as_name :: string
  as_cardinality :: int
  as_default_batch_size :: int
  as_tile_granularity :: int
  as_heterogeneous :: bool
  as_dedup_eligible :: bool
  as_bucket_boundaries :: "int list option"
  as_role :: axis_role
  as_element_input_bytes :: "rat option"
  as_varying_inputs :: "string list"

datatype varying_arg = VStr string | VSeq "string list"

text \<open>
  The constructor with \<open>__post_init__\<close>: the arguments \<open>element_input_bytes\<close> and \<open>varying_inputs\<close>
  in the types the caller may pass, the other fields of \<open>sp\<close> as given.
\<close>

definition AxisSpec_post_init :: "axis_spec \<Rightarrow> py_val option \<Rightarrow> varying_arg \<Rightarrow> axis_spec res" where
  "AxisSpec_post_init sp element_input_bytes varying =
     bind_res
       (case element_input_bytes of
          None \<Rightarrow> Inr None
        | Some (PyBool _) \<Rightarrow>
            Inl (Exn ValueError ''element_input_bytes must be a non-negative int'' [ArgStr (as_name sp)])
        | Some v \<Rightarrow>
            (case py_real v of
               None \<Rightarrow> Inl (Exn TypeError ''< not supported between instances'' [ArgStr (py_type v)])
             | Some r \<Rightarrow>
                 if r < 0 then
                   Inl (Exn ValueError ''element_input_bytes must be a non-negative int'' [ArgStr (as_name sp)])
                 else Inr (Some r)))
     (\<lambda>bound.
       case varying of
         VStr s \<Rightarrow> Inl (Exn ValueError ''varying_inputs must be a sequence of input names'' [ArgStr (as_name sp), ArgStr s])
       | VSeq names \<Rightarrow>
           let sp' = sp\<lparr>as_element_input_bytes := bound, as_varying_inputs := names\<rparr> in
           (case as_bucket_boundaries sp of
              None \<Rightarrow> Inr sp'
            | Some bs \<Rightarrow>
                if bs = [] then Inl (Exn ValueError ''bucket_boundaries must be non-empty'' [ArgStr (as_name sp)])
                else if \<exists>b\<in>set bs. b \<le> 0 then
                  Inl (Exn ValueError ''bucket_boundaries must be positive'' [ArgStr (as_name sp), ArgInts bs])
                else if bs \<noteq> sort bs \<or> length (remdups bs) \<noteq> length bs then
                  Inl (Exn ValueError ''bucket_boundaries must be strictly ascending'' [ArgStr (as_name sp), ArgInts bs])
                else Inr sp'))"

definition AxisSpec_getattr :: "axis_spec \<Rightarrow> string \<Rightarrow> int res" where
  "AxisSpec_getattr sp name =
     (if name = ''batch_size'' then Inr (as_default_batch_size sp)
      else if name = ''granularity'' then Inr (as_tile_granularity sp)
      else Inl (Exn (OtherError ''AttributeError'') ''type object AxisSpec has no attribute'' [ArgStr name]))"

text \<open>The mapping \<open>varying\<close> is a dictionary in insertion order.\<close>

definition declare_varying_inputs ::
  "axis_spec list \<Rightarrow> (string \<times> string list) list \<Rightarrow> string list \<Rightarrow> axis_spec list res"
where
  "declare_varying_inputs specs varying input_names =
     (case filter (\<lambda>axis. axis \<notin> as_name ` set specs) (map fst varying) of
        axis # _ \<Rightarrow> Inl (Exn ValueError ''unknown axis'' [ArgStr axis, ArgStrs (map as_name specs)])
      | [] \<Rightarrow>
          (case filter (\<lambda>name. name \<notin> set input_names) (concat (map snd varying)) of
             name # _ \<Rightarrow> Inl (Exn ValueError ''unknown input'' [ArgStr name, ArgStrs input_names])
           | [] \<Rightarrow>
               Inr (map (\<lambda>sp. case map_of varying (as_name sp) of
                              None \<Rightarrow> sp
                            | Some names \<Rightarrow> sp\<lparr>as_varying_inputs := fromkeys names\<rparr>) specs)))"

subsection \<open>Decisions and plans\<close>

datatype chunk_shape = Divisible | RaggedFinalChunk int

datatype reasoning =
    CarryScan string
  | CarryWhile string
  | DedupDeclared string int int
  | BucketPadding "int list"
  | VmapByCardinality
  | OverrideSmallAxis
  | OverrideLargeAxis chunk_shape
  | MemorySafeVmap chunk_shape
  | ChunkedByCardinality chunk_shape
  | BudgetVmapPending
  | BudgetHeterogeneousPending int
  | BudgetDemotedPending
  | BudgetDemoted int nat int int int
  | BudgetHeterogeneous int int int
  | BudgetVmapNoop int int int int
  | BudgetVmapRetained int int
  | DedupDropped reasoning int

record ('c, 'x, 'y) axis_decision =
  ad_spec :: axis_spec
  ad_batch_size :: int
  ad_reasoning :: reasoning
  ad_strategy :: "('c, 'x, 'y) axis_strategy"

type_synonym ('c, 'x, 'y) batch_plan = "('c, 'x, 'y) axis_decision list"

definition decision_for :: "('c, 'x, 'y) batch_plan \<Rightarrow> string \<Rightarrow> ('c, 'x, 'y) axis_decision res" where
  "decision_for decisions axis_name =
     (case filter (\<lambda>d. as_name (ad_spec d) = axis_name) decisions of
        d # _ \<Rightarrow> Inr d
      | [] \<Rightarrow> Inl (Exn KeyError ''BatchPlan has no decision for axis''
                [ArgStr axis_name, ArgStrs (map (\<lambda>d. as_name (ad_spec d)) decisions)]))"

record ('c, 'x, 'y) memory_budget =
  mb_bytes :: int
  mb_estimate :: "('c, 'x, 'y) axis_decision list \<Rightarrow> int res"

text \<open>The estimate argument is \<open>None\<close> when it is not callable.\<close>

definition MemoryBudget_post_init ::
  "py_val \<Rightarrow> (('c, 'x, 'y) axis_decision list \<Rightarrow> int res) option \<Rightarrow> ('c, 'x, 'y) memory_budget res"
where
  "MemoryBudget_post_init bytes_arg estimate =
     (case bytes_arg of
        PyInt n \<Rightarrow>
          if n \<le> 0 then Inl (Exn ValueError ''MemoryBudget.bytes must be positive'' [ArgInt n])
          else (case estimate of
                  None \<Rightarrow> Inl (Exn TypeError ''MemoryBudget.estimate must be callable'' [])
                | Some est \<Rightarrow> Inr \<lparr>mb_bytes = n, mb_estimate = est\<rparr>)
      | _ \<Rightarrow> Inl (Exn TypeError ''MemoryBudget.bytes must be an int'' [ArgStr (py_type bytes_arg)]))"

subsection \<open>The planner\<close>

record ('c, 'x, 'y) batch_planner =
  bp_memory_estimator :: "(axis_spec \<Rightarrow> int res) option"
  bp_carry_specs :: "('c, 'x, 'y) carry_spec list"
  bp_dedup_specs :: "('x, 'y) dedup_spec list"
  bp_heterogeneous_axes :: "string set"
  bp_budget :: "('c, 'x, 'y) memory_budget option"

definition BatchPlanner_init ::
  "(axis_spec \<Rightarrow> int res) option \<Rightarrow> ('c, 'x, 'y) carry_spec list option \<Rightarrow> ('x, 'y) dedup_spec list option
     \<Rightarrow> string set option \<Rightarrow> ('c, 'x, 'y) memory_budget option \<Rightarrow> ('c, 'x, 'y) batch_planner res"
where
  "BatchPlanner_init memory_estimator carry_specs dedup_specs heterogeneous_axes budget =
     (if budget \<noteq> None \<and> memory_estimator \<noteq> None then
        Inl (Exn ValueError ''BatchPlanner: budget and memory_estimator are mutually exclusive'' [])
      else Inr \<lparr>bp_memory_estimator = memory_estimator,
                bp_carry_specs = (case carry_specs of None \<Rightarrow> [] | Some cs \<Rightarrow> cs),
                bp_dedup_specs = (case dedup_specs of None \<Rightarrow> [] | Some ds \<Rightarrow> ds),
                bp_heterogeneous_axes = (case heterogeneous_axes of None \<Rightarrow> {} | Some h \<Rightarrow> h),
                bp_budget = budget\<rparr>)"

datatype plan_event =
    DefaultLimitLogged int
  | MissingEstimatorLogged string
  | DedupDroppedWarning int string

record plan_env =
  pe_default_limit_logged :: bool
  pe_warned_axes :: "string set"
  pe_events :: "plan_event list"

text \<open>What the planner reads from outside: the device's limit and array indexing.\<close>

record ('x, 'y) plan_world =
  pw_device_limit :: "int res"
  pw_index_x :: "'x index_op"
  pw_index_y :: "'y index_op"

definition memory_estimator_device_limit :: "('x, 'y) plan_world \<Rightarrow> plan_env \<Rightarrow> plan_env \<times> int" where
  "memory_estimator_device_limit w env =
     (case pw_device_limit w of
        Inr limit \<Rightarrow> (env, limit)
      | Inl _ \<Rightarrow>
          (if pe_default_limit_logged env then env
           else env\<lparr>pe_default_limit_logged := True,
                    pe_events := pe_events env @ [DefaultLimitLogged DEFAULT_DEVICE_MEMORY_BYTES]\<rparr>,
           DEFAULT_DEVICE_MEMORY_BYTES))"

definition warn_missing_memory_estimator :: "axis_spec \<Rightarrow> plan_env \<Rightarrow> plan_env" where
  "warn_missing_memory_estimator sp env =
     (if as_name sp \<in> pe_warned_axes env then env
      else env\<lparr>pe_warned_axes := insert (as_name sp) (pe_warned_axes env),
               pe_events := pe_events env @ [MissingEstimatorLogged (as_name sp)]\<rparr>)"

text \<open>The memory check of \<open>_decide_strategy\<close>: whether the estimate exceeds the device limit.\<close>

definition memory_override ::
  "('x, 'y) plan_world \<Rightarrow> (axis_spec \<Rightarrow> int res) option \<Rightarrow> axis_spec \<Rightarrow> plan_env \<Rightarrow> plan_env \<times> bool res"
where
  "memory_override w memory_estimator sp env =
     (case memory_estimator of
        None \<Rightarrow> (env, Inr False)
      | Some est \<Rightarrow>
          (case est sp of
             Inl e \<Rightarrow> (env, Inl (Exn RuntimeError ''BatchPlanner memory_estimator failed for axis''
                              [ArgStr (as_name sp), ArgCause e]))
           | Inr estimated_bytes \<Rightarrow>
               if (case as_element_input_bytes sp of None \<Rightarrow> False | Some bound \<Rightarrow> of_int estimated_bytes < bound) then
                 (env, Inl (Exn ValueError ''memory_estimator returned bytes below the per-element input lower bound''
                              [ArgStr (as_name sp), ArgInt estimated_bytes]))
               else let (env', limit) = memory_estimator_device_limit w env
                    in (env', Inr (estimated_bytes > limit))))"

definition decision ::
  "axis_spec \<Rightarrow> reasoning \<Rightarrow> ('c, 'x, 'y) axis_strategy \<Rightarrow> ('c, 'x, 'y) axis_decision"
where
  "decision sp r s =
     \<lparr>ad_spec = sp, ad_batch_size = as_default_batch_size sp, ad_reasoning = r, ad_strategy = s\<rparr>"

definition decide_strategy ::
  "('x, 'y) plan_world \<Rightarrow> ('c, 'x, 'y) batch_planner \<Rightarrow> axis_spec \<Rightarrow> plan_env
     \<Rightarrow> plan_env \<times> ('c, 'x, 'y) axis_decision res"
where
  "decide_strategy w p sp env =
     (case as_bucket_boundaries sp of
        Some bs \<Rightarrow> (env, Inr (decision sp (BucketPadding bs) (Bucket bs)))
      | None \<Rightarrow>
          (case memory_override w (bp_memory_estimator p) sp env of
             (env', Inl e) \<Rightarrow> (env', Inl e)
           | (env', Inr prefer_chunked) \<Rightarrow>
               let b = as_default_batch_size sp in
               if as_cardinality sp \<le> b then
                 if prefer_chunked then (env', Inr (decision sp OverrideSmallAxis (ChunkedMap b)))
                 else (if bp_memory_estimator p = None then warn_missing_memory_estimator sp env' else env',
                       Inr (decision sp VmapByCardinality Vmap))
               else if b = 0 then
                 (env', Inl (Exn (OtherError ''ZeroDivisionError'') ''integer modulo by zero'' []))
               else
                 let remainder = as_cardinality sp mod b;
                     shape = (if remainder = 0 then Divisible else RaggedFinalChunk remainder)
                 in (env', Inr
                      (if prefer_chunked then decision sp (OverrideLargeAxis shape) (ChunkedMap b)
                       else if bp_memory_estimator p \<noteq> None then decision sp (MemorySafeVmap shape) Vmap
                       else decision sp (ChunkedByCardinality shape) (ChunkedMap b)))))"

definition vmap_decision_batch_size :: "axis_spec \<Rightarrow> int" where
  "vmap_decision_batch_size sp = as_default_batch_size sp"

definition budget_initial_decision :: "axis_spec \<Rightarrow> ('c, 'x, 'y) axis_decision" where
  "budget_initial_decision sp =
     (if as_heterogeneous sp then
        decision sp (BudgetHeterogeneousPending (as_default_batch_size sp)) (ChunkedMap (as_default_batch_size sp))
      else \<lparr>ad_spec = sp, ad_batch_size = vmap_decision_batch_size sp, ad_reasoning = BudgetVmapPending,
            ad_strategy = Vmap\<rparr>)"

text \<open>A decision list with \<open>None\<close> placeholders, and \<open>tuple(d for d in decisions if d is not None)\<close>.\<close>

type_synonym ('c, 'x, 'y) slots = "('c, 'x, 'y) axis_decision option list"

definition snapshot :: "('c, 'x, 'y) slots \<Rightarrow> ('c, 'x, 'y) axis_decision list" where
  "snapshot decisions = map the (filter (\<lambda>d. d \<noteq> None) decisions)"

fun demote_loop ::
  "axis_spec list \<Rightarrow> ('c, 'x, 'y) memory_budget \<Rightarrow> nat \<Rightarrow> ('c, 'x, 'y) slots \<Rightarrow> int \<Rightarrow> nat list
     \<Rightarrow> (('c, 'x, 'y) slots \<times> int) res"
where
  "demote_loop specs budget step decisions estimate [] = Inr (decisions, estimate)"
| "demote_loop specs budget step decisions estimate (idx # candidates) =
     (if estimate \<le> mb_bytes budget then Inr (decisions, estimate)
      else
        let sp = specs ! idx;
            b = as_default_batch_size sp;
            trial = decisions[idx := Some (decision sp BudgetDemotedPending (ChunkedMap b))]
        in bind_res (mb_estimate budget (snapshot trial)) (\<lambda>after.
             demote_loop specs budget (Suc step)
               (trial[idx := Some (decision sp
                  (BudgetDemoted b (Suc step) estimate after (mb_bytes budget)) (ChunkedMap b))])
               after candidates))"

definition greedy_demote ::
  "axis_spec list \<Rightarrow> ('c, 'x, 'y) slots \<Rightarrow> nat list \<Rightarrow> ('c, 'x, 'y) memory_budget
     \<Rightarrow> (('c, 'x, 'y) slots \<times> int \<times> nat) res"
where
  "greedy_demote specs decisions pending budget =
     (let start = fold (\<lambda>idx d. d[idx := Some (budget_initial_decision (specs ! idx))]) pending decisions;
          candidates = filter (\<lambda>idx. \<not> as_heterogeneous (specs ! idx)
             \<and> as_cardinality (specs ! idx) > as_default_batch_size (specs ! idx)) pending
      in bind_res (mb_estimate budget (snapshot start)) (\<lambda>estimate.
           bind_res (demote_loop specs budget 0 start estimate candidates) (\<lambda>(d, final).
             Inr (d, final, length candidates))))"

definition finalize_one ::
  "('c, 'x, 'y) memory_budget \<Rightarrow> int \<Rightarrow> axis_spec \<Rightarrow> ('c, 'x, 'y) axis_decision \<Rightarrow> ('c, 'x, 'y) axis_decision"
where
  "finalize_one budget estimate sp d =
     (let b = as_default_batch_size sp in
      case ad_strategy d of
        ChunkedMap c \<Rightarrow>
          if as_heterogeneous sp
          then decision sp (BudgetHeterogeneous b estimate (mb_bytes budget)) (ChunkedMap c) else d
      | Vmap \<Rightarrow>
          decision sp
            (if as_cardinality sp \<le> b
             then BudgetVmapNoop (as_cardinality sp) b estimate (mb_bytes budget)
             else BudgetVmapRetained estimate (mb_bytes budget)) Vmap
      | _ \<Rightarrow> d)"

definition finalize_budget_reasoning ::
  "axis_spec list \<Rightarrow> ('c, 'x, 'y) slots \<Rightarrow> nat list \<Rightarrow> int \<Rightarrow> ('c, 'x, 'y) memory_budget \<Rightarrow> ('c, 'x, 'y) slots"
where
  "finalize_budget_reasoning specs decisions pending estimate budget =
     fold (\<lambda>idx ds. case ds ! idx of
              None \<Rightarrow> ds
            | Some d \<Rightarrow> ds[idx := Some (finalize_one budget estimate (specs ! idx) d)]) pending decisions"

definition ambiguous_axis :: "axis_spec \<Rightarrow> exn" where
  "ambiguous_axis sp = Exn AmbiguousAxisError ''axis has an unresolved role'' [ArgStr (as_name sp)]"

text \<open>The state of the release loop of \<open>_plan_joint_budget\<close>.\<close>

record ('c, 'x, 'y) joint_state =
  js_decisions :: "('c, 'x, 'y) slots"
  js_pending :: "nat list"
  js_estimate :: int
  js_n_candidates :: nat
  js_dropped :: "nat list"

fun release_loop ::
  "('x, 'y) plan_world \<Rightarrow> ('c, 'x, 'y) batch_planner \<Rightarrow> ('c, 'x, 'y) memory_budget \<Rightarrow> axis_spec list
     \<Rightarrow> nat list \<Rightarrow> ('c, 'x, 'y) joint_state \<Rightarrow> plan_env \<Rightarrow> plan_env \<times> ('c, 'x, 'y) joint_state res"
where
  "release_loop w p budget specs [] js env = (env, Inr js)"
| "release_loop w p budget specs (idx # dedup_indices) js env =
     (if js_estimate js \<le> mb_bytes budget then (env, Inr js)
      else
        let sp = specs ! idx in
        if as_role sp = UNKNOWN then (env, Inl (ambiguous_axis sp))
        else
          let env1 = env\<lparr>pe_events := pe_events env @ [DedupDroppedWarning (mb_bytes budget) (as_name sp)]\<rparr> in
          case (if as_bucket_boundaries sp = None
                then (env1, Inr ((js_decisions js)[idx := None],
                        sorted_list_of_set (insert idx (set (js_pending js)))))
                else case decide_strategy w p sp env1 of
                  (env2, Inl e) \<Rightarrow> (env2, Inl e)
                | (env2, Inr d) \<Rightarrow> (env2, Inr ((js_decisions js)[idx := Some d], js_pending js))) of
            (env2, Inl e) \<Rightarrow> (env2, Inl e)
          | (env2, Inr (decisions, pending)) \<Rightarrow>
              (case greedy_demote specs decisions pending budget of
                 Inl e \<Rightarrow> (env2, Inl e)
               | Inr (d, est, n) \<Rightarrow>
                   release_loop w p budget specs dedup_indices
                     \<lparr>js_decisions = d, js_pending = pending, js_estimate = est, js_n_candidates = n,
                      js_dropped = js_dropped js @ [idx]\<rparr> env2))"

definition record_drop :: "int \<Rightarrow> ('c, 'x, 'y) axis_decision \<Rightarrow> ('c, 'x, 'y) axis_decision" where
  "record_drop bytes_limit d = d\<lparr>ad_reasoning := DedupDropped (ad_reasoning d) bytes_limit\<rparr>"

definition plan_joint_budget ::
  "('x, 'y) plan_world \<Rightarrow> ('c, 'x, 'y) batch_planner \<Rightarrow> ('c, 'x, 'y) memory_budget \<Rightarrow> axis_spec list
     \<Rightarrow> ('c, 'x, 'y) slots \<Rightarrow> nat list \<Rightarrow> nat list \<Rightarrow> plan_env \<Rightarrow> plan_env \<times> ('c, 'x, 'y) slots res"
where
  "plan_joint_budget w p budget specs decisions pending dedup_indices env =
     (case greedy_demote specs decisions pending budget of
        Inl e \<Rightarrow> (env, Inl e)
      | Inr (d, est, n) \<Rightarrow>
          (case release_loop w p budget specs dedup_indices
              \<lparr>js_decisions = d, js_pending = pending, js_estimate = est, js_n_candidates = n, js_dropped = []\<rparr> env of
             (env', Inl e) \<Rightarrow> (env', Inl e)
           | (env', Inr js) \<Rightarrow>
               (env',
                if js_estimate js > mb_bytes budget then
                  Inl (Exn BudgetInfeasibleError ''plan cannot fit MemoryBudget''
                    [ArgInt (js_estimate js), ArgInt (mb_bytes budget), ArgInt (int (js_n_candidates js)),
                     ArgStr (if js_dropped js \<noteq> [] then '' (DedupGather already dropped)'' else ''''),
                     ArgPairs (map (\<lambda>d. (as_name (ad_spec d), strategy_name (ad_strategy d))) (snapshot (js_decisions js)))])
                else
                  Inr (fold (\<lambda>idx ds. case ds ! idx of
                          None \<Rightarrow> ds
                        | Some d \<Rightarrow> ds[idx := Some (record_drop (mb_bytes budget) d)])
                      (js_dropped js)
                      (finalize_budget_reasoning specs (js_decisions js) (js_pending js) (js_estimate js) budget)))))"

definition carry_decision ::
  "axis_spec \<Rightarrow> ('c, 'x, 'y) carry_spec \<Rightarrow> ('c, 'x, 'y) axis_decision"
where
  "carry_decision sp cs =
     (if cs_collect_outputs cs then
        \<lparr>ad_spec = sp, ad_batch_size = 1, ad_reasoning = CarryScan (as_name sp),
         ad_strategy = Scan (Some (cs_transition cs)) (cs_init cs) (cs_ordered_sinks cs)\<rparr>
      else
        \<lparr>ad_spec = sp, ad_batch_size = 1, ad_reasoning = CarryWhile (as_name sp),
         ad_strategy = WhileCarry (Some (cs_transition cs)) (cs_cond cs) (cs_init cs)\<rparr>)"

text \<open>The loop of \<open>plan\<close> over the specs; the accumulators are \<open>decisions\<close>, \<open>pending\<close> and \<open>dedup_indices\<close>.\<close>

fun plan_specs ::
  "('x, 'y) plan_world \<Rightarrow> ('c, 'x, 'y) batch_planner \<Rightarrow> (string \<Rightarrow> ('c, 'x, 'y) carry_spec option)
     \<Rightarrow> (string \<times> ('x, 'y) dedup_spec) list \<Rightarrow> axis_spec list
     \<Rightarrow> ('c, 'x, 'y) slots \<Rightarrow> nat list \<Rightarrow> nat list \<Rightarrow> plan_env
     \<Rightarrow> plan_env \<times> (('c, 'x, 'y) slots \<times> nat list \<times> nat list) res"
where
  "plan_specs w p carry dedup [] ds pending dis env = (env, Inr (ds, pending, dis))"
| "plan_specs w p carry dedup (sp # specs) ds pending dis env =
     (case carry (as_name sp) of
        Some cs \<Rightarrow>
          if as_name sp \<in> bp_heterogeneous_axes p then
            (env, Inl (Exn ValueError ''Cannot create a carry strategy for axis'' [ArgStr (as_name sp)]))
          else plan_specs w p carry dedup specs (ds @ [Some (carry_decision sp cs)]) pending dis env
      | None \<Rightarrow>
          (case map_of dedup (as_name sp) of
             Some s \<Rightarrow>
               (case to_dedup_gather (pw_index_x w) (pw_index_y w) s of
                  Inl e \<Rightarrow> (env, Inl e)
                | Inr dg \<Rightarrow>
                    plan_specs w p carry dedup specs
                      (ds @ [Some \<lparr>ad_spec = sp, ad_batch_size = ds_k s,
                         ad_reasoning = DedupDeclared (as_name sp) (ds_k s) (dg_k_bucket dg),
                         ad_strategy = DedupGather dg\<rparr>]) pending (dis @ [length ds]) env)
           | None \<Rightarrow>
               if as_role sp = UNKNOWN then (env, Inl (ambiguous_axis sp))
               else if bp_budget p \<noteq> None \<and> as_bucket_boundaries sp = None then
                 plan_specs w p carry dedup specs (ds @ [None]) (pending @ [length ds]) dis env
               else
                 (case decide_strategy w p sp env of
                    (env', Inl e) \<Rightarrow> (env', Inl e)
                  | (env', Inr d) \<Rightarrow> plan_specs w p carry dedup specs (ds @ [Some d]) pending dis env')))"

definition plan ::
  "('x, 'y) plan_world \<Rightarrow> ('c, 'x, 'y) batch_planner \<Rightarrow> axis_spec list \<Rightarrow> plan_env
     \<Rightarrow> plan_env \<times> ('c, 'x, 'y) batch_plan res"
where
  "plan w p specs env =
     (let carry_by_name = map_of (rev (map (\<lambda>cs. (cs_axis_name cs, cs)) (bp_carry_specs p))) in
      case merge_dedup_specs (map (\<lambda>s. Some [(ds_axis_name s, s)]) (bp_dedup_specs p)) of
        Inl e \<Rightarrow> (env, Inl e)
      | Inr dedup_by_name \<Rightarrow>
          (case plan_specs w p carry_by_name dedup_by_name specs [] [] [] env of
             (env1, Inl e) \<Rightarrow> (env1, Inl e)
           | (env1, Inr (decisions, pending, dedup_indices)) \<Rightarrow>
               (case bp_budget p of
                  None \<Rightarrow> (env1, Inr (snapshot decisions))
                | Some budget \<Rightarrow>
                    (case plan_joint_budget w p budget specs decisions pending dedup_indices env1 of
                       (env2, Inl e) \<Rightarrow> (env2, Inl e)
                     | (env2, Inr final) \<Rightarrow> (env2, Inr (snapshot final))))))"

subsection \<open>One-axis planning\<close>

definition live_extent :: "('c, 'x, 'y) axis_decision \<Rightarrow> int" where
  "live_extent d = (case ad_strategy d of Vmap \<Rightarrow> as_cardinality (ad_spec d) | _ \<Rightarrow> ad_batch_size d)"

text \<open>An abstract argument: its \<open>shape\<close> and \<open>dtype\<close> attributes, when it has them, and its \<open>repr\<close>.\<close>

record abstract_arg =
  aa_shape :: "nat list option"
  aa_dtype :: "string option"
  aa_repr :: string

datatype abstract_sig = ShapedSig "nat list option" string | ReprSig string

definition abstract_signature :: "abstract_arg \<Rightarrow> abstract_sig" where
  "abstract_signature a =
     (if aa_shape a \<noteq> None \<or> aa_dtype a \<noteq> None
      then ShapedSig (aa_shape a) (case aa_dtype a of None \<Rightarrow> ''None'' | Some d \<Rightarrow> d)
      else ReprSig (aa_repr a))"

datatype 'f estimate_arg = EstBool bool | EstInt int | EstFn 'f | EstOther string

type_synonym 'f memo = "(('f \<times> abstract_sig list) \<times> int) list"

text \<open>\<open>lowered\<close> is \<open>lowered_memory_estimate\<close> on a callable and its abstract arguments.\<close>

definition bytes_per_element ::
  "('f \<Rightarrow> abstract_arg list \<Rightarrow> int res) \<Rightarrow> 'f estimate_arg \<Rightarrow> abstract_arg list \<Rightarrow> 'f memo option
     \<Rightarrow> 'f memo option \<times> int res"
where
  "bytes_per_element lowered estimate abstract_args memo =
     (case estimate of
        EstBool _ \<Rightarrow> (memo, Inl (Exn ValueError ''plan_axis: int estimate is bytes per element and must be >= 0'' []))
      | EstInt n \<Rightarrow>
          (memo,
           if n < 0 then Inl (Exn ValueError ''plan_axis: int estimate is bytes per element and must be >= 0'' [ArgInt n])
           else if abstract_args \<noteq> [] then Inl (Exn TypeError ''plan_axis: abstract args are only valid when estimate is a callable'' [])
           else Inr n)
      | EstOther t \<Rightarrow> (memo, Inl (Exn TypeError ''plan_axis: estimate must be an int or a callable'' [ArgStr t]))
      | EstFn f \<Rightarrow>
          if abstract_args = [] then (memo, Inl (Exn TypeError ''plan_axis: a callable estimate needs abstract args'' []))
          else
            let key = (f, map abstract_signature abstract_args) in
            (case (case memo of None \<Rightarrow> None | Some m \<Rightarrow> map_of m key) of
               Some v \<Rightarrow> (memo, Inr v)
             | None \<Rightarrow>
                 (case lowered f abstract_args of
                    Inl e \<Rightarrow> (memo, Inl e)
                  | Inr v \<Rightarrow> (map_option (AList.update key v) memo, Inr v))))"

definition joint_estimate :: "int \<Rightarrow> ('c, 'x, 'y) axis_decision list \<Rightarrow> int res" where
  "joint_estimate per_element decisions =
     Inr (per_element * fold (\<lambda>d live. live * live_extent d) decisions 1)"

definition plan_axis ::
  "('x, 'y) plan_world \<Rightarrow> ('f \<Rightarrow> abstract_arg list \<Rightarrow> int res) \<Rightarrow> axis_spec \<Rightarrow> abstract_arg list \<Rightarrow> 'f estimate_arg
     \<Rightarrow> py_val \<Rightarrow> 'f memo option \<Rightarrow> plan_env \<Rightarrow> plan_env \<times> 'f memo option \<times> ('c, 'x, 'y) axis_strategy res"
where
  "plan_axis w lowered sp abstract_args estimate budget memo env =
     (case bytes_per_element lowered estimate abstract_args memo of
        (memo', Inl e) \<Rightarrow> (env, memo', Inl e)
      | (memo', Inr per_element) \<Rightarrow>
          (case bind_res (MemoryBudget_post_init budget (Some (joint_estimate per_element)))
                  (\<lambda>mb. BatchPlanner_init None None None None (Some mb)) of
             Inl e \<Rightarrow> (env, memo', Inl e)
           | Inr planner \<Rightarrow>
               (case plan w planner [sp] env of
                  (env', Inl e) \<Rightarrow> (env', memo', Inl e)
                | (env', Inr decisions) \<Rightarrow> (env', memo', Inr (ad_strategy (hd decisions))))))"

end
