(* ===== verification/Tiling_Planner.thy ===== *)
theory Tiling_Planner
  imports Tiling_Plan
begin

text \<open>
  Correctness of the batch planner of \<open>Tiling_Plan\<close>: the invariant of the decision slots
  (\<open>slots_ok\<close>) through the planning loop, the greedy demotion, the release of dedup axes and
  the final notes; that a returned budget plan fits; that declaring dedup never makes a feasible
  plan infeasible, by computing the slots and pending indices the release loop ends in; and the
  behaviour of the per-axis memory override and of \<open>plan_axis\<close>.
\<close>

section \<open>Slots\<close>

text \<open>
  What every recorded decision satisfies: it is about its spec, a mapping strategy carries the
  spec's batch size, and (in budget mode) a heterogeneous axis is never mapped in parallel.
\<close>

definition decision_ok :: "bool \<Rightarrow> axis_spec \<Rightarrow> ('c, 'x, 'y) axis_decision \<Rightarrow> bool" where
  "decision_ok budgeted sp d \<longleftrightarrow>
     ad_spec d = sp
     \<and> ((ad_strategy d = Vmap \<or> (\<exists>c. ad_strategy d = ChunkedMap c)) \<longrightarrow> ad_batch_size d = as_default_batch_size sp)
     \<and> (budgeted \<and> as_heterogeneous sp \<longrightarrow> ad_strategy d \<noteq> Vmap)"

definition slots_ok :: "bool \<Rightarrow> axis_spec list \<Rightarrow> ('c, 'x, 'y) slots \<Rightarrow> bool" where
  "slots_ok budgeted specs ds \<longleftrightarrow>
     list_all2 (\<lambda>sp slot. case slot of None \<Rightarrow> True | Some d \<Rightarrow> decision_ok budgeted sp d) specs ds"

lemma slots_ok_nth:
  "slots_ok b specs ds \<Longrightarrow> i < length specs \<Longrightarrow> ds ! i = Some d \<Longrightarrow> decision_ok b (specs ! i) d"
  by (auto simp: slots_ok_def list_all2_conv_all_nth split: option.splits)

lemma slots_ok_length: "slots_ok b specs ds \<Longrightarrow> length ds = length specs"
  by (simp add: slots_ok_def list_all2_lengthD)

lemma slots_ok_update:
  "slots_ok b specs ds
    \<Longrightarrow> (i < length specs \<Longrightarrow> case slot of None \<Rightarrow> True | Some d \<Rightarrow> decision_ok b (specs ! i) d)
    \<Longrightarrow> slots_ok b specs (ds[i := slot])"
  by (cases "i < length ds")
    (auto simp: slots_ok_def list_all2_conv_all_nth nth_list_update split: option.splits)

lemma slots_ok_append:
  "slots_ok b specs ds \<Longrightarrow> case slot of None \<Rightarrow> True | Some d \<Rightarrow> decision_ok b sp d
    \<Longrightarrow> slots_ok b (specs @ [sp]) (ds @ [slot])"
  by (simp add: slots_ok_def list_all2_appendI)

lemma snapshot_full: "None \<notin> set ds \<Longrightarrow> snapshot ds = map the ds"
proof (induction ds)
  case (Cons slot ds)
  then show ?case by (cases slot) (simp_all add: snapshot_def)
qed (simp add: snapshot_def)

lemma snapshot_specs:
  assumes "slots_ok b specs ds" "None \<notin> set ds"
  shows "list_all2 (decision_ok b) specs (snapshot ds)"
proof -
  have "decision_ok b (specs ! i) (the (ds ! i))" if "i < length specs" for i
    using slots_ok_nth [OF assms(1) that] slots_ok_length [OF assms(1)] assms(2) that nth_mem [of i ds]
    by (cases "ds ! i") auto
  then show ?thesis
    using slots_ok_length [OF assms(1)] by (simp add: snapshot_full [OF assms(2)] list_all2_conv_all_nth)
qed

lemma decision_ok_simps [simp]:
  "decision_ok b sp (decision sp r (ChunkedMap c))"
  "decision_ok b sp (decision sp r (Bucket bs))"
  "decision_ok b sp (decision sp r Vmap) \<longleftrightarrow> \<not> (b \<and> as_heterogeneous sp)"
  "decision_ok b sp (budget_initial_decision sp)"
  "decision_ok b sp (carry_decision sp cs)"
  by (auto simp: decision_ok_def decision_def budget_initial_decision_def vmap_decision_batch_size_def
      carry_decision_def)

lemma decision_ok_finalize: "decision_ok b sp d \<Longrightarrow> decision_ok b sp (finalize_one bud est sp d)"
  by (auto simp: finalize_one_def Let_def decision_ok_def decision_def split: axis_strategy.splits)

lemma decision_ok_record_drop: "decision_ok b sp d \<Longrightarrow> decision_ok b sp (record_drop n d)"
  by (simp add: decision_ok_def record_drop_def)

lemma decide_strategy_ok:
  assumes "decide_strategy w p sp env = (env', Inr d)" "b \<Longrightarrow> as_bucket_boundaries sp \<noteq> None"
  shows "decision_ok b sp d"
  using assms
  by (auto simp: decide_strategy_def Let_def decision_ok_def decision_def
      split: option.splits prod.splits sum.splits if_splits)

section \<open>The planning loop\<close>

lemma plan_specs_ok:
  assumes "plan_specs w p carry dedup specs ds pending dis env = (env', Inr (ds', pending', dis'))"
    and "slots_ok (bp_budget p \<noteq> None) done ds" "\<forall>i<length ds. ds ! i = None \<longrightarrow> i \<in> set pending"
  shows "slots_ok (bp_budget p \<noteq> None) (done @ specs) ds' \<and> (\<forall>i<length ds'. ds' ! i = None \<longrightarrow> i \<in> set pending')
    \<and> (bp_budget p = None \<longrightarrow> pending' = pending)"
  using assms
proof (induction specs arbitrary: ds pending dis env "done")
  case (Cons sp specs)
  have step: "?case" if "plan_specs w p carry dedup specs (ds @ [slot]) pend dd e = (env', Inr (ds', pending', dis'))"
      "case slot of None \<Rightarrow> pend = pending @ [length ds] \<and> bp_budget p \<noteq> None
       | Some d \<Rightarrow> pend = pending \<and> decision_ok (bp_budget p \<noteq> None) sp d" for slot pend dd e
  proof -
    have "slots_ok (bp_budget p \<noteq> None) (done @ [sp]) (ds @ [slot])"
      using that(2) by (intro slots_ok_append [OF Cons.prems(2)]) (auto split: option.splits)
    moreover have "\<forall>i<length (ds @ [slot]). (ds @ [slot]) ! i = None \<longrightarrow> i \<in> set pend"
      using that(2) Cons.prems(3) by (auto simp: nth_append less_Suc_eq split: option.splits)
    ultimately show ?thesis
      using Cons.IH [OF that(1), of "done @ [sp]"] that(2) by (cases slot) simp_all
  qed
  show ?case
  proof (cases "carry (as_name sp)")
    case (Some cs)
    then show ?thesis using Cons.prems(1) step by (auto split: if_splits)
  next
    case no_carry: None
    show ?thesis
    proof (cases "map_of dedup (as_name sp)")
      case (Some s)
      then obtain dg where "plan_specs w p carry dedup specs
          (ds @ [Some \<lparr>ad_spec = sp, ad_batch_size = ds_k s,
             ad_reasoning = DedupDeclared (as_name sp) (ds_k s) (dg_k_bucket dg), ad_strategy = DedupGather dg\<rparr>])
          pending (dis @ [length ds]) env = (env', Inr (ds', pending', dis'))"
        using Cons.prems(1) no_carry by (auto split: sum.splits)
      then show ?thesis by (rule step) (simp add: decision_ok_def)
    next
      case no_dedup: None
      show ?thesis
      proof (cases "bp_budget p \<noteq> None \<and> as_bucket_boundaries sp = None")
        case True
        then have "plan_specs w p carry dedup specs (ds @ [None]) (pending @ [length ds]) dis env
            = (env', Inr (ds', pending', dis'))"
          using Cons.prems(1) no_carry no_dedup by (auto split: if_splits)
        then show ?thesis by (rule step) (use True in simp)
      next
        case False
        then obtain env1 d where "decide_strategy w p sp env = (env1, Inr d)"
          and eq: "plan_specs w p carry dedup specs (ds @ [Some d]) pending dis env1 = (env', Inr (ds', pending', dis'))"
          using Cons.prems(1) no_carry no_dedup by (auto split: if_splits prod.splits sum.splits)
        with decide_strategy_ok [of w p sp env env1 d] False show ?thesis by (intro step [OF eq]) auto
      qed
    qed
  qed
qed simp

lemma fold_slots_ok:
  assumes "slots_ok b specs ds"
    and "\<And>i slots. i \<in> set is \<Longrightarrow> slots_ok b specs slots \<Longrightarrow> slots_ok b specs (upd i slots)"
  shows "slots_ok b specs (fold upd is ds)"
  using assms by (induction "is" arbitrary: ds) auto

lemma finalize_ok:
  assumes "slots_ok b specs ds"
  shows "slots_ok b specs (finalize_budget_reasoning specs ds pending est bud)"
  unfolding finalize_budget_reasoning_def
  by (rule fold_slots_ok [OF assms])
    (auto simp: slots_ok_length split: option.splits intro!: slots_ok_update decision_ok_finalize intro: slots_ok_nth)

section \<open>Greedy demotion\<close>

lemma fold_update_length [simp]: "length (fold (\<lambda>idx d. d[idx := f idx]) is ds) = length ds"
  by (induction "is" arbitrary: ds) auto

lemma fold_update_nth:
  "i < length ds \<Longrightarrow> fold (\<lambda>idx d. d[idx := f idx]) is ds ! i = (if i \<in> set is then f i else ds ! i)"
  by (induction "is" arbitrary: ds) auto

text \<open>Only the slots outside \<open>pending\<close> matter to the greedy demotion, and it keeps them.\<close>

definition agree_off :: "nat list \<Rightarrow> 'a list \<Rightarrow> 'a list \<Rightarrow> bool" where
  "agree_off pending ds ds' \<longleftrightarrow> length ds = length ds' \<and> (\<forall>i<length ds. i \<notin> set pending \<longrightarrow> ds ! i = ds' ! i)"

lemma agree_off_update [simp]:
  "idx \<in> set pending \<Longrightarrow> agree_off pending ds' (ds[idx := x]) \<longleftrightarrow> agree_off pending ds' ds"
proof -
  assume "idx \<in> set pending"
  then have "ds[idx := x] ! i = ds ! i" if "i \<notin> set pending" for i
    using that by (metis nth_list_update_neq)
  then show ?thesis by (simp add: agree_off_def)
qed

lemma greedy_demote_cong:
  assumes "agree_off pending ds ds'"
  shows "greedy_demote specs ds pending bud = greedy_demote specs ds' pending bud"
proof -
  have "fold (\<lambda>idx d. d[idx := Some (budget_initial_decision (specs ! idx))]) pending ds
      = fold (\<lambda>idx d. d[idx := Some (budget_initial_decision (specs ! idx))]) pending ds'"
    using assms by (intro nth_equalityI) (auto simp: fold_update_nth agree_off_def)
  then show ?thesis by (simp add: greedy_demote_def)
qed

lemma demote_loop_agree:
  "demote_loop specs bud step ds est cands = Inr (ds', est') \<Longrightarrow> set cands \<subseteq> set pending \<Longrightarrow> agree_off pending ds' ds"
proof (induction cands arbitrary: step ds est)
  case (Cons idx cands)
  show ?case
  proof (cases "est \<le> mb_bytes bud")
    case True
    with Cons.prems(1) show ?thesis by (simp add: agree_off_def)
  next
    case False
    with Cons.prems(1) obtain slot aft where
      "demote_loop specs bud (Suc step) (ds[idx := slot]) aft cands = Inr (ds', est')"
      by (auto simp: Let_def res_simps)
    from Cons.IH [OF this] Cons.prems(2) show ?thesis by simp
  qed
qed (simp add: agree_off_def)

lemma greedy_demote_agree:
  assumes "greedy_demote specs ds pending bud = Inr (ds', est, n)"
  shows "agree_off pending ds' ds"
proof -
  define start where "start = fold (\<lambda>idx d. d[idx := Some (budget_initial_decision (specs ! idx))]) pending ds"
  from assms obtain e0 cands where "demote_loop specs bud 0 start e0 cands = Inr (ds', est)" "set cands \<subseteq> set pending"
    by (auto simp: greedy_demote_def res_simps Let_def start_def)
  from demote_loop_agree [OF this] show ?thesis by (auto simp: agree_off_def start_def fold_update_nth)
qed

lemma demote_loop_ok:
  assumes "demote_loop specs bud step ds est cands = Inr (ds', est')"
    and "slots_ok b specs ds" "None \<notin> set ds"
  shows "slots_ok b specs ds' \<and> None \<notin> set ds'"
  using assms
proof (induction cands arbitrary: step ds est)
  case (Cons idx cands)
  show ?case
  proof (cases "est \<le> mb_bytes bud")
    case True
    with Cons.prems show ?thesis by simp
  next
    case False
    define sp c where "sp = specs ! idx" and "c = as_default_batch_size sp"
    from False Cons.prems(1) obtain aft where
      eq: "demote_loop specs bud (Suc step)
        (ds[idx := Some (decision sp (BudgetDemoted c (Suc step) est aft (mb_bytes bud)) (ChunkedMap c))])
        aft cands = Inr (ds', est')"
      by (auto simp: Let_def res_simps sp_def c_def)
    have "None \<notin> set (ds[idx := Some (decision sp (BudgetDemoted c (Suc step) est aft (mb_bytes bud)) (ChunkedMap c))])"
      using Cons.prems(3) set_update_subset_insert [of ds idx] by blast
    from Cons.IH [OF eq _ this] Cons.prems(2) show ?thesis by (simp add: slots_ok_update sp_def)
  qed
qed simp

lemma greedy_demote_ok:
  assumes "greedy_demote specs ds pending bud = Inr (ds', est, n)"
    and "slots_ok b specs ds" "\<forall>i<length ds. ds ! i = None \<longrightarrow> i \<in> set pending"
  shows "slots_ok b specs ds'" "None \<notin> set ds'"
proof -
  define start where "start = fold (\<lambda>idx d. d[idx := Some (budget_initial_decision (specs ! idx))]) pending ds"
  from assms(1) obtain e0 cands where loop: "demote_loop specs bud 0 start e0 cands = Inr (ds', est)"
    by (auto simp: greedy_demote_def res_simps Let_def start_def)
  have "slots_ok b specs start"
    unfolding start_def by (rule fold_slots_ok [OF assms(2)]) (auto intro: slots_ok_update)
  moreover have "None \<notin> set start"
    using assms(3) by (auto simp: in_set_conv_nth start_def fold_update_nth split: if_splits)
  ultimately show "slots_ok b specs ds'" "None \<notin> set ds'" using demote_loop_ok [OF loop] by auto
qed

section \<open>Releasing dedup axes\<close>

text \<open>The slot an axis gets when it is handed back to ordinary budget planning.\<close>

definition ordinary_slot :: "axis_spec \<Rightarrow> ('c, 'x, 'y) axis_decision option" where
  "ordinary_slot sp = map_option (\<lambda>bs. decision sp (BucketPadding bs) (Bucket bs)) (as_bucket_boundaries sp)"

definition release_pending :: "axis_spec list \<Rightarrow> nat \<Rightarrow> nat list \<Rightarrow> nat list" where
  "release_pending specs idx pending =
     (if as_bucket_boundaries (specs ! idx) = None then sorted_list_of_set (insert idx (set pending)) else pending)"

lemma set_release_pending:
  "set (release_pending specs idx pending)
    = set pending \<union> (if as_bucket_boundaries (specs ! idx) = None then {idx} else {})"
  unfolding release_pending_def by (simp del: sorted_list_of_set_insert_remove)

lemma release_loop_step:
  assumes "release_loop w p bud specs (idx # dis) js env = (env', Inr js')" "\<not> js_estimate js \<le> mb_bytes bud"
  obtains d est n env2 where "as_role (specs ! idx) \<noteq> UNKNOWN"
    "greedy_demote specs ((js_decisions js)[idx := ordinary_slot (specs ! idx)])
       (release_pending specs idx (js_pending js)) bud = Inr (d, est, n)"
    "release_loop w p bud specs dis \<lparr>js_decisions = d, js_pending = release_pending specs idx (js_pending js),
       js_estimate = est, js_n_candidates = n, js_dropped = js_dropped js @ [idx]\<rparr> env2 = (env', Inr js')"
  using assms
  by (auto simp: Let_def decide_strategy_def ordinary_slot_def release_pending_def
      split: if_splits option.splits sum.splits prod.splits)

text \<open>The joint state is the greedy demotion of some slots that agree with it off \<open>pending\<close>.\<close>

definition joint_ok :: "('c, 'x, 'y) memory_budget \<Rightarrow> axis_spec list \<Rightarrow> ('c, 'x, 'y) joint_state \<Rightarrow> bool" where
  "joint_ok bud specs js \<longleftrightarrow>
     slots_ok True specs (js_decisions js) \<and> None \<notin> set (js_decisions js)
     \<and> (\<exists>ds. greedy_demote specs ds (js_pending js) bud
          = Inr (js_decisions js, js_estimate js, js_n_candidates js))"

lemma release_loop_ok:
  assumes "release_loop w p bud specs dis js env = (env', Inr js')" "joint_ok bud specs js"
  shows "joint_ok bud specs js'"
  using assms
proof (induction dis arbitrary: js env)
  case (Cons idx dis)
  show ?case
  proof (cases "js_estimate js \<le> mb_bytes bud")
    case True
    with Cons.prems show ?thesis by simp
  next
    case False
    from release_loop_step [OF Cons.prems(1) False] obtain d est n env2 where
      g: "greedy_demote specs ((js_decisions js)[idx := ordinary_slot (specs ! idx)])
        (release_pending specs idx (js_pending js)) bud = Inr (d, est, n)"
      and rest: "release_loop w p bud specs dis \<lparr>js_decisions = d, js_pending = release_pending specs idx (js_pending js),
        js_estimate = est, js_n_candidates = n, js_dropped = js_dropped js @ [idx]\<rparr> env2 = (env', Inr js')"
      by metis
    let ?ds = "(js_decisions js)[idx := ordinary_slot (specs ! idx)]"
    have ok: "slots_ok True specs ?ds"
      using Cons.prems(2) by (auto simp: joint_ok_def ordinary_slot_def split: option.splits intro!: slots_ok_update)
    have full: "None \<notin> set (js_decisions js)" using Cons.prems(2) by (simp add: joint_ok_def)
    have "\<forall>i<length ?ds. ?ds ! i = None \<longrightarrow> i \<in> set (release_pending specs idx (js_pending js))"
    proof (intro allI impI)
      fix i assume i: "i < length ?ds" "?ds ! i = None"
      then have "js_decisions js ! i \<noteq> None" using full by (metis length_list_update nth_mem)
      with i(2) have idx: "i = idx" by (metis nth_list_update_neq)
      with i have "as_bucket_boundaries (specs ! idx) = None" by (simp add: ordinary_slot_def)
      then show "i \<in> set (release_pending specs idx (js_pending js))"
        using idx by (simp add: set_release_pending)
    qed
    from greedy_demote_ok [OF g ok this] g show ?thesis
      by (intro Cons.IH [OF rest]) (auto simp: joint_ok_def)
  qed
qed simp

section \<open>The joint plan\<close>

definition record_drops :: "int \<Rightarrow> nat list \<Rightarrow> ('c, 'x, 'y) slots \<Rightarrow> ('c, 'x, 'y) slots" where
  "record_drops n dropped ds =
     fold (\<lambda>idx ds. case ds ! idx of None \<Rightarrow> ds | Some d \<Rightarrow> ds[idx := Some (record_drop n d)]) dropped ds"

lemma plan_joint_budget_Inr:
  assumes "plan_joint_budget w p bud specs ds pending dis env = (env', Inr final)"
    and "slots_ok True specs ds" "\<forall>i<length ds. ds ! i = None \<longrightarrow> i \<in> set pending"
  obtains js where "joint_ok bud specs js" "js_estimate js \<le> mb_bytes bud"
    "final = record_drops (mb_bytes bud) (js_dropped js)
       (finalize_budget_reasoning specs (js_decisions js) (js_pending js) (js_estimate js) bud)"
proof -
  from assms(1) obtain d est n js where g: "greedy_demote specs ds pending bud = Inr (d, est, n)"
    and rel: "release_loop w p bud specs dis \<lparr>js_decisions = d, js_pending = pending, js_estimate = est,
        js_n_candidates = n, js_dropped = []\<rparr> env = (env', Inr js)"
    and fin: "js_estimate js \<le> mb_bytes bud"
      "final = record_drops (mb_bytes bud) (js_dropped js)
         (finalize_budget_reasoning specs (js_decisions js) (js_pending js) (js_estimate js) bud)"
    by (auto simp: plan_joint_budget_def record_drops_def split: sum.splits prod.splits if_splits)
  have "joint_ok bud specs \<lparr>js_decisions = d, js_pending = pending, js_estimate = est,
      js_n_candidates = n, js_dropped = []\<rparr>"
    using greedy_demote_ok [OF g assms(2,3)] g by (auto simp: joint_ok_def)
  from release_loop_ok [OF rel this] fin that show thesis by blast
qed

text \<open>Reasoning strings aside, finalisation and the drop note change no decision.\<close>

definition strip :: "('c, 'x, 'y) axis_decision \<Rightarrow> ('c, 'x, 'y) axis_decision" where
  "strip d = d\<lparr>ad_reasoning := VmapByCardinality\<rparr>"

definition same_slots :: "('c, 'x, 'y) slots \<Rightarrow> ('c, 'x, 'y) slots \<Rightarrow> bool" where
  "same_slots ds ds' \<longleftrightarrow> map (map_option strip) ds = map (map_option strip) ds'"

lemma strip_finalize: "decision_ok b sp d \<Longrightarrow> strip (finalize_one bud est sp d) = strip d"
  by (cases d) (auto simp: strip_def finalize_one_def decision_ok_def decision_def Let_def split: axis_strategy.splits)

lemma strip_record_drop: "strip (record_drop n d) = strip d"
  by (simp add: strip_def record_drop_def)

lemma same_slots_update:
  "ds ! i = Some d \<Longrightarrow> i < length ds \<Longrightarrow> strip d' = strip d \<Longrightarrow> same_slots (ds[i := Some d']) ds"
  unfolding same_slots_def by (intro nth_equalityI) (auto simp: nth_list_update)

lemma same_slots_trans: "same_slots a b \<Longrightarrow> same_slots b c \<Longrightarrow> same_slots a c"
  by (simp add: same_slots_def)

lemma same_slots_full: "same_slots (ds :: ('c, 'x, 'y) slots) ds' \<Longrightarrow> None \<in> set ds \<longleftrightarrow> None \<in> set ds'"
proof -
  have "None \<in> set ds \<longleftrightarrow> None \<in> set (map (map_option strip) ds)" for ds :: "('c, 'x, 'y) slots"
    by (induction ds) auto
  then show "same_slots ds ds' \<Longrightarrow> None \<in> set ds \<longleftrightarrow> None \<in> set ds'" 
    unfolding same_slots_def by metis
qed

lemma strip_snapshot: "map strip (snapshot ds) = snapshot (map (map_option strip) ds)"
proof (induction ds)
  case (Cons slot ds)
  then show ?case by (cases slot) (simp_all add: snapshot_def)
qed (simp add: snapshot_def)

lemma same_slots_snapshot: "same_slots ds ds' \<Longrightarrow> map strip (snapshot ds) = map strip (snapshot ds')"
  by (simp add: strip_snapshot same_slots_def)

lemma finalize_same:
  "slots_ok b specs ds \<Longrightarrow> \<forall>i\<in>set pending. i < length specs
    \<Longrightarrow> same_slots (finalize_budget_reasoning specs ds pending est bud) ds"
proof (induction pending arbitrary: ds)
  case (Cons i pending)
  let ?ds = "case ds ! i of None \<Rightarrow> ds | Some d \<Rightarrow> ds[i := Some (finalize_one bud est (specs ! i) d)]"
  have "same_slots ?ds ds"
    using Cons.prems slots_ok_nth [OF Cons.prems(1), of i] slots_ok_length [OF Cons.prems(1)]
    by (auto simp: same_slots_def [of ds ds] strip_finalize split: option.splits intro!: same_slots_update)
  moreover have "slots_ok b specs ?ds"
    using finalize_ok [OF Cons.prems(1), of "[i]" est bud] by (simp add: finalize_budget_reasoning_def)
  ultimately show ?case
    using Cons.IH [of ?ds] Cons.prems(2) same_slots_trans by (fastforce simp: finalize_budget_reasoning_def)
qed (simp add: finalize_budget_reasoning_def same_slots_def)

lemma record_drops_same: "same_slots (record_drops n dropped ds) ds"
proof (induction dropped arbitrary: ds)
  case (Cons i dropped)
  have "same_slots (case ds ! i of None \<Rightarrow> ds | Some d \<Rightarrow> ds[i := Some (record_drop n d)]) ds"
    by (cases "i < length ds")
      (auto simp: same_slots_def [of ds ds] strip_record_drop list_update_beyond split: option.splits
        intro!: same_slots_update)
  with Cons.IH same_slots_trans show ?case by (fastforce simp: record_drops_def)
qed (simp add: record_drops_def same_slots_def)

text \<open>\<open>release_pending\<close> and greedy demotion only ever name indices of the spec list.\<close>

lemma finalize_out_of_range:
  "length ds = length specs \<Longrightarrow>
    same_slots (finalize_budget_reasoning specs ds pending est bud)
      (finalize_budget_reasoning specs ds (filter (\<lambda>i. i < length specs) pending) est bud)"
proof (induction pending arbitrary: ds)
  case (Cons i pending)
  then show ?case
    by (cases "i < length specs")
      (auto simp: finalize_budget_reasoning_def list_update_beyond split: option.splits)
qed (simp add: finalize_budget_reasoning_def same_slots_def)

lemma joint_result:
  assumes "joint_ok bud specs js"
  defines "final \<equiv> record_drops (mb_bytes bud) (js_dropped js)
       (finalize_budget_reasoning specs (js_decisions js) (js_pending js) (js_estimate js) bud)"
  shows "same_slots final (js_decisions js)" "None \<notin> set final" "slots_ok True specs final"
proof -
  have ok: "slots_ok True specs (js_decisions js)" "None \<notin> set (js_decisions js)"
    using assms(1) by (auto simp: joint_ok_def)
  have "same_slots (finalize_budget_reasoning specs (js_decisions js)
      (filter (\<lambda>i. i < length specs) (js_pending js)) (js_estimate js) bud) (js_decisions js)"
    by (rule finalize_same [OF ok(1)]) simp
  then show same: "same_slots final (js_decisions js)"
    unfolding final_def using record_drops_same finalize_out_of_range [OF slots_ok_length [OF ok(1)]]
    by (blast intro: same_slots_trans)
  show "None \<notin> set final" using same_slots_full [OF same] ok(2) by simp
  have "slots_ok True specs (record_drops n dropped ds)" if "slots_ok True specs ds" for n dropped ds
    unfolding record_drops_def
    by (rule fold_slots_ok [OF that])
      (auto split: option.splits intro!: slots_ok_update decision_ok_record_drop intro: slots_ok_nth)
  then show "slots_ok True specs final" unfolding final_def using finalize_ok [OF ok(1)] by blast
qed

lemma plan_loop:
  assumes "plan w p specs env = (env', Inr decisions)"
  obtains carry dedup env1 ds pending dis where
    "plan_specs w p carry dedup specs [] [] [] env = (env1, Inr (ds, pending, dis))"
    "(case bp_budget p of None \<Rightarrow> (env1, Inr (snapshot ds))
      | Some b \<Rightarrow> (case plan_joint_budget w p b specs ds pending dis env1 of
                    (e2, Inl e) \<Rightarrow> (e2, Inl e) | (e2, Inr final) \<Rightarrow> (e2, Inr (snapshot final)))) = (env', Inr decisions)"
proof -
  let ?carry = "map_of (rev (map (\<lambda>cs. (cs_axis_name cs, cs)) (bp_carry_specs p)))"
  obtain dedup where m: "merge_dedup_specs (map (\<lambda>s. Some [(ds_axis_name s, s)]) (bp_dedup_specs p)) = Inr dedup"
    using assms by (cases "merge_dedup_specs (map (\<lambda>s. Some [(ds_axis_name s, s)]) (bp_dedup_specs p))")
      (simp_all add: plan_def)
  obtain env1 r where l: "plan_specs w p ?carry dedup specs [] [] [] env = (env1, r)" by (cases "plan_specs w p ?carry dedup specs [] [] [] env")
  then obtain ds pending dis where r: "r = Inr (ds, pending, dis)"
    using assms m by (cases r) (auto simp: plan_def)
  show thesis using that [of ?carry dedup env1 ds pending dis] l r assms m by (simp add: plan_def)
qed

lemma plan_Inr:
  assumes "plan w p specs env = (env', Inr decisions)"
  shows "list_all2 (decision_ok (bp_budget p \<noteq> None)) specs decisions"
    and "bp_budget p = Some bud \<Longrightarrow> \<exists>js. joint_ok bud specs js \<and> js_estimate js \<le> mb_bytes bud
      \<and> map strip decisions = map strip (snapshot (js_decisions js))"
proof -
  obtain carry dedup env1 ds pending dis where
    loop: "plan_specs w p carry dedup specs [] [] [] env = (env1, Inr (ds, pending, dis))"
    and tail: "(case bp_budget p of None \<Rightarrow> (env1, Inr (snapshot ds))
      | Some b \<Rightarrow> (case plan_joint_budget w p b specs ds pending dis env1 of
                    (e2, Inl e) \<Rightarrow> (e2, Inl e) | (e2, Inr final) \<Rightarrow> (e2, Inr (snapshot final)))) = (env', Inr decisions)"
    by (rule plan_loop [OF assms])
  have base: "slots_ok (bp_budget p \<noteq> None) specs ds" "\<forall>i<length ds. ds ! i = None \<longrightarrow> i \<in> set pending"
    "bp_budget p = None \<longrightarrow> pending = []"
    using plan_specs_ok [OF loop, of "[]"] by (auto simp: slots_ok_def)
  have joint: "\<exists>js final. joint_ok b specs js \<and> js_estimate js \<le> mb_bytes b \<and> decisions = snapshot final
      \<and> same_slots final (js_decisions js) \<and> None \<notin> set final \<and> slots_ok True specs final"
    if b: "bp_budget p = Some b" for b
  proof -
    from tail b obtain final where "plan_joint_budget w p b specs ds pending dis env1 = (env', Inr final)"
      and dec: "decisions = snapshot final" by (auto split: prod.splits sum.splits)
    then obtain js where "joint_ok b specs js" "js_estimate js \<le> mb_bytes b"
      "final = record_drops (mb_bytes b) (js_dropped js)
         (finalize_budget_reasoning specs (js_decisions js) (js_pending js) (js_estimate js) b)"
      using plan_joint_budget_Inr [of w p b specs ds pending dis env1 env' final] base(1,2) b by auto
    with joint_result [of b specs js] dec show ?thesis by blast
  qed
  show "list_all2 (decision_ok (bp_budget p \<noteq> None)) specs decisions"
  proof (cases "bp_budget p")
    case None
    then have "None \<notin> set ds" using base by (auto simp: in_set_conv_nth)
    then show ?thesis using snapshot_specs [OF base(1)] tail None by simp
  next
    case (Some b)
    with joint [OF Some] snapshot_specs show ?thesis by auto
  qed
  show "\<exists>js. joint_ok bud specs js \<and> js_estimate js \<le> mb_bytes bud
      \<and> map strip decisions = map strip (snapshot (js_decisions js))" if "bp_budget p = Some bud"
    using joint [OF that] same_slots_snapshot by blast
qed

text \<open>An estimator that looks at specs, batch sizes and strategies, not at the explanations.\<close>

definition ignores_reasoning :: "(('c, 'x, 'y) axis_decision list \<Rightarrow> int res) \<Rightarrow> bool" where
  "ignores_reasoning est \<longleftrightarrow> (\<forall>ds ds'. map strip ds = map strip ds' \<longrightarrow> est ds = est ds')"

lemma demote_loop_estimate:
  assumes "demote_loop specs bud step ds est cands = Inr (ds', est')" "ignores_reasoning (mb_estimate bud)"
    and "mb_estimate bud (snapshot ds) = Inr est"
  shows "mb_estimate bud (snapshot ds') = Inr est'"
  using assms
proof (induction cands arbitrary: step ds est)
  case (Cons idx cands)
  show ?case
  proof (cases "est \<le> mb_bytes bud")
    case True
    with Cons.prems show ?thesis by simp
  next
    case False
    define sp c where "sp = specs ! idx" and "c = as_default_batch_size sp"
    let ?trial = "ds[idx := Some (decision sp BudgetDemotedPending (ChunkedMap c))]"
    from False Cons.prems(1) obtain aft where est: "mb_estimate bud (snapshot ?trial) = Inr aft"
      and eq: "demote_loop specs bud (Suc step)
        (?trial[idx := Some (decision sp (BudgetDemoted c (Suc step) est aft (mb_bytes bud)) (ChunkedMap c))])
        aft cands = Inr (ds', est')"
      by (auto simp: Let_def res_simps sp_def c_def)
    have "same_slots (?trial[idx := Some (decision sp (BudgetDemoted c (Suc step) est aft (mb_bytes bud)) (ChunkedMap c))]) ?trial"
      by (simp add: same_slots_def map_update strip_def decision_def)
    with est Cons.prems(2) have "mb_estimate bud (snapshot (?trial[idx := Some (decision sp
        (BudgetDemoted c (Suc step) est aft (mb_bytes bud)) (ChunkedMap c))])) = Inr aft"
      unfolding ignores_reasoning_def by (metis same_slots_snapshot)
    from Cons.IH [OF eq Cons.prems(2) this] show ?thesis .
  qed
qed simp

lemma greedy_demote_estimate:
  assumes "greedy_demote specs ds pending bud = Inr (ds', est, n)" "ignores_reasoning (mb_estimate bud)"
  shows "mb_estimate bud (snapshot ds') = Inr est"
  using assms demote_loop_estimate by (fastforce simp: greedy_demote_def res_simps Let_def)

section \<open>Properties of plans\<close>

text \<open>
  C5. A plan has one decision per spec, in spec order; every mapping decision carries the spec's
  batch size; and in joint-budget mode a heterogeneous axis is never planned as \<open>Vmap\<close>.
\<close>

theorem plan_decisions:
  assumes "plan w p specs env = (env', Inr decisions)"
  shows "map ad_spec decisions = specs
    \<and> (\<forall>d\<in>set decisions. (ad_strategy d = Vmap \<or> (\<exists>c. ad_strategy d = ChunkedMap c))
          \<longrightarrow> ad_batch_size d = as_default_batch_size (ad_spec d))
    \<and> (bp_budget p \<noteq> None \<longrightarrow> (\<forall>d\<in>set decisions. as_heterogeneous (ad_spec d) \<longrightarrow> ad_strategy d \<noteq> Vmap))"
proof -
  have ok: "list_all2 (decision_ok (bp_budget p \<noteq> None)) specs decisions" by (rule plan_Inr(1) [OF assms])
  then have "map ad_spec decisions = specs"
    by (induction rule: list_all2_induct) (auto simp: decision_ok_def)
  moreover have "\<exists>sp. decision_ok (bp_budget p \<noteq> None) sp d" if "d \<in> set decisions" for d
    using list_all2_pick(2) [OF ok that] by blast
  ultimately show ?thesis by (fastforce simp: decision_ok_def)
qed

text \<open>
  C3. In joint-budget mode a returned plan fits: for an estimator that does not read the explanations, the
  estimate of the returned decisions is at most \<open>budget.bytes\<close>.
\<close>

theorem budget_plan_fits:
  assumes "plan w p specs env = (env', Inr decisions)" "bp_budget p = Some bud"
    and "ignores_reasoning (mb_estimate bud)"
  shows "\<exists>est. mb_estimate bud decisions = Inr est \<and> est \<le> mb_bytes bud"
proof -
  obtain js where js: "joint_ok bud specs js" "js_estimate js \<le> mb_bytes bud"
    "map strip decisions = map strip (snapshot (js_decisions js))"
    using plan_Inr(2) [OF assms(1,2)] by blast
  then have "mb_estimate bud (snapshot (js_decisions js)) = Inr (js_estimate js)"
    using greedy_demote_estimate assms(3) unfolding joint_ok_def by blast
  moreover have "mb_estimate bud decisions = mb_estimate bud (snapshot (js_decisions js))"
    using assms(3) js(3) unfolding ignores_reasoning_def by blast
  ultimately show ?thesis using js(2) by simp
qed

section \<open>Dedup never costs feasibility\<close>

definition positions :: "('a \<Rightarrow> bool) \<Rightarrow> 'a list \<Rightarrow> nat list" where
  "positions Q xs = filter (\<lambda>i. Q (xs ! i)) [0..<length xs]"

lemma positions_Nil [simp]: "positions Q [] = []"
  by (simp add: positions_def)

lemma positions_Cons: "positions Q (x # xs) = (if Q x then [0] else []) @ map Suc (positions Q xs)"
proof -
  have "[0..<length (x # xs)] = 0 # map Suc [0..<length xs]"
    by (simp add: upt_conv_Cons map_Suc_upt del: upt_Suc)
  then show ?thesis by (simp add: positions_def filter_map comp_def)
qed

lemma set_positions: "set (positions Q xs) = {i. i < length xs \<and> Q (xs ! i)}"
  by (auto simp: positions_def)

lemma positions_sorted_distinct: "sorted (positions Q xs)" "distinct (positions Q xs)"
  by (simp_all add: positions_def sorted_wrt_filter)

text \<open>What the planning loop does with one spec in budget mode.\<close>

definition budget_slot ::
  "('x, 'y) plan_world \<Rightarrow> (string \<Rightarrow> ('c, 'x, 'y) carry_spec option) \<Rightarrow> (string \<times> ('x, 'y) dedup_spec) list
     \<Rightarrow> axis_spec \<Rightarrow> ('c, 'x, 'y) axis_decision option"
where
  "budget_slot w carry dedup sp =
     (case carry (as_name sp) of
        Some cs \<Rightarrow> Some (carry_decision sp cs)
      | None \<Rightarrow>
          (case map_of dedup (as_name sp) of
             Some s \<Rightarrow>
               (let dg = projr (to_dedup_gather (pw_index_x w) (pw_index_y w) s)
                in Some \<lparr>ad_spec = sp, ad_batch_size = ds_k s,
                    ad_reasoning = DedupDeclared (as_name sp) (ds_k s) (dg_k_bucket dg), ad_strategy = DedupGather dg\<rparr>)
           | None \<Rightarrow> ordinary_slot sp))"

definition is_pending ::
  "(string \<Rightarrow> ('c, 'x, 'y) carry_spec option) \<Rightarrow> (string \<times> ('x, 'y) dedup_spec) list \<Rightarrow> axis_spec \<Rightarrow> bool"
where
  "is_pending carry dedup sp \<longleftrightarrow>
     carry (as_name sp) = None \<and> map_of dedup (as_name sp) = None \<and> as_bucket_boundaries sp = None"

definition is_dedup ::
  "(string \<Rightarrow> ('c, 'x, 'y) carry_spec option) \<Rightarrow> (string \<times> ('x, 'y) dedup_spec) list \<Rightarrow> axis_spec \<Rightarrow> bool"
where
  "is_dedup carry dedup sp \<longleftrightarrow> carry (as_name sp) = None \<and> map_of dedup (as_name sp) \<noteq> None"

lemma map_plus_zero [simp]: "map ((+) (0 :: nat)) xs = xs"
  by (induction xs) auto

lemma plan_specs_budget:
  assumes "plan_specs w p carry dedup specs ds pending dis env = (env', Inr (ds', pending', dis'))"
    and "bp_budget p \<noteq> None"
  shows "ds' = ds @ map (budget_slot w carry dedup) specs
    \<and> pending' = pending @ map ((+) (length ds)) (positions (is_pending carry dedup) specs)
    \<and> dis' = dis @ map ((+) (length ds)) (positions (is_dedup carry dedup) specs)"
  using assms(1)
proof (induction specs arbitrary: ds pending dis env)
  case (Cons sp specs)
  have shift: "map ((+) (length (ds @ [x]))) xs = map ((+) (length ds)) (map Suc xs)" for x xs by simp
  show ?case
  proof (cases "carry (as_name sp)")
    case (Some cs)
    with Cons.prems have "plan_specs w p carry dedup specs (ds @ [Some (carry_decision sp cs)]) pending dis env
        = (env', Inr (ds', pending', dis'))" by (simp split: if_splits)
    from Cons.IH [OF this] Some show ?thesis
      by (simp add: shift budget_slot_def is_pending_def is_dedup_def positions_Cons del: length_append)
  next
    case no_carry: None
    show ?thesis
    proof (cases "map_of dedup (as_name sp)")
      case (Some s)
      with Cons.prems no_carry obtain dg where "to_dedup_gather (pw_index_x w) (pw_index_y w) s = Inr dg"
        and "plan_specs w p carry dedup specs
          (ds @ [Some \<lparr>ad_spec = sp, ad_batch_size = ds_k s,
             ad_reasoning = DedupDeclared (as_name sp) (ds_k s) (dg_k_bucket dg), ad_strategy = DedupGather dg\<rparr>])
          pending (dis @ [length ds]) env = (env', Inr (ds', pending', dis'))"
        by (auto split: sum.splits)
      from Cons.IH [OF this(2)] this(1) Some no_carry show ?thesis
        by (simp add: shift budget_slot_def is_pending_def is_dedup_def positions_Cons Let_def del: length_append)
    next
      case None
      have "plan_specs w p carry dedup specs (ds @ [ordinary_slot sp])
          (if as_bucket_boundaries sp = None then pending @ [length ds] else pending) dis env
          = (env', Inr (ds', pending', dis'))"
        using Cons.prems no_carry None assms(2)
        by (auto simp: decide_strategy_def ordinary_slot_def split: if_splits)
      from Cons.IH [OF this] None no_carry show ?thesis
        by (simp add: shift budget_slot_def is_pending_def is_dedup_def positions_Cons del: length_append)
    qed
  qed
qed simp

text \<open>The slots and pending indices once all listed dedup axes have been released.\<close>

definition release_slots :: "axis_spec list \<Rightarrow> nat list \<Rightarrow> ('c, 'x, 'y) slots \<Rightarrow> ('c, 'x, 'y) slots" where
  "release_slots specs dis ds = fold (\<lambda>idx d. d[idx := ordinary_slot (specs ! idx)]) dis ds"

lemma release_exhausted:
  assumes "release_loop w p bud specs dis js env = (env', Inr js')" "mb_bytes bud < js_estimate js'"
    and "greedy_demote specs ds (js_pending js) bud = Inr (js_decisions js, js_estimate js, js_n_candidates js)"
  shows "greedy_demote specs (release_slots specs dis ds) (fold (release_pending specs) dis (js_pending js)) bud
    = Inr (js_decisions js', js_estimate js', js_n_candidates js')"
  using assms
proof (induction dis arbitrary: js env ds)
  case Nil
  then show ?case by (simp add: release_slots_def)
next
  case (Cons idx dis)
  have more: "\<not> js_estimate js \<le> mb_bytes bud" using Cons.prems(1,2) by (auto split: if_splits)
  let ?pend = "release_pending specs idx (js_pending js)"
  from release_loop_step [OF Cons.prems(1) more] obtain d est n env2 where
    g: "greedy_demote specs ((js_decisions js)[idx := ordinary_slot (specs ! idx)]) ?pend bud = Inr (d, est, n)"
    and rest: "release_loop w p bud specs dis \<lparr>js_decisions = d, js_pending = ?pend,
      js_estimate = est, js_n_candidates = n, js_dropped = js_dropped js @ [idx]\<rparr> env2 = (env', Inr js')"
    by metis
  have agree: "agree_off (js_pending js) (js_decisions js) ds" by (rule greedy_demote_agree [OF Cons.prems(3)])
  have "agree_off ?pend ((js_decisions js)[idx := ordinary_slot (specs ! idx)]) (ds[idx := ordinary_slot (specs ! idx)])"
    unfolding agree_off_def
  proof (intro conjI allI impI)
    fix i assume i: "i < length ((js_decisions js)[idx := ordinary_slot (specs ! idx)])" "i \<notin> set ?pend"
    then have "js_decisions js ! i = ds ! i" using agree by (auto simp: agree_off_def set_release_pending)
    then show "(js_decisions js)[idx := ordinary_slot (specs ! idx)] ! i = ds[idx := ordinary_slot (specs ! idx)] ! i"
      using i(1) agree by (cases "i = idx") (auto simp: agree_off_def)
  qed (use agree in \<open>simp add: agree_off_def\<close>)
  from greedy_demote_cong [OF this] g
  have "greedy_demote specs (ds[idx := ordinary_slot (specs ! idx)]) ?pend bud = Inr (d, est, n)" by simp
  from Cons.IH [OF rest Cons.prems(2)] this show ?case by (simp add: release_slots_def)
qed

lemma released_pending:
  "sorted pend \<Longrightarrow> distinct pend \<Longrightarrow> sorted (fold (release_pending specs) dis pend)
    \<and> distinct (fold (release_pending specs) dis pend)
    \<and> set (fold (release_pending specs) dis pend) = set pend \<union> {i\<in>set dis. as_bucket_boundaries (specs ! i) = None}"
proof (induction dis arbitrary: pend)
  case (Cons i dis)
  have "sorted (release_pending specs i pend)" "distinct (release_pending specs i pend)"
    using Cons.prems by (simp_all add: release_pending_def del: sorted_list_of_set_insert_remove)
  from Cons.IH [OF this] show ?case by (auto simp: set_release_pending)
qed simp

lemma release_all:
  "release_slots specs (positions (is_dedup carry dedup) specs) (map (budget_slot w carry dedup) specs)
     = map (budget_slot w carry []) specs"
  "fold (release_pending specs) (positions (is_dedup carry dedup) specs) (positions (is_pending carry dedup) specs)
     = positions (is_pending carry []) specs"
proof -
  show "release_slots specs (positions (is_dedup carry dedup) specs) (map (budget_slot w carry dedup) specs)
     = map (budget_slot w carry []) specs"
    by (rule nth_equalityI)
      (auto simp: release_slots_def fold_update_nth set_positions is_dedup_def budget_slot_def split: option.splits)
  let ?f = "fold (release_pending specs) (positions (is_dedup carry dedup) specs) (positions (is_pending carry dedup) specs)"
  note rel = released_pending [OF positions_sorted_distinct, of specs "positions (is_dedup carry dedup) specs"
      "is_pending carry dedup" specs]
  have "set ?f = set (positions (is_pending carry []) specs)"
    using rel by (auto simp: set_positions is_dedup_def is_pending_def)
  with rel positions_sorted_distinct show "?f = positions (is_pending carry []) specs"
    by (intro sorted_distinct_set_unique) blast+
qed

text \<open>Errors of the planner other than its own verdict.\<close>

definition estimator_errors :: "('c, 'x, 'y) memory_budget \<Rightarrow> bool" where
  "estimator_errors bud \<longleftrightarrow> (\<forall>ds e. mb_estimate bud ds = Inl e \<longrightarrow> class_of e \<noteq> BudgetInfeasibleError)"

lemma demote_loop_error:
  "demote_loop specs bud step ds est cands = Inl e \<Longrightarrow> estimator_errors bud \<Longrightarrow> class_of e \<noteq> BudgetInfeasibleError"
  by (induction cands arbitrary: step ds est)
    (auto simp: Let_def res_simps estimator_errors_def split: if_splits)

lemma greedy_demote_error:
  "greedy_demote specs ds pending bud = Inl e \<Longrightarrow> estimator_errors bud \<Longrightarrow> class_of e \<noteq> BudgetInfeasibleError"
  by (auto simp: greedy_demote_def Let_def res_simps demote_loop_error estimator_errors_def dest!: demote_loop_error)

lemma release_loop_error:
  "release_loop w p bud specs dis js env = (env', Inl e) \<Longrightarrow> estimator_errors bud
    \<Longrightarrow> class_of e \<noteq> BudgetInfeasibleError"
proof (induction dis arbitrary: js env)
  case (Cons idx dis)
  then show ?case
    by (auto simp: Let_def decide_strategy_def ambiguous_axis_def greedy_demote_error
        split: if_splits option.splits sum.splits prod.splits)
qed simp

lemma plan_specs_error:
  "plan_specs w p carry dedup specs ds pending dis env = (env', Inl e) \<Longrightarrow> bp_budget p \<noteq> None
    \<Longrightarrow> class_of e \<noteq> BudgetInfeasibleError"
proof (induction specs arbitrary: ds pending dis env)
  case (Cons sp specs)
  have "class_of e' = ValueError" if "to_dedup_gather (pw_index_x w) (pw_index_y w) s = Inl e'" for s e'
    using that by (auto simp: to_dedup_gather_def res_simps get_k_bucket_def split: if_splits)
  with Cons show ?case
    by (auto simp: decide_strategy_def ambiguous_axis_def split: if_splits option.splits sum.splits prod.splits)
qed simp

lemma infeasible_joint:
  assumes "plan_joint_budget w p bud specs ds pending dis env = (env', Inl e)"
    "class_of e = BudgetInfeasibleError" "estimator_errors bud"
  obtains d est n where "mb_bytes bud < est"
    "greedy_demote specs (release_slots specs dis ds) (fold (release_pending specs) dis pending) bud = Inr (d, est, n)"
proof -
  from assms obtain d est n where g: "greedy_demote specs ds pending bud = Inr (d, est, n)"
    by (cases "greedy_demote specs ds pending bud") (auto simp: plan_joint_budget_def dest: greedy_demote_error)
  let ?js = "\<lparr>js_decisions = d, js_pending = pending, js_estimate = est, js_n_candidates = n, js_dropped = []\<rparr>"
  obtain env1 r where rel: "release_loop w p bud specs dis ?js env = (env1, r)" by (cases "release_loop w p bud specs dis ?js env")
  with assms g obtain js where r: "r = Inr js" and over: "mb_bytes bud < js_estimate js"
    by (cases r) (auto simp: plan_joint_budget_def dest: release_loop_error split: if_splits)
  from release_exhausted [OF rel [unfolded r] over, of ds] g that [OF over] show thesis by simp
qed

lemma merge_dedup_specs_error: "merge_dedup_specs ms = Inl e \<Longrightarrow> class_of e = DedupSpecCollisionError"
  using merge_from_spec [of "[]" _ ms] by (fastforce simp: merge_dedup_specs_def split: if_splits)

lemma plan_without_dedup:
  assumes "plan w p specs env = (env', Inr decisions)" "bp_budget p = Some bud" "bp_dedup_specs p = []"
  defines "carry \<equiv> map_of (rev (map (\<lambda>cs. (cs_axis_name cs, cs)) (bp_carry_specs p)))"
  shows "\<exists>d est n. est \<le> mb_bytes bud
    \<and> greedy_demote specs (map (budget_slot w carry []) specs) (positions (is_pending carry []) specs) bud = Inr (d, est, n)"
proof -
  obtain env1 r where l: "plan_specs w p carry [] specs [] [] [] env = (env1, r)"
    by (cases "plan_specs w p carry [] specs [] [] [] env")
  then obtain ds pend dis where r: "r = Inr (ds, pend, dis)"
    using assms(1,3) by (cases r) (auto simp: plan_def carry_def merge_dedup_specs_def)
  have slots: "ds = map (budget_slot w carry []) specs" "pend = positions (is_pending carry []) specs" "dis = []"
    using plan_specs_budget [OF l [unfolded r]] assms(2) by (auto simp: is_dedup_def positions_def)
  from assms(1-3) l r obtain env2 final where "plan_joint_budget w p bud specs ds pend [] env1 = (env2, Inr final)"
    by (auto simp: plan_def carry_def merge_dedup_specs_def slots(3) split: prod.splits sum.splits)
  then obtain d est n where "greedy_demote specs ds pend bud = Inr (d, est, n)" "est \<le> mb_bytes bud"
    by (auto simp: plan_joint_budget_def split: sum.splits prod.splits if_splits)
  with slots show ?thesis by blast
qed

text \<open>An infeasible plan is the greedy demotion of the plan without dedup, over budget.\<close>

lemma infeasible_plan:
  assumes err: "plan w p specs env = (env1, Inl e)" and cls: "class_of e = BudgetInfeasibleError"
    and bud: "bp_budget p = Some bud" "estimator_errors bud"
  defines "carry \<equiv> map_of (rev (map (\<lambda>cs. (cs_axis_name cs, cs)) (bp_carry_specs p)))"
  shows "\<exists>d est n. mb_bytes bud < est
    \<and> greedy_demote specs (map (budget_slot w carry []) specs) (positions (is_pending carry []) specs) bud = Inr (d, est, n)"
proof -
  have "merge_dedup_specs (map (\<lambda>s. Some [(ds_axis_name s, s)]) (bp_dedup_specs p)) = Inl e'
      \<Longrightarrow> class_of e' \<noteq> BudgetInfeasibleError" for e'
    using merge_dedup_specs_error by force
  with err cls obtain dedup where
    m: "merge_dedup_specs (map (\<lambda>s. Some [(ds_axis_name s, s)]) (bp_dedup_specs p)) = Inr dedup"
    by (cases "merge_dedup_specs (map (\<lambda>s. Some [(ds_axis_name s, s)]) (bp_dedup_specs p))") (auto simp: plan_def)
  obtain env2 r where l: "plan_specs w p carry dedup specs [] [] [] env = (env2, r)"
    by (cases "plan_specs w p carry dedup specs [] [] [] env")
  with err cls m bud(1) obtain ds pend dis where r: "r = Inr (ds, pend, dis)"
    by (cases r) (auto simp: plan_def carry_def dest: plan_specs_error)
  from err m l r bud(1) have "plan_joint_budget w p bud specs ds pend dis env2 = (env1, Inl e)"
    by (auto simp: plan_def carry_def split: prod.splits sum.splits)
  then obtain d est n where over: "mb_bytes bud < est"
    and g: "greedy_demote specs (release_slots specs dis ds) (fold (release_pending specs) dis pend) bud = Inr (d, est, n)"
    using infeasible_joint [OF _ cls bud(2)] by blast
  have slots: "ds = map (budget_slot w carry dedup) specs" "pend = positions (is_pending carry dedup) specs"
    "dis = positions (is_dedup carry dedup) specs"
    using plan_specs_budget [OF l [unfolded r]] bud(1) by auto
  from g have "greedy_demote specs (map (budget_slot w carry []) specs) (positions (is_pending carry []) specs) bud = Inr (d, est, n)"
    unfolding slots release_all .
  with over show ?thesis by blast
qed

text \<open>
  C2. Declaring dedup never makes a feasible budget plan infeasible: if the planner finds a plan without
  its \<open>DedupSpec\<close>s, then with them it does not raise \<open>BudgetInfeasibleError\<close> (provided the
  caller's estimator does not raise that error itself).
\<close>

theorem dedup_keeps_feasibility:
  assumes "bp_budget p = Some bud" "estimator_errors bud"
    and "plan w (p\<lparr>bp_dedup_specs := []\<rparr>) specs env = (env0, Inr decisions)"
  shows "\<nexists>env1 e. plan w p specs env = (env1, Inl e) \<and> class_of e = BudgetInfeasibleError"
proof
  assume "\<exists>env1 e. plan w p specs env = (env1, Inl e) \<and> class_of e = BudgetInfeasibleError"
  then obtain env1 e where "plan w p specs env = (env1, Inl e)" "class_of e = BudgetInfeasibleError" by blast
  from infeasible_plan [OF this assms(1,2)] plan_without_dedup [OF assms(3), of bud] assms(1)
  show False by auto
qed

section \<open>When a plan is infeasible\<close>

text \<open>The most that demotion can do to one axis.\<close>

definition demotable :: "axis_spec \<Rightarrow> bool" where
  "demotable sp \<longleftrightarrow> \<not> as_heterogeneous sp \<and> as_default_batch_size sp < as_cardinality sp"

definition fully_demoted ::
  "('x, 'y) plan_world \<Rightarrow> (string \<Rightarrow> ('c, 'x, 'y) carry_spec option) \<Rightarrow> axis_spec \<Rightarrow> ('c, 'x, 'y) axis_decision"
where
  "fully_demoted w carry sp =
     (if is_pending carry ([] :: (string \<times> ('x, 'y) dedup_spec) list) sp then
        (if demotable sp then decision sp BudgetDemotedPending (ChunkedMap (as_default_batch_size sp))
         else budget_initial_decision sp)
      else the (budget_slot w carry [] sp))"

lemma nth_update_if: "i < length ds \<Longrightarrow> ds[j := x] ! i = (if i = j then x else ds ! i)"
  by simp

lemma demote_loop_exhausted:
  assumes "demote_loop specs bud step ds est cands = Inr (ds', est')" "mb_bytes bud < est'"
  shows "same_slots ds' (fold (\<lambda>idx d. d[idx := Some (decision (specs ! idx) BudgetDemotedPending
      (ChunkedMap (as_default_batch_size (specs ! idx))))]) cands ds)"
  using assms
proof (induction cands arbitrary: step ds est)
  case (Cons idx cands)
  have more: "\<not> est \<le> mb_bytes bud" using Cons.prems by (auto split: if_splits)
  let ?t = "\<lambda>r. Some (decision (specs ! idx) r (ChunkedMap (as_default_batch_size (specs ! idx))))"
  from more Cons.prems(1) obtain r aft where "demote_loop specs bud (Suc step) (ds[idx := ?t r]) aft cands = Inr (ds', est')"
    by (auto simp: Let_def res_simps)
  note same = Cons.IH [OF this Cons.prems(2)]
  have "same_slots (fold (\<lambda>idx d. d[idx := f idx]) cands (ds[idx := ?t r]))
      (fold (\<lambda>idx d. d[idx := f idx]) cands (ds[idx := ?t BudgetDemotedPending]))" for f
    unfolding same_slots_def
    by (rule nth_equalityI) (auto simp: fold_update_nth nth_update_if strip_def decision_def)
  from same_slots_trans [OF same this] show ?case by simp
qed (simp add: same_slots_def)

lemma greedy_exhausted:
  assumes "greedy_demote specs ds pending bud = Inr (ds', est, n)" "mb_bytes bud < est"
  shows "same_slots ds' (fold (\<lambda>idx d. d[idx := Some (decision (specs ! idx) BudgetDemotedPending
      (ChunkedMap (as_default_batch_size (specs ! idx))))]) (filter (\<lambda>i. demotable (specs ! i)) pending)
      (fold (\<lambda>idx d. d[idx := Some (budget_initial_decision (specs ! idx))]) pending ds))"
  using assms demote_loop_exhausted [OF _ assms(2)]
  by (auto simp: greedy_demote_def Let_def res_simps demotable_def)

lemma exhausted_slots:
  assumes "greedy_demote specs (map (budget_slot w carry []) specs) (positions (is_pending carry []) specs) bud
      = Inr (ds', est, n)" "mb_bytes bud < est"
  shows "map strip (snapshot ds') = map strip (map (fully_demoted w carry) specs)"
proof -
  have "same_slots ds' (map (\<lambda>sp. Some (fully_demoted w carry sp)) specs)"
  proof (rule same_slots_trans [OF greedy_exhausted [OF assms]], unfold same_slots_def, rule nth_equalityI, goal_cases)
    case 1
    show ?case by simp
  next
    case (2 i)
    then have i: "i < length specs" by simp
    show ?case
    proof (cases "is_pending carry [] (specs ! i)")
      case True
      then show ?thesis using i by (auto simp: fold_update_nth set_positions fully_demoted_def)
    next
      case False
      then have "budget_slot w carry [] (specs ! i) \<noteq> None"
        by (auto simp: is_pending_def budget_slot_def ordinary_slot_def split: option.splits)
      then show ?thesis using i False by (auto simp: fold_update_nth set_positions fully_demoted_def)
    qed
  qed
  from same_slots_snapshot [OF this] show ?thesis
    by (simp add: snapshot_full [of "map _ specs"] comp_def image_iff)
qed

text \<open>
  C4. \<open>BudgetInfeasibleError\<close> is raised only when nothing more can be demoted: the plan without dedup in
  which every demotable axis is a \<open>ChunkedMap\<close> is over budget too.
\<close>

theorem infeasible_means_exhausted:
  assumes "plan w p specs env = (env', Inl e)" "class_of e = BudgetInfeasibleError"
    and "bp_budget p = Some bud" "estimator_errors bud" "ignores_reasoning (mb_estimate bud)"
  shows "\<exists>est. mb_estimate bud (map (fully_demoted w
      (map_of (rev (map (\<lambda>cs. (cs_axis_name cs, cs)) (bp_carry_specs p))))) specs) = Inr est
    \<and> mb_bytes bud < est"
proof -
  let ?carry = "map_of (rev (map (\<lambda>cs. (cs_axis_name cs, cs)) (bp_carry_specs p)))"
  obtain d est n where over: "mb_bytes bud < est"
    and g: "greedy_demote specs (map (budget_slot w ?carry []) specs) (positions (is_pending ?carry []) specs) bud = Inr (d, est, n)"
    using infeasible_plan [OF assms(1-4)] by blast
  have "mb_estimate bud (snapshot d) = mb_estimate bud (map (fully_demoted w ?carry) specs)"
    using exhausted_slots [OF g over] assms(5) unfolding ignores_reasoning_def by blast
  with greedy_demote_estimate [OF g assms(5)] over show ?thesis by auto
qed

section \<open>The per-axis memory override\<close>

text \<open>
  The memory override does not lower memory on an axis whose cardinality is at most its batch size: the
  planner answers an estimate above the device limit with \<open>ChunkedMap(default_batch_size)\<close>, and
  dispatching that strategy over the axis is the same \<open>vmap\<close> over the whole axis as \<open>Vmap\<close>.
\<close>

theorem memory_override_is_still_vmap:
  assumes "bp_memory_estimator p = Some estimator" "estimator sp = Inr n"
    and "pw_device_limit w = Inr limit" "limit < n"
    and "as_bucket_boundaries sp = None" "as_element_input_bytes sp = None"
    and "as_cardinality sp \<le> as_default_batch_size sp" "int (length xs) = as_cardinality sp"
  shows "decide_strategy w p sp env
      = (env, Inr (decision sp OverrideSmallAxis (ChunkedMap (as_default_batch_size sp))))
    \<and> axis_dispatch J z scan while_loop (ChunkedMap (as_default_batch_size sp)) (Some fn) xs init
      = axis_dispatch J z scan while_loop Vmap (Some fn) xs init"
proof
  show "decide_strategy w p sp env
      = (env, Inr (decision sp OverrideSmallAxis (ChunkedMap (as_default_batch_size sp))))"
    using assms by (simp add: decide_strategy_def memory_override_def memory_estimator_device_limit_def)
  have "chunked_map J z fn xs (Some (as_default_batch_size sp)) = VmapIterator_call J fn xs"
    using assms(7,8) by (auto simp: chunked_map_def numeral_2_eq_2 VmapIterator_call_def Let_def)
  then show "axis_dispatch J z scan while_loop (ChunkedMap (as_default_batch_size sp)) (Some fn) xs init
      = axis_dispatch J z scan while_loop Vmap (Some fn) xs init"
    by (simp add: axis_dispatch_def)
qed

section \<open>One-axis planning\<close>

text \<open>
  \<open>plan_axis\<close> with a per-element byte count: a homogeneous axis is \<open>Vmap\<close> exactly when all its
  elements fit; otherwise it is \<open>ChunkedMap(default_batch_size)\<close> when one tile fits and there is
  more than one tile (or the axis is heterogeneous); otherwise \<open>BudgetInfeasibleError\<close> is raised.
\<close>

theorem plan_axis_correct:
  assumes "as_bucket_boundaries sp = None" "as_role sp = KNOWN" "0 \<le> per_element" "0 < bytes_limit"
  shows "let r = snd (snd (plan_axis w lowered sp [] (EstInt per_element) (PyInt bytes_limit) memo env)) in
    if \<not> as_heterogeneous sp \<and> per_element * as_cardinality sp \<le> bytes_limit then r = Inr Vmap
    else if (as_heterogeneous sp \<or> as_default_batch_size sp < as_cardinality sp)
        \<and> per_element * as_default_batch_size sp \<le> bytes_limit
    then r = Inr (ChunkedMap (as_default_batch_size sp))
    else \<exists>e. r = Inl e \<and> class_of e = BudgetInfeasibleError"
  using assms(1-4)
  by (auto simp: plan_axis_def bytes_per_element_def MemoryBudget_post_init_def BatchPlanner_init_def
      plan_def merge_dedup_specs_def plan_joint_budget_def greedy_demote_def budget_initial_decision_def
      joint_estimate_def snapshot_def live_extent_def decision_def finalize_budget_reasoning_def
      finalize_one_def Let_def)

section \<open>Concrete plans\<close>

text \<open>A homogeneous axis of 8 and a heterogeneous axis of 6, estimated by their live extents.\<close>

definition tokens_axis :: axis_spec where
  "tokens_axis = \<lparr>as_name = ''tokens'', as_cardinality = 8, as_default_batch_size = 4, as_tile_granularity = 1,
     as_heterogeneous = False, as_dedup_eligible = False, as_bucket_boundaries = None, as_role = KNOWN,
     as_element_input_bytes = None, as_varying_inputs = []\<rparr>"

definition states_axis :: axis_spec where
  "states_axis = tokens_axis\<lparr>as_name := ''states'', as_cardinality := 6, as_default_batch_size := 2,
     as_heterogeneous := True\<rparr>"

definition extents_planner :: "int \<Rightarrow> (unit, nat, nat) batch_planner" where
  "extents_planner limit = \<lparr>bp_memory_estimator = None, bp_carry_specs = [], bp_dedup_specs = [],
     bp_heterogeneous_axes = {}, bp_budget = Some \<lparr>mb_bytes = limit, mb_estimate = joint_estimate 1\<rparr>\<rparr>"

definition plain_world :: "(nat, nat) plan_world" where
  "plain_world = \<lparr>pw_device_limit = Inr 100, pw_index_x = take_rows, pw_index_y = take_rows\<rparr>"

definition fresh_env :: plan_env where
  "fresh_env = \<lparr>pe_default_limit_logged = False, pe_warned_axes = {}, pe_events = []\<rparr>"

lemmas plan_eval = plan_def merge_dedup_specs_def plan_joint_budget_def greedy_demote_def
  budget_initial_decision_def joint_estimate_def snapshot_def live_extent_def decision_def
  finalize_budget_reasoning_def finalize_one_def vmap_decision_batch_size_def Let_def

lemmas example_eval = tokens_axis_def states_axis_def extents_planner_def plain_world_def

definition fitting_plan :: "(unit, nat, nat) batch_plan" where
  "fitting_plan =
     [decision tokens_axis (BudgetDemoted 4 1 16 8 10) (ChunkedMap 4),
      decision states_axis (BudgetHeterogeneous 2 8 10) (ChunkedMap 2)]"

lemma fitting_plan_found:
  "plan plain_world (extents_planner 10) [tokens_axis, states_axis] fresh_env = (fresh_env, Inr fitting_plan)"
  by (simp add: plan_eval example_eval fitting_plan_def)

lemma joint_estimate_laws:
  "ignores_reasoning (joint_estimate n :: ('c, 'x, 'y) axis_decision list \<Rightarrow> int res)"
  "estimator_errors (\<lparr>mb_bytes = limit, mb_estimate = joint_estimate n\<rparr> :: ('c, 'x, 'y) memory_budget)"
proof -
  have ext: "live_extent d = live_extent (strip d)" for d :: "('c, 'x, 'y) axis_decision"
    by (simp add: live_extent_def strip_def split: axis_strategy.splits)
  have "fold (\<lambda>d live. live * live_extent d) ds a = fold (\<lambda>d live. live * live_extent d) (map strip ds) a"
    for ds :: "('c, 'x, 'y) axis_decision list" and a
    by (induction ds arbitrary: a) (simp_all flip: ext)
  then show "ignores_reasoning (joint_estimate n :: ('c, 'x, 'y) axis_decision list \<Rightarrow> int res)"
    unfolding ignores_reasoning_def joint_estimate_def by metis
qed (simp add: estimator_errors_def joint_estimate_def)

theorem plan_decisions_witness:
  "map ad_spec fitting_plan = [tokens_axis, states_axis]"
  using plan_decisions [OF fitting_plan_found] by blast

theorem budget_plan_fits_witness:
  "\<exists>est. joint_estimate 1 fitting_plan = Inr est \<and> est \<le> 10"
  using budget_plan_fits [OF fitting_plan_found, of "\<lparr>mb_bytes = 10, mb_estimate = joint_estimate 1\<rparr>"]
  by (simp add: extents_planner_def joint_estimate_laws)

definition tokens_dedup :: "(nat, nat) dedup_spec" where
  "tokens_dedup = \<lparr>ds_axis_name = ''tokens'', ds_unique_indices = [0, 1, 2, 3, 4, 5, 6], ds_index_map = [0, 1, 2, 3, 4, 5, 6, 0],
     ds_k = 7, ds_dedup_fn = None, ds_gather_fn = None\<rparr>"

theorem dedup_keeps_feasibility_witness:
  "\<nexists>env1 e. plan plain_world ((extents_planner 10)\<lparr>bp_dedup_specs := [tokens_dedup]\<rparr>) [tokens_axis, states_axis] fresh_env
      = (env1, Inl e) \<and> class_of e = BudgetInfeasibleError"
proof (rule dedup_keeps_feasibility [OF _ joint_estimate_laws(2)])
  show "plan plain_world (((extents_planner 10)\<lparr>bp_dedup_specs := [tokens_dedup]\<rparr>)\<lparr>bp_dedup_specs := []\<rparr>)
      [tokens_axis, states_axis] fresh_env = (fresh_env, Inr fitting_plan)"
    using fitting_plan_found by (simp add: extents_planner_def)
qed (simp add: extents_planner_def)

lemma small_budget_infeasible:
  "plan plain_world (extents_planner 5) [tokens_axis, states_axis] fresh_env = (fresh_env,
     Inl (Exn BudgetInfeasibleError ''plan cannot fit MemoryBudget''
       [ArgInt 8, ArgInt 5, ArgInt 1, ArgStr [], ArgPairs [(''tokens'', ''ChunkedMap''), (''states'', ''ChunkedMap'')]]))"
  by (simp add: plan_eval example_eval)

theorem infeasible_means_exhausted_witness:
  "\<exists>est. joint_estimate 1 (map (fully_demoted plain_world (\<lambda>_. None :: (unit, nat, nat) carry_spec option))
      [tokens_axis, states_axis]) = Inr est \<and> 5 < est"
  using infeasible_means_exhausted [OF small_budget_infeasible _ _ joint_estimate_laws(2) [of 5 1]]
  by (simp add: extents_planner_def joint_estimate_laws)

theorem memory_override_is_still_vmap_witness:
  "decide_strategy plain_world ((extents_planner 1)\<lparr>bp_memory_estimator := Some (\<lambda>_. Inr 1000), bp_budget := None\<rparr>)
      (tokens_axis\<lparr>as_cardinality := 3\<rparr>) fresh_env
    = (fresh_env, Inr (decision (tokens_axis\<lparr>as_cardinality := 3\<rparr>) OverrideSmallAxis (ChunkedMap 4)))
   \<and> axis_dispatch reference_jax 0 (\<lambda>_ c _ _ _ _. Inr (c :: unit, [])) while_option (ChunkedMap 4)
       (Some two_leaves) [1, 2, 3] None
     = axis_dispatch reference_jax 0 (\<lambda>_ c _ _ _ _. Inr (c :: unit, [])) while_option Vmap (Some two_leaves) [1, 2, 3] None"
  using memory_override_is_still_vmap [of "(extents_planner 1)\<lparr>bp_memory_estimator := Some (\<lambda>_. Inr 1000), bp_budget := None\<rparr>"
      "\<lambda>_. Inr 1000" "tokens_axis\<lparr>as_cardinality := 3\<rparr>" 1000 plain_world 100 "[1, 2, 3 :: int]" fresh_env
      reference_jax 0 "\<lambda>_ c _ _ _ _. Inr (c :: unit, [])" while_option two_leaves None]
  by (simp add: tokens_axis_def plain_world_def)

theorem plan_axis_correct_witness:
  "snd (snd (plan_axis plain_world (\<lambda>(f :: unit) _. Inr 0) tokens_axis [] (EstInt 10) (PyInt 50) None fresh_env))
     = (Inr (ChunkedMap 4) :: (unit, nat, nat) axis_strategy res)"
  using plan_axis_correct [of tokens_axis 10 50 plain_world "\<lambda>(f :: unit) _. Inr 0" None fresh_env]
  by (simp add: tokens_axis_def)

end
