(* ===== verification/Stage_Pipeline.thy ===== *)
theory Stage_Pipeline
  imports Tiling_Plan
begin

text \<open>
  Pipeline boundaries: \<open>src/src/xtrax/stages/boundaries.py\<close>, the plan topology validator of
  \<open>topology.py\<close> and the boundary executor of \<open>executor.py\<close>.

  A tap and a sink have side effects, so a call yields the events it emits; a step of an axis is
  instrumented with the events of its tap and sink. The primitives an axis runs on
  (\<open>jax.vmap\<close>, sequential \<open>jax.lax.map\<close>, \<open>chunked_map\<close>) are the fields of \<open>axis_ops\<close>, applied to
  instrumented steps; the locale \<open>step_mapper\<close> is what the executor relies on. A run records,
  per element, the events emitted, and whether the primitive guarantees that the elements' events
  are emitted in element order.
\<close>

section \<open>Model\<close>

subsection \<open>Boundaries\<close>

record ('y, 'ev) tap_op =
  tap_ordered :: bool
  tap_call :: "'y \<Rightarrow> 'y \<times> 'ev list"

text \<open>The second argument of a sink is the index, when the executor passes one.\<close>

record ('y, 'ev) sink_op =
  sink_ordered :: bool
  sink_call :: "'y \<Rightarrow> int option \<Rightarrow> 'ev list"

record ('y, 'o, 'ev) axis_boundary =
  ab_fuse :: "('y list \<Rightarrow> 'o) option"
  ab_tap :: "('y, 'ev) tap_op option"
  ab_sink :: "('y, 'ev) sink_op option"
  ab_materialize :: bool
  ab_sink_receives_index :: bool

subsection \<open>Plan topology\<close>

text \<open>What the validator reads of a decision; the strategy by its class name.\<close>

record topo_decision =
  td_name :: string
  td_heterogeneous :: bool
  td_strategy :: string

definition topo_of :: "('c, 'x, 'z) axis_decision \<Rightarrow> topo_decision" where
  "topo_of d = \<lparr>td_name = as_name (ad_spec d), td_heterogeneous = as_heterogeneous (ad_spec d),
     td_strategy = strategy_name (ad_strategy d)\<rparr>"

fun key_boundaries :: "(string \<times> 'b) list \<Rightarrow> string list \<Rightarrow> 'b list \<Rightarrow> (string \<times> 'b) list res" where
  "key_boundaries result (name # names) (b # bs) =
     (if name \<in> fst ` set result then
        Inl (Exn PlanTopologyError ''duplicate axis name in axes'' [ArgStr name])
      else key_boundaries (result @ [(name, b)]) names bs)"
| "key_boundaries result _ _ = Inr result"

definition axis_boundaries_by_name :: "string list \<Rightarrow> 'b list option \<Rightarrow> (string \<times> 'b) list res" where
  "axis_boundaries_by_name axes boundaries =
     (case boundaries of
        None \<Rightarrow> Inr []
      | Some bs \<Rightarrow>
          if length bs \<noteq> length axes then
            Inl (Exn PlanTopologyError ''boundaries and axes have different lengths''
                   [ArgInt (int (length bs)), ArgInt (int (length axes))])
          else key_boundaries [] axes bs)"

definition EXPORTABLE_STRATEGIES :: "string list" where
  "EXPORTABLE_STRATEGIES = [''Vmap'', ''ChunkedMap'', ''SafeMap'', ''Scan'', ''DedupGather'']"

definition check_export_boundary :: "string \<Rightarrow> ('y, 'o, 'ev) axis_boundary option \<Rightarrow> bool res" where
  "check_export_boundary axis boundary =
     (case boundary of
        None \<Rightarrow> Inr False
      | Some b \<Rightarrow>
          let materialize = ab_materialize b in
          if ab_tap b \<noteq> None then
            Inl (Exn PlanTopologyError ''axis has a Tap, which pierces the export boundary'' [ArgStr axis])
          else if materialize \<and> ab_sink b = None then
            Inl (Exn MaterializeWithoutSinkError ''axis declares materialize=True but has no sink'' [ArgStr axis])
          else if ab_sink b \<noteq> None \<and> \<not> materialize then
            Inl (Exn PlanTopologyError ''axis has a Sink, which pierces the export boundary'' [ArgStr axis])
          else if ab_sink b \<noteq> None \<and> materialize \<and> ab_fuse b \<noteq> None then
            Inl (Exn MaterializeFuseConflictError ''axis declares materialize=True and also has a fuse'' [ArgStr axis])
          else Inr materialize)"

definition has_ordered_tap :: "('y, 'o, 'ev) axis_boundary \<Rightarrow> bool" where
  "has_ordered_tap b = (case ab_tap b of None \<Rightarrow> False | Some t \<Rightarrow> tap_ordered t)"

definition has_ordered_sink :: "('y, 'o, 'ev) axis_boundary \<Rightarrow> bool" where
  "has_ordered_sink b = (case ab_sink b of None \<Rightarrow> False | Some s \<Rightarrow> sink_ordered s)"

text \<open>The loop of \<open>validate_plan_topology\<close>; the accumulator is \<open>materializing_axes\<close>.\<close>

fun validate_decisions ::
  "topo_decision list \<Rightarrow> (string \<times> ('y, 'o, 'ev) axis_boundary) list \<Rightarrow> bool \<Rightarrow> string list \<Rightarrow> string list res"
where
  "validate_decisions [] boundaries export_safe materializing = Inr materializing"
| "validate_decisions (d # ds) boundaries export_safe materializing =
     (if td_heterogeneous d \<and> td_strategy d = ''Scan'' then
        Inl (Exn PlanTopologyError ''axis is heterogeneous but has a Scan strategy'' [ArgStr (td_name d)])
      else if td_strategy d = ''Vmap''
          \<and> (case map_of boundaries (td_name d) of None \<Rightarrow> False | Some b \<Rightarrow> has_ordered_tap b) then
        Inl (Exn PlanTopologyError ''axis has an ordered=True Tap but uses Vmap strategy'' [ArgStr (td_name d)])
      else if td_strategy d = ''Vmap''
          \<and> (case map_of boundaries (td_name d) of None \<Rightarrow> False | Some b \<Rightarrow> has_ordered_sink b) then
        Inl (Exn PlanTopologyError ''axis has an ordered=True Sink but uses Vmap strategy'' [ArgStr (td_name d)])
      else if \<not> export_safe then validate_decisions ds boundaries export_safe materializing
      else bind_res (check_export_boundary (td_name d) (map_of boundaries (td_name d))) (\<lambda>m.
        if td_strategy d \<notin> set EXPORTABLE_STRATEGIES then
          Inl (Exn PlanTopologyError ''axis uses strategy which cannot cross an export boundary''
                 [ArgStr (td_name d), ArgStr (td_strategy d)])
        else validate_decisions ds boundaries export_safe
               (if m then materializing @ [td_name d] else materializing)))"

definition validate_plan_topology ::
  "topo_decision list \<Rightarrow> (string \<times> ('y, 'o, 'ev) axis_boundary) list \<Rightarrow> bool \<Rightarrow> unit res"
where
  "validate_plan_topology decisions boundaries export_safe =
     bind_res (validate_decisions decisions boundaries export_safe []) (\<lambda>materializing_axes.
       if length materializing_axes > 1 then
         Inl (Exn MultipleMaterializeAxesError ''axes declare materialize=True'' [ArgStrs materializing_axes])
       else Inr ())"

subsection \<open>The boundary executor\<close>

definition has_ordered_op :: "('y, 'o, 'ev) axis_boundary option \<Rightarrow> bool" where
  "has_ordered_op boundary =
     (case boundary of None \<Rightarrow> False | Some b \<Rightarrow> has_ordered_tap b \<or> has_ordered_sink b)"

definition sink_receives_index :: "('y, 'o, 'ev) axis_boundary option \<Rightarrow> bool" where
  "sink_receives_index boundary =
     (case boundary of None \<Rightarrow> False | Some b \<Rightarrow> ab_sink b \<noteq> None \<and> ab_sink_receives_index b)"

text \<open>Elements paired with their position, or with no index when the sink did not opt in.\<close>

definition attach_index :: "bool \<Rightarrow> 'x list \<Rightarrow> ('x \<times> int option) list" where
  "attach_index with_index xs =
     (if with_index then zip xs (map (\<lambda>i. Some (int32 (int i))) [0..<length xs])
      else map (\<lambda>x. (x, None)) xs)"

definition apply_step_boundary ::
  "('y, 'o, 'ev) axis_boundary option \<Rightarrow> bool \<Rightarrow> int option \<Rightarrow> 'y \<Rightarrow> 'y \<times> 'ev list"
where
  "apply_step_boundary boundary with_index index y =
     (case boundary of
        None \<Rightarrow> (y, [])
      | Some b \<Rightarrow>
          let (y1, ev1) = (case ab_tap b of None \<Rightarrow> (y, []) | Some t \<Rightarrow> tap_call t y);
              ev2 = (case ab_sink b of
                       None \<Rightarrow> []
                     | Some s \<Rightarrow> sink_call s y1 (if with_index then index else None))
          in (y1, ev1 @ ev2))"

definition wrap_step ::
  "('x \<Rightarrow> 'y) \<Rightarrow> ('y, 'o, 'ev) axis_boundary option \<Rightarrow> bool \<Rightarrow> 'x \<times> int option \<Rightarrow> 'y \<times> 'ev list"
where
  "wrap_step fn boundary with_index =
     (if (case boundary of None \<Rightarrow> True | Some b \<Rightarrow> ab_tap b = None \<and> ab_sink b = None)
      then (\<lambda>(x, index). (fn x, []))
      else (\<lambda>(x, index). apply_step_boundary boundary with_index index (fn x)))"

datatype ('y, 'o) axis_output = Stacked "'y list" | Fused 'o

definition apply_fuse :: "'y list \<Rightarrow> ('y, 'o, 'ev) axis_boundary option \<Rightarrow> ('y, 'o) axis_output" where
  "apply_fuse ys boundary =
     (case boundary of
        Some b \<Rightarrow> (case ab_fuse b of Some f \<Rightarrow> Fused (f ys) | None \<Rightarrow> Stacked ys)
      | None \<Rightarrow> Stacked ys)"

type_synonym ('a, 's) map_op = "('a \<Rightarrow> 's) \<Rightarrow> 'a list \<Rightarrow> 's list res"

record ('a, 's) axis_ops =
  ao_vmap :: "('a, 's) map_op"
  ao_lax_map :: "('a, 's) map_op"
  ao_chunked_map :: "int \<Rightarrow> ('a, 's) map_op"

record ('y, 'o, 'ev) axis_run =
  ar_output :: "('y, 'o) axis_output"
  ar_events :: "'ev list list"
  ar_in_order :: bool

definition finish_axis ::
  "bool \<Rightarrow> ('y, 'o, 'ev) axis_boundary option \<Rightarrow> ('y \<times> 'ev list) list \<Rightarrow> ('y, 'o, 'ev) axis_run"
where
  "finish_axis in_order boundary steps =
     \<lparr>ar_output = apply_fuse (map fst steps) boundary, ar_events = map snd steps, ar_in_order = in_order\<rparr>"

definition cannot_vmap :: string where
  "cannot_vmap = ''Cannot `vmap` ordered IO callback''"

definition execute_map_axis ::
  "('x \<times> int option, 'y \<times> 'ev list) axis_ops \<Rightarrow> ('x \<Rightarrow> 'y) \<Rightarrow> 'x list \<Rightarrow> ('c, 'x, 'z) axis_strategy
     \<Rightarrow> ('y, 'o, 'ev) axis_boundary option \<Rightarrow> ('y, 'o, 'ev) axis_run res"
where
  "execute_map_axis ops fn xs strategy boundary =
     (let with_index = sink_receives_index boundary;
          mapped_xs = attach_index with_index xs;
          wrapped = wrap_step fn boundary with_index
      in case strategy of
           Vmap \<Rightarrow>
             if has_ordered_op boundary then
               Inl (Exn ExecutorError ''Vmap strategy cannot host an ordered Tap/Sink'' [])
             else if length mapped_xs = 1 then
               Inr (finish_axis True boundary (apply_size1 wrapped mapped_xs))
             else
               (case ao_vmap ops wrapped mapped_xs of
                  Inr ys \<Rightarrow> Inr (finish_axis False boundary ys)
                | Inl (Exn cls msg as) \<Rightarrow>
                    if cls = ValueError \<and> msg = cannot_vmap then
                      Inl (Exn ExecutorError ''An ordered Tap/Sink nested inside this Vmap axis'' [ArgCause (Exn cls msg as)])
                    else Inl (Exn cls msg as))
         | ChunkedMap b \<Rightarrow>
             if has_ordered_op boundary then
               bind_res (ao_lax_map ops wrapped mapped_xs) (\<lambda>ys. Inr (finish_axis True boundary ys))
             else
               bind_res (ao_chunked_map ops b wrapped mapped_xs) (\<lambda>ys. Inr (finish_axis False boundary ys))
         | _ \<Rightarrow> Inl (Exn TypeError ''execute_map_axis: unsupported strategy type'' [ArgStr (strategy_name strategy)]))"

definition wrapped_transition ::
  "('c \<Rightarrow> 'x \<Rightarrow> 'c \<times> 'y) \<Rightarrow> ('y, 'o, 'ev) axis_boundary option \<Rightarrow> bool \<Rightarrow> 'c \<Rightarrow> 'x \<times> int option
     \<Rightarrow> 'c \<times> ('y \<times> 'ev list)"
where
  "wrapped_transition fn boundary with_index carry = (\<lambda>(x, index).
     let (carry', y) = fn carry x in (carry', apply_step_boundary boundary with_index index y))"

definition execute_scan_axis ::
  "('c, 'x \<times> int option, 'y \<times> 'ev list) lax_scan \<Rightarrow> ('c \<Rightarrow> 'x \<Rightarrow> 'c \<times> 'y) \<Rightarrow> 'c \<Rightarrow> 'x list
     \<Rightarrow> ('y, 'o, 'ev) axis_boundary option \<Rightarrow> ('c \<times> ('y, 'o, 'ev) axis_run) res"
where
  "execute_scan_axis scan fn init xs boundary =
     (let with_index = sink_receives_index boundary
      in bind_res
           (safe_scan scan (wrapped_transition fn boundary with_index) init
              (Some (attach_index with_index xs)) None False 1)
           (\<lambda>(final_carry, ys). Inr (final_carry, finish_axis True boundary ys)))"

section \<open>Plan topology\<close>

lemma key_boundaries_spec:
  "length names = length bs \<Longrightarrow> distinct (map fst r) \<Longrightarrow>
    (if distinct (map fst r @ names) then key_boundaries r names bs = Inr (r @ zip names bs)
     else \<exists>a. key_boundaries r names bs = Inl (Exn PlanTopologyError ''duplicate axis name in axes'' [ArgStr a]))"
proof (induction names bs arbitrary: r rule: list_induct2)
  case (Cons name names b bs)
  then show ?case
    using Cons.IH [of "r @ [(name, b)]"] by (cases "name \<in> fst ` set r") (auto split: if_splits)
qed simp

text \<open>
  Positional boundaries are keyed by axis name exactly when there is one per axis and the names are distinct; the
  mapping then pairs each axis with its own boundary, and every other input raises
  \<open>PlanTopologyError\<close>.
\<close>

theorem boundaries_keyed_by_name:
  "case axis_boundaries_by_name axes (Some bs) of
     Inr m \<Rightarrow> length bs = length axes \<and> distinct axes \<and> m = zip axes bs
   | Inl e \<Rightarrow> class_of e = PlanTopologyError \<and> \<not> (length bs = length axes \<and> distinct axes)"
proof (cases "length bs = length axes")
  case True
  then show ?thesis
    using key_boundaries_spec [of axes bs "[]"]
    by (cases "distinct axes") (auto simp: axis_boundaries_by_name_def)
qed (simp add: axis_boundaries_by_name_def)

definition export_boundary_ok :: "('y, 'o, 'ev) axis_boundary option \<Rightarrow> bool" where
  "export_boundary_ok boundary \<longleftrightarrow>
     (case boundary of
        None \<Rightarrow> True
      | Some b \<Rightarrow> ab_tap b = None \<and> (ab_sink b \<noteq> None \<longleftrightarrow> ab_materialize b)
          \<and> (ab_materialize b \<longrightarrow> ab_fuse b = None))"

definition materializes :: "('y, 'o, 'ev) axis_boundary option \<Rightarrow> bool" where
  "materializes boundary = (case boundary of None \<Rightarrow> False | Some b \<Rightarrow> ab_materialize b)"

lemma check_export_boundary_Inr:
  "check_export_boundary axis boundary = Inr m \<longleftrightarrow> export_boundary_ok boundary \<and> m = materializes boundary"
  by (auto simp: check_export_boundary_def export_boundary_ok_def materializes_def Let_def
      split: option.splits if_splits)

text \<open>The rules as one predicate per decision.\<close>

definition decision_valid ::
  "(string \<times> ('y, 'o, 'ev) axis_boundary) list \<Rightarrow> bool \<Rightarrow> topo_decision \<Rightarrow> bool"
where
  "decision_valid boundaries export_safe d \<longleftrightarrow>
     \<not> (td_heterogeneous d \<and> td_strategy d = ''Scan'')
     \<and> (td_strategy d = ''Vmap'' \<longrightarrow> \<not> has_ordered_op (map_of boundaries (td_name d)))
     \<and> (export_safe \<longrightarrow> export_boundary_ok (map_of boundaries (td_name d))
          \<and> td_strategy d \<in> set EXPORTABLE_STRATEGIES)"

lemma validate_decisions_Inr:
  "validate_decisions ds boundaries export_safe acc = Inr ms \<longleftrightarrow>
     list_all (decision_valid boundaries export_safe) ds
     \<and> ms = acc @ (if export_safe then map td_name (filter (\<lambda>d. materializes (map_of boundaries (td_name d))) ds) else [])"
proof (induction ds arbitrary: acc)
  case (Cons d ds)
  have ordered: "has_ordered_op (map_of boundaries (td_name d)) \<longleftrightarrow>
      (case map_of boundaries (td_name d) of None \<Rightarrow> False | Some b \<Rightarrow> has_ordered_tap b)
      \<or> (case map_of boundaries (td_name d) of None \<Rightarrow> False | Some b \<Rightarrow> has_ordered_sink b)"
    by (auto simp: has_ordered_op_def split: option.splits)
  show ?case
  proof (cases export_safe)
    case True
    then show ?thesis
      by (auto simp: Cons.IH [simplified True, simplified] bind_res_eq_Inr check_export_boundary_Inr guard_eq_Inr
          decision_valid_def [of boundaries True d] ordered)
  next
    case False
    then show ?thesis
      by (auto simp: Cons.IH [simplified False, simplified] guard_eq_Inr decision_valid_def [of boundaries False d] ordered)
  qed
qed auto

lemma validate_plan_topology_Inr:
  "validate_plan_topology ds boundaries export_safe = Inr () \<longleftrightarrow>
     list_all (decision_valid boundaries export_safe) ds
     \<and> (export_safe \<longrightarrow> length (filter (\<lambda>d. materializes (map_of boundaries (td_name d))) ds) \<le> 1)"
  by (auto simp: validate_plan_topology_def bind_res_eq_Inr validate_decisions_Inr guard_eq_Inr)

section \<open>The executor\<close>

text \<open>
  What an axis means, apart from how the executor runs it: a result passes through the tap, whose return value is what
  continues; the tap's events come first, then those of the sink, which is called on the value after the tap and is told the
  position when it opted in; the values after the tap are stacked and, with a fuse, reduced.
\<close>

definition tapped :: "('y, 'o, 'ev) axis_boundary option \<Rightarrow> 'y \<Rightarrow> 'y" where
  "tapped boundary y = (case Option.bind boundary ab_tap of None \<Rightarrow> y | Some t \<Rightarrow> fst (tap_call t y))"

definition emitted :: "('y, 'o, 'ev) axis_boundary option \<Rightarrow> nat \<Rightarrow> 'y \<Rightarrow> 'ev list" where
  "emitted boundary i y =
     (case Option.bind boundary ab_tap of None \<Rightarrow> [] | Some t \<Rightarrow> snd (tap_call t y))
     @ (case boundary of
          None \<Rightarrow> []
        | Some b \<Rightarrow> (case ab_sink b of
            None \<Rightarrow> []
          | Some s \<Rightarrow> sink_call s (tapped boundary y) (if ab_sink_receives_index b then Some (int i) else None)))"

definition reduced :: "('y, 'o, 'ev) axis_boundary option \<Rightarrow> 'y list \<Rightarrow> ('y, 'o) axis_output" where
  "reduced boundary ys = (case Option.bind boundary ab_fuse of None \<Rightarrow> Stacked ys | Some f \<Rightarrow> Fused (f ys))"

definition step_spec :: "('y, 'o, 'ev) axis_boundary option \<Rightarrow> nat \<Rightarrow> 'y \<Rightarrow> 'y \<times> 'ev list" where
  "step_spec boundary i y = (tapped boundary y, emitted boundary i y)"

lemma apply_step_boundary_spec:
  "apply_step_boundary boundary (sink_receives_index boundary) (Some (int i)) y = step_spec boundary i y"
  by (cases boundary) (auto simp: apply_step_boundary_def step_spec_def tapped_def emitted_def sink_receives_index_def
      split: option.split prod.split)

lemma apply_fuse_spec: "apply_fuse ys boundary = reduced boundary ys"
  by (cases boundary) (auto simp: apply_fuse_def reduced_def split: option.split)

lemma wrap_step_eq: "wrap_step fn boundary wi (x, idx) = apply_step_boundary boundary wi idx (fn x)"
  by (auto simp: wrap_step_def apply_step_boundary_def split: option.splits)

lemma apply_step_boundary_no_index:
  "apply_step_boundary boundary False idx y = apply_step_boundary boundary False None y"
  by (simp add: apply_step_boundary_def)

lemma attached_steps:
  assumes "length xs < 2 ^ 31" "\<And>x idx. g (x, idx) = apply_step_boundary boundary (sink_receives_index boundary) idx (fn x)"
  shows "map g (attach_index (sink_receives_index boundary) xs)
    = map (\<lambda>i. step_spec boundary i (fn (xs ! i))) [0..<length xs]"
proof (rule nth_equalityI)
  show "length (map g (attach_index (sink_receives_index boundary) xs))
      = length (map (\<lambda>i. step_spec boundary i (fn (xs ! i))) [0..<length xs])"
    by (simp add: attach_index_def)
  fix i assume "i < length (map g (attach_index (sink_receives_index boundary) xs))"
  then have i: "i < length xs" by (simp add: attach_index_def split: if_splits)
  then have "int32 (int i) = int i" using assms(1) by (intro int32_small) auto
  then show "map g (attach_index (sink_receives_index boundary) xs) ! i
      = map (\<lambda>i. step_spec boundary i (fn (xs ! i))) [0..<length xs] ! i"
    using i apply_step_boundary_no_index [of boundary "Some (int i)"]
    by (cases "sink_receives_index boundary")
      (simp_all add: attach_index_def assms(2) flip: apply_step_boundary_spec)
qed

lemma length_attach_index [simp]: "length (attach_index wi xs) = length xs"
  by (simp add: attach_index_def)

text \<open>What the executor relies on from the primitives it runs an axis on.\<close>

locale step_mapper =
  fixes ops :: "('a, 's) axis_ops" and ok :: "('a \<Rightarrow> 's) \<Rightarrow> 'a list \<Rightarrow> bool"
  assumes vmap_steps: "ok f xs \<Longrightarrow> length xs \<noteq> 1 \<Longrightarrow> ao_vmap ops f xs = Inr (map f xs)"
    and lax_map_steps: "ok f xs \<Longrightarrow> ao_lax_map ops f xs = Inr (map f xs)"
    and chunked_map_steps: "ok f xs \<Longrightarrow> 1 \<le> b \<Longrightarrow> ao_chunked_map ops b f xs = Inr (map f xs)"

text \<open>The executor's steps take an element with its index and yield a value with its events.\<close>

locale boundary_executor = step_mapper ops ok
  for ops :: "('x \<times> int option, 'y \<times> 'ev list) axis_ops"
    and ok :: "('x \<times> int option \<Rightarrow> 'y \<times> 'ev list) \<Rightarrow> ('x \<times> int option) list \<Rightarrow> bool"
begin

lemma execute_map_axis_steps:
  assumes "ok (wrap_step fn boundary wi) (attach_index wi xs)" "wi = sink_receives_index boundary"
    and "strategy = Vmap \<and> \<not> has_ordered_op boundary \<or> (\<exists>b\<ge>1. strategy = ChunkedMap b)"
  shows "\<exists>in_order. execute_map_axis ops fn xs strategy boundary
      = Inr (finish_axis in_order boundary (map (wrap_step fn boundary wi) (attach_index wi xs)))
    \<and> (has_ordered_op boundary \<longrightarrow> in_order)"
proof -
  have one: "apply_size1 (wrap_step fn boundary wi) (attach_index wi xs)
      = map (wrap_step fn boundary wi) (attach_index wi xs)" if "length xs = 1"
  proof -
    from that have "length (attach_index wi xs) = 1" by simp
    then obtain a where "attach_index wi xs = [a]" by (metis One_nat_def length_0_conv length_Suc_conv)
    then show ?thesis by (simp add: apply_size1_def)
  qed
  show ?thesis
    using assms(3) vmap_steps [OF assms(1)] lax_map_steps [OF assms(1)] chunked_map_steps [OF assms(1)] one
    by (cases "length xs = 1") (auto simp: execute_map_axis_def Let_def simp flip: assms(2))
qed

end

text \<open>
  The primitives for steps whose value is a tree of arrays: the value is computed by the modelled
  \<open>vmap\<close>, \<open>lax.map\<close> and \<open>chunked_map\<close>, the events are those of each element's call.
\<close>

definition instrument :: "('x \<Rightarrow> 'y \<times> 'ev list) \<Rightarrow> 'x list \<Rightarrow> 'y list res \<Rightarrow> ('y \<times> 'ev list) list res" where
  "instrument f xs r = bind_res r (\<lambda>ys. Inr (zip ys (map (snd \<circ> f) xs)))"

definition instrument_ops :: "('x, 'v) jax_maps \<Rightarrow> 'v \<Rightarrow> ('x, 'v tree \<times> 'ev list) axis_ops" where
  "instrument_ops J z =
     \<lparr>ao_vmap = (\<lambda>f xs. instrument f xs (jx_vmap J (fst \<circ> f) xs)),
      ao_lax_map = (\<lambda>f xs. instrument f xs (jx_lax_map J (fst \<circ> f) xs None)),
      ao_chunked_map = (\<lambda>b f xs. instrument f xs (chunked_map J z (fst \<circ> f) xs (Some b)))\<rparr>"

lemma zip_fst_snd: "zip (map (fst \<circ> f) xs) (map (snd \<circ> f) xs) = map f xs"
  by (induction xs) auto

sublocale jax_map_laws \<subseteq> instrumented: step_mapper "instrument_ops J z" "\<lambda>f xs. mappable (fst \<circ> f) xs" for z
proof
  fix f :: "'x \<Rightarrow> 'v tree \<times> 'ev list" and xs :: "'x list" and b :: int
  assume m: "mappable (fst \<circ> f) xs"
  then obtain st where st: "traces (fst \<circ> f) xs st" "\<forall>s\<in>set st. zero_size s \<longrightarrow> \<not> ls_extended s"
    by (auto simp: mappable_def)
  show "ao_vmap (instrument_ops J z) f xs = Inr (map f xs)" if "length xs \<noteq> 1"
    using vmap [OF st(1) that] by (simp add: instrument_ops_def instrument_def zip_fst_snd)
  show "ao_lax_map (instrument_ops J z) f xs = Inr (map f xs)"
    using lax_map_sequential [OF st(1)] by (simp add: instrument_ops_def instrument_def zip_fst_snd)
  show "ao_chunked_map (instrument_ops J z) b f xs = Inr (map f xs)" if "1 \<le> b"
    using chunked_map_correct [OF st, of "Some b" z] that
    by (simp add: instrument_ops_def instrument_def zip_fst_snd)
qed

text \<open>
  C26. The executor on a map axis: whichever of \<open>Vmap\<close> and \<open>ChunkedMap\<close> runs it, the output is the fused (or
  stacked) list of what the tap returned for each result, in element order; element \<open>i\<close> emits the events of its tap and
  then those of the sink, called on what the tap returned and told position \<open>i\<close> when it opted in; and when a tap or sink
  is ordered the axis ran on a primitive that emits in element order.
\<close>

theorem execute_map_axis_correct:
  assumes "step_mapper ops ok" "ok (wrap_step fn boundary (sink_receives_index boundary))
      (attach_index (sink_receives_index boundary) xs)"
    and "strategy = Vmap \<and> \<not> has_ordered_op boundary \<or> (\<exists>b\<ge>1. strategy = ChunkedMap b)"
    and "length xs < 2 ^ 31"
  shows "\<exists>run. execute_map_axis ops fn xs strategy boundary = Inr run
    \<and> ar_output run = reduced boundary (map (\<lambda>x. tapped boundary (fn x)) xs)
    \<and> ar_events run = map (\<lambda>i. emitted boundary i (fn (xs ! i))) [0..<length xs]
    \<and> (has_ordered_op boundary \<longrightarrow> ar_in_order run)"
proof -
  let ?wi = "sink_receives_index boundary"
  obtain in_order where run: "execute_map_axis ops fn xs strategy boundary
      = Inr (finish_axis in_order boundary (map (wrap_step fn boundary ?wi) (attach_index ?wi xs)))"
    "has_ordered_op boundary \<longrightarrow> in_order"
    using boundary_executor.execute_map_axis_steps [OF boundary_executor.intro [OF assms(1)] assms(2) refl assms(3)]
    by blast
  have "map (wrap_step fn boundary ?wi) (attach_index ?wi xs)
      = map (\<lambda>i. step_spec boundary i (fn (xs ! i))) [0..<length xs]"
    by (rule attached_steps [OF assms(4)]) (rule wrap_step_eq)
  moreover have "map (\<lambda>i. tapped boundary (fn (xs ! i))) [0..<length xs] = map (\<lambda>x. tapped boundary (fn x)) xs"
    by (rule nth_equalityI) simp_all
  ultimately show ?thesis using run by (simp add: finish_axis_def comp_def step_spec_def apply_fuse_spec)
qed

text \<open>The meaning of \<open>jax.lax.scan\<close> on a non-empty input, forward.\<close>

fun scan_ref :: "('c \<Rightarrow> 'x \<Rightarrow> 'c \<times> 'y) \<Rightarrow> 'c \<Rightarrow> 'x list \<Rightarrow> 'c \<times> 'y list" where
  "scan_ref f c [] = (c, [])"
| "scan_ref f c (x # xs) = (let (c1, y) = f c x; (c2, ys) = scan_ref f c1 xs in (c2, y # ys))"

lemma scan_ref_length: "length (snd (scan_ref f c xs)) = length xs"
  by (induction xs arbitrary: c) (simp_all add: split_def Let_def)

lemma scan_ref_wrapped:
  assumes "length idxs = length xs" "scan_ref fn c xs = (cf, ys)"
  shows "scan_ref (wrapped_transition fn boundary wi) c (zip xs idxs)
    = (cf, map (\<lambda>(y, idx). apply_step_boundary boundary wi idx y) (zip ys idxs))"
  using assms
proof (induction idxs xs arbitrary: c ys rule: list_induct2)
  case (Cons idx idxs x xs)
  obtain c1 y where step: "fn c x = (c1, y)" by (cases "fn c x")
  obtain ys' where "scan_ref fn c1 xs = (cf, ys')" "ys = y # ys'"
    using Cons.prems step by (auto split: prod.splits)
  with Cons.IH [of c1 ys'] step show ?case by (simp add: wrapped_transition_def)
qed simp

lemma attach_index_zip:
  "attach_index wi xs = zip xs (if wi then map (\<lambda>i. Some (int32 (int i))) [0..<length xs] else replicate (length xs) None)"
  by (simp add: attach_index_def zip_replicate2)

text \<open>
  C27. The executor on a scan axis: the final carry is the scan's own, never fused; the output is the fused (or
  stacked) list of what the tap returned for the step results; step \<open>i\<close> emits the events of its tap and then those of the
  sink, called on what the tap returned and told position \<open>i\<close> when it opted in, in order.
\<close>

theorem execute_scan_axis_correct:
  assumes "\<And>f c es. es \<noteq> [] \<Longrightarrow> scan f c (Some es) None False 1 = Inr (scan_ref f c es)"
    and "xs \<noteq> []" "length xs < 2 ^ 31" "scan_ref fn init xs = (cf, ys)"
  shows "\<exists>run. execute_scan_axis scan fn init xs boundary = Inr (cf, run)
    \<and> ar_output run = reduced boundary (map (tapped boundary) ys)
    \<and> ar_events run = map (\<lambda>i. emitted boundary i (ys ! i)) [0..<length xs]
    \<and> ar_in_order run"
proof -
  let ?wi = "sink_receives_index boundary"
  let ?es = "attach_index ?wi xs"
  have len: "length ys = length xs" using scan_ref_length [of fn init xs] assms(4) by simp
  have "scan_ref (wrapped_transition fn boundary ?wi) init ?es
      = (cf, map (\<lambda>(y, idx). apply_step_boundary boundary ?wi idx y) (attach_index ?wi ys))"
    unfolding attach_index_zip len by (rule scan_ref_wrapped) (simp_all add: assms(4))
  also have "map (\<lambda>(y, idx). apply_step_boundary boundary ?wi idx y) (attach_index ?wi ys)
      = map (\<lambda>i. step_spec boundary i (id (ys ! i))) [0..<length ys]"
    by (rule attached_steps) (use assms(3) len in auto)
  finally have steps: "scan_ref (wrapped_transition fn boundary ?wi) init ?es
      = (cf, map (\<lambda>i. step_spec boundary i (ys ! i)) [0..<length xs])" by (simp add: len)
  have ne: "?es \<noteq> []" using assms(2) by (metis length_0_conv length_attach_index)
  have "execute_scan_axis scan fn init xs boundary
      = Inr (cf, finish_axis True boundary (map (\<lambda>i. step_spec boundary i (ys ! i)) [0..<length xs]))"
    using ne by (simp add: execute_scan_axis_def safe_scan_eq assms(1) [OF ne] steps)
  moreover have "map (\<lambda>i. tapped boundary (ys ! i)) [0..<length xs] = map (tapped boundary) ys"
    by (rule nth_equalityI) (simp_all add: len)
  ultimately show ?thesis by (simp add: finish_axis_def comp_def step_spec_def apply_fuse_spec)
qed

text \<open>
  C28. The topology validator accepts a plan if and only if no heterogeneous axis is
  scanned, no \<open>Vmap\<close> axis has an ordered tap or sink and, for export, every boundary is free of
  taps, has a sink exactly when it is declared materializing and then no fuse, every strategy is
  exportable and at most one axis materializes. That is less than the boundaries document: an ordered tap or sink is
  accepted on every strategy but \<open>Vmap\<close>, not only on \<open>ChunkedMap\<close> and \<open>Scan\<close>.
\<close>

theorem topology_validator_exact:
  "(validate_plan_topology ds boundaries export_safe = Inr () \<longleftrightarrow>
     list_all (decision_valid boundaries export_safe) ds
     \<and> (export_safe \<longrightarrow> length (filter (\<lambda>d. materializes (map_of boundaries (td_name d))) ds) \<le> 1))
   \<and> (has_ordered_op (Some b) \<longrightarrow>
     (validate_plan_topology [\<lparr>td_name = axis, td_heterogeneous = False, td_strategy = strategy\<rparr>] [(axis, b)] False = Inr ()
        \<longleftrightarrow> strategy \<noteq> ''Vmap''))"
  by (simp add: validate_plan_topology_Inr decision_valid_def)

text \<open>
  C25. A validated plan never trips the executor's defence in depth: every \<open>Vmap\<close> or positive \<open>ChunkedMap\<close> decision
  of a plan that \<open>validate_plan_topology\<close> accepts runs to a result on sound primitives, with its
  ordered events in element order.
\<close>

theorem validated_axis_runs:
  assumes "validate_plan_topology (map topo_of decisions) boundaries export_safe = Inr ()"
    and "d \<in> set decisions" "ad_strategy d = Vmap \<or> (\<exists>b\<ge>1. ad_strategy d = ChunkedMap b)"
    and "boundary = map_of boundaries (as_name (ad_spec d))"
    and "step_mapper ops ok" "ok (wrap_step fn boundary (sink_receives_index boundary))
      (attach_index (sink_receives_index boundary) xs)"
  shows "\<exists>run. execute_map_axis ops fn xs (ad_strategy d) boundary = Inr run
    \<and> (has_ordered_op boundary \<longrightarrow> ar_in_order run)"
proof -
  have "decision_valid boundaries export_safe (topo_of d)"
    using assms(1,2) by (auto simp: validate_plan_topology_Inr list_all_iff)
  then have "ad_strategy d = Vmap \<and> \<not> has_ordered_op boundary \<or> (\<exists>b\<ge>1. ad_strategy d = ChunkedMap b)"
    using assms(3,4) by (auto simp: decision_valid_def topo_of_def)
  from boundary_executor.execute_map_axis_steps [OF boundary_executor.intro [OF assms(5)] assms(6) refl this]
  show ?thesis by (auto simp: finish_axis_def)
qed

section \<open>Concrete axes\<close>

interpretation faulty_executor: boundary_executor "instrument_ops faulty_jax z" "\<lambda>f xs. mappable (fst \<circ> f) xs" for z
  by (rule boundary_executor.intro) (rule faulty_jax.instrumented.step_mapper_axioms)

text \<open>An ordered sink that logs the position it is given.\<close>

definition logging_boundary :: "(int tree, nat, int option) axis_boundary" where
  "logging_boundary = \<lparr>ab_fuse = Some length, ab_tap = None,
     ab_sink = Some \<lparr>sink_ordered = True, sink_call = (\<lambda>y idx. [idx])\<rparr>,
     ab_materialize = False, ab_sink_receives_index = True\<rparr>"

lemma two_leaves_mappable: "mappable (fst \<circ> wrap_step two_leaves (Some logging_boundary) True) es"
  unfolding mappable_def
proof (intro exI [of _ "map ol_struct (two_leaves 0)"] conjI)
  show "traces (fst \<circ> wrap_step two_leaves (Some logging_boundary) True) es (map ol_struct (two_leaves 0))"
    by (auto simp: traces_def wrap_step_eq apply_step_boundary_def logging_boundary_def two_leaves_def leaf_ok_def)
qed (simp add: two_leaves_def)

theorem execute_map_axis_correct_witness:
  "\<exists>run. execute_map_axis (instrument_ops faulty_jax 0) two_leaves [5, 6, 7] (ChunkedMap 2) (Some logging_boundary) = Inr run
    \<and> ar_output run = Fused 3 \<and> ar_events run = [[Some 0], [Some 1], [Some 2]] \<and> ar_in_order run"
proof -
  have idx: "sink_receives_index (Some logging_boundary)" "has_ordered_op (Some logging_boundary)"
    by (simp_all add: sink_receives_index_def has_ordered_op_def has_ordered_sink_def logging_boundary_def)
  from execute_map_axis_correct [OF faulty_jax.instrumented.step_mapper_axioms, of two_leaves "Some logging_boundary" "[5, 6, 7]" "ChunkedMap 2" 0]
  show ?thesis
    using idx two_leaves_mappable
    by (auto simp: tapped_def emitted_def reduced_def logging_boundary_def upt_rec)
qed

theorem execute_scan_axis_correct_witness:
  "\<exists>run. execute_scan_axis (\<lambda>f c es len rev unroll. Inr (scan_ref f c (the es)))
      (\<lambda>c x. (c + x, two_leaves c)) 1 [5, 6] (Some logging_boundary) = Inr (12, run)
    \<and> ar_output run = Fused (Suc (Suc 0)) \<and> ar_events run = [[Some 0], [Some 1]] \<and> ar_in_order run"
  using execute_scan_axis_correct [of "\<lambda>f c es len rev unroll. Inr (scan_ref f c (the es))" "[5, 6]"
      "\<lambda>c x. (c + x, two_leaves c)" 1 12 "[two_leaves 1, two_leaves 6]" "Some logging_boundary"]
  by (simp add: tapped_def emitted_def reduced_def logging_boundary_def upt_rec)

theorem topology_validator_exact_witness:
  "validate_plan_topology [\<lparr>td_name = ''t'', td_heterogeneous = False, td_strategy = ''DedupGather''\<rparr>]
     [(''t'', logging_boundary)] False = Inr ()"
proof -
  have "has_ordered_op (Some logging_boundary)" by (simp add: has_ordered_op_def has_ordered_sink_def logging_boundary_def)
  then show ?thesis
    using conjunct2 [OF topology_validator_exact [of "[]" "[]" False logging_boundary "''t''" "''DedupGather''"]] by simp
qed

definition logged_axis :: axis_spec where
  "logged_axis = \<lparr>as_name = ''t'', as_cardinality = 3, as_default_batch_size = 2, as_tile_granularity = 1,
     as_heterogeneous = False, as_dedup_eligible = False, as_bucket_boundaries = None, as_role = KNOWN,
     as_element_input_bytes = None, as_varying_inputs = []\<rparr>"

theorem validated_axis_runs_witness:
  "\<exists>run. execute_map_axis (instrument_ops faulty_jax 0) two_leaves [5, 6, 7]
     (ad_strategy (decision logged_axis VmapByCardinality (ChunkedMap 2) :: (unit, int, int) axis_decision))
     (map_of [(''t'', logging_boundary)] (as_name (ad_spec (decision logged_axis VmapByCardinality (ChunkedMap 2) :: (unit, int, int) axis_decision))))
    = Inr run \<and> ar_in_order run"
proof -
  have idx: "sink_receives_index (Some logging_boundary)" "has_ordered_op (Some logging_boundary)"
    by (simp_all add: sink_receives_index_def has_ordered_op_def has_ordered_sink_def logging_boundary_def)
  have "validate_plan_topology (map topo_of [decision logged_axis VmapByCardinality (ChunkedMap 2) :: (unit, int, int) axis_decision])
      [(''t'', logging_boundary)] False = Inr ()"
    by (simp add: validate_plan_topology_Inr decision_valid_def topo_of_def decision_def)
  from validated_axis_runs [OF this, of "decision logged_axis VmapByCardinality (ChunkedMap 2)" "Some logging_boundary",
      OF _ _ _ faulty_jax.instrumented.step_mapper_axioms, of two_leaves "[5, 6, 7]"]
  show ?thesis using idx two_leaves_mappable by (simp add: decision_def logged_axis_def)
qed

text \<open>
  The planner and the validator disagree about heterogeneous carry axes: the planner checks a \<open>CarrySpec\<close> against its
  \<open>heterogeneous_axes\<close> argument only, so for an \<open>AxisSpec\<close> declared \<open>heterogeneous=True\<close> it returns
  a \<open>Scan\<close> plan, which \<open>validate_plan_topology\<close> then rejects.
\<close>

theorem planner_validator_disagree:
  fixes carry :: "('c, 'x, 'y) carry_spec"
  defines "sp \<equiv> logged_axis\<lparr>as_heterogeneous := True\<rparr>"
  defines "p \<equiv> \<lparr>bp_memory_estimator = None,
      bp_carry_specs = [carry\<lparr>cs_axis_name := ''t'', cs_collect_outputs := True\<rparr>], bp_dedup_specs = [],
      bp_heterogeneous_axes = {}, bp_budget = None\<rparr>"
  shows "\<exists>d. plan w p [sp] env = (env, Inr [d]) \<and> strategy_name (ad_strategy d) = ''Scan''
    \<and> validate_plan_topology (map topo_of [d]) ([] :: (string \<times> ('z, 'o, 'ev) axis_boundary) list) False
      = Inl (Exn PlanTopologyError ''axis is heterogeneous but has a Scan strategy'' [ArgStr ''t''])"
  by (simp add: plan_def merge_dedup_specs_def p_def sp_def logged_axis_def carry_decision_def snapshot_def
      validate_plan_topology_def topo_of_def)

end
