(* ===== verification/Python_Values.thy ===== *)
theory Python_Values
  imports Xtrax_Prelude "HOL-Library.Char_ord" "HOL-Library.List_Lexorder"
begin

text \<open>
  Values of the Python standard library that several components share: white space and blank
  strings, decimal numbers (\<open>int(s)\<close> and \<open>f"{n:05d}"\<close>), decoded JSON values with their truth value
  and \<open>dict(x)\<close>, and directories of named files.

  A text file of JSON lines is modelled by the list of its decoded lines: what \<open>json.loads\<close>
  returns for a line is a \<open>json\<close> value, and \<open>json.dumps(..., sort_keys=True)\<close> followed by
  \<open>json.loads\<close> is \<open>sort_keys\<close>.
\<close>

section \<open>Strings\<close>

text \<open>The characters that \<open>str.strip\<close> removes, among those of one byte.\<close>

definition py_space :: "char \<Rightarrow> bool" where
  "py_space c = (of_char c \<in> {9 :: nat, 10, 11, 12, 13, 28, 29, 30, 31, 32, 133, 160})"

definition blank :: "string \<Rightarrow> bool" where
  "blank s = list_all py_space s"

definition strip :: "string \<Rightarrow> string" where
  "strip s = rev (dropWhile py_space (rev (dropWhile py_space s)))"

lemma strip_eq_Nil: "strip s = [] \<longleftrightarrow> blank s"
proof -
  have "strip s = [] \<longleftrightarrow> list_all py_space (dropWhile py_space s)"
    by (simp add: strip_def dropWhile_eq_Nil_conv list_all_iff)
  also have "\<dots> \<longleftrightarrow> blank s"
    by (induction s) (auto simp: blank_def)
  finally show ?thesis .
qed

definition lower_char :: "char \<Rightarrow> char" where
  "lower_char c = (let n = of_char c :: nat in
     if 65 \<le> n \<and> n \<le> 90 \<or> 192 \<le> n \<and> n \<le> 222 \<and> n \<noteq> 215 then char_of (n + 32) else c)"

definition lower :: "string \<Rightarrow> string" where
  "lower s = map lower_char s"

section \<open>Decimal numbers\<close>

definition digit_char :: "nat \<Rightarrow> char" where
  "digit_char d = char_of (48 + d)"

definition digit_val :: "char \<Rightarrow> nat option" where
  "digit_val c = (let n = of_char c :: nat in if 48 \<le> n \<and> n \<le> 57 then Some (n - 48) else None)"

fun decimal :: "nat \<Rightarrow> string" where
  "decimal n = (if n < 10 then [digit_char n] else decimal (n div 10) @ [digit_char (n mod 10)])"

declare decimal.simps [simp del]

text \<open>\<open>f"{n:05d}"\<close>: at least five characters, the sign first.\<close>

definition fmt05 :: "int \<Rightarrow> string" where
  "fmt05 n = (let ds = decimal (nat \<bar>n\<bar>); w = (if n < 0 then 4 else 5)
     in (if n < 0 then ''-'' else '''') @ replicate (w - length ds) (CHR ''0'') @ ds)"

text \<open>
  \<open>int(s)\<close> of a string: surrounding white space, a sign, and digits with single underscores
  between them. \<open>None\<close> is the \<open>ValueError\<close>.
\<close>

fun digits_val :: "nat \<Rightarrow> string \<Rightarrow> nat option" where
  "digits_val acc [] = Some acc"
| "digits_val acc (c # cs) =
     (if c = CHR ''_'' then
        (case cs of [] \<Rightarrow> None
         | d # ds \<Rightarrow> (case digit_val d of None \<Rightarrow> None | Some v \<Rightarrow> digits_val (10 * acc + v) ds))
      else case digit_val c of None \<Rightarrow> None | Some v \<Rightarrow> digits_val (10 * acc + v) cs)"

definition unsigned_val :: "string \<Rightarrow> nat option" where
  "unsigned_val s = (case s of [] \<Rightarrow> None
     | c # cs \<Rightarrow> (case digit_val c of None \<Rightarrow> None | Some v \<Rightarrow> digits_val v cs))"

definition py_int :: "string \<Rightarrow> int option" where
  "py_int s = (case strip s of [] \<Rightarrow> None
     | c # cs \<Rightarrow>
         if c = CHR ''-'' then map_option (\<lambda>n. - int n) (unsigned_val cs)
         else if c = CHR ''+'' then map_option int (unsigned_val cs)
         else map_option int (unsigned_val (c # cs)))"

lemma of_char_digit: "d < 10 \<Longrightarrow> of_char (digit_char d) = 48 + d"
  by (simp add: digit_char_def)

lemma digit_char_props:
  assumes "d < 10"
  shows "digit_val (digit_char d) = Some d" "digit_char d \<noteq> CHR ''_''" "digit_char d \<noteq> CHR ''-''"
    "digit_char d \<noteq> CHR ''+''" "\<not> py_space (digit_char d)"
proof -
  note n = of_char_digit [OF assms]
  show "digit_val (digit_char d) = Some d" using assms by (simp add: digit_val_def n)
  have ne: "digit_char d \<noteq> c" if "of_char c < (48 :: nat) \<or> 57 < (of_char c :: nat)" for c
    using that assms n by auto
  show "digit_char d \<noteq> CHR ''_''" "digit_char d \<noteq> CHR ''-''" "digit_char d \<noteq> CHR ''+''"
    by (rule ne, simp)+
  show "\<not> py_space (digit_char d)" using assms by (auto simp: py_space_def n)
qed

definition all_digits :: "string \<Rightarrow> bool" where
  "all_digits s = (\<forall>c\<in>set s. \<exists>d<10. c = digit_char d)"

lemma digits_val_append:
  assumes "all_digits s"
  shows "digits_val acc (s @ t) = (case digits_val acc s of None \<Rightarrow> None | Some a \<Rightarrow> digits_val a t)"
  using assms
proof (induction s arbitrary: acc)
  case (Cons c cs)
  then obtain d where "d < 10" "c = digit_char d" by (auto simp: all_digits_def)
  then show ?case using Cons by (simp add: digit_char_props all_digits_def)
qed simp

lemma all_digits_decimal: "all_digits (decimal n)"
proof (induction n rule: decimal.induct)
  case (1 n)
  show ?case
    by (subst decimal.simps) (use 1 in \<open>force simp: all_digits_def\<close>)
qed

lemma digits_val_decimal: "digits_val acc (decimal n) = Some (acc * 10 ^ length (decimal n) + n)"
proof (induction n arbitrary: acc rule: decimal.induct)
  case (1 n)
  show ?case
  proof (cases "n < 10")
    case True
    then show ?thesis by (simp add: decimal.simps [of n] digit_char_props)
  next
    case False
    have d: "decimal n = decimal (n div 10) @ [digit_char (n mod 10)]"
      using False by (simp add: decimal.simps [of n])
    have "digits_val acc (decimal n)
        = Some (10 * (acc * 10 ^ length (decimal (n div 10)) + n div 10) + n mod 10)"
      using 1 [OF False] by (simp add: d digits_val_append [OF all_digits_decimal] digit_char_props)
    also have "10 * (acc * 10 ^ length (decimal (n div 10)) + n div 10) + n mod 10
        = acc * 10 ^ length (decimal n) + n"
      by (simp add: d algebra_simps)
    finally show ?thesis .
  qed
qed

lemma digits_val_zeros: "digits_val 0 (replicate k (CHR ''0'') @ s) = digits_val 0 s"
  by (induction k) (simp_all add: digit_val_def)

lemma decimal_not_Nil [simp]: "decimal n \<noteq> []"
  by (simp add: decimal.simps [of n])

lemma fmt05_nonneg: "fmt05 (int n) = replicate (5 - length (decimal n)) (CHR ''0'') @ decimal n"
  by (simp add: fmt05_def Let_def)

lemma all_digits_fmt05: "all_digits (fmt05 (int n))"
proof -
  have "CHR ''0'' = digit_char 0" by code_simp
  moreover have "\<exists>d<10. digit_char 0 = digit_char d" by (rule exI [of _ 0]) simp
  ultimately show ?thesis using all_digits_decimal [of n] by (auto simp: fmt05_nonneg all_digits_def)
qed

lemma strip_all_digits: "all_digits s \<Longrightarrow> strip s = s"
proof -
  assume "all_digits s"
  then have "\<not> py_space c" if "c \<in> set s" for c
    using that digit_char_props(5) by (force simp: all_digits_def)
  then have "dropWhile py_space t = t" if "set t \<subseteq> set s" for t
    using that by (cases t) auto
  then show ?thesis by (simp add: strip_def)
qed

text \<open>Reading a formatted number gives the number back.\<close>

lemma py_int_fmt05 [simp]: "py_int (fmt05 (int n)) = Some (int n)"
proof -
  obtain c cs where c: "fmt05 (int n) = c # cs"
    by (cases "fmt05 (int n)") (auto simp: fmt05_nonneg)
  then obtain d where d: "d < 10" "c = digit_char d"
    using all_digits_fmt05 [of n] by (auto simp: all_digits_def)
  have "unsigned_val (c # cs) = digits_val 0 (c # cs)"
    by (simp add: unsigned_val_def digit_char_props d)
  also have "\<dots> = Some n"
    using digits_val_decimal [of 0 n] digits_val_zeros [of "5 - length (decimal n)" "decimal n"]
    unfolding c [symmetric] fmt05_nonneg by (simp only: mult_zero_left add_0)
  finally show ?thesis
    using strip_all_digits [OF all_digits_fmt05, of n] d c by (simp add: py_int_def digit_char_props)
qed

section \<open>Decoded JSON\<close>

text \<open>
  A float is its exact value or one of the non-finite values that \<open>json.loads\<close> also accepts. Its
  order is total, with \<open>NaN\<close> last; Python's own comparison is \<open>float_less\<close>.
\<close>

datatype py_float = NegInf | Finite rat | PosInf | NaN

instantiation py_float :: linorder
begin

fun less_eq_py_float :: "py_float \<Rightarrow> py_float \<Rightarrow> bool" where
  "NegInf \<le> _ \<longleftrightarrow> True"
| "Finite x \<le> y \<longleftrightarrow> (case y of NegInf \<Rightarrow> False | Finite z \<Rightarrow> x \<le> z | _ \<Rightarrow> True)"
| "PosInf \<le> y \<longleftrightarrow> y = PosInf \<or> y = NaN"
| "NaN \<le> y \<longleftrightarrow> y = NaN"

definition less_py_float :: "py_float \<Rightarrow> py_float \<Rightarrow> bool" where
  "x < y \<longleftrightarrow> x \<le> y \<and> \<not> y \<le> (x :: py_float)"

instance
proof
  fix x y z :: py_float
  show "x < y \<longleftrightarrow> x \<le> y \<and> \<not> y \<le> x" by (rule less_py_float_def)
  show "x \<le> x" by (cases x) auto
  show "x \<le> z" if "x \<le> y" "y \<le> z" using that by (cases x; cases y; cases z) auto
  show "x = y" if "x \<le> y" "y \<le> x" using that by (cases x; cases y) auto
  show "x \<le> y \<or> y \<le> x" by (cases x; cases y) auto
qed

end

definition float_less :: "py_float \<Rightarrow> py_float \<Rightarrow> bool" where
  "float_less x y = (x \<noteq> NaN \<and> y \<noteq> NaN \<and> x < y)"

definition float_eq :: "py_float \<Rightarrow> py_float \<Rightarrow> bool" where
  "float_eq x y = (x \<noteq> NaN \<and> x = y)"

datatype json =
    JNull | JBool bool | JInt int | JFloat py_float | JStr string
  | JArr "json list" | JObj "(string \<times> json) list"

fun truthy :: "json \<Rightarrow> bool" where
  "truthy JNull = False"
| "truthy (JBool b) = b"
| "truthy (JInt i) = (i \<noteq> 0)"
| "truthy (JFloat r) = (r \<noteq> Finite 0)"
| "truthy (JStr s) = (s \<noteq> [])"
| "truthy (JArr xs) = (xs \<noteq> [])"
| "truthy (JObj kvs) = (kvs \<noteq> [])"

fun hashable :: "json \<Rightarrow> bool" where
  "hashable (JArr _) = False"
| "hashable (JObj _) = False"
| "hashable _ = True"

definition obj_get :: "(string \<times> json) list \<Rightarrow> string \<Rightarrow> json" where
  "obj_get d k = (case map_of d k of None \<Rightarrow> JNull | Some v \<Rightarrow> v)"

definition of_str :: "string option \<Rightarrow> json" where
  "of_str x = (case x of None \<Rightarrow> JNull | Some s \<Rightarrow> JStr s)"

text \<open>\<open>(x or "").strip()\<close> is empty; a true value that is not a string has no \<open>strip\<close>.\<close>

fun no_text :: "json \<Rightarrow> bool res" where
  "no_text (JStr s) = Inr (blank s)"
| "no_text j = (if truthy j then Inl (Exn AttributeError ''object has no attribute strip'' []) else Inr True)"

text \<open>One element of a sequence given to \<open>dict\<close>, and \<open>dict(x)\<close> of a decoded value.\<close>

fun dict_item :: "json \<Rightarrow> (json \<times> json) res" where
  "dict_item (JArr [k, v]) = Inr (k, v)"
| "dict_item (JStr [c, d]) = Inr (JStr [c], JStr [d])"
| "dict_item (JObj [(k, _), (l, _)]) = Inr (JStr k, JStr l)"
| "dict_item (JArr _) = Inl (Exn ValueError ''dictionary update sequence element has wrong length'' [])"
| "dict_item (JStr _) = Inl (Exn ValueError ''dictionary update sequence element has wrong length'' [])"
| "dict_item (JObj _) = Inl (Exn ValueError ''dictionary update sequence element has wrong length'' [])"
| "dict_item _ = Inl (Exn TypeError ''cannot convert dictionary update sequence element to a sequence'' [])"

fun dict_items :: "(json \<times> json) list \<Rightarrow> json list \<Rightarrow> (json \<times> json) list res" where
  "dict_items d [] = Inr d"
| "dict_items d (x # xs) =
     bind_res (dict_item x) (\<lambda>(k, v).
       if hashable k then dict_items (AList.update k v d) xs
       else Inl (Exn TypeError ''unhashable type'' []))"

fun py_dict :: "json \<Rightarrow> (json \<times> json) list res" where
  "py_dict (JObj kvs) = Inr (map (\<lambda>(k, v). (JStr k, v)) kvs)"
| "py_dict (JArr xs) = dict_items [] xs"
| "py_dict (JStr s) = dict_items [] (map (\<lambda>c. JStr [c]) s)"
| "py_dict _ = Inl (Exn TypeError ''object is not iterable'' [])"

text \<open>Whether \<open>sorted\<close> can compare the keys: at most one, all strings or all numbers.\<close>

fun is_str :: "json \<Rightarrow> bool" where
  "is_str (JStr _) = True"
| "is_str _ = False"

fun is_number :: "json \<Rightarrow> bool" where
  "is_number (JBool _) = True"
| "is_number (JInt _) = True"
| "is_number (JFloat _) = True"
| "is_number _ = False"

definition sortable :: "json list \<Rightarrow> bool" where
  "sortable ks = (length ks \<le> 1 \<or> list_all is_str ks \<or> list_all is_number ks)"

text \<open>\<open>json.loads(json.dumps(x, sort_keys=True))\<close>.\<close>

lemma size_snd_less: "kv \<in> set kvs \<Longrightarrow> size (snd kv) < Suc (size_list (size_prod (\<lambda>x. 0) size) kvs)"
  by (induction kvs) auto

function sort_keys :: "json \<Rightarrow> json" where
  "sort_keys (JArr xs) = JArr (map sort_keys xs)"
| "sort_keys (JObj kvs) = JObj (sort_key fst (map (\<lambda>kv. (fst kv, sort_keys (snd kv))) kvs))"
| "sort_keys JNull = JNull"
| "sort_keys (JBool b) = JBool b"
| "sort_keys (JInt i) = JInt i"
| "sort_keys (JFloat r) = JFloat r"
| "sort_keys (JStr s) = JStr s"
  by pat_completeness auto
termination
  by (relation "measure size") (auto simp: size_snd_less less_Suc_eq_le intro: size_list_estimation')

subsection \<open>Objects with sorted keys\<close>

lemma sort_key_map_snd:
  "sort_key fst (map (\<lambda>kv. (fst kv, g (snd kv))) xs) = map (\<lambda>kv. (fst kv, g (snd kv))) (sort_key fst xs)"
proof -
  have ins: "insort_key fst (fst x, g (snd x)) (map (\<lambda>kv. (fst kv, g (snd kv))) ys)
      = map (\<lambda>kv. (fst kv, g (snd kv))) (insort_key fst x ys)" for x ys
    by (induction ys) auto
  show ?thesis by (induction xs) (auto simp: ins)
qed

lemma sort_key_eq_Nil [simp]: "sort_key f xs = [] \<longleftrightarrow> xs = []"
  by (metis length_0_conv length_sort)

lemma distinct_sort_key: "distinct (map fst xs) \<Longrightarrow> distinct (map fst (sort_key fst xs))"
  by (simp add: distinct_map)

lemma map_of_sort_key: "distinct (map fst xs) \<Longrightarrow> map_of (sort_key fst xs) = map_of xs"
  by (simp add: map_of_inject_set distinct_sort_key)

lemma map_of_map_snd: "map_of (map (\<lambda>kv. (fst kv, g (snd kv))) xs) k = map_option g (map_of xs k)"
  by (induction xs) auto

lemma map_of_sorted:
  assumes "distinct (map fst d)"
  shows "map_of (sort_key fst (map (\<lambda>kv. (fst kv, sort_keys (snd kv))) d)) k = map_option sort_keys (map_of d k)"
proof -
  have "distinct (map fst (map (\<lambda>kv. (fst kv, sort_keys (snd kv))) d))"
    using assms by (simp add: comp_def)
  then show ?thesis by (simp add: map_of_sort_key map_of_map_snd)
qed

lemma obj_get_sorted:
  "distinct (map fst d) \<Longrightarrow> obj_get (sort_key fst (map (\<lambda>kv. (fst kv, sort_keys (snd kv))) d)) k = sort_keys (obj_get d k)"
  by (simp add: obj_get_def map_of_sorted split: option.splits)

lemma sort_keys_of_str [simp]: "sort_keys (of_str x) = of_str x"
  by (cases x) (simp_all add: of_str_def)

lemma sort_keys_eq_JStr [simp]: "sort_keys j = JStr s \<longleftrightarrow> j = JStr s" "JStr s = sort_keys j \<longleftrightarrow> j = JStr s"
  by (cases j; auto)+

lemma is_str_sort_keys [simp]: "is_str (sort_keys j) = is_str j"
  by (cases j) auto

lemma truthy_sort_keys [simp]: "truthy (sort_keys j) = truthy j"
  by (cases j) auto

lemma no_text_sort_keys [simp]: "no_text (sort_keys j) = no_text j"
  by (cases j) auto

lemma sort_keys_idem: "sort_keys (sort_keys j) = sort_keys j"
proof (induction j rule: sort_keys.induct)
  case (2 kvs)
  let ?g = "\<lambda>kv. (fst kv, sort_keys (snd kv))"
  have "sort_keys (sort_keys (JObj kvs)) = JObj (sort_key fst (map ?g (sort_key fst (map ?g kvs))))"
    by simp
  also have "map ?g (sort_key fst (map ?g kvs)) = sort_key fst (map ?g (map ?g kvs))"
    by (rule sort_key_map_snd [symmetric])
  also have "map ?g (map ?g kvs) = map ?g kvs"
    using 2 by auto
  finally show ?case by (simp add: sort_key_id_if_sorted)
qed auto

section \<open>Directories\<close>

text \<open>
  A directory is its files by name. \<open>sorted(directory.glob("*.jsonl"))\<close> orders the names by code
  points; a directory that does not exist has no files.
\<close>

type_synonym 'f directory = "(string \<times> 'f) list"

definition jsonl :: "string \<Rightarrow> bool" where
  "jsonl name = (drop (length name - 6) name = ''.jsonl'')"

definition stem :: "string \<Rightarrow> string" where
  "stem name = take (length name - 6) name"

text \<open>The files that \<open>glob\<close> finds, in sorted order.\<close>

definition jsonl_files :: "'f directory \<Rightarrow> (string \<times> 'f) list" where
  "jsonl_files d = sort_key fst (filter (\<lambda>f. jsonl (fst f)) d)"

subsection \<open>Numbered file names sort by number\<close>

lemma length_decimal: "n < 10 ^ Suc k \<Longrightarrow> length (decimal n) \<le> Suc k"
proof (induction k arbitrary: n)
  case (Suc k)
  then show ?case by (cases "n < 10") (simp_all add: decimal.simps [of n])
qed (simp add: decimal.simps)

lemma length_fmt05: "n < 100000 \<Longrightarrow> length (fmt05 (int n)) = 5"
  using length_decimal [of n 4] by (simp add: fmt05_nonneg)

lemma digits_val_bounds:
  assumes "all_digits s" "digits_val a s = Some x"
  shows "a * 10 ^ length s \<le> x \<and> x < (a + 1) * 10 ^ length s"
  using assms
proof (induction s arbitrary: a)
  case (Cons c cs)
  then obtain d where d: "d < 10" "c = digit_char d" by (auto simp: all_digits_def)
  then have "digits_val (10 * a + d) cs = Some x" "all_digits cs"
    using Cons.prems by (auto simp: digit_char_props all_digits_def)
  from Cons.IH [OF this(2,1)] have
    "(10 * a + d) * 10 ^ length cs \<le> x" "x < (10 * a + d + 1) * 10 ^ length cs" by auto
  moreover have "10 * a * 10 ^ length cs \<le> (10 * a + d) * 10 ^ length cs"
    "(10 * a + d + 1) * 10 ^ length cs \<le> (10 * a + 10) * 10 ^ length cs"
    using d(1) by (intro mult_le_mono1; simp)+
  ultimately have "10 * a * 10 ^ length cs \<le> x \<and> x < (10 * a + 10) * 10 ^ length cs" by linarith
  then show ?case by (simp add: algebra_simps)
qed simp

lemma digits_val_less:
  assumes "all_digits s" "all_digits t" "length s = length t" "s < t"
    and "digits_val a s = Some x" "digits_val a t = Some y"
  shows "x < y"
  using assms
proof (induction s t arbitrary: a rule: list_induct2')
  case (4 c cs c' ds)
  obtain d e where d: "d < 10" "c = digit_char d" and e: "e < 10" "c' = digit_char e"
    using 4 by (auto simp: all_digits_def)
  have digits: "all_digits cs" "all_digits ds"
      "digits_val (10 * a + d) cs = Some x" "digits_val (10 * a + e) ds = Some y"
    using 4 d e by (auto simp: all_digits_def digit_char_props)
  show ?case
  proof (cases "c = c'")
    case True
    then have "Some d = Some e" using d e digit_char_props(1) by metis
    then have "cs < ds" "d = e" using 4 \<open>c = c'\<close> by simp_all
    then show ?thesis using 4 digits by auto
  next
    case False
    then have "c < c'" using 4 by simp
    then have "d < e" using of_char_digit d e by (simp add: less_char_def)
    then have "(10 * a + d + 1) * 10 ^ length cs \<le> (10 * a + e) * 10 ^ length cs"
      by (intro mult_le_mono1) simp
    moreover have "length cs = length ds" using 4 by simp
    ultimately have "(10 * a + d + 1) * 10 ^ length cs \<le> (10 * a + e) * 10 ^ length ds" by metis
    then show ?thesis
      using digits_val_bounds [OF digits(1,3)] digits_val_bounds [OF digits(2,4)] by linarith
  qed
qed auto

lemma fmt05_value: "digits_val 0 (fmt05 (int n)) = Some n"
  using digits_val_decimal [of 0 n] by (simp add: fmt05_nonneg digits_val_zeros)

lemma fmt05_less:
  assumes "m < n" "n < 100000"
  shows "fmt05 (int m) < fmt05 (int n)"
proof (rule ccontr)
  assume "\<not> ?thesis"
  then consider "fmt05 (int n) < fmt05 (int m)" | "fmt05 (int m) = fmt05 (int n)" by fastforce
  then show False
  proof cases
    case 1
    have "n < m"
      by (rule digits_val_less [OF all_digits_fmt05 all_digits_fmt05 _ 1 fmt05_value fmt05_value])
        (use assms in \<open>simp add: length_fmt05\<close>)
    then show False using assms by simp
  next
    case 2
    then have "Some m = Some n" using fmt05_value by metis
    then show False using assms by simp
  qed
qed

lemma append_less_append: "length s = length t \<Longrightarrow> s @ u < t @ u \<longleftrightarrow> s < (t :: string)"
  by (induction s t rule: list_induct2) auto

text \<open>The name of a numbered JSON-lines file.\<close>

definition numbered_name :: "nat \<Rightarrow> string" where
  "numbered_name n = fmt05 (int n) @ ''.jsonl''"

lemma numbered_name_less: "m < n \<Longrightarrow> n < 100000 \<Longrightarrow> numbered_name m < numbered_name n"
  by (simp add: numbered_name_def append_less_append fmt05_less length_fmt05)

lemma numbered_name_props [simp]:
  "jsonl (numbered_name n)" "stem (numbered_name n) = fmt05 (int n)" "py_int (stem (numbered_name n)) = Some (int n)"
  by (simp_all add: numbered_name_def jsonl_def stem_def py_int_fmt05)

lemma numbered_name_inj: "numbered_name m = numbered_name n \<longleftrightarrow> m = n"
  by (metis numbered_name_props(3) of_nat_eq_iff option.inject)

subsection \<open>Listing after an update\<close>

lemma sort_key_eqI:
  assumes "distinct (map fst xs)" "distinct (map fst ys)" "sorted (map fst ys)" "set ys = set xs"
  shows "sort_key fst xs = ys"
  by (rule map_sorted_distinct_set_unique [where f = fst])
    (use assms in \<open>auto simp: distinct_sort_key distinct_map\<close>)

lemma set_update:
  "distinct (map fst d) \<Longrightarrow> set (AList.update k v d) = {kv \<in> set d. fst kv \<noteq> k} \<union> {(k, v)}"
  by (induction d) (auto simp: image_iff)

lemma jsonl_files_update_greatest:
  assumes "distinct (map fst d)" "jsonl name" "\<And>n. n \<in> set (map fst d) \<Longrightarrow> jsonl n \<Longrightarrow> n \<le> name"
  shows "jsonl_files (AList.update name f d) = filter (\<lambda>x. fst x \<noteq> name) (jsonl_files d) @ [(name, f)]"
  unfolding jsonl_files_def
proof (rule sort_key_eqI)
  have dist: "distinct (map fst (filter P xs))" if "distinct (map fst xs)" for P and xs :: "(string \<times> 'a) list"
    using that by (simp add: distinct_map inj_on_def)
  show "distinct (map fst (filter (\<lambda>f. jsonl (fst f)) (AList.update name f d)))"
    by (intro dist distinct_update assms)
  let ?ys = "filter (\<lambda>x. fst x \<noteq> name) (sort_key fst (filter (\<lambda>f. jsonl (fst f)) d))"
  have "distinct (map fst ?ys)" by (intro dist distinct_sort_key assms)
  then show "distinct (map fst (?ys @ [(name, f)]))" by auto
  have "sorted (map fst ?ys)" by (rule sorted_filter) simp
  then show "sorted (map fst (?ys @ [(name, f)]))" using assms(3) by (auto simp: sorted_append)
  show "set (?ys @ [(name, f)]) = set (filter (\<lambda>f. jsonl (fst f)) (AList.update name f d))"
    using assms by (auto simp: set_update)
qed

end
