(* ===== verification/Telemetry_Record.thy ===== *)
theory Telemetry_Record
  imports Python_Values
begin

text \<open>
  The rows of the run ledger: \<open>telemetry/record.py\<close> and \<open>telemetry/migrate.py\<close>.

  A dataclass field that the constructor does not check holds whatever the decoded row had, so
  it is a \<open>json\<close> value here; a field that the constructor checks has its checked type. The
  constructors (\<open>__post_init__\<close>) are functions on the unchecked arguments, \<open>from_dict\<close> and
  \<open>upgrade_row\<close> work on decoded rows, and every exception, also the ones the code does not
  intend (a \<open>KeyError\<close> for a missing field), is a branch.
\<close>

section \<open>Constants\<close>

definition SCHEMA_VERSION :: int where "SCHEMA_VERSION = 2"
definition MIN_SUPPORTED_VERSION :: int where "MIN_SUPPORTED_VERSION = 1"

definition VALID_STATUSES :: "string list" where
  "VALID_STATUSES = [''complete'', ''degraded'', ''opted_out'', ''failed'']"

definition VALID_IR_MODES :: "string list" where
  "VALID_IR_MODES = [''full'', ''hash_only'', ''skipped'']"

definition VALID_KINDS :: "string list" where
  "VALID_KINDS = [''train'', ''eval'', ''export'']"

definition DISTRIBUTION_FIELDS :: "string list" where
  "DISTRIBUTION_FIELDS = [''name'', ''version'', ''install_kind'', ''wheel_sha256'', ''vcs_commit'',
     ''source_url'', ''record_sha256'', ''module'', ''module_file'', ''module_in_dist'']"

abbreviation ledger_error :: "string \<Rightarrow> exn_arg list \<Rightarrow> 'a res" where
  "ledger_error m as \<equiv> Inl (Exn LedgerRecordError m as)"

text \<open>\<open>x not in frozenset\<close> hashes \<open>x\<close> first.\<close>

definition one_of :: "json \<Rightarrow> string list \<Rightarrow> string \<Rightarrow> string res" where
  "one_of j valid what =
     (if \<not> hashable j then Inl (Exn TypeError ''unhashable type'' [])
      else case j of
        JStr s \<Rightarrow> if s \<in> set valid then Inr s else ledger_error what [ArgStrs valid]
      | _ \<Rightarrow> ledger_error what [ArgStrs valid])"

lemma one_of_eq_Inr [res_simps]: "one_of j valid what = Inr s \<longleftrightarrow> j = JStr s \<and> s \<in> set valid"
  by (cases j) (auto simp: one_of_def)

section \<open>Captured IR\<close>

record ir_ref =
  ir_kind :: string
  ir_sha256 :: json
  ir_bytes :: int
  ir_mode :: string
  ir_reason :: json

fun py_len :: "json \<Rightarrow> nat res" where
  "py_len (JStr s) = Inr (length s)"
| "py_len (JArr xs) = Inr (length xs)"
| "py_len (JObj kvs) = Inr (length kvs)"
| "py_len _ = Inl (Exn TypeError ''object has no len()'' [])"

text \<open>A string that is not blank, as \<open>not x or not x.strip()\<close> checks it.\<close>

definition text_of :: "json \<Rightarrow> string \<Rightarrow> string res" where
  "text_of j what = bind_res (no_text j) (\<lambda>none.
     if none then ledger_error what [] else case j of JStr s \<Rightarrow> Inr s | _ \<Rightarrow> ledger_error what [])"

lemma no_text_eq_False [res_simps]: "no_text j = Inr False \<longleftrightarrow> (\<exists>s. j = JStr s \<and> \<not> blank s)"
  by (cases j) auto

lemma no_text_JStr [simp]: "no_text (JStr s) = Inr (blank s)" by simp

lemma text_of_eq_Inr [res_simps]: "text_of j what = Inr s \<longleftrightarrow> j = JStr s \<and> \<not> blank s"
  by (cases j) (auto simp: text_of_def split: if_splits)

definition IRRef_init :: "json \<Rightarrow> json \<Rightarrow> json \<Rightarrow> json \<Rightarrow> json \<Rightarrow> ir_ref res" where
  "IRRef_init kind sha256 nbytes mode reason =
     bind_res (one_of mode VALID_IR_MODES ''IRRef.mode must be one of'') (\<lambda>m.
     bind_res (text_of kind ''IRRef.kind must be a non-empty string'') (\<lambda>k.
     case nbytes of
       JInt n \<Rightarrow>
         if n < 0 then ledger_error ''IRRef.bytes must be a non-negative int'' []
         else
           let ref = \<lparr>ir_kind = k, ir_sha256 = sha256, ir_bytes = n, ir_mode = m, ir_reason = reason\<rparr> in
           if m = ''skipped'' then
             bind_res (no_text reason) (\<lambda>none.
               if none then ledger_error ''IRRef.mode skipped requires a reason'' [] else Inr ref)
           else
             bind_res (py_len sha256) (\<lambda>len.
               if len \<noteq> 64 then ledger_error ''IRRef.sha256 must be a 64-char hex digest'' [ArgStr m]
               else Inr ref)
     | _ \<Rightarrow> ledger_error ''IRRef.bytes must be a non-negative int'' []))"

definition ir_ref_dict :: "ir_ref \<Rightarrow> (string \<times> json) list" where
  "ir_ref_dict r = [(''kind'', JStr (ir_kind r)), (''sha256'', ir_sha256 r), (''bytes'', JInt (ir_bytes r)),
     (''mode'', JStr (ir_mode r)), (''reason'', ir_reason r)]"

text \<open>\<open>IRRef(**ref)\<close>: the keyword arguments of a decoded entry.\<close>

definition kw_get :: "(string \<times> json) list \<Rightarrow> string \<Rightarrow> json \<Rightarrow> json" where
  "kw_get kw k dflt = (case map_of kw k of None \<Rightarrow> dflt | Some v \<Rightarrow> v)"

definition IRRef_kwargs :: "json \<Rightarrow> ir_ref res" where
  "IRRef_kwargs ref = (case ref of
     JObj kw \<Rightarrow>
       if set (map fst kw) \<subseteq> {''kind'', ''sha256'', ''bytes'', ''mode'', ''reason''}
          \<and> {''kind'', ''sha256'', ''bytes''} \<subseteq> set (map fst kw)
       then IRRef_init (obj_get kw ''kind'') (obj_get kw ''sha256'') (obj_get kw ''bytes'')
              (kw_get kw ''mode'' (JStr ''full'')) (kw_get kw ''reason'' JNull)
       else Inl (Exn TypeError ''missing or unexpected keyword argument'' [])
   | _ \<Rightarrow> Inl (Exn TypeError ''argument after ** must be a mapping'' []))"

section \<open>Provenance\<close>

record run_provenance =
  pv_git_sha :: json
  pv_git_branch :: json
  pv_git_dirty :: json
  pv_dirty_content_id :: json
  pv_remote_url :: json
  pv_submodule_state :: json
  pv_pinned_sha :: json
  pv_run_ref :: json
  pv_wip_ref :: json
  pv_snapshot_mode :: json
  pv_unpinned_reason :: json
  pv_provenance_source :: json
  pv_jax_version :: json
  pv_jaxlib_version :: json
  pv_x64_enabled :: json
  pv_xla_flags :: json
  pv_device_kind :: json
  pv_hostname :: json
  pv_python_version :: json
  pv_platform :: json
  pv_distributions :: json

definition prov_dict :: "run_provenance \<Rightarrow> (string \<times> json) list" where
  "prov_dict p =
     [(''git_sha'', pv_git_sha p), (''git_branch'', pv_git_branch p), (''git_dirty'', pv_git_dirty p),
      (''dirty_content_id'', pv_dirty_content_id p), (''remote_url'', pv_remote_url p),
      (''submodule_state'', pv_submodule_state p), (''pinned_sha'', pv_pinned_sha p),
      (''run_ref'', pv_run_ref p), (''wip_ref'', pv_wip_ref p), (''snapshot_mode'', pv_snapshot_mode p),
      (''unpinned_reason'', pv_unpinned_reason p), (''provenance_source'', pv_provenance_source p),
      (''jax_version'', pv_jax_version p), (''jaxlib_version'', pv_jaxlib_version p),
      (''x64_enabled'', pv_x64_enabled p), (''xla_flags'', pv_xla_flags p),
      (''device_kind'', pv_device_kind p), (''hostname'', pv_hostname p),
      (''python_version'', pv_python_version p), (''platform'', pv_platform p),
      (''distributions'', pv_distributions p)]"

text \<open>The defaults are the degraded readings.\<close>

definition prov_default :: run_provenance where
  "prov_default =
     \<lparr>pv_git_sha = JStr ''unknown'', pv_git_branch = JNull, pv_git_dirty = JNull, pv_dirty_content_id = JNull,
      pv_remote_url = JNull, pv_submodule_state = JNull, pv_pinned_sha = JNull, pv_run_ref = JNull,
      pv_wip_ref = JNull, pv_snapshot_mode = JNull, pv_unpinned_reason = JNull,
      pv_provenance_source = JStr ''degraded'', pv_jax_version = JNull, pv_jaxlib_version = JNull,
      pv_x64_enabled = JNull, pv_xla_flags = JStr '''', pv_device_kind = JNull,
      pv_hostname = JStr ''unknown'', pv_python_version = JStr '''', pv_platform = JStr '''',
      pv_distributions = JObj []\<rparr>"

definition PROV_FIELDS :: "string list" where
  "PROV_FIELDS = map fst (prov_dict prov_default)"

definition prov_of :: "(string \<times> json) list \<Rightarrow> run_provenance" where
  "prov_of kw = (let get = (\<lambda>k sel. kw_get kw k (sel prov_default)) in
     \<lparr>pv_git_sha = get ''git_sha'' pv_git_sha, pv_git_branch = get ''git_branch'' pv_git_branch,
      pv_git_dirty = get ''git_dirty'' pv_git_dirty,
      pv_dirty_content_id = get ''dirty_content_id'' pv_dirty_content_id,
      pv_remote_url = get ''remote_url'' pv_remote_url,
      pv_submodule_state = get ''submodule_state'' pv_submodule_state,
      pv_pinned_sha = get ''pinned_sha'' pv_pinned_sha, pv_run_ref = get ''run_ref'' pv_run_ref,
      pv_wip_ref = get ''wip_ref'' pv_wip_ref, pv_snapshot_mode = get ''snapshot_mode'' pv_snapshot_mode,
      pv_unpinned_reason = get ''unpinned_reason'' pv_unpinned_reason,
      pv_provenance_source = get ''provenance_source'' pv_provenance_source,
      pv_jax_version = get ''jax_version'' pv_jax_version,
      pv_jaxlib_version = get ''jaxlib_version'' pv_jaxlib_version,
      pv_x64_enabled = get ''x64_enabled'' pv_x64_enabled, pv_xla_flags = get ''xla_flags'' pv_xla_flags,
      pv_device_kind = get ''device_kind'' pv_device_kind, pv_hostname = get ''hostname'' pv_hostname,
      pv_python_version = get ''python_version'' pv_python_version,
      pv_platform = get ''platform'' pv_platform,
      pv_distributions = get ''distributions'' pv_distributions\<rparr>)"

text \<open>One entry of \<open>distributions\<close>; the keys of a decoded object are strings.\<close>

definition check_distribution :: "string \<times> json \<Rightarrow> unit res" where
  "check_distribution = (\<lambda>(requested, entry).
     if blank requested then ledger_error ''distributions key is not a non-empty string'' [ArgStr requested]
     else case entry of
       JObj kvs \<Rightarrow>
         if set (map fst kvs) \<noteq> set DISTRIBUTION_FIELDS then
           ledger_error ''distributions entry must carry exactly the fields'' [ArgStrs DISTRIBUTION_FIELDS]
         else if \<not> list_all (\<lambda>kv. is_str (snd kv)) kvs then
           ledger_error ''distributions fields are not strings'' []
         else Inr ()
     | _ \<Rightarrow> ledger_error ''distributions entry must carry exactly the fields'' [ArgStrs DISTRIBUTION_FIELDS])"

definition RunProvenance_init :: "(string \<times> json) list \<Rightarrow> run_provenance res" where
  "RunProvenance_init kw = (let p = prov_of kw in
     case pv_distributions p of
       JObj ds \<Rightarrow> bind_res (traverse_res check_distribution ds) (\<lambda>_. Inr p)
     | _ \<Rightarrow> ledger_error ''distributions must be a dict'' [])"

section \<open>Rows\<close>

record run_ledger_record =
  rl_run_id :: string
  rl_kind :: string
  rl_derived_from :: json
  rl_telemetry_status :: string
  rl_status_reason :: json
  rl_ir :: "ir_ref list"
  rl_context :: "(string \<times> string) list"
  rl_schema_version :: json
  rl_ts :: json
  rl_provenance :: run_provenance

fun the_str :: "json \<Rightarrow> string" where
  "the_str (JStr s) = s"
| "the_str _ = []"

definition bad_context :: "(json \<times> json) list \<Rightarrow> json list" where
  "bad_context ctx = map fst (filter (\<lambda>kv. \<not> (is_str (fst kv) \<and> is_str (snd kv))) ctx)"

definition RunLedgerRecord_init ::
  "json \<Rightarrow> json \<Rightarrow> json \<Rightarrow> json \<Rightarrow> json \<Rightarrow> (json \<times> json) list \<Rightarrow> ir_ref list \<Rightarrow> json \<Rightarrow> json \<Rightarrow> run_provenance
     \<Rightarrow> run_ledger_record res"
where
  "RunLedgerRecord_init run_id kind derived_from telemetry_status status_reason ctx ir schema_version ts prov =
     bind_res (text_of run_id ''run_id must be a non-empty string'') (\<lambda>rid.
     bind_res (one_of kind VALID_KINDS ''kind must be one of'') (\<lambda>k.
     bind_res (one_of telemetry_status VALID_STATUSES ''telemetry_status must be one of'') (\<lambda>st.
     if is_str derived_from \<and> blank (the_str derived_from) then
       ledger_error ''derived_from must be a non-empty run_id or None'' []
     else if derived_from = JStr rid then
       ledger_error ''derived_from must not equal run_id'' [ArgStr rid]
     else
       bind_res (if st \<noteq> ''complete'' then no_text status_reason else Inr False) (\<lambda>none.
       if none then ledger_error ''telemetry_status requires a status_reason'' [ArgStr st]
       else if bad_context ctx \<noteq> [] then
         (if sortable (bad_context ctx) then ledger_error ''context entries are not str->str'' []
          else Inl (Exn TypeError ''not supported between instances'' []))
       else Inr \<lparr>rl_run_id = rid, rl_kind = k, rl_derived_from = derived_from, rl_telemetry_status = st,
                 rl_status_reason = status_reason, rl_ir = ir,
                 rl_context = map (\<lambda>(k, v). (the_str k, the_str v)) ctx,
                 rl_schema_version = schema_version, rl_ts = ts, rl_provenance = prov\<rparr>))))"

definition is_citable :: "run_ledger_record \<Rightarrow> bool" where
  "is_citable r = (rl_telemetry_status r = ''complete'')"

definition to_dict :: "run_ledger_record \<Rightarrow> json" where
  "to_dict r = JObj
     [(''schema_version'', rl_schema_version r), (''run_id'', JStr (rl_run_id r)), (''kind'', JStr (rl_kind r)),
      (''derived_from'', rl_derived_from r), (''ts'', rl_ts r),
      (''telemetry_status'', JStr (rl_telemetry_status r)), (''status_reason'', rl_status_reason r),
      (''context'', JObj (map (\<lambda>(k, v). (k, JStr v)) (rl_context r))),
      (''provenance'', JObj (prov_dict (rl_provenance r))),
      (''ir'', JArr (map (\<lambda>ref. JObj (ir_ref_dict ref)) (rl_ir r)))]"

definition KNOWN_FIELDS :: "string list" where
  "KNOWN_FIELDS = [''schema_version'', ''run_id'', ''kind'', ''derived_from'', ''ts'', ''telemetry_status'',
     ''status_reason'', ''context'', ''provenance'', ''ir'']"

definition is_schema_version :: "json \<Rightarrow> bool" where
  "is_schema_version v = (v = JInt SCHEMA_VERSION \<or> v = JFloat (Finite (of_int SCHEMA_VERSION)))"

text \<open>\<open>tuple(IRRef(**ref) for ref in raw.get("ir", ()))\<close>, a \<open>TypeError\<close> reported as a ledger error.\<close>

fun iterate :: "json \<Rightarrow> json list res" where
  "iterate (JArr xs) = Inr xs"
| "iterate (JStr s) = Inr (map (\<lambda>c. JStr [c]) s)"
| "iterate (JObj kvs) = Inr (map (JStr \<circ> fst) kvs)"
| "iterate _ = Inl (Exn TypeError ''object is not iterable'' [])"

definition ir_of :: "(string \<times> json) list \<Rightarrow> ir_ref list res" where
  "ir_of d =
     (case (bind_res (iterate (kw_get d ''ir'' (JArr []))) (traverse_res IRRef_kwargs)) of
        Inl e \<Rightarrow> if class_of e = TypeError then ledger_error ''ledger row has a malformed ir entry'' [ArgCause e]
                 else Inl e
      | Inr refs \<Rightarrow> Inr refs)"

definition dict_or_empty :: "json \<Rightarrow> (json \<times> json) list res" where
  "dict_or_empty j = (if truthy j then py_dict j else Inr [])"

definition required :: "(string \<times> json) list \<Rightarrow> string \<Rightarrow> json res" where
  "required d k = (case map_of d k of None \<Rightarrow> Inl (Exn KeyError k []) | Some v \<Rightarrow> Inr v)"

definition from_dict :: "json \<Rightarrow> run_ledger_record res" where
  "from_dict raw = (case raw of
     JObj d \<Rightarrow>
       let version = obj_get d ''schema_version'' in
       if \<not> is_schema_version version then
         Inl (Exn SchemaVersionMismatchError ''ledger row schema_version does not match the running schema_version'' [])
       else if \<not> set (map fst d) \<subseteq> set KNOWN_FIELDS then ledger_error ''ledger row has unknown field(s)'' []
       else
         bind_res (dict_or_empty (obj_get d ''provenance'')) (\<lambda>prov_raw.
         let unknown_prov = filter (\<lambda>k. k \<notin> JStr ` set PROV_FIELDS) (map fst prov_raw) in
         if unknown_prov \<noteq> [] then
           (if sortable unknown_prov then ledger_error ''ledger row provenance has unknown field(s)'' []
            else Inl (Exn TypeError ''not supported between instances'' []))
         else
           bind_res (ir_of d) (\<lambda>ir.
           bind_res (required d ''run_id'') (\<lambda>run_id.
           bind_res (required d ''kind'') (\<lambda>kind.
           bind_res (dict_or_empty (obj_get d ''context'')) (\<lambda>ctx.
           bind_res (required d ''ts'') (\<lambda>ts.
           bind_res (RunProvenance_init (map (\<lambda>(k, v). (the_str k, v)) prov_raw)) (\<lambda>prov.
             RunLedgerRecord_init run_id kind (obj_get d ''derived_from'')
               (kw_get d ''telemetry_status'' (JStr ''complete'')) (obj_get d ''status_reason'')
               ctx ir version ts prov)))))))
   | _ \<Rightarrow> ledger_error ''ledger row must decode to an object'' [])"

section \<open>Migration\<close>

definition migrate_v1 :: "(string \<times> json) list \<Rightarrow> (string \<times> json) list res" where
  "migrate_v1 row = (case obj_get row ''provenance'' of
     JObj prov \<Rightarrow>
       if ''distributions'' \<in> set (map fst prov) then
         ledger_error ''v1 ledger row already carries provenance.distributions'' []
       else Inr (AList.update ''provenance'' (JObj (prov @ [(''distributions'', JObj [])]))
              (AList.update ''schema_version'' (JInt 2) row))
   | _ \<Rightarrow> ledger_error ''v1 ledger row has no provenance object to migrate'' [])"

definition MIGRATIONS :: "(int \<times> ((string \<times> json) list \<Rightarrow> (string \<times> json) list res)) list" where
  "MIGRATIONS = [(1, migrate_v1)]"

definition migration_chain_is_complete :: bool where
  "migration_chain_is_complete =
     list_all (\<lambda>v. v \<in> set (map fst MIGRATIONS)) [MIN_SUPPORTED_VERSION..SCHEMA_VERSION - 1]"

text \<open>The loop advances the version by one or raises, so it runs at most \<open>SCHEMA_VERSION - version\<close> times.\<close>

function upgrade_loop :: "int \<Rightarrow> (string \<times> json) list \<Rightarrow> (string \<times> json) list res" where
  "upgrade_loop current row =
     (if current < SCHEMA_VERSION then
        (case map_of MIGRATIONS current of
           None \<Rightarrow> Inl (Exn SchemaVersionMismatchError ''no migration registered'' [ArgInt current])
         | Some migration \<Rightarrow>
             bind_res (migration row) (\<lambda>row'.
               if obj_get row' ''schema_version'' \<noteq> JInt (current + 1) then
                 Inl (Exn SchemaVersionMismatchError ''migration did not advance the version'' [ArgInt current])
               else upgrade_loop (current + 1) row'))
      else Inr row)"
  by pat_completeness auto
termination
  by (relation "measure (\<lambda>(current, row). nat (SCHEMA_VERSION - current))") auto

declare upgrade_loop.simps [simp del]

definition upgrade_row :: "json \<Rightarrow> json res" where
  "upgrade_row raw = (case raw of
     JObj d \<Rightarrow>
       (case obj_get d ''schema_version'' of
          JInt version \<Rightarrow>
            if version > SCHEMA_VERSION then
              Inl (Exn SchemaVersionMismatchError ''ledger row schema_version is newer'' [ArgInt version])
            else if version < MIN_SUPPORTED_VERSION then
              Inl (Exn SchemaVersionMismatchError ''ledger row schema_version predates the oldest supported'' [ArgInt version])
            else bind_res (upgrade_loop version d) (\<lambda>row. Inr (JObj row))
        | _ \<Rightarrow> ledger_error ''ledger row has a non-integer schema_version'' [])
   | _ \<Rightarrow> ledger_error ''ledger row must be an object'' [])"

definition read_row_upgrading :: "json \<Rightarrow> run_ledger_record res" where
  "read_row_upgrading raw = bind_res (upgrade_row raw) from_dict"

section \<open>What the constructors accept\<close>

definition ref_ok :: "ir_ref \<Rightarrow> bool" where
  "ref_ok ref = (IRRef_init (JStr (ir_kind ref)) (ir_sha256 ref) (JInt (ir_bytes ref)) (JStr (ir_mode ref))
     (ir_reason ref) = Inr ref)"

definition prov_ok :: "run_provenance \<Rightarrow> bool" where
  "prov_ok p = (RunProvenance_init (prov_dict p) = Inr p)"

definition row_ok :: "run_ledger_record \<Rightarrow> bool" where
  "row_ok r = (RunLedgerRecord_init (JStr (rl_run_id r)) (JStr (rl_kind r)) (rl_derived_from r)
       (JStr (rl_telemetry_status r)) (rl_status_reason r)
       (map (\<lambda>kv. (JStr (fst kv), JStr (snd kv))) (rl_context r)) (rl_ir r) (rl_schema_version r) (rl_ts r)
       (rl_provenance r) = Inr r
     \<and> list_all ref_ok (rl_ir r) \<and> prov_ok (rl_provenance r) \<and> distinct (map fst (rl_context r)))"

lemma IRRef_init_ref_ok: "IRRef_init k s b m why = Inr ref \<Longrightarrow> ref_ok ref"
  by (cases b) (auto simp: ref_ok_def IRRef_init_def res_simps Let_def ex_bool_eq split: if_splits)

lemma prov_of_dict [simp]: "prov_of (prov_dict p) = p"
  by (cases p) (simp add: prov_of_def prov_dict_def kw_get_def)

lemma prov_of_cong: "map_of kw = map_of kw' \<Longrightarrow> prov_of kw = prov_of kw'"
  by (simp add: prov_of_def kw_get_def)

lemma RunProvenance_init_prov_ok: "RunProvenance_init kw = Inr p \<Longrightarrow> prov_ok p"
  by (auto simp: prov_ok_def RunProvenance_init_def res_simps Let_def split: json.splits)

lemma bad_context_strings [simp]: "bad_context (map (\<lambda>kv. (JStr (fst kv), JStr (snd kv))) ctx) = []"
  by (simp add: bad_context_def filter_empty_conv)

lemma bad_context_NilD:
  assumes "bad_context ctx = []"
  shows "ctx = map (\<lambda>kv. (JStr (fst kv), JStr (snd kv))) (map (\<lambda>(k, v). (the_str k, the_str v)) ctx)"
proof -
  have "is_str k \<and> is_str v" if "(k, v) \<in> set ctx" for k v
    using assms that by (auto simp: bad_context_def filter_empty_conv)
  moreover have "JStr (the_str j) = j" if "is_str j" for j
    using that by (cases j) auto
  ultimately show ?thesis by (auto simp: comp_def case_prod_beta intro!: map_idI [symmetric])
qed

lemma RunLedgerRecord_init_Inr:
  "RunLedgerRecord_init run_id kind der st why ctx ir ver ts prov = Inr r \<longleftrightarrow>
     run_id = JStr (rl_run_id r) \<and> \<not> blank (rl_run_id r) \<and> kind = JStr (rl_kind r) \<and> rl_kind r \<in> set VALID_KINDS
     \<and> st = JStr (rl_telemetry_status r) \<and> rl_telemetry_status r \<in> set VALID_STATUSES
     \<and> der = rl_derived_from r \<and> \<not> (is_str der \<and> blank (the_str der)) \<and> der \<noteq> JStr (rl_run_id r)
     \<and> why = rl_status_reason r \<and> (rl_telemetry_status r \<noteq> ''complete'' \<longrightarrow> no_text why = Inr False)
     \<and> ctx = map (\<lambda>kv. (JStr (fst kv), JStr (snd kv))) (rl_context r)
     \<and> ir = rl_ir r \<and> ver = rl_schema_version r \<and> ts = rl_ts r \<and> prov = rl_provenance r"
  (is "?L \<longleftrightarrow> ?R")
proof
  assume ?L
  then show ?R
    unfolding RunLedgerRecord_init_def bind_res_eq_Inr guard_eq_Inr one_of_eq_Inr text_of_eq_Inr
    using bad_context_NilD [of ctx]
    by (cases r; elim exE conjE) (simp del: map_map split: if_split_asm)
next
  assume ?R
  then have "(if rl_telemetry_status r \<noteq> ''complete'' then no_text why else Inr False) = Inr False" by auto
  with \<open>?R\<close> show ?L
    by (cases r) (simp add: RunLedgerRecord_init_def one_of_def text_of_def comp_def)
qed

section \<open>Reading back what was written\<close>

definition normal_ref :: "ir_ref \<Rightarrow> ir_ref" where
  "normal_ref ref = ref\<lparr>ir_sha256 := sort_keys (ir_sha256 ref), ir_reason := sort_keys (ir_reason ref)\<rparr>"

definition normal_prov :: "run_provenance \<Rightarrow> run_provenance" where
  "normal_prov p = prov_of (map (\<lambda>kv. (fst kv, sort_keys (snd kv))) (prov_dict p))"

text \<open>A row up to the order of the keys of its dictionaries.\<close>

definition normal_record :: "run_ledger_record \<Rightarrow> run_ledger_record" where
  "normal_record r = r\<lparr>rl_derived_from := sort_keys (rl_derived_from r),
     rl_status_reason := sort_keys (rl_status_reason r), rl_ir := map normal_ref (rl_ir r),
     rl_context := sort_key fst (rl_context r), rl_schema_version := sort_keys (rl_schema_version r),
     rl_ts := sort_keys (rl_ts r), rl_provenance := normal_prov (rl_provenance r)\<rparr>"

lemma py_len_sort_keys [simp]: "py_len (sort_keys j) = py_len j"
  by (cases j) auto

lemma ref_ok_normal: "ref_ok ref \<Longrightarrow> ref_ok (normal_ref ref)"
  by (cases ref) (auto simp: ref_ok_def IRRef_init_def normal_ref_def res_simps Let_def split: if_splits)

lemma distinct_prov_dict: "distinct (map fst (prov_dict p))"
  by (simp add: prov_dict_def)

lemma distinct_ir_ref_dict: "distinct (map fst (ir_ref_dict p))"
  by (simp add: ir_ref_dict_def)

lemma IRRef_kwargs_sorted:
  assumes "ref_ok ref"
  shows "IRRef_kwargs (sort_keys (JObj (ir_ref_dict ref))) = Inr (normal_ref ref)"
  using ref_ok_normal [OF assms] map_of_sorted [OF distinct_ir_ref_dict, of ref]
  by (simp add: IRRef_kwargs_def ref_ok_def obj_get_def kw_get_def normal_ref_def ir_ref_dict_def image_image)

lemma traverse_res_unit:
  "(\<exists>ys. traverse_res f xs = Inr ys) \<longleftrightarrow> (\<forall>x\<in>set xs. \<exists>y. f x = Inr y)"
  by (induction xs) (auto simp: res_simps)

lemma check_distribution_Inr:
  "check_distribution (req, entry) = Inr u \<longleftrightarrow> \<not> blank req
     \<and> (\<exists>kvs. entry = JObj kvs \<and> set (map fst kvs) = set DISTRIBUTION_FIELDS \<and> list_all (\<lambda>kv. is_str (snd kv)) kvs)"
  by (cases entry) (auto simp: check_distribution_def)

lemma check_distribution_sort_keys:
  "check_distribution (req, entry) = Inr u \<Longrightarrow> check_distribution (req, sort_keys entry) = Inr u"
  by (auto simp: check_distribution_Inr image_image list_all_iff)

lemma prov_ok_normal: "prov_ok p \<Longrightarrow> RunProvenance_init (prov_dict (normal_prov p)) = Inr (normal_prov p)"
proof -
  assume ok: "prov_ok p"
  have d: "pv_distributions (normal_prov p) = sort_keys (pv_distributions p)"
    by (simp add: normal_prov_def prov_of_def prov_dict_def kw_get_def)
  from ok obtain ds where ds: "pv_distributions p = JObj ds" "\<exists>ys. traverse_res check_distribution ds = Inr ys"
    by (auto simp: prov_ok_def RunProvenance_init_def bind_res_eq_Inr Let_def split: json.splits)
  have "\<forall>x\<in>set (sort_key fst (map (\<lambda>kv. (fst kv, sort_keys (snd kv))) ds)). \<exists>y. check_distribution x = Inr y"
    using ds(2) unfolding traverse_res_unit by (auto dest!: bspec intro: check_distribution_sort_keys)
  then show ?thesis
    unfolding traverse_res_unit [symmetric] by (auto simp: RunProvenance_init_def d ds(1))
qed

lemma unknown_prov_sorted:
  assumes "set (map fst kw) \<subseteq> set PROV_FIELDS"
  shows "filter (\<lambda>k. k \<notin> JStr ` set PROV_FIELDS) (map fst (map (\<lambda>(k, v). (JStr k, v)) kw)) = []"
  using assms by (auto simp: filter_empty_conv)

lemma map_fst_prov_dict: "map fst (prov_dict p) = PROV_FIELDS"
  by (simp add: PROV_FIELDS_def prov_dict_def)

lemma row_ok_normal: "row_ok r \<Longrightarrow> row_ok (normal_record r)"
  using prov_ok_normal ref_ok_normal
  by (auto simp: row_ok_def RunLedgerRecord_init_Inr normal_record_def prov_ok_def list_all_iff
      distinct_sort_key elim!: is_str.elims)

text \<open>
  A written row, read back with \<open>from_dict\<close>, is the row up to the order of dictionary keys.
\<close>

lemma from_dict_to_dict:
  assumes ok: "row_ok r" and ver: "rl_schema_version r = JInt 2"
  shows "from_dict (sort_keys (to_dict r)) = Inr (normal_record r)"
proof -
  obtain d where d: "to_dict r = JObj d" "distinct (map fst d)" "set (map fst d) = set KNOWN_FIELDS"
    by (auto simp: to_dict_def KNOWN_FIELDS_def)
  let ?d = "sort_key fst (map (\<lambda>kv. (fst kv, sort_keys (snd kv))) d)"
  have get: "map_of ?d k = map_option sort_keys (map_of d k)" for k
    by (rule map_of_sorted [OF d(2)])
  have d_def: "d = [(''schema_version'', rl_schema_version r), (''run_id'', JStr (rl_run_id r)),
      (''kind'', JStr (rl_kind r)), (''derived_from'', rl_derived_from r), (''ts'', rl_ts r),
      (''telemetry_status'', JStr (rl_telemetry_status r)), (''status_reason'', rl_status_reason r),
      (''context'', JObj (map (\<lambda>(k, v). (k, JStr v)) (rl_context r))),
      (''provenance'', JObj (prov_dict (rl_provenance r))),
      (''ir'', JArr (map (\<lambda>ref. JObj (ir_ref_dict ref)) (rl_ir r)))]"
    using d(1) by (simp add: to_dict_def)
  have keys: "set (map fst ?d) \<subseteq> set KNOWN_FIELDS"
    using d(3) by (simp add: image_image)
  let ?kw = "sort_key fst (map (\<lambda>kv. (fst kv, sort_keys (snd kv))) (prov_dict (rl_provenance r)))"
  have prov: "dict_or_empty (obj_get ?d ''provenance'') = Inr (map (\<lambda>(k, v). (JStr k, v)) ?kw)"
    unfolding obj_get_def get by (simp add: d_def dict_or_empty_def prov_dict_def del: list.map)
  have unknown: "filter (\<lambda>k. k \<notin> JStr ` set PROV_FIELDS) (map fst (map (\<lambda>(k, v). (JStr k, v)) ?kw)) = []"
    by (rule unknown_prov_sorted)
      (simp add: image_image map_fst_prov_dict [of "rl_provenance r", symmetric] del: list.map)
  have prov_init: "RunProvenance_init (map (\<lambda>(k, v). (the_str k, v)) (map (\<lambda>(k, v). (JStr k, v)) ?kw))
      = Inr (normal_prov (rl_provenance r))"
  proof -
    have kw: "map (\<lambda>(k, v). (the_str k, v)) (map (\<lambda>(k, v). (JStr k, v)) ?kw) = ?kw"
      by (simp add: comp_def case_prod_beta)
    have "prov_of ?kw = normal_prov (rl_provenance r)"
      unfolding normal_prov_def
      by (rule prov_of_cong, rule map_of_sort_key) (simp add: comp_def distinct_prov_dict)
    then have "RunProvenance_init ?kw = RunProvenance_init (prov_dict (normal_prov (rl_provenance r)))"
      by (simp add: RunProvenance_init_def)
    also have "\<dots> = Inr (normal_prov (rl_provenance r))"
      by (rule prov_ok_normal) (use ok in \<open>simp add: row_ok_def\<close>)
    finally show ?thesis unfolding kw .
  qed
  have ir: "ir_of ?d = Inr (map normal_ref (rl_ir r))"
  proof -
    have "traverse_res IRRef_kwargs (map (\<lambda>ref. sort_keys (JObj (ir_ref_dict ref))) (rl_ir r))
        = Inr (map normal_ref (rl_ir r))"
      using ok IRRef_kwargs_sorted
      by (auto simp: traverse_res_eq_Inr list_all2_map1 list_all2_map2 list_all2_same row_ok_def list_all_iff
          simp del: sort_keys.simps)
    then show ?thesis
      unfolding ir_of_def kw_get_def get by (simp add: d_def comp_def del: sort_keys.simps(2))
  qed
  have ctx: "dict_or_empty (obj_get ?d ''context'')
      = Inr (map (\<lambda>kv. (JStr (fst kv), JStr (snd kv))) (sort_key fst (rl_context r)))"
  proof -
    have "sort_keys (JObj (map (\<lambda>(k, v). (k, JStr v)) (rl_context r)))
        = JObj (map (\<lambda>kv. (fst kv, JStr (snd kv))) (sort_key fst (rl_context r)))"
      by (simp add: comp_def case_prod_beta sort_key_map_snd)
    then show ?thesis
      unfolding obj_get_def get by (simp add: d_def dict_or_empty_def comp_def case_prod_beta del: sort_keys.simps)
  qed
  have "RunLedgerRecord_init (JStr (rl_run_id r)) (JStr (rl_kind r)) (sort_keys (rl_derived_from r))
      (JStr (rl_telemetry_status r)) (sort_keys (rl_status_reason r))
      (map (\<lambda>kv. (JStr (fst kv), JStr (snd kv))) (sort_key fst (rl_context r))) (map normal_ref (rl_ir r))
      (JInt 2) (sort_keys (rl_ts r)) (normal_prov (rl_provenance r)) = Inr (normal_record r)"
    using row_ok_normal [OF ok] ver by (simp add: row_ok_def normal_record_def)
  then show ?thesis
    unfolding d(1) sort_keys.simps from_dict_def
    using keys ver
    by (simp add: Let_def unknown prov_init ir prov ctx is_schema_version_def SCHEMA_VERSION_def
        del: sort_key_simps map_map)
      (simp add: obj_get_def kw_get_def required_def get d_def)
qed

lemma normal_ref_idem: "normal_ref (normal_ref ref) = normal_ref ref"
  by (simp add: normal_ref_def sort_keys_idem)

lemma normal_prov_idem: "normal_prov (normal_prov p) = normal_prov p"
  by (simp add: normal_prov_def prov_of_def prov_dict_def kw_get_def sort_keys_idem)

lemma normal_record_idem: "normal_record (normal_record r) = normal_record r"
  by (simp add: normal_record_def sort_keys_idem normal_ref_idem normal_prov_idem comp_def
      sort_key_id_if_sorted)

lemma normal_record_simps [simp]:
  "rl_run_id (normal_record r) = rl_run_id r" "rl_kind (normal_record r) = rl_kind r"
  "is_citable (normal_record r) = is_citable r"
  by (simp_all add: normal_record_def is_citable_def)

subsection \<open>Rows that were read\<close>

lemma upgrade_loop_current [simp]: "upgrade_loop 2 d = Inr d"
  by (simp add: upgrade_loop.simps SCHEMA_VERSION_def)

lemma migrate_v1_Inr:
  assumes "migrate_v1 d = Inr row"
  shows "obj_get row ''schema_version'' = JInt 2"
    and "k \<notin> {''schema_version'', ''provenance''} \<Longrightarrow> map_of row k = map_of d k"
  using assms by (auto simp: migrate_v1_def obj_get_def update_conv split: json.splits if_splits)

lemma upgrade_loop_1: "upgrade_loop 1 d = migrate_v1 d"
proof -
  show ?thesis
    using migrate_v1_Inr(1) by (cases "migrate_v1 d") (auto simp: upgrade_loop.simps [of 1] SCHEMA_VERSION_def MIGRATIONS_def)
qed

lemma upgrade_row_Inr:
  "upgrade_row raw = Inr row \<longleftrightarrow> (\<exists>d d'. raw = JObj d \<and> row = JObj d'
     \<and> (obj_get d ''schema_version'' = JInt 2 \<and> d' = d
        \<or> obj_get d ''schema_version'' = JInt 1 \<and> migrate_v1 d = Inr d'))"
proof (cases raw)
  case (JObj d)
  consider "obj_get d ''schema_version'' = JInt 1" | "obj_get d ''schema_version'' = JInt 2"
    | "\<And>v. obj_get d ''schema_version'' = JInt v \<Longrightarrow> v < 1 \<or> v > 2"
    by (cases "obj_get d ''schema_version''") (force simp: not_less)+
  then show ?thesis
  proof cases
    case 3
    then show ?thesis
      by (cases "obj_get d ''schema_version''")
        (auto simp: JObj upgrade_row_def SCHEMA_VERSION_def MIN_SUPPORTED_VERSION_def)
  qed (auto simp: JObj upgrade_row_def SCHEMA_VERSION_def MIN_SUPPORTED_VERSION_def upgrade_loop_1 bind_res_eq_Inr)
qed (simp_all add: upgrade_row_def)

text \<open>The keys of the decoded context are distinct, as those of every Python dictionary.\<close>

definition context_distinct :: "json \<Rightarrow> bool" where
  "context_distinct raw = (case raw of
     JObj d \<Rightarrow> (case obj_get d ''context'' of JObj c \<Rightarrow> distinct (map fst c) | _ \<Rightarrow> True)
   | _ \<Rightarrow> True)"

lemma context_distinct_upgrade:
  "upgrade_row raw = Inr row \<Longrightarrow> context_distinct raw \<Longrightarrow> context_distinct row"
  using migrate_v1_Inr(2) [where k = "''context''"]
  by (auto simp: upgrade_row_Inr context_distinct_def obj_get_def)

lemma dict_items_distinct: "dict_items d xs = Inr d' \<Longrightarrow> distinct (map fst d) \<Longrightarrow> distinct (map fst d')"
  by (induction xs arbitrary: d) (auto simp: res_simps distinct_update split: if_splits)

lemma dict_or_empty_distinct:
  assumes "dict_or_empty j = Inr kvs" "\<And>c. j = JObj c \<Longrightarrow> distinct (map fst c)"
  shows "distinct (map fst kvs)"
proof (cases j)
  case (JObj c)
  with assms have "kvs = map (\<lambda>(k, v). (JStr k, v)) c" by (auto simp: dict_or_empty_def split: if_splits)
  moreover have "map fst (map (\<lambda>(k, v). (JStr k, v)) c) = map JStr (map fst c)" by auto
  ultimately show ?thesis using assms(2) [OF JObj] by (simp add: distinct_map inj_on_def)
next
  case (JArr xs)
  then show ?thesis using assms(1) by (cases "xs = []") (auto simp: dict_or_empty_def intro: dict_items_distinct)
next
  case (JStr s)
  then show ?thesis using assms(1) by (cases "s = []") (auto simp: dict_or_empty_def intro: dict_items_distinct)
qed (use assms(1) in \<open>auto simp: dict_or_empty_def split: if_splits\<close>)

lemma from_dict_Inr:
  assumes "from_dict raw = Inr r" "context_distinct raw"
  shows "row_ok r" and "\<And>d. raw = JObj d \<Longrightarrow> rl_schema_version r = obj_get d ''schema_version''"
proof -
  obtain d where raw: "raw = JObj d" using assms(1) by (cases raw) (auto simp: from_dict_def)
  obtain kw ir run_id kind ctx ts prov where r: "ir_of d = Inr ir" "dict_or_empty (obj_get d ''context'') = Inr ctx"
      "RunProvenance_init kw = Inr prov"
      "RunLedgerRecord_init run_id kind (obj_get d ''derived_from'') (kw_get d ''telemetry_status'' (JStr ''complete''))
         (obj_get d ''status_reason'') ctx ir (obj_get d ''schema_version'') ts prov = Inr r"
    using assms(1) unfolding raw from_dict_def
    by (auto simp: bind_res_eq_Inr guard_eq_Inr Let_def split: if_splits)
  note init = r(4) [unfolded RunLedgerRecord_init_Inr]
  have refs: "list_all ref_ok ir"
    using r(1) by (auto simp: ir_of_def res_simps list_all_iff IRRef_kwargs_def
        dest!: list_all2_pick(2) split: sum.splits if_splits json.splits intro: IRRef_init_ref_ok)
  have "distinct (map fst ctx)"
    by (rule dict_or_empty_distinct [OF r(2)]) (use assms(2) in \<open>simp add: context_distinct_def raw\<close>)
  then have "distinct (map JStr (map fst (rl_context r)))"
    using init by (simp add: comp_def)
  then have "distinct (map fst (rl_context r))" by (rule distinct_map [THEN iffD1, THEN conjunct1])
  with refs init RunProvenance_init_prov_ok [OF r(3)] r(4) show "row_ok r"
    by (simp add: row_ok_def)
  show "\<And>d. raw = JObj d \<Longrightarrow> rl_schema_version r = obj_get d ''schema_version''"
    using init raw by simp
qed

lemma read_row_upgrading_ok:
  assumes "read_row_upgrading raw = Inr r" "context_distinct raw"
  shows "row_ok r" "rl_schema_version r = JInt 2"
proof -
  obtain row where row: "upgrade_row raw = Inr row" "from_dict row = Inr r"
    using assms(1) by (auto simp: read_row_upgrading_def bind_res_eq_Inr)
  note read = from_dict_Inr [OF row(2) context_distinct_upgrade [OF row(1) assms(2)]]
  show "row_ok r" by (rule read(1))
  show "rl_schema_version r = JInt 2"
    using row(1) read(2) migrate_v1_Inr(1) by (auto simp: upgrade_row_Inr)
qed

lemma read_written:
  assumes "row_ok r" "rl_schema_version r = JInt 2"
  shows "read_row_upgrading (sort_keys (to_dict r)) = Inr (normal_record r)"
proof -
  obtain d where d: "to_dict r = JObj d" "distinct (map fst d)" "obj_get d ''schema_version'' = rl_schema_version r"
    by (simp add: to_dict_def obj_get_def)
  have "upgrade_row (sort_keys (to_dict r)) = Inr (sort_keys (to_dict r))"
    using assms(2) d by (auto simp: upgrade_row_Inr obj_get_sorted)
  then show ?thesis
    using from_dict_to_dict [OF assms] by (simp add: read_row_upgrading_def)
qed

lemma context_distinct_written: "row_ok r \<Longrightarrow> context_distinct (sort_keys (to_dict r))"
proof -
  assume "row_ok r"
  then have "distinct (map fst (map (\<lambda>kv. (fst kv, sort_keys (snd kv))) (map (\<lambda>(k, v). (k, JStr v)) (rl_context r))))"
    by (simp add: row_ok_def comp_def case_prod_beta)
  from distinct_sort_key [OF this] show ?thesis
    by (simp add: context_distinct_def to_dict_def obj_get_sorted del: map_map) (simp add: obj_get_def)
qed

section \<open>The row format\<close>

text \<open>
  C22. Whatever row the ledger can read, also one that was upgraded from the older schema, is written
  at the current schema version, and reading the written line gives the same row up to the order
  of dictionary keys; a second pass changes nothing.
\<close>

theorem ledger_row_roundtrip:
  assumes "read_row_upgrading raw = Inr r" "context_distinct raw"
  shows "rl_schema_version r = JInt SCHEMA_VERSION
    \<and> read_row_upgrading (sort_keys (to_dict r)) = Inr (normal_record r)
    \<and> read_row_upgrading (sort_keys (to_dict (normal_record r))) = Inr (normal_record r)"
proof -
  note ok = read_row_upgrading_ok [OF assms]
  have "rl_schema_version (normal_record r) = JInt 2" using ok(2) by (simp add: normal_record_def)
  then show ?thesis
    using ok read_written [OF ok] read_written [OF row_ok_normal [OF ok(1)]]
    by (simp add: SCHEMA_VERSION_def normal_record_idem)
qed

definition old_row :: json where
  "old_row = JObj [(''schema_version'', JInt 1), (''run_id'', JStr ''r1''), (''kind'', JStr ''train''),
     (''ts'', JStr ''2026-01-01''), (''context'', JObj [(''sweep'', JStr ''7''), (''config'', JStr ''base'')]),
     (''provenance'', JObj [(''git_sha'', JStr ''abc''), (''git_dirty'', JBool False)])]"

definition old_record :: run_ledger_record where
  "old_record = \<lparr>rl_run_id = ''r1'', rl_kind = ''train'', rl_derived_from = JNull, rl_telemetry_status = ''complete'',
     rl_status_reason = JNull, rl_ir = [], rl_context = [(''sweep'', ''7''), (''config'', ''base'')],
     rl_schema_version = JInt 2, rl_ts = JStr ''2026-01-01'',
     rl_provenance = prov_default\<lparr>pv_git_sha := JStr ''abc'', pv_git_dirty := JBool False\<rparr>\<rparr>"

theorem ledger_row_roundtrip_witness:
  "read_row_upgrading old_row = Inr old_record
   \<and> read_row_upgrading (sort_keys (to_dict old_record))
     = Inr (old_record\<lparr>rl_context := [(''config'', ''base''), (''sweep'', ''7'')]\<rparr>)"
proof -
  have read: "read_row_upgrading old_row = Inr old_record" by code_simp
  have "normal_record old_record = old_record\<lparr>rl_context := [(''config'', ''base''), (''sweep'', ''7'')]\<rparr>"
    by code_simp
  then show ?thesis
    using ledger_row_roundtrip [OF read] by (simp add: read) (simp add: context_distinct_def old_row_def obj_get_def)
qed

end
