(* ===== verification/Telemetry_Provenance.thy ===== *)
theory Telemetry_Provenance
  imports Telemetry_Record
begin

text \<open>
  The capture of provenance: the second half of \<open>telemetry/record.py\<close>.

  The outside world is an argument: \<open>git\<close> with its arguments returns its output or raises, the
  optional package \<open>cisternal\<close> is absent, fails to load, or gives a state and a way to pin it, the installed
  distributions answer or raise. The definitions are the three tiers of the code, in its order.
\<close>

section \<open>Requested distributions\<close>

definition separator :: "char \<Rightarrow> bool" where
  "separator c = (c \<in> {CHR ''-'', CHR ''_'', CHR ''.''})"

function collapse :: "string \<Rightarrow> string" where
  "collapse [] = []"
| "collapse (c # cs) = (if separator c then CHR ''-'' # collapse (dropWhile separator cs) else c # collapse cs)"
  by pat_completeness auto
termination
  by (relation "measure length") (auto simp: length_dropWhile_le less_Suc_eq_le)

definition canonical_name_of :: "string \<Rightarrow> string" where
  "canonical_name_of name = lower (collapse name)"

datatype names_arg = NoNames | OneString string | Names "json list"

fun split_on :: "char \<Rightarrow> string \<Rightarrow> string list" where
  "split_on sep [] = [[]]"
| "split_on sep (c # cs) = (if c = sep then [] # split_on sep cs
     else case split_on sep cs of [] \<Rightarrow> [[c]] | w # ws \<Rightarrow> (c # w) # ws)"

text \<open>\<open>d.setdefault(canonical_name(name), name)\<close> for the names that are not empty.\<close>

definition first_spellings :: "string list \<Rightarrow> (string \<times> string) list" where
  "first_spellings names = fold (\<lambda>name d.
     if name = [] then d
     else let k = canonical_name_of name in if k \<in> set (map fst d) then d else d @ [(k, name)]) names []"

definition ledger_distributions :: "names_arg \<Rightarrow> string option \<Rightarrow> string list res" where
  "ledger_distributions explicit env = (case explicit of
     OneString _ \<Rightarrow> Inl (Exn TypeError ''distributions must be a sequence of names, not a string'' [])
   | Names names \<Rightarrow>
       if \<not> list_all is_str names then Inl (Exn TypeError ''distribution names must be strings'' [])
       else Inr (map snd (first_spellings (map (strip \<circ> the_str) names)))
   | NoNames \<Rightarrow>
       let raw = strip (case env of None \<Rightarrow> [] | Some e \<Rightarrow> e) in
       if lower raw = ''none'' then Inr []
       else Inr (map snd (first_spellings (map strip (split_on (CHR '','') raw)))))"

definition telemetry_opted_out :: "string option \<Rightarrow> bool" where
  "telemetry_opted_out env =
     (lower (strip (case env of None \<Rightarrow> [] | Some e \<Rightarrow> e)) \<in> {''1'', ''true'', ''yes'', ''on''})"

section \<open>Git\<close>

record git_state =
  gs_hash :: "json option"
  gs_branch :: "json option"
  gs_dirty :: "json option"
  gs_dirty_content_id :: "json option"

record pin_result =
  pr_run_ref :: "json option"
  pr_wip_ref :: "json option"
  pr_snapshot_mode :: "json option"
  pr_unpinned_reason :: "json option"
  pr_wip_commit :: "json option"

text \<open>\<open>cisternal.provenance\<close>: the captured state, \<open>None\<close> when it raises, and \<open>pin_run\<close>.\<close>

record cisternal =
  ci_state :: "git_state option"
  ci_pin_run :: "string \<Rightarrow> json \<Rightarrow> json \<Rightarrow> bool \<Rightarrow> (string \<times> string) + pin_result"

text \<open>
  \<open>wd_cwd\<close>: what becomes of \<open>Path.cwd()\<close>; \<open>wd_git\<close>: of \<open>subprocess.check_output\<close>, whose errors of the classes under
  \<open>subprocess.SubprocessError\<close> all have that class here; \<open>wd_cisternal\<close>: of the import of \<open>cisternal.provenance\<close> and of its two names.
\<close>

record world =
  wd_cwd :: "unit res"
  wd_git :: "string list \<Rightarrow> string res"
  wd_sha256 :: "string \<Rightarrow> string"
  wd_git_sha_stamp :: "string option"
  wd_cisternal :: "cisternal res"
  wd_jax_version :: "json option"
  wd_jaxlib_version :: "json option"
  wd_x64_enabled :: "json option"
  wd_xla_flags :: "json option"
  wd_device_kind :: "json option"
  wd_hostname :: "string option"
  wd_python_version :: string
  wd_platform :: string
  wd_resolve :: "string \<Rightarrow> (string \<times> string) list option"

definition git_failure :: "exn \<Rightarrow> bool" where
  "git_failure e = (class_of e \<in> {OSError, FileNotFoundError, FileExistsError, OtherError ''SubprocessError''})"

text \<open>\<open>_git\<close>.\<close>

definition git_cmd :: "world \<Rightarrow> string list \<Rightarrow> string option res" where
  "git_cmd w args = (case wd_git w args of
     Inr out \<Rightarrow> Inr (Some (strip out))
   | Inl e \<Rightarrow> if git_failure e then Inr None else Inl e)"

text \<open>\<open>_safe\<close>: a capture that raised (\<open>None\<close>) records the fallback.\<close>

definition safe :: "json option \<Rightarrow> json \<Rightarrow> json" where
  "safe outcome fallback = (case outcome of None \<Rightarrow> fallback | Some v \<Rightarrow> v)"

definition capture_hostname :: "world \<Rightarrow> json" where
  "capture_hostname w = JStr (case wd_hostname w of None \<Rightarrow> ''unknown'' | Some h \<Rightarrow> h)"

definition capture_env :: "world \<Rightarrow> (string \<times> json) list" where
  "capture_env w =
     [(''jax_version'', safe (wd_jax_version w) JNull), (''jaxlib_version'', safe (wd_jaxlib_version w) JNull),
      (''x64_enabled'', safe (wd_x64_enabled w) JNull), (''xla_flags'', safe (wd_xla_flags w) (JStr [])),
      (''device_kind'', safe (wd_device_kind w) JNull), (''hostname'', capture_hostname w),
      (''python_version'', JStr (wd_python_version w)), (''platform'', JStr (wd_platform w))]"

definition attr :: "json option \<Rightarrow> json" where
  "attr a = (case a of None \<Rightarrow> JNull | Some v \<Rightarrow> v)"

definition py_or :: "json \<Rightarrow> json \<Rightarrow> json" where
  "py_or a b = (if truthy a then a else b)"

definition capture_repo_identity :: "world \<Rightarrow> (string \<times> json) list res" where
  "capture_repo_identity w =
     bind_res (git_cmd w [''config'', ''--get'', ''remote.origin.url'']) (\<lambda>remote.
     bind_res (git_cmd w [''submodule'', ''status'', ''--recursive'']) (\<lambda>submodules. Inr
       [(''remote_url'', py_or (of_str remote) JNull),
        (''submodule_state'', if truthy (of_str submodules)
           then JStr (''sha256:'' @ wd_sha256 w (the_str (of_str submodules))) else JNull)]))"

definition absent :: "exn \<Rightarrow> bool" where
  "absent e = (class_of e \<in> {OtherError ''ImportError'', OtherError ''ModuleNotFoundError'', AttributeError})"

definition cisternal_block :: "cisternal \<Rightarrow> git_state \<Rightarrow> string option \<Rightarrow> bool \<Rightarrow> (string \<times> json) list" where
  "cisternal_block ci st run_id pin =
     (let sha = py_or (case gs_hash st of None \<Rightarrow> JStr ''unknown'' | Some h \<Rightarrow> h) (JStr ''unknown'');
          branch = attr (gs_branch st); dirty = attr (gs_dirty st);
          block = (\<lambda>pinned run_ref wip_ref mode why.
            [(''git_sha'', sha), (''git_branch'', branch), (''git_dirty'', dirty),
             (''dirty_content_id'', attr (gs_dirty_content_id st)),
             (''provenance_source'', JStr ''cisternal''), (''pinned_sha'', pinned), (''run_ref'', run_ref),
             (''wip_ref'', wip_ref), (''snapshot_mode'', mode), (''unpinned_reason'', why)])
      in case (pin, run_id) of
           (True, Some (c # cs)) \<Rightarrow>
             (case ci_pin_run ci (c # cs) sha (py_or branch (JStr [])) (truthy dirty) of
                Inl (exc, msg) \<Rightarrow> block JNull JNull JNull JNull (JStr (''pin_run raised '' @ exc @ '': '' @ msg))
              | Inr pr \<Rightarrow> block (py_or (attr (pr_wip_commit pr)) sha) (attr (pr_run_ref pr)) (attr (pr_wip_ref pr))
                            (attr (pr_snapshot_mode pr)) (attr (pr_unpinned_reason pr)))
         | _ \<Rightarrow> block JNull JNull JNull JNull (JStr ''pinning not requested for this record''))"

definition try_cisternal :: "world \<Rightarrow> string option \<Rightarrow> bool \<Rightarrow> (string \<times> json) list option res" where
  "try_cisternal w run_id pin =
     (case wd_cisternal w of
        Inl e \<Rightarrow> if absent e then Inr None else Inl e
      | Inr ci \<Rightarrow>
          (case ci_state ci of
             None \<Rightarrow> Inr None
           | Some st \<Rightarrow> Inr (Some (cisternal_block ci st run_id pin))))"

definition builtin_block :: "world \<Rightarrow> bool \<Rightarrow> (string \<times> json) list res" where
  "builtin_block w pin =
     bind_res (git_cmd w [''rev-parse'', ''HEAD'']) (\<lambda>sha. case sha of
       Some (c # cs) \<Rightarrow>
         bind_res (git_cmd w [''status'', ''--porcelain'']) (\<lambda>porcelain.
         bind_res (git_cmd w [''rev-parse'', ''--abbrev-ref'', ''HEAD'']) (\<lambda>branch. Inr
           [(''git_sha'', JStr (c # cs)), (''git_branch'', of_str branch),
            (''git_dirty'', case porcelain of None \<Rightarrow> JNull | Some p \<Rightarrow> JBool (p \<noteq> [])),
            (''dirty_content_id'', JNull), (''provenance_source'', JStr ''builtin''),
            (''unpinned_reason'', if pin then JStr ''cisternal.provenance is not installed'' else JNull)]))
     | _ \<Rightarrow>
         let stamped = (case wd_git_sha_stamp w of None \<Rightarrow> ''unknown'' | Some s \<Rightarrow> s)
         in Inr [(''git_sha'', py_or (JStr stamped) (JStr ''unknown'')), (''git_branch'', JNull), (''git_dirty'', JNull),
                 (''dirty_content_id'', JNull),
                 (''provenance_source'', JStr (if stamped \<noteq> [] \<and> stamped \<noteq> ''unknown'' then ''builtin'' else ''degraded'')),
                 (''unpinned_reason'', JStr ''HEAD could not be resolved by git rev-parse'')])"

definition capture_git_block :: "world \<Rightarrow> string option \<Rightarrow> bool \<Rightarrow> (string \<times> json) list res" where
  "capture_git_block w run_id pin =
     bind_res (capture_repo_identity w) (\<lambda>identity.
     bind_res (try_cisternal w run_id pin) (\<lambda>got. case got of
       Some block \<Rightarrow> Inr (block @ identity)
     | None \<Rightarrow> bind_res (builtin_block w pin) (\<lambda>block. Inr (block @ identity))))"

definition unresolved_distribution :: "string \<Rightarrow> (string \<times> string) list" where
  "unresolved_distribution name =
     AList.update ''name'' name (map (\<lambda>f. (f, ''unknown'')) DISTRIBUTION_FIELDS)"

definition capture_distributions :: "world \<Rightarrow> names_arg \<Rightarrow> json res" where
  "capture_distributions w names =
     bind_res (ledger_distributions names None) (\<lambda>ns. Inr (JObj (map (\<lambda>name. (name,
       JObj (map (\<lambda>kv. (fst kv, JStr (snd kv)))
         (case wd_resolve w name of None \<Rightarrow> unresolved_distribution name | Some d \<Rightarrow> d)))) ns)))"

definition RunProvenance_capture :: "world \<Rightarrow> string option \<Rightarrow> bool \<Rightarrow> names_arg \<Rightarrow> run_provenance res" where
  "RunProvenance_capture w run_id pin names =
     bind_res (wd_cwd w) (\<lambda>_.
     bind_res (capture_git_block w run_id pin) (\<lambda>git.
     bind_res (capture_distributions w names) (\<lambda>ds.
       RunProvenance_init (git @ capture_env w @ [(''distributions'', ds)]))))"

section \<open>What a capture records, and what it raises\<close>

lemma strip_not_blank:
  assumes "\<not> blank s"
  shows "\<not> blank (strip s)"
proof -
  have keep: "c \<in> set (dropWhile py_space t)" if "c \<in> set t" "\<not> py_space c" for c t
    using that by (induction t) auto
  obtain c where "c \<in> set s" "\<not> py_space c" using assms by (auto simp: blank_def list_all_iff)
  then have "c \<in> set (strip s)" unfolding strip_def by (simp add: keep)
  then show ?thesis using \<open>\<not> py_space c\<close> by (auto simp: blank_def list_all_iff)
qed

lemma first_spellings_from: "kn \<in> set (first_spellings names) \<Longrightarrow> snd kn \<in> set names \<and> snd kn \<noteq> []"
  unfolding first_spellings_def
  by (induction names rule: rev_induct) (auto simp: Let_def split: if_splits)

lemma ledger_distributions_names:
  assumes "ledger_distributions names env = Inr ns" "n \<in> set ns"
  shows "\<not> blank n"
proof -
  obtain s where "n = strip s" "n \<noteq> []"
    using assms by (auto simp: ledger_distributions_def Let_def dest!: first_spellings_from split: names_arg.splits if_splits)
  then show ?thesis using strip_not_blank [of s] strip_eq_Nil [of s] by blast
qed

text \<open>What \<open>resolve_distribution\<close> documents: one string per field, when it returns.\<close>

definition resolves :: "world \<Rightarrow> bool" where
  "resolves w = (\<forall>n d. wd_resolve w n = Some d \<longrightarrow> set (map fst d) = set DISTRIBUTION_FIELDS)"

lemma capture_distributions_ok:
  assumes "resolves w" "capture_distributions w names = Inr ds"
  obtains entries where "ds = JObj entries" "\<forall>x\<in>set entries. check_distribution x = Inr ()"
proof -
  obtain ns where ns: "ledger_distributions names None = Inr ns"
      "ds = JObj (map (\<lambda>name. (name, JObj (map (\<lambda>kv. (fst kv, JStr (snd kv)))
         (case wd_resolve w name of None \<Rightarrow> unresolved_distribution name | Some d \<Rightarrow> d)))) ns)"
    using assms(2) by (auto simp: capture_distributions_def bind_res_eq_Inr)
  have "set (map fst (case wd_resolve w name of None \<Rightarrow> unresolved_distribution name | Some d \<Rightarrow> d)) = set DISTRIBUTION_FIELDS" for name
    using assms(1) by (auto simp: resolves_def unresolved_distribution_def DISTRIBUTION_FIELDS_def split: option.splits)
  then have "\<forall>x\<in>set (map (\<lambda>name. (name, JObj (map (\<lambda>kv. (fst kv, JStr (snd kv)))
      (case wd_resolve w name of None \<Rightarrow> unresolved_distribution name | Some d \<Rightarrow> d)))) ns). check_distribution x = Inr ()"
    using ledger_distributions_names [OF ns(1)] by (auto simp: check_distribution_Inr list_all_iff image_image)
  then show ?thesis using that ns(2) by blast
qed

definition has_state :: "world \<Rightarrow> bool" where
  "has_state w = (case wd_cisternal w of Inl _ \<Rightarrow> False | Inr ci \<Rightarrow> ci_state ci \<noteq> None)"

lemma cisternal_block_facts:
  "\<exists>pinned run_ref wip_ref. map fst (cisternal_block ci st run_id pin) = [''git_sha'', ''git_branch'', ''git_dirty'', ''dirty_content_id'',
        ''provenance_source'', ''pinned_sha'', ''run_ref'', ''wip_ref'', ''snapshot_mode'', ''unpinned_reason'']
    \<and> map_of (cisternal_block ci st run_id pin) ''provenance_source'' = Some (JStr ''cisternal'')
    \<and> map_of (cisternal_block ci st run_id pin) ''pinned_sha'' = Some pinned
    \<and> map_of (cisternal_block ci st run_id pin) ''run_ref'' = Some run_ref
    \<and> map_of (cisternal_block ci st run_id pin) ''wip_ref'' = Some wip_ref
    \<and> (pin \<or> pinned = JNull \<and> run_ref = JNull \<and> wip_ref = JNull)"
proof (cases "pin \<and> run_id \<noteq> None \<and> run_id \<noteq> Some []")
  case True
  then obtain c cs where r: "pin" "run_id = Some (c # cs)" by (cases run_id) (auto simp: neq_Nil_conv)
  let ?sha = "py_or (case gs_hash st of None \<Rightarrow> JStr ''unknown'' | Some h \<Rightarrow> h) (JStr ''unknown'')"
  show ?thesis
    by (cases "ci_pin_run ci (c # cs) ?sha (py_or (attr (gs_branch st)) (JStr [])) (truthy (attr (gs_dirty st)))")
      (use r in \<open>auto simp: cisternal_block_def Let_def split: prod.splits\<close>)
next
  case False
  then have "\<not> pin \<or> run_id = None \<or> run_id = Some []" by blast
  then show ?thesis
    by (elim disjE; cases pin) (auto simp: cisternal_block_def Let_def split: option.splits list.splits)
qed

lemma identity_fields:
  assumes "capture_repo_identity w = Inr identity"
  shows "map fst identity = [''remote_url'', ''submodule_state'']"
  using assms by (auto simp: capture_repo_identity_def bind_res_eq_Inr)

lemma map_of_identity:
  assumes "capture_repo_identity w = Inr identity" "k \<notin> {''remote_url'', ''submodule_state''}"
  shows "map_of identity k = None"
proof -
  have "k \<notin> set (map fst identity)" unfolding identity_fields [OF assms(1)] using assms(2) by simp
  then show ?thesis by (simp add: map_of_eq_None_iff)
qed

definition no_commit :: "world \<Rightarrow> bool" where
  "no_commit w = (git_cmd w [''rev-parse'', ''HEAD''] \<in> {Inr None, Inr (Some [])} \<and> wd_git_sha_stamp w \<in> {None, Some [], Some ''unknown''})"

lemma builtin_block_cases:
  obtains (raised) e args where "builtin_block w pin = Inl e" "git_cmd w args = Inl e"
  | (block) sha branch dirty why where "builtin_block w pin = Inr
      [(''git_sha'', sha), (''git_branch'', branch), (''git_dirty'', dirty), (''dirty_content_id'', JNull),
       (''provenance_source'', JStr (if no_commit w then ''degraded'' else ''builtin'')), (''unpinned_reason'', why)]"
proof (cases "git_cmd w [''rev-parse'', ''HEAD'']")
  case (Inl e)
  then show thesis by (intro raised [of e]) (simp_all add: builtin_block_def)
next
  case (Inr sha)
  show thesis
  proof (cases "sha \<in> {None, Some []}")
    case True
    with Inr have "builtin_block w pin = (let stamped = (case wd_git_sha_stamp w of None \<Rightarrow> ''unknown'' | Some s \<Rightarrow> s)
         in Inr [(''git_sha'', py_or (JStr stamped) (JStr ''unknown'')), (''git_branch'', JNull), (''git_dirty'', JNull),
                 (''dirty_content_id'', JNull),
                 (''provenance_source'', JStr (if stamped \<noteq> [] \<and> stamped \<noteq> ''unknown'' then ''builtin'' else ''degraded'')),
                 (''unpinned_reason'', JStr ''HEAD could not be resolved by git rev-parse'')])"
      by (auto simp: builtin_block_def)
    moreover have "(let stamped = (case wd_git_sha_stamp w of None \<Rightarrow> ''unknown'' | Some s \<Rightarrow> s) in stamped \<noteq> [] \<and> stamped \<noteq> ''unknown'')
        \<longleftrightarrow> \<not> no_commit w"
      using True Inr by (auto simp: no_commit_def Let_def split: option.split)
    ultimately show thesis by (intro block) (simp add: Let_def split: if_splits)
  next
    case False
    then obtain c cs where c: "sha = Some (c # cs)" by (cases sha) (auto simp: neq_Nil_conv)
    then have commit: "\<not> no_commit w" using Inr by (simp add: no_commit_def)
    show thesis
    proof (cases "git_cmd w [''status'', ''--porcelain'']")
      case (Inl e)
      with Inr c show thesis by (intro raised [of e]) (simp_all add: builtin_block_def)
    next
      case porcelain: (Inr p)
      show thesis
      proof (cases "git_cmd w [''rev-parse'', ''--abbrev-ref'', ''HEAD'']")
        case (Inl e)
        with Inr c porcelain show thesis by (intro raised [of e]) (simp_all add: builtin_block_def)
      next
        case (Inr branch)
        with \<open>git_cmd w [''rev-parse'', ''HEAD''] = Inr sha\<close> c porcelain commit show thesis
          by (intro block) (simp add: builtin_block_def)
      qed
    qed
  qed
qed

lemma capture_git_block_facts:
  assumes "capture_git_block w run_id pin = Inr git"
  shows "map_of git ''distributions'' = None
    \<and> map_of git ''provenance_source''
      = Some (JStr (if has_state w then ''cisternal'' else if no_commit w then ''degraded'' else ''builtin''))
    \<and> (\<not> pin \<longrightarrow> (\<forall>k \<in> {''pinned_sha'', ''run_ref'', ''wip_ref''}. map_of git k \<in> {None, Some JNull}))"
proof -
  obtain identity got where g: "capture_repo_identity w = Inr identity" "try_cisternal w run_id pin = Inr got"
      "(case got of Some block \<Rightarrow> Inr (block @ identity) | None \<Rightarrow> bind_res (builtin_block w pin) (\<lambda>block. Inr (block @ identity))) = Inr git"
    using assms by (auto simp: capture_git_block_def bind_res_eq_Inr)
  note none = map_of_identity [OF g(1)]
  show ?thesis
  proof (cases got)
    case None
    then have "\<not> has_state w" using g(2) by (auto simp: try_cisternal_def has_state_def split: sum.splits option.splits if_splits)
    moreover obtain block where block: "builtin_block w pin = Inr block" "git = block @ identity"
      using g(3) None by (auto simp: bind_res_eq_Inr)
    moreover obtain sha branch dirty why where "block =
      [(''git_sha'', sha), (''git_branch'', branch), (''git_dirty'', dirty), (''dirty_content_id'', JNull),
       (''provenance_source'', JStr (if no_commit w then ''degraded'' else ''builtin'')), (''unpinned_reason'', why)]"
      using block(1) builtin_block_cases [of w pin] by (metis sum.distinct(1) sum.inject(2))
    ultimately show ?thesis using none by simp
  next
    case (Some block)
    then obtain ci st where ci: "wd_cisternal w = Inr ci" "ci_state ci = Some st" "block = cisternal_block ci st run_id pin" "git = block @ identity"
      using g(2,3) by (auto simp: try_cisternal_def split: sum.splits option.splits if_splits)
    have state: "has_state w" using ci(1,2) by (simp add: has_state_def)
    obtain pinned run_ref wip_ref where b: "map fst block = [''git_sha'', ''git_branch'', ''git_dirty'', ''dirty_content_id'',
          ''provenance_source'', ''pinned_sha'', ''run_ref'', ''wip_ref'', ''snapshot_mode'', ''unpinned_reason'']"
        "map_of block ''provenance_source'' = Some (JStr ''cisternal'')" "map_of block ''pinned_sha'' = Some pinned"
        "map_of block ''run_ref'' = Some run_ref" "map_of block ''wip_ref'' = Some wip_ref"
        "pin \<or> pinned = JNull \<and> run_ref = JNull \<and> wip_ref = JNull"
      using cisternal_block_facts [of ci st run_id pin, folded ci(3)] by (elim exE conjE) (rule that)
    have "''distributions'' \<notin> set (map fst block)" unfolding b(1) by simp
    then have "map_of block ''distributions'' = None" by (simp only: map_of_eq_None_iff set_map not_False_eq_True)
    with b none [of "''distributions''"] none [of "''provenance_source''"] none [of "''pinned_sha''"] none [of "''run_ref''"] none [of "''wip_ref''"] state
    show ?thesis unfolding ci(4) by (auto simp: map_add_def)
  qed
qed

lemma kw_get_append: "kw_get (xs @ ys) k d = (case map_of xs k of Some v \<Rightarrow> v | None \<Rightarrow> kw_get ys k d)"
  by (simp add: kw_get_def map_add_def split: option.splits)

text \<open>What escapes the handlers of the capture.\<close>

definition escapes :: "world \<Rightarrow> exn \<Rightarrow> bool" where
  "escapes w e \<longleftrightarrow> wd_cwd w = Inl e
     \<or> (\<exists>args. wd_git w args = Inl e \<and> \<not> git_failure e)
     \<or> (wd_cisternal w = Inl e \<and> \<not> absent e)"

lemma git_cmd_raises: "git_cmd w args = Inl e \<Longrightarrow> escapes w e"
  by (auto simp: git_cmd_def escapes_def split: sum.splits if_splits)

lemma capture_git_block_raises:
  assumes "capture_git_block w run_id pin = Inl e"
  shows "escapes w e"
proof -
  have "builtin_block w pin = Inl e \<Longrightarrow> escapes w e"
    by (cases rule: builtin_block_cases [of w pin]) (auto dest: git_cmd_raises)
  moreover have "capture_repo_identity w = Inl e \<Longrightarrow> escapes w e"
    by (auto simp: capture_repo_identity_def bind_res_eq_Inl dest: git_cmd_raises)
  moreover have "try_cisternal w run_id pin = Inl e \<Longrightarrow> escapes w e"
    by (auto simp: try_cisternal_def escapes_def split: sum.splits option.splits if_splits)
  ultimately show ?thesis
    using assms by (auto simp: capture_git_block_def bind_res_eq_Inl split: option.splits)
qed

text \<open>
  C24. Capturing provenance for named distributions raises nothing of its own: only an error of the working directory, an
  error of a \<open>git\<close> call that is neither an \<open>OSError\<close> nor one of \<open>subprocess\<close>, or an error other than a missing
  module or name while \<open>cisternal\<close> loads gets out of it. Otherwise it says honestly how it was obtained:
  \<open>cisternal\<close> exactly when that package gave a state, and else \<open>degraded\<close> exactly when neither git
  nor a stamp file knew the commit. Without pinning, nothing was pinned.
\<close>

theorem capture_degrades_honestly:
  assumes "resolves w" "list_all is_str names"
  shows "case RunProvenance_capture w run_id pin (Names names) of
      Inl e \<Rightarrow> escapes w e
    | Inr p \<Rightarrow> pv_provenance_source p = JStr (if has_state w then ''cisternal'' else if no_commit w then ''degraded'' else ''builtin'')
        \<and> (\<not> pin \<longrightarrow> pv_pinned_sha p = JNull \<and> pv_run_ref p = JNull \<and> pv_wip_ref p = JNull)"
proof (cases "wd_cwd w")
  case (Inl e)
  then show ?thesis by (simp add: RunProvenance_capture_def escapes_def)
next
  case cwd: (Inr u)
  show ?thesis
  proof (cases "capture_git_block w run_id pin")
    case (Inl e)
    with cwd capture_git_block_raises [OF Inl] show ?thesis by (simp add: RunProvenance_capture_def)
  next
    case (Inr git)
    note facts = capture_git_block_facts [OF Inr]
    obtain ds where ds: "capture_distributions w (Names names) = Inr ds"
      using assms(2) by (auto simp: capture_distributions_def ledger_distributions_def)
    obtain entries where entries: "ds = JObj entries" "\<forall>x\<in>set entries. check_distribution x = Inr ()"
      by (rule capture_distributions_ok [OF assms(1) ds])
    let ?kw = "git @ capture_env w @ [(''distributions'', ds)]"
    have no_env: "map_of (capture_env w) k = None" if "k \<in> {''distributions'', ''pinned_sha'', ''run_ref'', ''wip_ref''}" for k
      using that by (auto simp: capture_env_def)
    have "pv_distributions (prov_of ?kw) = JObj entries"
      using facts no_env [of "''distributions''"] entries(1)
      by (simp add: prov_of_def kw_get_append) (simp add: kw_get_def)
    moreover have "\<exists>u. traverse_res check_distribution entries = Inr u"
      unfolding traverse_res_unit using entries(2) by blast
    ultimately have "RunProvenance_capture w run_id pin (Names names) = Inr (prov_of ?kw)"
      using ds cwd Inr by (auto simp: RunProvenance_capture_def RunProvenance_init_def)
    moreover have "pv_provenance_source (prov_of ?kw) = JStr (if has_state w then ''cisternal'' else if no_commit w then ''degraded'' else ''builtin'')"
      using facts by (simp add: prov_of_def kw_get_append)
    moreover have "pv_pinned_sha (prov_of ?kw) = JNull \<and> pv_run_ref (prov_of ?kw) = JNull \<and> pv_wip_ref (prov_of ?kw) = JNull" if "\<not> pin"
    proof -
      have "kw_get ?kw k JNull = JNull" if k: "k \<in> {''pinned_sha'', ''run_ref'', ''wip_ref''}" for k
        using facts \<open>\<not> pin\<close> no_env [of k] k by (auto simp: kw_get_def map_add_def)
      then show ?thesis by (simp add: prov_of_def prov_default_def)
    qed
    ultimately show ?thesis by auto
  qed
qed

definition bare_world :: world where
  "bare_world = \<lparr>wd_cwd = Inr (),
     wd_git = (\<lambda>args. if args = [''rev-parse'', ''HEAD''] then Inr ''abc'' else Inl (Exn (OtherError ''SubprocessError'') ''exit status 128'' [])),
     wd_sha256 = (\<lambda>s. s), wd_git_sha_stamp = None, wd_cisternal = Inl (Exn (OtherError ''ImportError'') ''No module named'' []),
     wd_jax_version = None, wd_jaxlib_version = None, wd_x64_enabled = None, wd_xla_flags = None, wd_device_kind = None,
     wd_hostname = None, wd_python_version = ''3.12.1'', wd_platform = ''Linux'',
     wd_resolve = (\<lambda>_. None)\<rparr>"

lemma bare_world_honest: "\<not> has_state bare_world" "\<not> no_commit bare_world" "resolves bare_world"
  by (simp_all add: bare_world_def has_state_def no_commit_def git_cmd_def strip_def py_space_def resolves_def)

theorem capture_degrades_honestly_witness:
  "\<exists>p. RunProvenance_capture bare_world (Some ''r1'') True (Names [JStr ''Foo_Bar'', JStr ''foo-bar'']) = Inr p
    \<and> pv_provenance_source p = JStr ''builtin''"
proof -
  have "is_ok (RunProvenance_capture bare_world (Some ''r1'') True (Names [JStr ''Foo_Bar'', JStr ''foo-bar'']))" by code_simp
  then obtain p where p: "RunProvenance_capture bare_world (Some ''r1'') True (Names [JStr ''Foo_Bar'', JStr ''foo-bar'']) = Inr p"
    by (auto simp: is_ok_iff)
  with capture_degrades_honestly [OF bare_world_honest(3), of "[JStr ''Foo_Bar'', JStr ''foo-bar'']", where run_id = "Some ''r1''" and pin = True]
  show ?thesis by (simp add: bare_world_honest)
qed

text \<open>
  The capture can take down the run it observes: output of \<open>git\<close> that is not UTF-8, a working directory that was removed,
  and a \<open>cisternal\<close> that raises while it loads all get out.
\<close>

theorem capture_can_raise:
  "RunProvenance_capture (bare_world\<lparr>wd_git := (\<lambda>_. Inl (Exn ValueError ''invalid start byte'' []))\<rparr>) run_id pin names
      = Inl (Exn ValueError ''invalid start byte'' [])
    \<and> RunProvenance_capture (bare_world\<lparr>wd_cwd := Inl (Exn FileNotFoundError ''getcwd'' [])\<rparr>) run_id pin names
      = Inl (Exn FileNotFoundError ''getcwd'' [])
    \<and> RunProvenance_capture (bare_world\<lparr>wd_cisternal := Inl (Exn RuntimeError ''incompatible'' [])\<rparr>) run_id pin names
      = Inl (Exn RuntimeError ''incompatible'' [])"
  by (simp add: RunProvenance_capture_def capture_git_block_def capture_repo_identity_def try_cisternal_def git_cmd_def
      bare_world_def git_failure_def absent_def)

end
