(* ===== verification/Telemetry_Ledger.thy ===== *)
theory Telemetry_Ledger
  imports Telemetry_Provenance "HOL-Library.Product_Lexorder"
begin

text \<open>
  The run ledger: \<open>telemetry/ledger.py\<close> and \<open>telemetry/claims.py\<close>.

  The ledger directory is a record of its sub-directories. A file is the list of its lines,
  \<open>Unreadable\<close> when reading it raises \<open>OSError\<close>, or \<open>NotUtf8\<close>; a line is blank, not valid JSON, or a decoded JSON
  value. A file whose last line has no line break is \<open>Torn\<close>. The size
  of a file and the outcome of a write are arguments of the operations that depend on them.

  A \<open>RunLedger\<close> is a state machine: \<open>open\<close> starts it, \<open>record_ir\<close> and \<open>set_status\<close> change what
  will be written, and \<open>close\<close> writes the one row of the run.
\<close>

section \<open>Files\<close>

datatype line = Blank | NotJson | Json json

datatype ledger_file = Unreadable | NotUtf8 | Lines "line list" | Torn "line list" line

text \<open>\<open>read_text(encoding="utf-8").splitlines()\<close>.\<close>

definition file_text :: "string \<Rightarrow> ledger_file \<Rightarrow> line list res" where
  "file_text path f = (case f of
     Unreadable \<Rightarrow> Inl (Exn OSError ''could not read ledger segment'' [ArgStr path])
   | NotUtf8 \<Rightarrow> Inl (Exn ValueError ''invalid start byte'' [])
   | Lines ls \<Rightarrow> Inr ls
   | Torn ls l \<Rightarrow> Inr (ls @ [l]))"

record ledger_fs =
  fs_segments :: "ledger_file directory"
  fs_sealed :: "ledger_file directory"
  fs_archive :: "ledger_file directory"

definition to_json_line :: "run_ledger_record \<Rightarrow> line" where
  "to_json_line r = Json (sort_keys (to_dict r))"

definition MAX_SEGMENT_BYTES :: int where
  "MAX_SEGMENT_BYTES = 8 * 1024 * 1024"

text \<open>The segments with a number for a name, as \<open>(int(path.stem), path)\<close>.\<close>

definition numbered :: "ledger_file directory \<Rightarrow> (int \<times> string) list" where
  "numbered d = List.map_filter
     (\<lambda>name. if jsonl name then map_option (\<lambda>i. (i, name)) (py_int (stem name)) else None) (map fst d)"

definition active_segment :: "(string \<Rightarrow> int) \<Rightarrow> ledger_fs \<Rightarrow> string" where
  "active_segment st_size fs =
     (if numbered (fs_segments fs) = [] then ''00001.jsonl''
      else
        let (index, newest) = Max (set (numbered (fs_segments fs))) in
        if st_size newest < MAX_SEGMENT_BYTES then newest
        else fmt05 (index + 1) @ ''.jsonl'')"

text \<open>
  What a failed write leaves: the file may not have been opened; it may hold nothing of the row, some of its text, all of it
  without the line break, or, when only the flush to disk failed, the whole line. A text after an unterminated line
  continues that line, and a row that continues another text is not JSON.
\<close>

datatype torn = NotOpened | WroteNothing | WroteFragment | WroteRow | WroteLine

datatype write_io = WriteOk | WriteFails torn exn

definition join_line :: "line \<Rightarrow> line \<Rightarrow> line" where
  "join_line start l = (if start = Blank then l else NotJson)"

fun append_text :: "torn \<Rightarrow> line \<Rightarrow> ledger_file \<Rightarrow> ledger_file" where
  "append_text WroteFragment l (Lines ls) = Torn ls NotJson"
| "append_text WroteFragment l (Torn ls start) = Torn ls NotJson"
| "append_text WroteRow l (Lines ls) = Torn ls l"
| "append_text WroteRow l (Torn ls start) = Torn ls (join_line start l)"
| "append_text WroteLine l (Lines ls) = Lines (ls @ [l])"
| "append_text WroteLine l (Torn ls start) = Lines (ls @ [join_line start l])"
| "append_text amount l f = f"

text \<open>Appending under the lock.\<close>

definition append_line :: "write_io \<Rightarrow> ledger_fs \<Rightarrow> string \<Rightarrow> line \<Rightarrow> ledger_fs \<times> unit res" where
  "append_line io fs name l =
     (let f = (case map_of (fs_segments fs) name of None \<Rightarrow> Lines [] | Some f \<Rightarrow> f);
          wrote = (\<lambda>amount. fs\<lparr>fs_segments := AList.update name (append_text amount l f) (fs_segments fs)\<rparr>)
      in if f = Unreadable then (fs, Inl (Exn OSError ''permission denied'' [ArgStr name]))
         else case io of
           WriteOk \<Rightarrow> (wrote WroteLine, Inr ())
         | WriteFails amount e \<Rightarrow> (if amount = NotOpened then fs else wrote amount, Inl e))"

section \<open>The ledger of one run\<close>

record run_ledger =
  lg_run_id :: string
  lg_kind :: string
  lg_derived_from :: "string option"
  lg_provenance :: run_provenance
  lg_context :: "(string \<times> string) list"
  lg_status :: string
  lg_status_reason :: "string option"
  lg_ir :: "ir_ref list"
  lg_closed :: bool

text \<open>\<open>RunLedger.open\<close>: \<open>probe\<close> is the error of the write probe, \<open>optout\<close> and \<open>env\<close> the two environment
  variables it reads.\<close>

definition assert_writable :: "exn option \<Rightarrow> unit res" where
  "assert_writable probe = (case probe of None \<Rightarrow> Inr ()
     | Some e \<Rightarrow> if class_of e = OSError
         then Inl (Exn LedgerUnavailableError ''the xtrax run ledger is not writable'' [ArgCause e]) else Inl e)"

definition RunLedger_open ::
  "exn option \<Rightarrow> string option \<Rightarrow> string option \<Rightarrow> world \<Rightarrow> names_arg \<Rightarrow> string \<Rightarrow> string \<Rightarrow> string option
     \<Rightarrow> (string \<times> string) list \<Rightarrow> run_ledger res"
where
  "RunLedger_open probe optout env w distributions run_id kind derived_from ctx =
     bind_res (assert_writable probe) (\<lambda>_.
       let opted_out = telemetry_opted_out optout in
       bind_res (ledger_distributions distributions env) (\<lambda>names.
       bind_res (RunProvenance_capture w (Some run_id) (\<not> opted_out) (Names (map JStr names))) (\<lambda>provenance. Inr
         \<lparr>lg_run_id = run_id, lg_kind = kind, lg_derived_from = derived_from,
          lg_provenance = provenance, lg_context = ctx,
          lg_status = (if opted_out then ''opted_out'' else ''complete''),
          lg_status_reason = (if opted_out then Some ''XTRAX_TELEMETRY_OPTOUT was set for this run'' else None),
          lg_ir = [], lg_closed = False\<rparr>)))"

definition lg_opted_out :: "run_ledger \<Rightarrow> bool" where
  "lg_opted_out lg = (lg_status lg = ''opted_out'')"

definition record_ir :: "ir_ref list \<Rightarrow> run_ledger \<Rightarrow> run_ledger" where
  "record_ir refs lg = lg\<lparr>lg_ir := lg_ir lg @ refs\<rparr>"

definition set_status :: "string \<Rightarrow> string option \<Rightarrow> run_ledger \<Rightarrow> run_ledger" where
  "set_status status reason lg =
     (if lg_status lg = ''opted_out'' \<and> status \<noteq> ''failed'' then lg
      else lg\<lparr>lg_status := status, lg_status_reason := reason\<rparr>)"

definition build_record :: "string \<Rightarrow> run_ledger \<Rightarrow> run_ledger_record res" where
  "build_record ts lg =
     RunLedgerRecord_init (JStr (lg_run_id lg)) (JStr (lg_kind lg)) (of_str (lg_derived_from lg))
       (JStr (lg_status lg)) (of_str (lg_status_reason lg))
       (map (\<lambda>kv. (JStr (fst kv), JStr (snd kv))) (lg_context lg)) (lg_ir lg)
       (JInt SCHEMA_VERSION) (JStr ts) (lg_provenance lg)"

text \<open>The surroundings of a write: the clock, the sizes of the segments, and whether it succeeds.\<close>

record write_env =
  we_ts :: string
  we_size :: "string \<Rightarrow> int"
  we_io :: write_io

definition close :: "write_env \<Rightarrow> run_ledger \<Rightarrow> ledger_fs \<Rightarrow> (run_ledger \<times> ledger_fs) \<times> run_ledger_record res" where
  "close we lg fs =
     (if lg_closed lg then ((lg, fs), ledger_error ''ledger is already closed'' [ArgStr (lg_run_id lg)])
      else case build_record (we_ts we) lg of
        Inl e \<Rightarrow> ((lg, fs), Inl e)
      | Inr r \<Rightarrow>
          (case append_line (we_io we) fs (active_segment (we_size we) fs) (to_json_line r) of
             (fs', Inl e) \<Rightarrow> ((lg, fs'), Inl e)
           | (fs', Inr _) \<Rightarrow> ((lg\<lparr>lg_closed := True\<rparr>, fs'), Inr r)))"

definition is_OSError :: "exn \<Rightarrow> bool" where
  "is_OSError e = (class_of e \<in> {OSError, FileNotFoundError, FileExistsError, BlobStoreError, BlobCorrupt})"

text \<open>
  What \<open>close_if_open\<close> leaves: the state, whether a warning was given instead of an error, and
  the exception it raises, if any.
\<close>

record close_outcome =
  co_ledger :: run_ledger
  co_fs :: ledger_fs
  co_warned :: bool
  co_raised :: "exn option"

definition close_if_open :: "write_env \<Rightarrow> exn option \<Rightarrow> run_ledger \<Rightarrow> ledger_fs \<Rightarrow> close_outcome" where
  "close_if_open we in_flight lg fs =
     (if lg_closed lg then \<lparr>co_ledger = lg, co_fs = fs, co_warned = False, co_raised = None\<rparr>
      else case close we lg fs of
        ((lg', fs'), Inr _) \<Rightarrow> \<lparr>co_ledger = lg', co_fs = fs', co_warned = False, co_raised = None\<rparr>
      | ((lg', fs'), Inl e) \<Rightarrow>
          if \<not> is_OSError e then \<lparr>co_ledger = lg', co_fs = fs', co_warned = False, co_raised = Some e\<rparr>
          else if in_flight = None then
            \<lparr>co_ledger = lg', co_fs = fs', co_warned = False,
             co_raised = Some (Exn LedgerUnavailableError ''could not write the ledger row'' [ArgStr (lg_run_id lg), ArgCause e])\<rparr>
          else \<lparr>co_ledger = lg', co_fs = fs', co_warned = True, co_raised = None\<rparr>)"

text \<open>\<open>__exit__\<close>; the reason is the text of the exception of the run.\<close>

definition ledger_exit :: "write_env \<Rightarrow> (string \<times> exn) option \<Rightarrow> run_ledger \<Rightarrow> ledger_fs \<Rightarrow> close_outcome" where
  "ledger_exit we exc lg fs = (case exc of
     None \<Rightarrow> close_if_open we None lg fs
   | Some (what, e) \<Rightarrow> close_if_open we (Some e) (set_status ''failed'' (Some (''run raised '' @ what)) lg) fs)"

section \<open>Reading\<close>

datatype read_warning = SegmentUnreadable string | RowSkipped string nat

definition read_line :: "line \<Rightarrow> run_ledger_record res" where
  "read_line l = (case l of
     Json j \<Rightarrow> read_row_upgrading j
   | _ \<Rightarrow> ledger_error ''ledger row is not valid JSON'' [])"

fun iter_lines :: "bool \<Rightarrow> string \<Rightarrow> nat \<Rightarrow> line list \<Rightarrow> (run_ledger_record list \<times> read_warning list) res" where
  "iter_lines strict path lineno [] = Inr ([], [])"
| "iter_lines strict path lineno (l # ls) =
     (if l = Blank then iter_lines strict path (Suc lineno) ls
      else case read_line l of
        Inr r \<Rightarrow> bind_res (iter_lines strict path (Suc lineno) ls) (\<lambda>(rs, ws). Inr (r # rs, ws))
      | Inl e \<Rightarrow>
          if class_of e \<in> {LedgerRecordError, SchemaVersionMismatchError} \<and> \<not> strict then
            bind_res (iter_lines strict path (Suc lineno) ls) (\<lambda>(rs, ws). Inr (rs, RowSkipped path lineno # ws))
          else Inl e)"

definition iter_file :: "bool \<Rightarrow> string \<times> ledger_file \<Rightarrow> (run_ledger_record list \<times> read_warning list) res" where
  "iter_file strict = (\<lambda>(path, f). case file_text path f of
     Inl e \<Rightarrow> if class_of e = OSError \<and> \<not> strict then Inr ([], [SegmentUnreadable path]) else Inl e
   | Inr ls \<Rightarrow> iter_lines strict path 1 ls)"

definition ledger_sources :: "bool \<Rightarrow> ledger_fs \<Rightarrow> (string \<times> ledger_file) list" where
  "ledger_sources include_sealed fs =
     (if include_sealed then jsonl_files (fs_sealed fs) else []) @ jsonl_files (fs_segments fs)"

definition iter_rows :: "bool \<Rightarrow> bool \<Rightarrow> ledger_fs \<Rightarrow> (run_ledger_record list \<times> read_warning list) res" where
  "iter_rows include_sealed strict fs =
     bind_res (traverse_res (iter_file strict) (ledger_sources include_sealed fs)) (\<lambda>rws.
       Inr (concat (map fst rws), concat (map snd rws)))"

definition find_run :: "string \<Rightarrow> ledger_fs \<Rightarrow> run_ledger_record option res" where
  "find_run run_id fs =
     bind_res (iter_rows True False fs) (\<lambda>(rows, _).
       Inr (fold (\<lambda>r found. if rl_run_id r = run_id then Some r else found) rows None))"

section \<open>Claims\<close>

definition run_is_citable :: "string \<Rightarrow> ledger_fs \<Rightarrow> bool res" where
  "run_is_citable run_id fs =
     bind_res (find_run run_id fs) (\<lambda>found. Inr (case found of None \<Rightarrow> False | Some r \<Rightarrow> is_citable r))"

definition assert_run_citable :: "string \<Rightarrow> ledger_fs \<Rightarrow> run_ledger_record res" where
  "assert_run_citable run_id fs =
     bind_res (find_run run_id fs) (\<lambda>found. case found of
       None \<Rightarrow> Inl (Exn UnrecordedRunError ''run_id has no ledger row'' [ArgStr run_id])
     | Some r \<Rightarrow>
         if \<not> is_citable r then
           Inl (Exn UnrecordedRunError ''run_id is recorded but not citable'' [ArgStr run_id, ArgStr (rl_telemetry_status r)])
         else Inr r)"

fun filter_citable_from ::
  "string list \<Rightarrow> (string \<times> exn) list \<Rightarrow> ledger_fs \<Rightarrow> string list \<Rightarrow> (string list \<times> (string \<times> exn) list) res"
where
  "filter_citable_from citable rejected fs [] = Inr (citable, rejected)"
| "filter_citable_from citable rejected fs (rid # rids) =
     (case assert_run_citable rid fs of
        Inr _ \<Rightarrow> filter_citable_from (citable @ [rid]) rejected fs rids
      | Inl e \<Rightarrow>
          if class_of e = UnrecordedRunError
          then filter_citable_from citable (AList.update rid e rejected) fs rids
          else Inl e)"

definition filter_citable :: "string list \<Rightarrow> ledger_fs \<Rightarrow> (string list \<times> (string \<times> exn) list) res" where
  "filter_citable run_ids fs = filter_citable_from [] [] fs run_ids"

section \<open>A run is recorded once\<close>

text \<open>What a caller may do with an open ledger.\<close>

datatype ledger_op =
    RecordIr "ir_ref list"
  | SetStatus string "string option"
  | Close write_env
  | CloseIfOpen write_env "exn option"
  | Exit write_env "(string \<times> exn) option"

fun ledger_do :: "ledger_op \<Rightarrow> run_ledger \<times> ledger_fs \<Rightarrow> run_ledger \<times> ledger_fs" where
  "ledger_do (RecordIr refs) (lg, fs) = (record_ir refs lg, fs)"
| "ledger_do (SetStatus s why) (lg, fs) = (set_status s why lg, fs)"
| "ledger_do (Close we) (lg, fs) = fst (close we lg fs)"
| "ledger_do (CloseIfOpen we exc) (lg, fs) = (let co = close_if_open we exc lg fs in (co_ledger co, co_fs co))"
| "ledger_do (Exit we exc) (lg, fs) = (let co = ledger_exit we exc lg fs in (co_ledger co, co_fs co))"

text \<open>The states a ledger reaches from its opening by the operations of a set.\<close>

inductive ledger_reach :: "ledger_op set \<Rightarrow> run_ledger \<times> ledger_fs \<Rightarrow> run_ledger \<times> ledger_fs \<Rightarrow> bool"
  for ops start where
  opened: "ledger_reach ops start start"
| step: "ledger_reach ops start s \<Longrightarrow> op \<in> ops \<Longrightarrow> ledger_reach ops start (ledger_do op s)"

text \<open>A row of the run, and the writes of such rows that failed.\<close>

definition own_row :: "run_ledger \<Rightarrow> run_ledger_record \<Rightarrow> bool" where
  "own_row lg r = (rl_run_id r = lg_run_id lg \<and> rl_kind r = lg_kind lg)"

inductive failed_writes :: "write_io set \<Rightarrow> run_ledger \<Rightarrow> ledger_fs \<Rightarrow> ledger_fs \<Rightarrow> bool" for ios lg fs0 where
  none_failed: "failed_writes ios lg fs0 fs0"
| failed: "failed_writes ios lg fs0 fs \<Longrightarrow> own_row lg r \<Longrightarrow> io \<in> ios
    \<Longrightarrow> append_line io fs (active_segment st_size fs) (to_json_line r) = (fs', Inl e) \<Longrightarrow> failed_writes ios lg fs0 fs'"

definition row_written :: "run_ledger \<Rightarrow> ledger_fs \<Rightarrow> ledger_fs \<Rightarrow> bool" where
  "row_written lg fs fs' = (\<exists>r st_size. own_row lg r \<and> append_line WriteOk fs (active_segment st_size fs) (to_json_line r) = (fs', Inr ()))"

lemma build_record_Inr:
  assumes "build_record ts lg = Inr r"
  shows "rl_run_id r = lg_run_id lg" "rl_kind r = lg_kind lg" "rl_telemetry_status r = lg_status lg"
    "rl_ir r = lg_ir lg" "rl_schema_version r = JInt 2" "rl_status_reason r = of_str (lg_status_reason lg)"
  using assms by (auto simp: build_record_def RunLedgerRecord_init_Inr SCHEMA_VERSION_def)

lemma append_line_Inr: "append_line io fs name l = (fs', Inr u) \<Longrightarrow> io = WriteOk"
  by (auto simp: append_line_def Let_def split: write_io.splits if_splits)

text \<open>The ways a \<open>close\<close> ends.\<close>

lemma close_cases:
  obtains (refused) e where "close we lg fs = ((lg, fs), Inl e)"
  | (failed) r fs' e where "close we lg fs = ((lg, fs'), Inl e)" "\<not> lg_closed lg" "build_record (we_ts we) lg = Inr r"
      "append_line (we_io we) fs (active_segment (we_size we) fs) (to_json_line r) = (fs', Inl e)"
  | (written) r fs' where "close we lg fs = ((lg\<lparr>lg_closed := True\<rparr>, fs'), Inr r)" "\<not> lg_closed lg" "build_record (we_ts we) lg = Inr r"
      "append_line WriteOk fs (active_segment (we_size we) fs) (to_json_line r) = (fs', Inr ())"
proof (cases "lg_closed lg")
  case True
  then show thesis by (intro refused) (simp add: close_def)
next
  case False
  show thesis
  proof (cases "build_record (we_ts we) lg")
    case (Inl e)
    with False show thesis by (intro refused) (simp add: close_def)
  next
    case (Inr r)
    obtain fs' out where out: "append_line (we_io we) fs (active_segment (we_size we) fs) (to_json_line r) = (fs', out)" by fastforce
    show thesis
    proof (cases out)
      case (Inl e)
      with False Inr out show thesis by (intro failed) (simp_all add: close_def)
    next
      case (Inr u)
      have "we_io we = WriteOk" using out unfolding Inr by (rule append_line_Inr)
      with False \<open>build_record (we_ts we) lg = Inr r\<close> out Inr show thesis
        by (intro written) (simp_all add: close_def)
    qed
  qed
qed

lemma close_if_open_state:
  "(co_ledger (close_if_open we exc lg fs), co_fs (close_if_open we exc lg fs)) = fst (close we lg fs)"
proof (cases "lg_closed lg")
  case True
  then show ?thesis by (simp add: close_if_open_def close_def)
next
  case False
  then show ?thesis by (cases rule: close_cases [of we lg fs]) (simp_all add: close_if_open_def)
qed

lemma set_status_keeps [simp]:
  "lg_run_id (set_status s why lg) = lg_run_id lg" "lg_kind (set_status s why lg) = lg_kind lg"
  "lg_closed (set_status s why lg) = lg_closed lg"
  by (simp_all add: set_status_def)

text \<open>The writes that the caller's operations try.\<close>

fun op_io :: "ledger_op \<Rightarrow> write_io option" where
  "op_io (Close we) = Some (we_io we)"
| "op_io (CloseIfOpen we exc) = Some (we_io we)"
| "op_io (Exit we exc) = Some (we_io we)"
| "op_io _ = None"

definition recorded_once :: "write_io set \<Rightarrow> run_ledger \<Rightarrow> ledger_fs \<Rightarrow> run_ledger \<times> ledger_fs \<Rightarrow> bool" where
  "recorded_once ios lg0 fs0 = (\<lambda>(lg, fs).
     lg_run_id lg = lg_run_id lg0 \<and> lg_kind lg = lg_kind lg0
     \<and> (\<exists>fs1. failed_writes ios lg0 fs0 fs1 \<and> (if lg_closed lg then row_written lg0 fs1 fs else fs = fs1)))"

lemma recorded_once_close:
  assumes "recorded_once ios lg0 fs0 (lg, fs)" "we_io we \<in> ios"
  shows "recorded_once ios lg0 fs0 (fst (close we lg fs))"
proof -
  have own: "own_row lg0 r" if "build_record (we_ts we) lg = Inr r" for r
    using assms(1) build_record_Inr(1,2) [OF that] by (simp add: own_row_def recorded_once_def)
  have open_state: "lg_run_id lg = lg_run_id lg0" "lg_kind lg = lg_kind lg0" "\<not> lg_closed lg \<Longrightarrow> failed_writes ios lg0 fs0 fs"
    using assms(1) by (auto simp: recorded_once_def)
  show ?thesis
  proof (cases rule: close_cases [of we lg fs])
    case (refused e)
    with assms show ?thesis by simp
  next
    case (failed r fs' e)
    have "failed_writes ios lg0 fs0 fs'"
      by (rule failed_writes.failed [OF open_state(3) [OF failed(2)] own [OF failed(3)] assms(2) failed(4)])
    with open_state(1,2) failed(2) show ?thesis unfolding failed(1) by (simp add: recorded_once_def)
  next
    case (written r fs')
    have "row_written lg0 fs fs'" unfolding row_written_def using own [OF written(3)] written(4) by blast
    with open_state(1,2) open_state(3) [OF written(2)] show ?thesis
      unfolding written(1) recorded_once_def by simp blast
  qed
qed

lemma recorded_once_set_status: "recorded_once ios lg0 fs0 (lg, fs) \<Longrightarrow> recorded_once ios lg0 fs0 (set_status s why lg, fs)"
  by (simp add: recorded_once_def)

lemma recorded_once_do:
  assumes "recorded_once ios lg0 fs0 s" "\<And>io. op_io op = Some io \<Longrightarrow> io \<in> ios"
  shows "recorded_once ios lg0 fs0 (ledger_do op s)"
proof (cases s)
  case (Pair lg fs)
  note inv = assms(1) [unfolded Pair]
  show ?thesis
  proof (cases op)
    case (RecordIr refs)
    then show ?thesis using inv by (simp add: Pair recorded_once_def record_ir_def)
  next
    case (SetStatus st why)
    then show ?thesis using inv by (simp add: Pair recorded_once_set_status)
  next
    case (Close we)
    then show ?thesis using recorded_once_close [OF inv] assms(2) by (simp add: Pair)
  next
    case (CloseIfOpen we exc)
    then show ?thesis using recorded_once_close [OF inv] assms(2) by (simp add: Pair Let_def close_if_open_state)
  next
    case (Exit we exc)
    then show ?thesis
      using recorded_once_close [OF inv] recorded_once_close [OF recorded_once_set_status [OF inv]] assms(2)
      by (simp add: Pair Let_def ledger_exit_def close_if_open_state split: option.splits)
  qed
qed

lemma reach_recorded_once:
  "ledger_reach ops (lg0, fs0) s \<Longrightarrow> \<not> lg_closed lg0 \<Longrightarrow> recorded_once {io. \<exists>op\<in>ops. op_io op = Some io} lg0 fs0 s"
proof (induction rule: ledger_reach.induct)
  case opened
  then show ?case by (auto simp: recorded_once_def intro: none_failed)
next
  case (step s op)
  then show ?case by (intro recorded_once_do) auto
qed

text \<open>Writes that fail before the file is opened leave nothing.\<close>

lemma failed_writes_clean:
  assumes "failed_writes ios lg fs0 fs" "\<And>amount e. WriteFails amount e \<in> ios \<Longrightarrow> amount = NotOpened"
  shows "fs = fs0"
  using assms(1)
proof (induction rule: failed_writes.induct)
  case (failed fs r io st_size fs' e)
  then show ?case using assms(2)
    by (cases io) (auto simp: append_line_def Let_def split: if_splits)
qed simp

section \<open>The last row is the most recent one\<close>

lemma update_same: "map_of d k = Some v \<Longrightarrow> AList.update k v d = d"
  by (induction d) (auto split: if_splits)

lemma iter_lines_snoc:
  assumes "l \<noteq> Blank" "read_line l = Inr r"
  shows "iter_lines strict path n (ls @ [l]) = bind_res (iter_lines strict path n ls) (\<lambda>(rs, ws). Inr (rs @ [r], ws))"
proof (induction ls arbitrary: n)
  case (Cons a ls)
  then show ?case
    by (cases "iter_lines strict path (Suc n) ls"; cases "read_line a") auto
qed (simp add: assms)

text \<open>The segments of a ledger that only the code wrote to: numbered names, the number in range.\<close>

definition canonical_segments :: "ledger_fs \<Rightarrow> bool" where
  "canonical_segments fs =
     (distinct (map fst (fs_segments fs)) \<and> (\<forall>n\<in>set (map fst (fs_segments fs)). \<exists>k<99999. n = numbered_name k))"

lemma numbered_entry:
  "(if jsonl (numbered_name k) then map_option (\<lambda>i. (i, numbered_name k)) (py_int (stem (numbered_name k))) else None)
     = Some (int k, numbered_name k)"
  by simp

lemma set_numbered:
  assumes "canonical_segments fs"
  shows "set (numbered (fs_segments fs))
    = (\<lambda>k. (int k, numbered_name k)) ` {k. numbered_name k \<in> set (map fst (fs_segments fs))}"
proof (intro equalityI subsetI)
  fix x
  assume "x \<in> set (numbered (fs_segments fs))"
  then obtain n where n: "n \<in> set (map fst (fs_segments fs))"
      "(if jsonl n then map_option (\<lambda>i. (i, n)) (py_int (stem n)) else None) = Some x"
    unfolding numbered_def set_map_filter_iff by blast
  from n(1) obtain k where k: "n = numbered_name k" using assms unfolding canonical_segments_def by blast
  then have "x = (int k, numbered_name k)" using n(2) numbered_entry [of k] by (simp only: option.inject)
  then show "x \<in> (\<lambda>k. (int k, numbered_name k)) ` {k. numbered_name k \<in> set (map fst (fs_segments fs))}"
    using n(1) k by blast
next
  fix x
  assume "x \<in> (\<lambda>k. (int k, numbered_name k)) ` {k. numbered_name k \<in> set (map fst (fs_segments fs))}"
  then obtain k where "numbered_name k \<in> set (map fst (fs_segments fs))" "x = (int k, numbered_name k)" by blast
  then show "x \<in> set (numbered (fs_segments fs))"
    unfolding numbered_def set_map_filter_iff using numbered_entry [of k] by blast
qed

lemma canonical_name:
  "canonical_segments fs \<Longrightarrow> n \<in> set (map fst (fs_segments fs)) \<Longrightarrow> \<exists>k<99999. n = numbered_name k"
  unfolding canonical_segments_def by blast

lemma Max_numbered:
  assumes "canonical_segments fs" "numbered (fs_segments fs) \<noteq> []"
  shows "\<exists>k<99999. Max (set (numbered (fs_segments fs))) = (int k, numbered_name k)
    \<and> (\<forall>n\<in>set (map fst (fs_segments fs)). \<exists>j\<le>k. n = numbered_name j)"
proof -
  let ?S = "set (numbered (fs_segments fs))" and ?N = "set (map fst (fs_segments fs))"
  note in_S = set_numbered [OF assms(1), THEN equalityD1, THEN subsetD]
    set_numbered [OF assms(1), THEN equalityD2, THEN subsetD]
  have "Max ?S \<in> ?S" by (intro Max_in) (use assms(2) in simp_all)
  from in_S(1) [OF this] obtain k where k: "Max ?S = (int k, numbered_name k)" "numbered_name k \<in> ?N" by blast
  obtain k' where "k' < 99999" "numbered_name k = numbered_name k'" using canonical_name [OF assms(1) k(2)] by blast
  then have "k < 99999" by (simp only: numbered_name_inj)
  moreover have "\<exists>j\<le>k. n = numbered_name j" if n: "n \<in> ?N" for n
  proof -
    obtain j where j: "n = numbered_name j" using canonical_name [OF assms(1) n] by blast
    have "(int j, numbered_name j) \<in> ?S" by (rule in_S(2)) (use n j in blast)
    then have "(int j, numbered_name j) \<le> Max ?S" by (intro Max_ge) simp_all
    then have "j \<le> k" unfolding k(1) less_eq_prod_def by auto
    then show ?thesis using j by blast
  qed
  ultimately show ?thesis using k(1) by blast
qed

lemma numbered_name_le: "j \<le> k \<Longrightarrow> k < 100000 \<Longrightarrow> numbered_name j \<le> numbered_name k"
  using numbered_name_less [of j k] by (cases "j = k") (auto intro: less_imp_le)

lemma active_segment_canonical:
  assumes "canonical_segments fs"
  shows "\<exists>k<100000. active_segment st_size fs = numbered_name k
    \<and> (\<forall>n\<in>set (map fst (fs_segments fs)). n \<le> numbered_name k)"
proof (cases "numbered (fs_segments fs) = []")
  case True
  have "n \<notin> set (map fst (fs_segments fs))" for n
  proof
    assume n: "n \<in> set (map fst (fs_segments fs))"
    then obtain k where "n = numbered_name k" using canonical_name [OF assms] by blast
    then have "(int k, numbered_name k) \<in> set (numbered (fs_segments fs))"
      using n set_numbered [OF assms] by blast
    then show False unfolding True by simp
  qed
  moreover have "active_segment st_size fs = numbered_name 1"
    unfolding active_segment_def if_P [OF True] by code_simp
  ultimately show ?thesis by (intro exI [of _ 1] conjI ballI) (simp, assumption, blast)
next
  case False
  obtain k where k: "k < 99999" "Max (set (numbered (fs_segments fs))) = (int k, numbered_name k)"
      "\<forall>n\<in>set (map fst (fs_segments fs)). \<exists>j\<le>k. n = numbered_name j"
    using Max_numbered [OF assms False] by blast
  have "fmt05 (int k + 1) @ ''.jsonl'' = numbered_name (Suc k)" by (simp add: numbered_name_def add.commute)
  then have active: "active_segment st_size fs
      = (if st_size (numbered_name k) < MAX_SEGMENT_BYTES then numbered_name k else numbered_name (Suc k))"
    unfolding active_segment_def if_not_P [OF False] k(2) Let_def by simp
  have greatest: "\<forall>n\<in>set (map fst (fs_segments fs)). n \<le> numbered_name m" if "k \<le> m" "m < 100000" for m
  proof
    fix n
    assume "n \<in> set (map fst (fs_segments fs))"
    then obtain j where "j \<le> k" "n = numbered_name j" using k(3) by blast
    then show "n \<le> numbered_name m" using numbered_name_le [of j m] that by simp
  qed
  show ?thesis
  proof (cases "st_size (numbered_name k) < MAX_SEGMENT_BYTES")
    case True
    with active greatest [of k] k(1) show ?thesis by (intro exI [of _ k]) simp
  next
    case False
    with active greatest [of "Suc k"] k(1) show ?thesis by (intro exI [of _ "Suc k"]) simp
  qed
qed

lemma iter_rows_snoc:
  assumes "ledger_sources incl fs = pre @ old" "ledger_sources incl fs' = pre @ [(n, Lines (ls @ [l]))]"
    and "old = [(n, Lines ls)] \<or> old = [] \<and> ls = []"
    and "l \<noteq> Blank" "read_line l = Inr r" "iter_rows incl strict fs = Inr (rows, ws)"
  shows "iter_rows incl strict fs' = Inr (rows @ [r], ws)"
proof -
  obtain a b where a: "traverse_res (iter_file strict) pre = Inr a" "traverse_res (iter_file strict) old = Inr b"
      "rows = concat (map fst (a @ b))" "ws = concat (map snd (a @ b))"
    using assms(6) by (auto simp: iter_rows_def assms(1) traverse_res_append bind_res_eq_Inr)
  then obtain rs ws' where "iter_lines strict n 1 ls = Inr (rs, ws')" "concat (map fst b) = rs" "concat (map snd b) = ws'"
    using assms(3) by (auto simp: iter_file_def file_text_def bind_res_eq_Inr)
  then have "iter_file strict (n, Lines (ls @ [l])) = Inr (rs @ [r], ws')"
    using assms(4,5) by (simp add: iter_file_def file_text_def iter_lines_snoc)
  then show ?thesis
    using a \<open>concat (map fst b) = rs\<close> \<open>concat (map snd b) = ws'\<close>
    by (simp add: iter_rows_def assms(2) traverse_res_append)
qed

text \<open>Every segment ends with a line break and can be read.\<close>

definition whole_segments :: "ledger_fs \<Rightarrow> bool" where
  "whole_segments fs = (\<forall>f \<in> snd ` set (fs_segments fs). case f of Lines _ \<Rightarrow> True | _ \<Rightarrow> False)"

lemma whole_segment: "whole_segments fs \<Longrightarrow> map_of (fs_segments fs) n = Some f \<Longrightarrow> \<exists>ls. f = Lines ls"
  unfolding whole_segments_def by (drule map_of_SomeD) (cases f; force)

lemma append_line_whole:
  assumes "whole_segments fs"
  shows "append_line WriteOk fs n l = (fs\<lparr>fs_segments := AList.update n
    (Lines ((case map_of (fs_segments fs) n of Some (Lines ls) \<Rightarrow> ls | _ \<Rightarrow> []) @ [l])) (fs_segments fs)\<rparr>, Inr ())"
  by (cases "map_of (fs_segments fs) n") (auto simp: append_line_def Let_def dest!: whole_segment [OF assms])

lemma iter_rows_append:
  assumes canon: "canonical_segments fs" and whole: "whole_segments fs"
    and written: "append_line WriteOk fs (active_segment st_size fs) l = (fs', Inr u)"
    and line: "l \<noteq> Blank" "read_line l = Inr r" and rows: "iter_rows incl strict fs = Inr (rows, ws)"
  shows "iter_rows incl strict fs' = Inr (rows @ [r], ws)"
proof -
  obtain k where k: "k < 100000" "active_segment st_size fs = numbered_name k"
      "\<And>n. n \<in> set (map fst (fs_segments fs)) \<Longrightarrow> n \<le> numbered_name k"
    using active_segment_canonical [OF canon, of st_size] by blast
  let ?d = "fs_segments fs" and ?n = "numbered_name k"
  have upd: "jsonl_files (AList.update ?n f ?d) = filter (\<lambda>x. fst x \<noteq> ?n) (jsonl_files ?d) @ [(?n, f)]" for f
    by (rule jsonl_files_update_greatest) (use canon k(3) in \<open>auto simp: canonical_segments_def\<close>)
  let ?pre = "(if incl then jsonl_files (fs_sealed fs) else []) @ filter (\<lambda>x. fst x \<noteq> ?n) (jsonl_files ?d)"
  have fs': "fs' = fs\<lparr>fs_segments := AList.update ?n
      (Lines ((case map_of ?d ?n of Some (Lines ls) \<Rightarrow> ls | _ \<Rightarrow> []) @ [l])) ?d\<rparr>"
    using written append_line_whole [OF whole, of ?n l] by (simp add: k(2))
  consider (new) "map_of ?d ?n = None" | (old) ls where "map_of ?d ?n = Some (Lines ls)"
    using whole_segment [OF whole, of ?n] by (cases "map_of ?d ?n") auto
  then show ?thesis
  proof cases
    case new
    then have "jsonl_files ?d = filter (\<lambda>x. fst x \<noteq> ?n) (jsonl_files ?d)"
      by (force simp: jsonl_files_def map_of_eq_None_iff intro!: filter_True [symmetric])
    then have src: "ledger_sources incl fs = ?pre" by (simp add: ledger_sources_def)
    have "ledger_sources incl fs' = ?pre @ [(?n, Lines [l])]"
      using new upd by (simp add: fs' ledger_sources_def)
    then show ?thesis
      using iter_rows_snoc [of incl fs ?pre "[]" fs' ?n "[]"] src line rows by simp
  next
    case old
    have src: "ledger_sources incl fs = ?pre @ [(?n, Lines ls)]"
      using upd [of "Lines ls"] update_same [OF old] by (simp add: ledger_sources_def)
    have "ledger_sources incl fs' = ?pre @ [(?n, Lines (ls @ [l]))]"
      using old upd by (simp add: fs' ledger_sources_def)
    then show ?thesis
      using iter_rows_snoc [of incl fs ?pre "[(?n, Lines ls)]" fs' ?n ls] src line rows by simp
  qed
qed

section \<open>Properties of the ledger\<close>

text \<open>
  C20. Whatever a caller does with an open ledger, in any order: until the run is closed the ledger directory changes only by
  writes of rows of this run that failed, not at all when the writes that fail do so before the file is opened; when it is
  closed, one write of a row of this run, to the segment that was active, succeeded, and nothing was written after it; a
  closed ledger refuses a second \<open>close\<close>.
\<close>

theorem one_row_per_run:
  assumes "RunLedger_open probe optout env w distributions run_id kind derived_from ctx = Inr lg0"
    and "ledger_reach ops (lg0, fs0) (lg, fs)"
  shows "(\<exists>fs1. failed_writes {io. \<exists>op\<in>ops. op_io op = Some io} lg0 fs0 fs1
        \<and> ((\<forall>op\<in>ops. \<forall>amount e. op_io op = Some (WriteFails amount e) \<longrightarrow> amount = NotOpened) \<longrightarrow> fs1 = fs0)
        \<and> (if lg_closed lg then (\<exists>r st_size. rl_run_id r = run_id \<and> rl_kind r = kind
              \<and> append_line WriteOk fs1 (active_segment st_size fs1) (to_json_line r) = (fs, Inr ()))
            else fs = fs1))
    \<and> (lg_closed lg \<longrightarrow> close we lg fs = ((lg, fs), ledger_error ''ledger is already closed'' [ArgStr run_id]))"
proof -
  have lg0: "\<not> lg_closed lg0" "lg_run_id lg0 = run_id" "lg_kind lg0 = kind"
    using assms(1) by (auto simp: RunLedger_open_def bind_res_eq_Inr Let_def)
  let ?ios = "{io. \<exists>op\<in>ops. op_io op = Some io}"
  obtain fs1 where fs1: "failed_writes ?ios lg0 fs0 fs1" "if lg_closed lg then row_written lg0 fs1 fs else fs = fs1"
      "lg_run_id lg = run_id"
    using reach_recorded_once [OF assms(2) lg0(1)] lg0 by (auto simp: recorded_once_def)
  have "fs1 = fs0" if "\<forall>op\<in>ops. \<forall>amount e. op_io op = Some (WriteFails amount e) \<longrightarrow> amount = NotOpened"
    using failed_writes_clean [OF fs1(1)] that by blast
  moreover have "if lg_closed lg then (\<exists>r st_size. rl_run_id r = run_id \<and> rl_kind r = kind
      \<and> append_line WriteOk fs1 (active_segment st_size fs1) (to_json_line r) = (fs, Inr ())) else fs = fs1"
    using fs1(2) unfolding row_written_def own_row_def lg0 conj_assoc .
  moreover have "lg_closed lg \<longrightarrow> close we lg fs = ((lg, fs), ledger_error ''ledger is already closed'' [ArgStr run_id])"
    using fs1(3) by (simp add: close_def)
  ultimately show ?thesis using fs1(1) by blast
qed

text \<open>What the record constructors ask of the fields of a ledger.\<close>

definition ledger_valid :: "run_ledger \<Rightarrow> bool" where
  "ledger_valid lg =
     (\<not> blank (lg_run_id lg) \<and> lg_kind lg \<in> set VALID_KINDS
      \<and> (case lg_derived_from lg of None \<Rightarrow> True | Some d \<Rightarrow> \<not> blank d \<and> d \<noteq> lg_run_id lg)
      \<and> lg_status lg \<in> set VALID_STATUSES
      \<and> (lg_status lg = ''complete'' \<or> (case lg_status_reason lg of None \<Rightarrow> False | Some s \<Rightarrow> \<not> blank s))
      \<and> list_all ref_ok (lg_ir lg) \<and> prov_ok (lg_provenance lg) \<and> distinct (map fst (lg_context lg)))"

lemma build_record_valid:
  assumes "ledger_valid lg"
  shows "\<exists>r. build_record ts lg = Inr r \<and> row_ok r"
proof -
  let ?r = "\<lparr>rl_run_id = lg_run_id lg, rl_kind = lg_kind lg, rl_derived_from = of_str (lg_derived_from lg),
     rl_telemetry_status = lg_status lg, rl_status_reason = of_str (lg_status_reason lg), rl_ir = lg_ir lg,
     rl_context = lg_context lg, rl_schema_version = JInt SCHEMA_VERSION, rl_ts = JStr ts,
     rl_provenance = lg_provenance lg\<rparr>"
  have "build_record ts lg = Inr ?r"
    using assms by (auto simp: build_record_def RunLedgerRecord_init_Inr ledger_valid_def of_str_def split: option.splits)
  moreover from this have "row_ok ?r"
    using assms by (simp add: row_ok_def build_record_def ledger_valid_def)
  ultimately show ?thesis by blast
qed

lemma find_run_append:
  assumes "iter_rows True False fs = Inr (rows, ws)" "iter_rows True False fs' = Inr (rows @ [r], ws)"
  shows "find_run (rl_run_id r) fs' = Inr (Some r)"
  using assms by (simp add: find_run_def)

lemma close_recorded:
  assumes "canonical_segments fs" "whole_segments fs" "iter_rows True False fs = Inr (rows, ws)"
    and "\<not> lg_closed lg" "ledger_valid lg" "we_io we = WriteOk"
  shows "\<exists>r fs'. close we lg fs = ((lg\<lparr>lg_closed := True\<rparr>, fs'), Inr r) \<and> build_record (we_ts we) lg = Inr r
    \<and> find_run (lg_run_id lg) fs' = Inr (Some (normal_record r))"
proof -
  obtain r where r: "build_record (we_ts we) lg = Inr r" "row_ok r"
    using build_record_valid [OF assms(5)] by blast
  obtain fs' where fs': "append_line WriteOk fs (active_segment (we_size we) fs) (to_json_line r) = (fs', Inr ())"
    using append_line_whole [OF assms(2)] by blast
  have line: "to_json_line r \<noteq> Blank" "read_line (to_json_line r) = Inr (normal_record r)"
    using read_written [OF r(2) build_record_Inr(5) [OF r(1)]] by (simp_all add: to_json_line_def read_line_def)
  have "find_run (rl_run_id (normal_record r)) fs' = Inr (Some (normal_record r))"
    by (rule find_run_append [OF assms(3) iter_rows_append [OF assms(1,2) fs' line assms(3)]])
  then show ?thesis
    using assms(4,6) r fs' build_record_Inr [OF r(1)] by (simp add: close_def)
qed

text \<open>
  C21. Leaving the \<open>with\<close> block of an open ledger whose segments end with a line break records the run, when the write
  succeeds: the most recent row of the run is the
  one just written, \<open>failed\<close> when the block raised and with the status of the ledger otherwise, so
  that a run can be cited exactly when it ended without an exception and its status is \<open>complete\<close>.
\<close>

theorem exit_records_run:
  assumes "canonical_segments fs" "whole_segments fs" "is_ok (iter_rows True False fs)"
    and "\<not> lg_closed lg" "ledger_valid lg" "we_io we = WriteOk"
  shows "\<exists>r. let co = ledger_exit we exc lg fs in
      lg_closed (co_ledger co) \<and> co_raised co = None \<and> \<not> co_warned co
      \<and> find_run (lg_run_id lg) (co_fs co) = Inr (Some r)
      \<and> rl_telemetry_status r = (if exc = None then lg_status lg else ''failed'')
      \<and> run_is_citable (lg_run_id lg) (co_fs co) = Inr (exc = None \<and> lg_status lg = ''complete'')"
proof -
  obtain rows ws where rows: "iter_rows True False fs = Inr (rows, ws)" using assms(3) by (auto simp: is_ok_iff)
  define lg' where "lg' = (case exc of None \<Rightarrow> lg | Some (what, e) \<Rightarrow> set_status ''failed'' (Some (''run raised '' @ what)) lg)"
  have lg': "ledger_valid lg'" "\<not> lg_closed lg'" "lg_run_id lg' = lg_run_id lg"
      "lg_status lg' = (if exc = None then lg_status lg else ''failed'')"
    using assms(4,5) by (auto simp: lg'_def ledger_valid_def set_status_def VALID_STATUSES_def blank_def py_space_def
        split: option.splits)
  obtain r fs' where r: "close we lg' fs = ((lg'\<lparr>lg_closed := True\<rparr>, fs'), Inr r)" "build_record (we_ts we) lg' = Inr r"
      "find_run (lg_run_id lg) fs' = Inr (Some (normal_record r))"
    using close_recorded [OF assms(1,2) rows lg'(2,1) assms(6)] lg'(3) by auto
  have exit: "ledger_exit we exc lg fs
      = \<lparr>co_ledger = lg'\<lparr>lg_closed := True\<rparr>, co_fs = fs', co_warned = False, co_raised = None\<rparr>"
    using r(1) lg'(2) by (auto simp: ledger_exit_def lg'_def close_if_open_def split: option.splits)
  have "rl_telemetry_status (normal_record r) = lg_status lg'"
    using build_record_Inr(3) [OF r(2)] by (simp add: normal_record_def)
  then show ?thesis
    by (intro exI [of _ "normal_record r"])
      (simp add: exit r(3) run_is_citable_def lg'(4) is_citable_def Let_def)
qed

subsection \<open>A recorded run\<close>

definition no_files :: ledger_fs where
  "no_files = \<lparr>fs_segments = [], fs_sealed = [], fs_archive = []\<rparr>"

definition quiet :: write_env where
  "quiet = \<lparr>we_ts = ''2026-01-01'', we_size = (\<lambda>_. 0), we_io = WriteOk\<rparr>"

text \<open>A machine with neither git nor \<open>cisternal\<close>: what a run opened there records of its origin.\<close>

definition no_git_world :: world where
  "no_git_world = \<lparr>wd_cwd = Inr (), wd_git = (\<lambda>_. Inl (Exn FileNotFoundError ''git'' [])), wd_sha256 = (\<lambda>s. s),
     wd_git_sha_stamp = None, wd_cisternal = Inl (Exn (OtherError ''ImportError'') ''No module named'' []),
     wd_jax_version = None, wd_jaxlib_version = None, wd_x64_enabled = None, wd_xla_flags = None, wd_device_kind = None,
     wd_hostname = None, wd_python_version = ''3.12.1'', wd_platform = ''Linux'', wd_resolve = (\<lambda>_. None)\<rparr>"

definition demo_prov :: run_provenance where
  "demo_prov = prov_default\<lparr>pv_unpinned_reason := JStr ''HEAD could not be resolved by git rev-parse'',
     pv_python_version := JStr ''3.12.1'', pv_platform := JStr ''Linux''\<rparr>"

definition demo_ledger :: "string \<Rightarrow> run_ledger" where
  "demo_ledger status = \<lparr>lg_run_id = ''r1'', lg_kind = ''train'', lg_derived_from = None, lg_provenance = demo_prov,
     lg_context = [], lg_status = status,
     lg_status_reason = (if status = ''opted_out'' then Some ''XTRAX_TELEMETRY_OPTOUT was set for this run'' else None),
     lg_ir = [], lg_closed = False\<rparr>"

definition demo_record :: "string \<Rightarrow> json \<Rightarrow> run_ledger_record" where
  "demo_record status why = \<lparr>rl_run_id = ''r1'', rl_kind = ''train'', rl_derived_from = JNull,
     rl_telemetry_status = status, rl_status_reason = why, rl_ir = [], rl_context = [],
     rl_schema_version = JInt 2, rl_ts = JStr ''2026-01-01'', rl_provenance = demo_prov\<rparr>"

definition demo_fs :: "line list \<Rightarrow> ledger_fs" where
  "demo_fs ls = \<lparr>fs_segments = [(''00001.jsonl'', Lines ls)], fs_sealed = [], fs_archive = []\<rparr>"

lemma demo_open:
  "RunLedger_open None None None no_git_world NoNames ''r1'' ''train'' None [] = Inr (demo_ledger ''complete'')"
  "RunLedger_open None (Some '' Yes'') None no_git_world NoNames ''r1'' ''train'' None [] = Inr (demo_ledger ''opted_out'')"
  by code_simp+

lemma demo_close:
  "ledger_do (Close quiet) (demo_ledger ''complete'', no_files)
     = ((demo_ledger ''complete'')\<lparr>lg_closed := True\<rparr>, demo_fs [to_json_line (demo_record ''complete'' JNull)])"
  by code_simp

theorem one_row_per_run_witness:
  "\<exists>r st_size. rl_run_id r = ''r1'' \<and> rl_kind r = ''train''
     \<and> append_line WriteOk no_files (active_segment st_size no_files) (to_json_line r)
       = (demo_fs [to_json_line (demo_record ''complete'' JNull)], Inr ())"
proof -
  have "ledger_reach {Close quiet} (demo_ledger ''complete'', no_files) (ledger_do (Close quiet) (demo_ledger ''complete'', no_files))"
    by (rule ledger_reach.step [OF ledger_reach.opened]) simp
  from one_row_per_run [OF demo_open(1) this [unfolded demo_close]]
  show ?thesis by (auto simp: quiet_def)
qed

text \<open>
  The row of a run need not survive a failed write. A flush that fails after the line was written leaves the line, and the
  retry writes a second row of the run. A write that fails in the middle leaves a fragment without a line break; the next row
  that is appended, here the one of the retry, continues that line and is lost: the ledger is closed, and the run is not found.
\<close>

theorem failed_write_breaks_ledger:
  "fst (close quiet (demo_ledger ''complete'') (snd (fst (close (quiet\<lparr>we_io := WriteFails WroteLine (Exn OSError ''fsync'' [])\<rparr>) (demo_ledger ''complete'') no_files))))
      = ((demo_ledger ''complete'')\<lparr>lg_closed := True\<rparr>, demo_fs [to_json_line (demo_record ''complete'' JNull), to_json_line (demo_record ''complete'' JNull)])
    \<and> (let (lg, fs) = fst (close quiet (demo_ledger ''complete'') (snd (fst (close (quiet\<lparr>we_io := WriteFails WroteFragment (Exn OSError ''full'' [])\<rparr>) (demo_ledger ''complete'') no_files))))
       in lg_closed lg \<and> find_run ''r1'' fs = Inr None)"
  by (rule conjI) code_simp+

theorem exit_records_run_witness:
  "run_is_citable ''r1'' (co_fs (ledger_exit quiet (Some (''ValueError: boom'', Exn ValueError ''boom'' []))
     (demo_ledger ''complete'') (demo_fs [to_json_line (demo_record ''complete'' JNull)]))) = Inr False"
proof -
  have "''00001.jsonl'' = numbered_name 1" by code_simp
  then have "canonical_segments (demo_fs ls)" for ls
    by (auto simp: canonical_segments_def demo_fs_def intro!: exI [of _ 1])
  moreover have "is_ok (iter_rows True False (demo_fs [to_json_line (demo_record ''complete'' JNull)]))" by code_simp
  moreover have "ledger_valid (demo_ledger ''complete'')" by code_simp
  ultimately show ?thesis
    using exit_records_run [of "demo_fs [to_json_line (demo_record ''complete'' JNull)]" "demo_ledger ''complete''" quiet
        "Some (''ValueError: boom'', Exn ValueError ''boom'' [])"]
    by (auto simp: Let_def whole_segments_def demo_fs_def demo_ledger_def quiet_def)
qed

section \<open>Opting out\<close>

text \<open>The operations that do not make the run \<open>failed\<close>, and those that do not ask for \<open>complete\<close>.\<close>

definition not_failing :: "ledger_op set" where
  "not_failing = {op. (\<forall>why. op \<noteq> SetStatus ''failed'' why) \<and> (\<forall>we exc. op \<noteq> Exit we (Some exc))}"

definition no_complete :: "ledger_op set" where
  "no_complete = {op. \<forall>why. op \<noteq> SetStatus ''complete'' why}"

lemma close_state: "fst (close we lg fs) = (lg', fs') \<Longrightarrow> lg_status lg' = lg_status lg \<and> lg_status_reason lg' = lg_status_reason lg"
  by (cases rule: close_cases [of we lg fs]) auto

lemma close_if_open_ledger:
  "lg_status (co_ledger (close_if_open we exc lg fs)) = lg_status lg"
  "lg_status_reason (co_ledger (close_if_open we exc lg fs)) = lg_status_reason lg"
  using close_state [OF close_if_open_state [symmetric], of we exc lg fs] by simp_all

lemma opted_out_do:
  assumes "lg_status (fst s) = ''opted_out''" "op \<in> not_failing"
  shows "lg_status (fst (ledger_do op s)) = ''opted_out'' \<and> lg_status_reason (fst (ledger_do op s)) = lg_status_reason (fst s)"
proof (cases s)
  case (Pair lg fs)
  show ?thesis
  proof (cases op)
    case (Close we)
    then show ?thesis using assms(1) close_state [of we lg fs "fst (fst (close we lg fs))" "snd (fst (close we lg fs))"] Pair by simp
  next
    case (SetStatus status why)
    then show ?thesis using assms Pair by (auto simp: not_failing_def set_status_def)
  next
    case (Exit we exc)
    then have "exc = None" using assms(2) by (cases exc) (auto simp: not_failing_def)
    with Exit show ?thesis using assms(1) Pair by (simp add: Let_def ledger_exit_def close_if_open_ledger)
  qed (use assms(1) Pair in \<open>simp_all add: record_ir_def Let_def close_if_open_ledger\<close>)
qed

lemma opted_out_reach:
  "ledger_reach not_failing start s \<Longrightarrow> lg_status (fst start) = ''opted_out''
    \<Longrightarrow> lg_status (fst s) = ''opted_out'' \<and> lg_status_reason (fst s) = lg_status_reason (fst start)"
proof (induction rule: ledger_reach.induct)
  case (step s op)
  then show ?case using opted_out_do [of s op] by simp
qed simp

lemma set_status_not_complete:
  "lg_status lg \<noteq> ''complete'' \<Longrightarrow> s \<noteq> ''complete'' \<Longrightarrow> lg_status (set_status s why lg) \<noteq> ''complete''"
  by (simp add: set_status_def)

lemma no_complete_do:
  assumes "lg_status (fst s) \<noteq> ''complete''" "op \<in> no_complete"
  shows "lg_status (fst (ledger_do op s)) \<noteq> ''complete''"
proof (cases s)
  case (Pair lg fs)
  have "lg_status (fst (fst (close we lg fs))) = lg_status lg" for we
    using close_state [of we lg fs "fst (fst (close we lg fs))" "snd (fst (close we lg fs))"] by simp
  then show ?thesis
    using assms set_status_not_complete [of lg] Pair
    by (cases op) (auto simp: record_ir_def no_complete_def Let_def close_if_open_ledger ledger_exit_def split: option.splits)
qed

lemma no_complete_reach:
  "ledger_reach no_complete start s \<Longrightarrow> lg_status (fst start) \<noteq> ''complete'' \<Longrightarrow> lg_status (fst s) \<noteq> ''complete''"
proof (induction rule: ledger_reach.induct)
  case (step s op)
  then show ?case by (intro no_complete_do) auto
qed

text \<open>
  C23. A run opened under \<open>XTRAX_TELEMETRY_OPTOUT\<close> stays opted out, with the reason that names the variable, whatever status a
  caller asks for, \<open>complete\<close> included, until it is made \<open>failed\<close>; no row of it can be cited, neither then nor after
  it was made \<open>failed\<close>, as long as no caller asks for \<open>complete\<close> from there on.
\<close>

theorem opt_out_not_citable:
  assumes "RunLedger_open probe optout env w distributions run_id kind derived_from ctx = Inr lg0"
    and "telemetry_opted_out optout"
    and "ledger_reach not_failing (lg0, fs0) (lg1, fs1)"
    and "ledger_reach no_complete (lg1, fs1) (lg2, fs2)"
  shows "lg_status lg1 = ''opted_out'' \<and> lg_status_reason lg1 = Some ''XTRAX_TELEMETRY_OPTOUT was set for this run''
    \<and> (\<forall>ts r. build_record ts lg1 = Inr r \<or> build_record ts lg2 = Inr r \<longrightarrow> \<not> is_citable r)"
proof -
  have "lg_status lg0 = ''opted_out''" "lg_status_reason lg0 = Some ''XTRAX_TELEMETRY_OPTOUT was set for this run''"
    using assms(1,2) by (auto simp: RunLedger_open_def bind_res_eq_Inr Let_def)
  with opted_out_reach [OF assms(3)]
  have one: "lg_status lg1 = ''opted_out''" "lg_status_reason lg1 = Some ''XTRAX_TELEMETRY_OPTOUT was set for this run''" by simp_all
  with no_complete_reach [OF assms(4)] have "lg_status lg2 \<noteq> ''complete''" by simp
  with one show ?thesis by (auto simp: is_citable_def dest!: build_record_Inr(3))
qed

theorem opt_out_not_citable_witness:
  "\<not> is_citable (demo_record ''failed'' (JStr ''run raised E''))"
proof -
  let ?asked = "ledger_do (SetStatus ''complete'' None) (demo_ledger ''opted_out'', no_files)"
  have asked: "ledger_reach not_failing (demo_ledger ''opted_out'', no_files) (demo_ledger ''opted_out'', no_files)"
    "?asked = (demo_ledger ''opted_out'', no_files)"
    by (rule ledger_reach.opened) (simp add: set_status_def demo_ledger_def)
  have "ledger_reach not_failing (demo_ledger ''opted_out'', no_files) ?asked"
    by (rule ledger_reach.step [OF asked(1)]) (simp add: not_failing_def)
  note first = this [unfolded asked(2)]
  have reach: "ledger_reach no_complete (demo_ledger ''opted_out'', no_files)
      (ledger_do (SetStatus ''failed'' (Some ''run raised E'')) (demo_ledger ''opted_out'', no_files))"
    by (rule ledger_reach.step [OF ledger_reach.opened]) (simp add: no_complete_def)
  have optout: "telemetry_opted_out (Some '' Yes'')" by code_simp
  have "build_record ''2026-01-01'' (set_status ''failed'' (Some ''run raised E'') (demo_ledger ''opted_out''))
      = Inr (demo_record ''failed'' (JStr ''run raised E''))"
    by code_simp
  then show ?thesis
    using opt_out_not_citable [OF demo_open(2) optout first reach [simplified]] by blast
qed

text \<open>
  The reservation is needed: \<open>set_status\<close> lets \<open>failed\<close> overwrite an opt-out, and then lets
  \<open>complete\<close> overwrite \<open>failed\<close>, after which the opted-out run is recorded as citable.
\<close>

theorem opt_out_can_be_cited:
  "ledger_reach UNIV (demo_ledger ''opted_out'', no_files)
     (let lg = set_status ''complete'' None (set_status ''failed'' (Some ''retry'') (demo_ledger ''opted_out''))
      in ledger_do (Close quiet) (lg, no_files))
   \<and> run_is_citable ''r1''
       (snd (let lg = set_status ''complete'' None (set_status ''failed'' (Some ''retry'') (demo_ledger ''opted_out''))
             in ledger_do (Close quiet) (lg, no_files))) = Inr True"
proof
  have "ledger_reach UNIV (demo_ledger ''opted_out'', no_files)
      (ledger_do (Close quiet) (ledger_do (SetStatus ''complete'' None)
        (ledger_do (SetStatus ''failed'' (Some ''retry'')) (demo_ledger ''opted_out'', no_files))))"
    by (intro ledger_reach.intros UNIV_I)
  then show "ledger_reach UNIV (demo_ledger ''opted_out'', no_files)
     (let lg = set_status ''complete'' None (set_status ''failed'' (Some ''retry'') (demo_ledger ''opted_out''))
      in ledger_do (Close quiet) (lg, no_files))"
    by (simp add: Let_def)
qed code_simp

section \<open>Lenient reading\<close>

text \<open>
  Reading with \<open>strict=False\<close> does not skip every row it cannot read: a row of the running schema without
  its \<open>run_id\<close> raises \<open>KeyError\<close>, which neither \<open>iter_rows\<close> nor \<open>run_is_citable\<close> catches, so that one
  line makes every run of the ledger uncheckable.
\<close>

theorem lenient_read_raises:
  "iter_rows True False (demo_fs (ls @ [Json (JObj [(''schema_version'', JInt 2)])] @ ls'))
     = (case iter_lines False ''00001.jsonl'' 1 ls of Inl e \<Rightarrow> Inl e | Inr _ \<Rightarrow> Inl (Exn KeyError ''run_id'' []))
   \<and> run_is_citable ''r1'' (demo_fs [to_json_line (demo_record ''complete'' JNull)]) = Inr True
   \<and> run_is_citable ''r1'' (demo_fs [to_json_line (demo_record ''complete'' JNull), Json (JObj [(''schema_version'', JInt 2)])])
     = Inl (Exn KeyError ''run_id'' [])"
proof (intro conjI)
  have bad: "read_line (Json (JObj [(''schema_version'', JInt 2)])) = Inl (Exn KeyError ''run_id'' [])"
    by code_simp
  have "iter_lines False path n (ls @ [Json (JObj [(''schema_version'', JInt 2)])] @ ls')
      = (case iter_lines False path n ls of Inl e \<Rightarrow> Inl e | Inr _ \<Rightarrow> Inl (Exn KeyError ''run_id'' []))" for path n
    by (induction ls arbitrary: n) (auto simp: bad split: sum.splits)
  then show "iter_rows True False (demo_fs (ls @ [Json (JObj [(''schema_version'', JInt 2)])] @ ls'))
     = (case iter_lines False ''00001.jsonl'' 1 ls of Inl e \<Rightarrow> Inl e | Inr _ \<Rightarrow> Inl (Exn KeyError ''run_id'' []))"
    by (simp add: iter_rows_def ledger_sources_def demo_fs_def jsonl_files_def jsonl_def iter_file_def file_text_def
        split: sum.splits)
qed code_simp+

end
