(* ===== verification/Telemetry_Store.thy ===== *)
theory Telemetry_Store
  imports Telemetry_Ledger
begin

text \<open>
  Captured IR: the blob store (\<open>telemetry/store.py\<close>), the capture of the artifacts of a function
  (\<open>telemetry/ir.py\<close>) and the callback that records them (\<open>telemetry/callback.py\<close>).

  The codec of the preferred suffix is \<open>bc_compress\<close>. The store is a directory of files named by digest and codec suffix. SHA-256, the compression
  codecs and the JAX renderers are parameters; the locale \<open>blob_laws\<close> states that a codec
  decodes what it encoded and that a digest has 64 characters. A collision of digests is not
  excluded.
\<close>

section \<open>The blob store\<close>

record 'b codecs =
  bc_codecs :: "(string \<times> (string \<Rightarrow> 'b) \<times> ('b \<Rightarrow> string option)) list"
  bc_preferred :: string
  bc_compress :: "string \<Rightarrow> 'b"
  bc_digest_of :: "string \<Rightarrow> string \<times> int"

abbreviation blob_error :: "string \<Rightarrow> exn_arg list \<Rightarrow> 'a res" where
  "blob_error m as \<equiv> Inl (Exn BlobStoreError m as)"

definition validate_digest :: "string \<Rightarrow> unit res" where
  "validate_digest sha256 =
     (if length sha256 \<noteq> 64 then blob_error ''blob digest must be 64 hex chars'' [ArgStr sha256] else Inr ())"

definition path_for :: "string \<Rightarrow> string \<Rightarrow> string res" where
  "path_for sha256 suffix = bind_res (validate_digest sha256) (\<lambda>_. Inr (sha256 @ suffix))"

definition find_blob :: "'b codecs \<Rightarrow> 'b directory \<Rightarrow> string \<Rightarrow> string option res" where
  "find_blob c d sha256 = bind_res (validate_digest sha256) (\<lambda>_.
     Inr (List.find (\<lambda>name. map_of d name \<noteq> None) (map (\<lambda>codec. sha256 @ fst codec) (bc_codecs c))))"

definition has_blob :: "'b codecs \<Rightarrow> 'b directory \<Rightarrow> string \<Rightarrow> bool res" where
  "has_blob c d sha256 = bind_res (find_blob c d sha256) (\<lambda>p. Inr (p \<noteq> None))"

text \<open>\<open>put\<close>: the error of the directory or of the temporary write, if one fails, leaves the store unchanged.\<close>

datatype put_fault = MkdirFault exn | WriteFault exn

definition put_blob :: "'b codecs \<Rightarrow> put_fault option \<Rightarrow> 'b directory \<Rightarrow> string \<Rightarrow> ('b directory \<times> string \<times> int) res" where
  "put_blob c io d text =
     (let (sha256, raw_len) = bc_digest_of c text in
      bind_res (find_blob c d sha256) (\<lambda>found.
        if found \<noteq> None then Inr (d, sha256, raw_len)
        else bind_res (path_for sha256 (bc_preferred c)) (\<lambda>target.
          case io of
            Some (MkdirFault e) \<Rightarrow> Inl e
          | Some (WriteFault e) \<Rightarrow> blob_error ''could not write blob'' [ArgStr sha256, ArgCause e]
          | None \<Rightarrow> Inr (AList.update target (bc_compress c text) d, sha256, raw_len))))"

text \<open>\<open>path.suffix\<close>: from the last dot, unless it is the first or the last character.\<close>

definition path_suffix :: "string \<Rightarrow> string" where
  "path_suffix name =
     (let ext = rev (takeWhile (\<lambda>c. c \<noteq> CHR ''.'') (rev name)); n = length name - length ext
      in if ext \<noteq> [] \<and> 1 < n then CHR ''.'' # ext else [])"

definition get_blob :: "'b codecs \<Rightarrow> 'b directory \<Rightarrow> string \<Rightarrow> string res" where
  "get_blob c d sha256 = bind_res (find_blob c d sha256) (\<lambda>found.
     case found of
       None \<Rightarrow> blob_error ''blob is not present'' [ArgStr sha256]
     | Some path \<Rightarrow>
         (case (map_of (bc_codecs c) (path_suffix path), map_of d path) of
            (Some (_, decompress), Some blob) \<Rightarrow>
              (case decompress blob of
                 Some text \<Rightarrow> Inr text
               | None \<Rightarrow> Inl (Exn BlobCorrupt ''blob does not decode'' [ArgStr sha256]))
          | _ \<Rightarrow> Inl (Exn KeyError (path_suffix path) [])))"

definition verify_blob :: "'b codecs \<Rightarrow> 'b directory \<Rightarrow> string \<Rightarrow> bool res" where
  "verify_blob c d sha256 = bind_res (has_blob c d sha256) (\<lambda>present.
     if \<not> present then Inr False
     else case get_blob c d sha256 of
       Inr text \<Rightarrow> Inr (fst (bc_digest_of c text) = sha256)
     | Inl e \<Rightarrow> if class_of e = BlobCorrupt then Inr False else Inl e)"

definition iter_digests :: "'b codecs \<Rightarrow> 'b directory \<Rightarrow> string list" where
  "iter_digests c d =
     map (\<lambda>name. take (length name - length (path_suffix name)) name)
       (filter (\<lambda>name. path_suffix name \<in> set (map fst (bc_codecs c))) (sort (map fst d)))"

definition count_blobs :: "'b codecs \<Rightarrow> 'b directory \<Rightarrow> nat" where
  "count_blobs c d = length (iter_digests c d)"

definition delete_blob :: "'b codecs \<Rightarrow> 'b directory \<Rightarrow> string \<Rightarrow> ('b directory \<times> bool) res" where
  "delete_blob c d sha256 = bind_res (find_blob c d sha256) (\<lambda>found.
     case found of None \<Rightarrow> Inr (d, False) | Some path \<Rightarrow> Inr (AList.delete path d, True))"

definition total_bytes :: "('b \<Rightarrow> int) \<Rightarrow> 'b directory \<Rightarrow> int" where
  "total_bytes st_size d = sum_list (map (st_size \<circ> snd) d)"

text \<open>The count and whether a warning was given.\<close>

definition check_population :: "'b codecs \<Rightarrow> 'b directory \<Rightarrow> nat \<Rightarrow> nat \<times> bool" where
  "check_population c d threshold = (let n = count_blobs c d in (n, threshold < n))"

section \<open>Capturing IR\<close>

record capture_mode =
  cm_raw :: string
  cm_enabled :: bool
  cm_store_text :: bool
  cm_kinds :: "string list"

definition IRCaptureMode_init :: "string \<Rightarrow> capture_mode" where
  "IRCaptureMode_init raw =
     \<lparr>cm_raw = raw, cm_enabled = (raw \<noteq> ''none''),
      cm_store_text = (raw \<in> {''full'', ''full+optimized''}),
      cm_kinds = (if raw \<noteq> ''none'' then
         (if raw = ''full+optimized'' then [''jaxpr'', ''stablehlo'', ''optimized_hlo''] else [''jaxpr'', ''stablehlo''])
       else [])\<rparr>"

text \<open>The argument wins over \<open>XTRAX_CAPTURE_IR\<close>; anything unknown means \<open>full\<close>.\<close>

definition resolve_capture_mode :: "string option \<Rightarrow> string option \<Rightarrow> capture_mode" where
  "resolve_capture_mode value env =
     (let raw = lower (strip (case value of Some v \<Rightarrow> v | None \<Rightarrow> (case env of Some e \<Rightarrow> e | None \<Rightarrow> [])))
      in IRCaptureMode_init (if raw \<in> {''full'', ''full+optimized'', ''hash'', ''none''} then raw else ''full''))"

definition int_str :: "int \<Rightarrow> string" where
  "int_str i = (if i < 0 then ''-'' else []) @ decimal (nat \<bar>i\<bar>)"

primrec message_of :: "exn \<Rightarrow> string" where
  "message_of (Exn c m as) = m"

text \<open>
  One artifact. \<open>render\<close> is the text of the renderer of the kind, or the type and text of its
  exception; the store and the outcome of its write are optional.
\<close>

type_synonym 'b store_arg = "('b codecs \<times> put_fault option \<times> 'b directory) option"

definition capture_ref :: "string \<Rightarrow> string \<Rightarrow> int \<Rightarrow> string \<Rightarrow> json \<Rightarrow> ir_ref" where
  "capture_ref kind sha256 n mode why =
     \<lparr>ir_kind = kind, ir_sha256 = JStr sha256, ir_bytes = n, ir_mode = mode, ir_reason = why\<rparr>"

definition capture_one ::
  "(string \<Rightarrow> string \<times> int) \<Rightarrow> (string \<Rightarrow> (string \<times> string) + string) \<Rightarrow> int \<Rightarrow> bool \<Rightarrow> string \<Rightarrow> 'b store_arg
     \<Rightarrow> ir_ref \<times> 'b store_arg"
where
  "capture_one digest_of render max_bytes store_text kind store =
     (case render kind of
        Inl (exc, msg) \<Rightarrow>
          (capture_ref kind [] 0 ''skipped'' (JStr (exc @ '' while rendering '' @ kind @ '': '' @ msg)), store)
      | Inr text \<Rightarrow>
          let (sha256, raw_len) = digest_of text in
          if \<not> store_text then
            (capture_ref kind sha256 raw_len ''hash_only'' (JStr ''capture mode records fingerprints only''), store)
          else case store of
            None \<Rightarrow>
              (capture_ref kind sha256 raw_len ''hash_only'' (JStr ''capture mode records fingerprints only''), None)
          | Some (c, io, d) \<Rightarrow>
              if raw_len > max_bytes then
                (capture_ref kind sha256 raw_len ''hash_only'' (JStr (int_str raw_len @ '' bytes exceeds the '' @ int_str max_bytes @ ''-byte capture cap'')), store)
              else
                (case put_blob c io d text of
                   Inr (d', _) \<Rightarrow> (capture_ref kind sha256 raw_len ''full'' JNull, Some (c, io, d'))
                 | Inl e \<Rightarrow> (capture_ref kind sha256 raw_len ''hash_only'' (JStr (''blob store write failed: '' @ message_of e)), store)))"

fun capture_kinds ::
  "(string \<Rightarrow> string \<times> int) \<Rightarrow> (string \<Rightarrow> (string \<times> string) + string) \<Rightarrow> int \<Rightarrow> bool \<Rightarrow> string list \<Rightarrow> 'b store_arg
     \<Rightarrow> ir_ref list \<times> 'b store_arg"
where
  "capture_kinds digest_of render max_bytes store_text [] store = ([], store)"
| "capture_kinds digest_of render max_bytes store_text (kind # kinds) store =
     (let (ref, store1) = capture_one digest_of render max_bytes store_text kind store;
          (refs, store2) = capture_kinds digest_of render max_bytes store_text kinds store1
      in (ref # refs, store2))"

definition capture_ir ::
  "(string \<Rightarrow> string \<times> int) \<Rightarrow> (string \<Rightarrow> (string \<times> string) + string) \<Rightarrow> int \<Rightarrow> capture_mode \<Rightarrow> 'b store_arg
     \<Rightarrow> ir_ref list \<times> 'b store_arg"
where
  "capture_ir digest_of render max_bytes policy store =
     (if \<not> cm_enabled policy then ([], store)
      else capture_kinds digest_of render max_bytes (cm_store_text policy) (cm_kinds policy) store)"

text \<open>\<open>"; ".join(...)\<close> over the artifacts that fell short.\<close>

fun join_reasons :: "string list \<Rightarrow> string" where
  "join_reasons [] = []"
| "join_reasons [s] = s"
| "join_reasons (s # t # ss) = s @ ''; '' @ join_reasons (t # ss)"

definition degraded_reason :: "ir_ref list \<Rightarrow> string option" where
  "degraded_reason refs =
     (let partial = filter (\<lambda>ref. ir_mode ref \<noteq> ''full'') refs in
      if partial = [] then None
      else Some (join_reasons (map (\<lambda>ref. ir_kind ref @ '': '' @
             (if truthy (ir_reason ref) then the_str (ir_reason ref) else ir_mode ref)) partial)))"

section \<open>The callback\<close>

record telemetry_callback =
  tc_ledger :: run_ledger
  tc_captured :: bool
  tc_epochs :: int
  tc_steps :: int

definition tc_record :: "ir_ref list \<Rightarrow> telemetry_callback \<Rightarrow> telemetry_callback" where
  "tc_record refs tc =
     (let tc = tc\<lparr>tc_captured := True\<rparr> in
      if lg_opted_out (tc_ledger tc) then tc
      else
        let lg = record_ir refs (tc_ledger tc) in
        tc\<lparr>tc_ledger := (case degraded_reason refs of
              None \<Rightarrow> lg
            | Some why \<Rightarrow> set_status ''degraded'' (Some (''IR capture incomplete -- '' @ why)) lg)\<rparr>)"

text \<open>The thunk gives the references; it is called at most once.\<close>

definition capture_ir_once :: "(unit \<Rightarrow> ir_ref list) option \<Rightarrow> telemetry_callback \<Rightarrow> telemetry_callback" where
  "capture_ir_once thunk tc =
     (case thunk of None \<Rightarrow> tc | Some f \<Rightarrow> if tc_captured tc then tc else tc_record (f ()) tc)"

definition capture_ir_for ::
  "(string \<Rightarrow> string \<times> int) \<Rightarrow> (string \<Rightarrow> (string \<times> string) + string) \<Rightarrow> int \<Rightarrow> capture_mode
     \<Rightarrow> 'b store_arg \<Rightarrow> telemetry_callback \<Rightarrow> telemetry_callback \<times> 'b store_arg"
where
  "capture_ir_for digest_of render max_bytes policy store tc =
     (if tc_captured tc then (tc, store)
      else if lg_opted_out (tc_ledger tc) then (tc\<lparr>tc_captured := True\<rparr>, store)
      else
        let (refs, store') = capture_ir digest_of render max_bytes policy store
        in (tc_record refs tc, store'))"

definition on_step_start :: "(unit \<Rightarrow> ir_ref list) option \<Rightarrow> telemetry_callback \<Rightarrow> telemetry_callback" where
  "on_step_start thunk tc = capture_ir_once thunk tc"

definition on_step_end :: "telemetry_callback \<Rightarrow> telemetry_callback" where
  "on_step_end tc = tc\<lparr>tc_steps := tc_steps tc + 1\<rparr>"

definition on_epoch_end :: "int \<Rightarrow> telemetry_callback \<Rightarrow> telemetry_callback" where
  "on_epoch_end epoch tc = tc\<lparr>tc_epochs := max (tc_epochs tc) (epoch + 1)\<rparr>"

section \<open>What the store promises\<close>

definition holds :: "'b codecs \<Rightarrow> 'b directory \<Rightarrow> string \<Rightarrow> string \<Rightarrow> bool" where
  "holds c d sha256 suffix \<longleftrightarrow> suffix \<in> fst ` set (bc_codecs c) \<and> map_of d (sha256 @ suffix) \<noteq> None"

text \<open>Every digest is stored under one codec, and decodes to a t with that digest.\<close>

definition store_ok :: "'b codecs \<Rightarrow> 'b directory \<Rightarrow> bool" where
  "store_ok c d \<longleftrightarrow> distinct (map fst d) \<and>
     (\<forall>sha256 suffix enc dec blob. length sha256 = 64 \<longrightarrow> (suffix, enc, dec) \<in> set (bc_codecs c)
        \<longrightarrow> map_of d (sha256 @ suffix) = Some blob
        \<longrightarrow> (\<exists>t. dec blob = Some t \<and> fst (bc_digest_of c t) = sha256)
          \<and> (\<forall>suffix'. holds c d sha256 suffix' \<longrightarrow> suffix' = suffix))"

text \<open>The store as a map from digests to texts.\<close>

definition contents :: "'b codecs \<Rightarrow> 'b directory \<Rightarrow> string \<rightharpoonup> string" where
  "contents c d sha256 = (case get_blob c d sha256 of Inr t \<Rightarrow> Some t | Inl _ \<Rightarrow> None)"

locale blob_laws =
  fixes c :: "'b codecs"
  assumes preferred: "\<exists>dec. (bc_preferred c, bc_compress c, dec) \<in> set (bc_codecs c)"
    and suffixes: "distinct (map fst (bc_codecs c))"
    and suffix_form: "\<And>codec. codec \<in> set (bc_codecs c) \<Longrightarrow> \<exists>ext. fst codec = CHR ''.'' # ext \<and> ext \<noteq> [] \<and> CHR ''.'' \<notin> set ext"
    and decodes: "\<And>suffix enc dec. (suffix, enc, dec) \<in> set (bc_codecs c) \<Longrightarrow> dec (enc t) = Some t"
    and digest_length: "length (fst (bc_digest_of c t)) = 64"
    and digest_size: "0 \<le> snd (bc_digest_of c t)"
begin

lemma path_suffix_blob:
  assumes "length sha256 = 64" "codec \<in> set (bc_codecs c)"
  shows "path_suffix (sha256 @ fst codec) = fst codec"
proof -
  obtain ext where ext: "fst codec = CHR ''.'' # ext" "ext \<noteq> []" "CHR ''.'' \<notin> set ext"
    using suffix_form [OF assms(2)] by blast
  then have "takeWhile (\<lambda>x. x \<noteq> CHR ''.'') (rev (sha256 @ fst codec)) = rev ext"
    by (simp add: takeWhile_append)
  then show ?thesis using ext assms(1) by (simp add: path_suffix_def Let_def)
qed

lemma find_blob_Some:
  assumes "length sha256 = 64" "store_ok c d" "(suffix, enc, dec) \<in> set (bc_codecs c)" "map_of d (sha256 @ suffix) = Some blob"
  shows "find_blob c d sha256 = Inr (Some (sha256 @ suffix))"
proof -
  let ?P = "\<lambda>name. map_of d name \<noteq> None" and ?xs = "map (\<lambda>codec. sha256 @ fst codec) (bc_codecs c)"
  have "sha256 @ suffix \<in> set ?xs" using assms(3) by force
  then have "List.find ?P ?xs \<noteq> None" using assms(4) by (auto simp: find_None_iff)
  then obtain name where name: "List.find ?P ?xs = Some name" by blast
  then obtain suffix' where "name = sha256 @ suffix'" "holds c d sha256 suffix'"
    by (auto simp: find_Some_iff holds_def)
  moreover from this have "suffix' = suffix" using assms by (auto simp: store_ok_def)
  ultimately show ?thesis using name assms(1) by (simp add: find_blob_def validate_digest_def)
qed

lemma find_blob_None:
  assumes "length sha256 = 64" "\<And>suffix. \<not> holds c d sha256 suffix"
  shows "find_blob c d sha256 = Inr None"
  using assms by (force simp: find_blob_def validate_digest_def find_None_iff holds_def)

lemma get_blob_Some:
  assumes "length sha256 = 64" "store_ok c d" "(suffix, enc, dec) \<in> set (bc_codecs c)"
    "map_of d (sha256 @ suffix) = Some blob" "dec blob = Some t"
  shows "get_blob c d sha256 = Inr t"
  using find_blob_Some [OF assms(1-4)] path_suffix_blob [OF assms(1,3)] map_of_is_SomeI [OF suffixes assms(3)] assms(4,5)
  by (simp add: get_blob_def)

lemma stored_cases:
  assumes "length sha256 = 64" "store_ok c d"
  obtains (absent) "find_blob c d sha256 = Inr None" "contents c d sha256 = None" "\<And>suffix. \<not> holds c d sha256 suffix"
  | (present) suffix enc dec blob t where "(suffix, enc, dec) \<in> set (bc_codecs c)" "map_of d (sha256 @ suffix) = Some blob"
      "dec blob = Some t" "fst (bc_digest_of c t) = sha256" "find_blob c d sha256 = Inr (Some (sha256 @ suffix))"
      "get_blob c d sha256 = Inr t" "contents c d sha256 = Some t"
proof (cases "\<exists>suffix. holds c d sha256 suffix")
  case False
  then have "find_blob c d sha256 = Inr None" using find_blob_None [OF assms(1)] by blast
  then show ?thesis using False by (intro absent) (auto simp: contents_def get_blob_def)
next
  case True
  then obtain suffix enc dec blob where s: "(suffix, enc, dec) \<in> set (bc_codecs c)" "map_of d (sha256 @ suffix) = Some blob"
    by (auto simp: holds_def)
  then obtain t where t: "dec blob = Some t" "fst (bc_digest_of c t) = sha256"
    using assms unfolding store_ok_def by blast
  show ?thesis
    using present [OF s t find_blob_Some [OF assms s] get_blob_Some [OF assms s t(1)]]
      get_blob_Some [OF assms s t(1)] by (simp add: contents_def)
qed

lemma verify_blob_contents:
  assumes "length sha256 = 64" "store_ok c d"
  shows "verify_blob c d sha256 = Inr (contents c d sha256 \<noteq> None)"
  using assms
proof (cases rule: stored_cases)
  case absent
  then show ?thesis by (simp add: verify_blob_def has_blob_def)
next
  case (present suffix enc dec blob t)
  then show ?thesis by (simp add: verify_blob_def has_blob_def)
qed

lemma blob_name_eq: "length k = length sha256 \<Longrightarrow> k @ s = sha256 @ s' \<longleftrightarrow> k = sha256 \<and> s = s'"
  by simp

lemma find_blob_cong:
  assumes "\<And>suffix. map_of d (k @ suffix) = map_of d' (k @ suffix)"
  shows "find_blob c d k = find_blob c d' k"
proof -
  have "List.find (\<lambda>name. map_of d name \<noteq> None) (map (\<lambda>codec. k @ fst codec) cs)
      = List.find (\<lambda>name. map_of d' name \<noteq> None) (map (\<lambda>codec. k @ fst codec) cs)"
    for cs :: "(string \<times> (string \<Rightarrow> 'b) \<times> ('b \<Rightarrow> string option)) list"
    using assms by (induction cs) auto
  then show ?thesis by (simp add: find_blob_def)
qed

lemma contents_cong:
  assumes "\<And>suffix. map_of d (k @ suffix) = map_of d' (k @ suffix)"
  shows "contents c d k = contents c d' k"
proof -
  have "get_blob c d k = get_blob c d' k"
  proof (cases "find_blob c d' k")
    case (Inr p)
    then have "map_of d name = map_of d' name" if "p = Some name" for name
      using that assms by (auto simp: find_blob_def validate_digest_def find_Some_iff split: if_splits)
    then show ?thesis
      using Inr find_blob_cong [OF assms] by (cases p) (simp_all add: get_blob_def)
  qed (use find_blob_cong [OF assms] in \<open>simp add: get_blob_def\<close>)
  then show ?thesis by (simp add: contents_def)
qed

lemma contents_short: "length k \<noteq> 64 \<Longrightarrow> contents c d k = None"
  by (simp add: contents_def get_blob_def find_blob_def validate_digest_def)

lemma put_new:
  assumes ok: "store_ok c d" and sha: "sha256 = fst (bc_digest_of c t)" and absent: "\<And>suffix. \<not> holds c d sha256 suffix"
  defines "d' \<equiv> AList.update (sha256 @ bc_preferred c) (bc_compress c t) d"
  shows "store_ok c d'" and "contents c d' = (contents c d)(sha256 \<mapsto> t)"
proof -
  obtain dec where dec: "(bc_preferred c, bc_compress c, dec) \<in> set (bc_codecs c)" using preferred by blast
  have len: "length sha256 = 64" using digest_length sha by simp
  have get: "map_of d' (k @ suffix) = (if k = sha256 \<and> suffix = bc_preferred c then Some (bc_compress c t) else map_of d (k @ suffix))"
    if "length k = 64" for k suffix
    using that len by (auto simp: d'_def update_conv)
  show ok': "store_ok c d'"
    unfolding store_ok_def
  proof (intro conjI allI impI)
    show "distinct (map fst d')" using ok by (simp add: d'_def store_ok_def distinct_update)
    fix k suffix enc dec' blob
    assume k: "length k = 64" "(suffix, enc, dec') \<in> set (bc_codecs c)" "map_of d' (k @ suffix) = Some blob"
    show "\<exists>t. dec' blob = Some t \<and> fst (bc_digest_of c t) = k"
    proof (cases "k = sha256 \<and> suffix = bc_preferred c")
      case True
      then have "enc = bc_compress c \<and> dec' = dec"
        using eq_key_imp_eq_value [OF suffixes k(2)] dec by auto
      then show ?thesis using True k(3) get [OF k(1)] decodes [OF dec] sha by auto
    next
      case False
      then have "map_of d (k @ suffix) = Some blob" using k(3) get [OF k(1)] by auto
      then show ?thesis using ok k(1,2) unfolding store_ok_def by blast
    qed
    fix suffix'
    assume h: "holds c d' k suffix'"
    show "suffix' = suffix"
    proof (cases "k = sha256")
      case True
      have "holds c d' sha256 s \<Longrightarrow> s = bc_preferred c" for s
        using absent [of s] get [OF len, of s] by (auto simp: holds_def split: if_splits)
      moreover have "holds c d' k suffix" using k by (force simp: holds_def)
      ultimately show ?thesis using h True by blast
    next
      case False
      then have "holds c d k suffix'" "map_of d (k @ suffix) = Some blob"
        using h k get [OF k(1)] by (auto simp: holds_def)
      then show ?thesis using ok k(1,2) unfolding store_ok_def by blast
    qed
  qed
  show "contents c d' = (contents c d)(sha256 \<mapsto> t)"
  proof
    fix k
    consider "k = sha256" | "k \<noteq> sha256" "length k = 64" | "length k \<noteq> 64" by blast
    then show "contents c d' k = ((contents c d)(sha256 \<mapsto> t)) k"
    proof cases
      case 1
      have "map_of d' (sha256 @ bc_preferred c) = Some (bc_compress c t)" using get [OF len] by simp
      from get_blob_Some [OF len ok' dec this decodes [OF dec]] show ?thesis using 1 by (simp add: contents_def)
    next
      case 2
      then show ?thesis using contents_cong [of d' k d] get [OF 2(2)] by simp
    next
      case 3
      then show ?thesis using len by (auto simp: contents_short)
    qed
  qed
qed

lemma put_blob_contents:
  assumes "store_ok c d"
  shows "\<exists>d'. put_blob c None d t = Inr (d', bc_digest_of c t) \<and> store_ok c d'
    \<and> contents c d' = (let k = fst (bc_digest_of c t) in
        if contents c d k = None then (contents c d)(k \<mapsto> t) else contents c d)"
proof -
  obtain sha256 n where dig: "bc_digest_of c t = (sha256, n)" by fastforce
  have len: "length sha256 = 64" using digest_length [of t] dig by simp
  from len assms show ?thesis
  proof (cases rule: stored_cases)
    case absent
    have "put_blob c None d t = Inr (AList.update (sha256 @ bc_preferred c) (bc_compress c t) d, sha256, n)"
      using absent(1) len by (simp add: put_blob_def dig path_for_def validate_digest_def)
    then show ?thesis using put_new [OF assms _ absent(3), of t] absent(2) dig by simp
  next
    case (present suffix enc dec blob u)
    have "put_blob c None d t = Inr (d, sha256, n)"
      using present(5) by (simp add: put_blob_def dig)
    then show ?thesis using assms present(7) dig by simp
  qed
qed

lemma delete_blob_contents:
  assumes ok: "store_ok c d" and len: "length sha256 = 64"
  shows "\<exists>d'. delete_blob c d sha256 = Inr (d', contents c d sha256 \<noteq> None) \<and> store_ok c d'
    \<and> contents c d' = (contents c d)(sha256 := None)"
  using len ok
proof (cases rule: stored_cases)
  case absent
  moreover have "(contents c d)(sha256 := None) = contents c d" using absent(2) by auto
  ultimately show ?thesis using ok by (simp add: delete_blob_def)
next
  case (present suffix enc dec blob t)
  let ?d = "AList.delete (sha256 @ suffix) d"
  have get: "map_of ?d (k @ s) = (if k = sha256 \<and> s = suffix then None else map_of d (k @ s))" if "length k = 64" for k s
    using that len by (auto simp: delete_conv')
  have sub: "holds c ?d k s \<Longrightarrow> holds c d k s" if "length k = 64" for k s
    using get [OF that] by (auto simp: holds_def split: if_splits)
  have "store_ok c ?d"
    unfolding store_ok_def
  proof (intro conjI allI impI)
    show "distinct (map fst ?d)" using ok by (simp add: store_ok_def distinct_delete)
    fix k s e de b
    assume k: "length k = 64" "(s, e, de) \<in> set (bc_codecs c)" "map_of ?d (k @ s) = Some b"
    then have "map_of d (k @ s) = Some b" using get [OF k(1)] by (auto split: if_splits)
    with ok k(1,2) have *: "(\<exists>t. de b = Some t \<and> fst (bc_digest_of c t) = k) \<and> (\<forall>s'. holds c d k s' \<longrightarrow> s' = s)"
      unfolding store_ok_def by blast
    then show "\<exists>t. de b = Some t \<and> fst (bc_digest_of c t) = k" by blast
    show "holds c ?d k s' \<Longrightarrow> s' = s" for s' using * sub [OF k(1)] by blast
  qed
  moreover have "contents c ?d = (contents c d)(sha256 := None)"
  proof
    fix k
    consider "k = sha256" | "k \<noteq> sha256" "length k = 64" | "length k \<noteq> 64" by blast
    then show "contents c ?d k = ((contents c d)(sha256 := None)) k"
    proof cases
      case 1
      have "\<not> holds c ?d sha256 s" for s
        using sub [OF len, of s] get [OF len, of s] ok present(1,2) len unfolding store_ok_def
        by (metis holds_def)
      from find_blob_None [OF len this] show ?thesis using 1 by (simp add: contents_def get_blob_def)
    next
      case 2
      then show ?thesis using contents_cong [of ?d k d] get [OF 2(2)] by simp
    qed (use len in \<open>auto simp: contents_short\<close>)
  qed
  ultimately show ?thesis using present(5,7) by (simp add: delete_blob_def)
qed

subsection \<open>Captured artifacts\<close>

lemma put_blob_cases:
  assumes "store_ok c d" "put_blob c io d t = Inr (d', r)"
  shows "store_ok c d'" "contents c d' (fst (bc_digest_of c t)) \<noteq> None"
    "contents c d k \<noteq> None \<Longrightarrow> contents c d' k \<noteq> None"
proof -
  have "put_blob c None d t = Inr (d', r)"
    using assms(2) by (cases io; cases "the io") (auto simp: put_blob_def res_simps split: prod.splits if_splits)
  then have "store_ok c d' \<and> contents c d' = (let k = fst (bc_digest_of c t) in
      if contents c d k = None then (contents c d)(k \<mapsto> t) else contents c d)"
    using put_blob_contents [OF assms(1), of t] by auto
  then show "store_ok c d'" "contents c d' (fst (bc_digest_of c t)) \<noteq> None"
    "contents c d k \<noteq> None \<Longrightarrow> contents c d' k \<noteq> None"
    by (auto simp: Let_def split: if_splits)
qed

text \<open>A reference is well formed, and a full one has its blob in the store.\<close>

definition ref_stored :: "'b directory \<Rightarrow> ir_ref \<Rightarrow> bool" where
  "ref_stored d ref \<longleftrightarrow> ref_ok ref \<and> (ir_mode ref = ''full'' \<longrightarrow>
     (\<exists>sha256. ir_sha256 ref = JStr sha256 \<and> length sha256 = 64 \<and> contents c d sha256 \<noteq> None))"

lemma capture_ref_ok:
  assumes "\<not> blank kind" "0 \<le> n" "length sha256 = 64 \<and> mode \<in> {''full'', ''hash_only''} \<or> mode = ''skipped'' \<and> (\<exists>s. why = JStr s \<and> \<not> blank s)"
  shows "ref_ok (capture_ref kind sha256 n mode why)"
  using assms
  by (auto simp: ref_ok_def capture_ref_def IRRef_init_def one_of_def text_of_def VALID_IR_MODES_def)

lemma capture_one_stored:
  assumes ok: "store_ok c d" and kind: "\<not> blank kind"
    and cap: "capture_one (bc_digest_of c) render max_bytes store_text kind (Some (c, io, d)) = (ref, store')"
  shows "\<exists>d'. store' = Some (c, io, d') \<and> store_ok c d' \<and> ref_stored d' ref \<and> ir_kind ref = kind
    \<and> (\<forall>k. contents c d k \<noteq> None \<longrightarrow> contents c d' k \<noteq> None)"
proof (cases "render kind")
  case (Inl e)
  obtain exc msg where e: "e = (exc, msg)" by (cases e)
  have "\<not> blank (exc @ '' while rendering '' @ kind @ '': '' @ msg)"
    by (simp add: blank_def py_space_def)
  then show ?thesis
    using cap ok kind Inl by (auto simp: capture_one_def e ref_stored_def capture_ref_def
        intro!: capture_ref_ok [unfolded capture_ref_def])
next
  case (Inr t)
  obtain sha256 n where dig: "bc_digest_of c t = (sha256, n)" by fastforce
  have sha: "length sha256 = 64" "0 \<le> n" using digest_length [of t] digest_size [of t] dig by simp_all
  have refs: "ref_ok (capture_ref kind sha256 n mode why)" if "mode \<in> {''full'', ''hash_only''}" for mode why
    using capture_ref_ok [OF kind sha(2)] sha(1) that by blast
  consider (put) d' r where "store_text" "n \<le> max_bytes" "put_blob c io d t = Inr (d', r)"
      "ref = capture_ref kind sha256 n ''full'' JNull" "store' = Some (c, io, d')"
    | (hash) why where "ref = capture_ref kind sha256 n ''hash_only'' why" "store' = Some (c, io, d)"
    using cap by (auto simp: capture_one_def Inr dig not_less split: if_splits sum.splits)
  then show ?thesis
  proof cases
    case put
    show ?thesis
      using put_blob_cases [OF ok put(3)] put(4,5) refs [of "''full''"] dig sha
      by (intro exI [of _ d']) (simp add: ref_stored_def capture_ref_def)
  next
    case hash
    show ?thesis
      using ok hash refs [of "''hash_only''"] by (intro exI [of _ d]) (simp add: ref_stored_def capture_ref_def)
  qed
qed

lemma capture_kinds_stored:
  assumes "store_ok c d" "list_all (\<lambda>k. \<not> blank k) kinds"
    and "capture_kinds (bc_digest_of c) render max_bytes store_text kinds (Some (c, io, d)) = (refs, store')"
  shows "\<exists>d'. store' = Some (c, io, d') \<and> store_ok c d' \<and> list_all (ref_stored d') refs \<and> map ir_kind refs = kinds
    \<and> (\<forall>k. contents c d k \<noteq> None \<longrightarrow> contents c d' k \<noteq> None)"
  using assms
proof (induction kinds arbitrary: d refs)
  case (Cons kind kinds)
  obtain ref store1 where one: "capture_one (bc_digest_of c) render max_bytes store_text kind (Some (c, io, d)) = (ref, store1)"
    by fastforce
  from capture_one_stored [OF Cons.prems(1) _ one] Cons.prems(2)
  obtain d1 where d1: "store1 = Some (c, io, d1)" "store_ok c d1" "ref_stored d1 ref" "ir_kind ref = kind"
      "\<And>k. contents c d k \<noteq> None \<Longrightarrow> contents c d1 k \<noteq> None"
    by auto
  obtain refs2 where rest: "capture_kinds (bc_digest_of c) render max_bytes store_text kinds (Some (c, io, d1)) = (refs2, store')"
      "refs = ref # refs2"
    using Cons.prems(3) one d1(1) by (auto split: prod.splits)
  from Cons.IH [OF d1(2) _ rest(1)] Cons.prems(2)
  obtain d' where d': "store' = Some (c, io, d')" "store_ok c d'" "list_all (ref_stored d') refs2" "map ir_kind refs2 = kinds"
      "\<And>k. contents c d1 k \<noteq> None \<Longrightarrow> contents c d' k \<noteq> None"
    by auto
  have "ref_stored d' ref" using d1(3) d'(5) by (auto simp: ref_stored_def)
  then show ?case using d' d1 rest(2) by auto
next
  case (Nil d refs)
  then show ?case by (auto intro!: exI [of _ d])
qed

end

section \<open>Properties of captured IR\<close>

text \<open>A concrete codec, and a digest that keeps the first 64 characters.\<close>

definition plain_codecs :: "string codecs" where
  "plain_codecs = \<lparr>bc_codecs = [(''.gz'', rev, Some \<circ> rev), (''.zst'', \<lambda>t. t, Some)], bc_preferred = ''.zst'',
     bc_compress = (\<lambda>t. t), bc_digest_of = (\<lambda>t. (take 64 (t @ replicate 64 (CHR ''0'')), int (length t)))\<rparr>"

interpretation plain: blob_laws plain_codecs
  by unfold_locales (auto simp: plain_codecs_def)

text \<open>
  C18. The blob store is a map from digests to texts: \<open>put\<close> adds the text under its digest, or changes nothing when
  the digest is already stored under any codec; \<open>delete\<close> removes the digest; \<open>verify\<close> holds exactly
  for the stored digests. All three keep the invariant that a digest has one file and that the file decodes to a
  text with that digest.
\<close>

theorem blob_store_refines_map:
  assumes "blob_laws c" "store_ok c d" "length sha256 = 64"
  shows "(\<exists>d'. put_blob c None d t = Inr (d', bc_digest_of c t) \<and> store_ok c d'
        \<and> contents c d' = (let k = fst (bc_digest_of c t) in
            if contents c d k = None then (contents c d)(k \<mapsto> t) else contents c d))
    \<and> (\<exists>d'. delete_blob c d sha256 = Inr (d', contents c d sha256 \<noteq> None) \<and> store_ok c d'
        \<and> contents c d' = (contents c d)(sha256 := None))
    \<and> verify_blob c d sha256 = Inr (contents c d sha256 \<noteq> None)"
  using blob_laws.put_blob_contents [OF assms(1,2)] blob_laws.delete_blob_contents [OF assms]
    blob_laws.verify_blob_contents [OF assms(1,3,2)] by blast

definition demo_digest :: string where
  "demo_digest = ''module'' @ replicate 58 (CHR ''0'')"

theorem blob_store_refines_map_witness:
  "verify_blob plain_codecs [] demo_digest = Inr False
   \<and> (\<exists>d'. put_blob plain_codecs None [] ''module'' = Inr (d', demo_digest, 6)
        \<and> contents plain_codecs d' = [demo_digest \<mapsto> ''module''])"
proof -
  have none: "contents plain_codecs [] k = None" for k
    by (simp add: contents_def get_blob_def find_blob_def validate_digest_def plain_codecs_def)
  have dig: "bc_digest_of plain_codecs ''module'' = (demo_digest, 6)" by code_simp
  have ok: "store_ok plain_codecs []" by (simp add: store_ok_def)
  have len: "length demo_digest = 64" by (simp add: demo_digest_def)
  have "contents plain_codecs [] = Map.empty" using none by auto
  then show ?thesis
    using blob_store_refines_map [OF plain.blob_laws_axioms ok len, of "''module''"] by (auto simp: dig)
qed

text \<open>
  C19. When the callback captured the IR of a step and the run's status is still \<open>complete\<close>, every configured
  artifact was captured in full, its row entry is well formed, and the blob store holds a blob that verifies under the
  recorded digest.
\<close>

theorem complete_run_has_blobs:
  assumes "blob_laws c" "store_ok c d" "\<not> tc_captured tc" "lg_status (tc_ledger tc) = ''complete''" "lg_ir (tc_ledger tc) = []"
    and "capture_ir_for (bc_digest_of c) render max_bytes (resolve_capture_mode value env) (Some (c, io, d)) tc = (tc', store')"
    and "lg_status (tc_ledger tc') = ''complete''"
  shows "tc_captured tc' \<and> map ir_kind (lg_ir (tc_ledger tc')) = cm_kinds (resolve_capture_mode value env)
    \<and> (\<exists>d'. store' = Some (c, io, d') \<and> list_all (\<lambda>ref. ref_ok ref \<and> ir_mode ref = ''full''
          \<and> verify_blob c d' (the_str (ir_sha256 ref)) = Inr True) (lg_ir (tc_ledger tc')))"
proof -
  let ?mode = "resolve_capture_mode value env"
  obtain refs where cap: "capture_ir (bc_digest_of c) render max_bytes ?mode (Some (c, io, d)) = (refs, store')"
      "tc' = tc_record refs tc"
    using assms(3,4,6) by (auto simp: capture_ir_for_def lg_opted_out_def split: prod.splits)
  have kinds: "list_all (\<lambda>k. \<not> blank k) (cm_kinds ?mode)" "\<not> cm_enabled ?mode \<Longrightarrow> cm_kinds ?mode = []"
    by (auto simp: resolve_capture_mode_def IRCaptureMode_init_def Let_def blank_def py_space_def)
  have "capture_kinds (bc_digest_of c) render max_bytes (cm_store_text ?mode) (cm_kinds ?mode) (Some (c, io, d)) = (refs, store')"
    using cap(1) kinds(2) by (cases "cm_enabled ?mode") (auto simp: capture_ir_def)
  from blob_laws.capture_kinds_stored [OF assms(1,2) kinds(1) this]
  obtain d' where d': "store' = Some (c, io, d')" "store_ok c d'" "list_all (blob_laws.ref_stored c d') refs"
      "map ir_kind refs = cm_kinds ?mode"
    by blast
  have lg: "lg_ir (tc_ledger tc') = refs" "degraded_reason refs = None"
    using assms(4,5,7) by (auto simp: cap(2) tc_record_def lg_opted_out_def record_ir_def set_status_def Let_def
        split: option.splits if_splits)
  then have full: "ir_mode ref = ''full''" if "ref \<in> set refs" for ref
    using that by (auto simp: degraded_reason_def Let_def filter_empty_conv split: if_splits)
  have "ref_ok ref \<and> verify_blob c d' (the_str (ir_sha256 ref)) = Inr True" if "ref \<in> set refs" for ref
    using d'(3) that full [OF that] blob_laws.verify_blob_contents [OF assms(1) _ d'(2)]
    by (auto simp: list_all_iff blob_laws.ref_stored_def [OF assms(1)])
  then show ?thesis
    using d' full lg(1) cap(2) by (auto simp: list_all_iff tc_record_def Let_def)
qed

definition demo_render :: "string \<Rightarrow> (string \<times> string) + string" where
  "demo_render kind = Inr (''module '' @ kind)"

definition demo_callback :: telemetry_callback where
  "demo_callback = \<lparr>tc_ledger = demo_ledger ''complete'', tc_captured = False, tc_epochs = 0, tc_steps = 0\<rparr>"

definition demo_refs :: "ir_ref list" where
  "demo_refs = map (\<lambda>kind. capture_ref kind (fst (bc_digest_of plain_codecs (''module '' @ kind)))
     (snd (bc_digest_of plain_codecs (''module '' @ kind))) ''full'' JNull) [''jaxpr'', ''stablehlo'']"

theorem complete_run_has_blobs_witness:
  "\<exists>d'. snd (capture_ir_for (bc_digest_of plain_codecs) demo_render 100 (resolve_capture_mode None None)
       (Some (plain_codecs, None, [])) demo_callback) = Some (plain_codecs, None, d')
    \<and> list_all (\<lambda>ref. ref_ok ref \<and> ir_mode ref = ''full''
        \<and> verify_blob plain_codecs d' (the_str (ir_sha256 ref)) = Inr True) demo_refs"
proof -
  let ?run = "capture_ir_for (bc_digest_of plain_codecs) demo_render 100 (resolve_capture_mode None None)
    (Some (plain_codecs, None, [])) demo_callback"
  have fst: "fst ?run = demo_callback\<lparr>tc_captured := True, tc_ledger := (demo_ledger ''complete'')\<lparr>lg_ir := demo_refs\<rparr>\<rparr>"
    by code_simp
  have ok: "store_ok plain_codecs []" by (simp add: store_ok_def)
  obtain tc' st where run: "?run = (tc', st)" by fastforce
  then have "tc' = demo_callback\<lparr>tc_captured := True, tc_ledger := (demo_ledger ''complete'')\<lparr>lg_ir := demo_refs\<rparr>\<rparr>"
    using fst by simp
  with complete_run_has_blobs [OF plain.blob_laws_axioms ok _ _ _ run] show ?thesis
    unfolding run by (simp add: demo_callback_def demo_ledger_def)
qed

end
