(* ===== verification/Telemetry_Compact.thy ===== *)
theory Telemetry_Compact
  imports Telemetry_Store
begin

text \<open>
  Compaction of the ledger: \<open>telemetry/compact.py\<close>.

  The file operations of a compaction are a list (write the new sealed file, archive the old sealed
  files, archive the segments), so that a crash is a prefix of it. Compaction relies on the row
  format through the locale \<open>row_codec\<close>: a row that was read can be written and read again,
  up to a normal form that keeps its key.
\<close>

section \<open>Deduplication\<close>

definition dedup_step ::
  "('r \<Rightarrow> 'k) \<Rightarrow> 'r \<Rightarrow> ('k \<rightharpoonup> 'r) \<times> 'k list \<Rightarrow> ('k \<rightharpoonup> 'r) \<times> 'k list"
where
  "dedup_step key row = (\<lambda>(latest, order).
     (latest(key row \<mapsto> row), if latest (key row) = None then order @ [key row] else order))"

definition dedup_by :: "('r \<Rightarrow> 'k) \<Rightarrow> 'r list \<Rightarrow> 'r list" where
  "dedup_by key rows = (let (latest, order) = fold (dedup_step key) rows (Map.empty, []) in map (the \<circ> latest) order)"

definition row_key :: "run_ledger_record \<Rightarrow> string \<times> string" where
  "row_key r = (rl_run_id r, rl_kind r)"

definition dedup :: "run_ledger_record list \<Rightarrow> run_ledger_record list" where
  "dedup rows = dedup_by row_key rows"

section \<open>Compaction\<close>

record compact_result =
  cr_rows_read :: nat
  cr_rows_kept :: nat
  cr_segments_archived :: nat
  cr_blobs_deleted :: nat
  cr_blobs_kept :: nat
  cr_bytes_reclaimed :: int
  cr_dry_run :: bool

definition rows_superseded :: "compact_result \<Rightarrow> nat" where
  "rows_superseded cr = cr_rows_read cr - cr_rows_kept cr"

definition segment_count :: "ledger_fs \<Rightarrow> nat" where
  "segment_count fs = length (jsonl_files (fs_segments fs))"

definition should_compact :: "nat \<Rightarrow> ledger_fs \<Rightarrow> bool" where
  "should_compact threshold fs = (threshold \<le> segment_count fs)"

text \<open>The digests a decoded line names: \<open>ref.get("sha256")\<close> for every entry of \<open>raw.get("ir", ()) or ()\<close>.\<close>

definition no_get :: exn where
  "no_get = Exn AttributeError ''object has no attribute get'' []"

definition ref_digest :: "json \<Rightarrow> json list res" where
  "ref_digest ref = (case ref of
     JObj kw \<Rightarrow>
       let digest = obj_get kw ''sha256'' in
       if \<not> truthy digest then Inr []
       else if hashable digest then Inr [digest]
       else Inl (Exn TypeError ''unhashable type'' [])
   | _ \<Rightarrow> Inl no_get)"

definition line_digests :: "line \<Rightarrow> json list res" where
  "line_digests l = (case l of
     Json (JObj d) \<Rightarrow>
       let ir = obj_get d ''ir'' in
       if truthy ir then bind_res (iterate ir) (\<lambda>refs. bind_res (traverse_res ref_digest refs) (\<lambda>ds. Inr (concat ds)))
       else Inr []
   | Json _ \<Rightarrow> Inl no_get
   | _ \<Rightarrow> Inr [])"

definition file_digests :: "string \<times> ledger_file \<Rightarrow> json list res" where
  "file_digests = (\<lambda>(path, f).
     bind_res (file_text path f) (\<lambda>ls. bind_res (traverse_res line_digests ls) (\<lambda>ds. Inr (concat ds))))"

definition referenced_digests :: "ledger_fs \<Rightarrow> json list res" where
  "referenced_digests fs =
     bind_res (traverse_res file_digests
         (jsonl_files (fs_sealed fs) @ jsonl_files (fs_segments fs) @ jsonl_files (fs_archive fs)))
       (\<lambda>ds. Inr (concat ds))"

datatype fs_op = WriteSealed string "line list" | ArchiveSealed string | ArchiveSegment string

text \<open>\<open>shutil.move\<close> onto an existing file replaces it.\<close>

fun apply_op :: "fs_op \<Rightarrow> ledger_fs \<Rightarrow> ledger_fs" where
  "apply_op (WriteSealed target ls) fs = fs\<lparr>fs_sealed := AList.update target (Lines ls) (fs_sealed fs)\<rparr>"
| "apply_op (ArchiveSealed name) fs = (case map_of (fs_sealed fs) name of
     None \<Rightarrow> fs
   | Some f \<Rightarrow> fs\<lparr>fs_sealed := AList.delete name (fs_sealed fs),
                   fs_archive := AList.update (''sealed-'' @ name) f (fs_archive fs)\<rparr>)"
| "apply_op (ArchiveSegment name) fs = (case map_of (fs_segments fs) name of
     None \<Rightarrow> fs
   | Some f \<Rightarrow> fs\<lparr>fs_segments := AList.delete name (fs_segments fs),
                   fs_archive := AList.update (''segment-'' @ name) f (fs_archive fs)\<rparr>)"

text \<open>The name of the new sealed file: one past the last of the sorted names.\<close>

definition next_sealed :: "ledger_fs \<Rightarrow> string res" where
  "next_sealed fs = (let existing = map fst (jsonl_files (fs_sealed fs)) in
     if existing = [] then Inr (fmt05 0 @ ''.jsonl'')
     else case py_int (stem (last existing)) of
       None \<Rightarrow> Inl (Exn ValueError ''invalid literal for int()'' [])
     | Some i \<Rightarrow> Inr (fmt05 (i + 1) @ ''.jsonl''))"

definition compact_ops :: "string \<Rightarrow> run_ledger_record list \<Rightarrow> ledger_fs \<Rightarrow> fs_op list" where
  "compact_ops target kept fs =
     WriteSealed target (map to_json_line kept)
       # map (ArchiveSealed \<circ> fst) (jsonl_files (fs_sealed fs))
       @ map (ArchiveSegment \<circ> fst) (jsonl_files (fs_segments fs))"

text \<open>The strict read of a compaction, which refuses an unreadable row.\<close>

definition compact_rows :: "ledger_fs \<Rightarrow> run_ledger_record list res" where
  "compact_rows fs = (case iter_rows True True fs of
     Inr (rows, _) \<Rightarrow> Inr rows
   | Inl e \<Rightarrow>
       if class_of e \<in> {LedgerRecordError, SchemaVersionMismatchError} then
         ledger_error ''refusing to compact: a ledger row is unreadable'' [ArgCause e]
       else Inl e)"

text \<open>Garbage collection: every digest of the store that no row names, in order.\<close>

fun gc_blobs ::
  "'b codecs \<Rightarrow> ('b \<Rightarrow> int) \<Rightarrow> json list \<Rightarrow> string list \<Rightarrow> 'b directory \<Rightarrow> nat \<Rightarrow> int \<Rightarrow> 'b directory \<times> (nat \<times> int) res"
where
  "gc_blobs c st_size referenced [] blobs deleted bytes = (blobs, Inr (deleted, bytes))"
| "gc_blobs c st_size referenced (digest # digests) blobs deleted bytes =
     (if JStr digest \<in> set referenced then gc_blobs c st_size referenced digests blobs deleted bytes
      else case find_blob c blobs digest of
        Inl e \<Rightarrow> (blobs, Inl e)
      | Inr found \<Rightarrow>
          let bytes' = bytes + (case found of None \<Rightarrow> 0 | Some path \<Rightarrow> (case map_of blobs path of None \<Rightarrow> 0 | Some b \<Rightarrow> st_size b))
          in case delete_blob c blobs digest of
               Inl e \<Rightarrow> (blobs, Inl e)
             | Inr (blobs', existed) \<Rightarrow>
                 gc_blobs c st_size referenced digests blobs' (if existed then deleted + 1 else deleted) bytes')"

definition empty_result :: "bool \<Rightarrow> compact_result" where
  "empty_result dry = \<lparr>cr_rows_read = 0, cr_rows_kept = 0, cr_segments_archived = 0, cr_blobs_deleted = 0,
     cr_blobs_kept = 0, cr_bytes_reclaimed = 0, cr_dry_run = dry\<rparr>"

record compact_args =
  ca_force :: bool
  ca_threshold :: nat
  ca_gc_blobs :: bool
  ca_dry_run :: bool
  ca_backend :: string

definition compact_ledger ::
  "'b codecs \<Rightarrow> ('b \<Rightarrow> int) \<Rightarrow> compact_args \<Rightarrow> ledger_fs \<times> 'b directory \<Rightarrow> (ledger_fs \<times> 'b directory) \<times> compact_result res"
where
  "compact_ledger c st_size args = (\<lambda>(fs, blobs).
     if ca_backend args \<noteq> ''jsonl'' then ((fs, blobs), Inl (Exn ValueError ''unsupported ledger backend'' [ArgStr (ca_backend args)]))
     else if \<not> ca_force args \<and> \<not> should_compact (ca_threshold args) fs then ((fs, blobs), Inr (empty_result (ca_dry_run args)))
     else case compact_rows fs of
       Inl e \<Rightarrow> ((fs, blobs), Inl e)
     | Inr rows \<Rightarrow>
         let kept = dedup rows; n_segments = length (jsonl_files (fs_segments fs)) in
         if ca_dry_run args then
           ((fs, blobs),
            bind_res (referenced_digests fs) (\<lambda>referenced.
              let orphans = length (filter (\<lambda>d. JStr d \<notin> set referenced) (iter_digests c blobs))
              in Inr ((empty_result True)\<lparr>cr_rows_read := length rows, cr_rows_kept := length kept,
                   cr_segments_archived := n_segments,
                   cr_blobs_deleted := (if ca_gc_blobs args then orphans else 0),
                   cr_blobs_kept := count_blobs c blobs - (if ca_gc_blobs args then orphans else 0)\<rparr>)))
         else case next_sealed fs of
           Inl e \<Rightarrow> ((fs, blobs), Inl e)
         | Inr target \<Rightarrow>
             let fs' = fold apply_op (compact_ops target kept fs) fs;
                 res = (empty_result False)\<lparr>cr_rows_read := length rows, cr_rows_kept := length kept,
                         cr_segments_archived := n_segments\<rparr>
             in if \<not> ca_gc_blobs args then ((fs', blobs), Inr (res\<lparr>cr_blobs_kept := count_blobs c blobs\<rparr>))
                else case referenced_digests fs' of
                  Inl e \<Rightarrow> ((fs', blobs), Inl e)
                | Inr referenced \<Rightarrow>
                    (case gc_blobs c st_size referenced (iter_digests c blobs) blobs 0 0 of
                       (blobs', Inl e) \<Rightarrow> ((fs', blobs'), Inl e)
                     | (blobs', Inr (deleted, bytes)) \<Rightarrow>
                         ((fs', blobs'), Inr (res\<lparr>cr_blobs_deleted := deleted, cr_blobs_kept := count_blobs c blobs',
                            cr_bytes_reclaimed := bytes\<rparr>))))"

text \<open>The problems of \<open>verify_ledger\<close>: the run, the kind and the digest, and whether the blob is missing.\<close>

definition verify_ref :: "'b codecs \<Rightarrow> 'b directory \<Rightarrow> string \<Rightarrow> ir_ref \<Rightarrow> (string \<times> string \<times> string \<times> bool) list res" where
  "verify_ref c blobs run_id ref =
     (if ir_mode ref \<noteq> ''full'' then Inr []
      else case ir_sha256 ref of
        JStr sha256 \<Rightarrow>
          bind_res (has_blob c blobs sha256) (\<lambda>present.
            if \<not> present then Inr [(run_id, ir_kind ref, take 12 sha256, True)]
            else bind_res (verify_blob c blobs sha256) (\<lambda>intact.
              Inr (if intact then [] else [(run_id, ir_kind ref, take 12 sha256, False)])))
      | _ \<Rightarrow> Inl (Exn TypeError ''can only concatenate str'' []))"

definition verify_ledger ::
  "'b codecs \<Rightarrow> ledger_fs \<times> 'b directory \<Rightarrow> (string \<times> string \<times> string \<times> bool) list res"
where
  "verify_ledger c = (\<lambda>(fs, blobs).
     bind_res (iter_rows True False fs) (\<lambda>(rows, _).
     bind_res (traverse_res (\<lambda>row. bind_res (traverse_res (verify_ref c blobs (rl_run_id row)) (rl_ir row)) (\<lambda>ps. Inr (concat ps))) rows)
       (\<lambda>ps. Inr (concat ps))))"

section \<open>The latest row of a key\<close>

definition last_row :: "('r \<Rightarrow> 'k) \<Rightarrow> 'r list \<Rightarrow> 'k \<rightharpoonup> 'r" where
  "last_row key rows = map_of (rev (map (\<lambda>r. (key r, r)) rows))"

lemma last_row_append: "last_row key (xs @ ys) = last_row key xs ++ last_row key ys"
  by (simp add: last_row_def map_of_append)

lemma last_row_Nil [simp]: "last_row key [] = Map.empty"
  by (simp add: last_row_def)

lemma last_row_snoc: "last_row key (xs @ [x]) = (last_row key xs)(key x \<mapsto> x)"
  by (simp add: last_row_def)

lemma last_row_SomeD: "last_row key rows k = Some r \<Longrightarrow> r \<in> set rows \<and> key r = k"
  by (auto simp: last_row_def dest: map_of_SomeD)

lemma last_row_eq_None: "last_row key rows k = None \<longleftrightarrow> k \<notin> key ` set rows"
  by (auto simp: last_row_def map_of_eq_None_iff image_image)

lemma dedup_fold: "fold (dedup_step key) rows (Map.empty, []) = (last_row key rows, fromkeys (map key rows))"
proof (induction rows rule: rev_induct)
  case (snoc r rows)
  then show ?case
    by (auto simp: dedup_step_def last_row_snoc fromkeys_snoc last_row_eq_None)
qed (simp add: fromkeys_def)

lemma dedup_by_eq: "dedup_by key rows = map (the \<circ> last_row key rows) (fromkeys (map key rows))"
  by (simp add: dedup_by_def dedup_fold)

lemma dedup_by_keys: "map key (dedup_by key rows) = fromkeys (map key rows)"
proof -
  have "key (the (last_row key rows k)) = k" if "k \<in> key ` set rows" for k
    using that by (cases "last_row key rows k") (auto simp: last_row_eq_None dest: last_row_SomeD)
  then show ?thesis by (auto simp: dedup_by_eq intro!: map_idI)
qed

lemma set_dedup_by: "set (dedup_by key rows) \<subseteq> set rows"
proof
  fix r
  assume "r \<in> set (dedup_by key rows)"
  then obtain k where k: "k \<in> key ` set rows" "r = the (last_row key rows k)" by (auto simp: dedup_by_eq)
  then show "r \<in> set rows"
    by (cases "last_row key rows k") (auto simp: last_row_eq_None dest: last_row_SomeD)
qed

lemma last_row_dedup_by: "last_row key (dedup_by key rows) = last_row key rows"
proof
  fix k
  let ?d = "dedup_by key rows"
  have dist: "distinct (map key ?d)" by (simp add: dedup_by_keys)
  show "last_row key ?d k = last_row key rows k"
  proof (cases "k \<in> key ` set rows")
    case True
    then obtain r where r: "last_row key rows k = Some r" by (cases "last_row key rows k") (auto simp: last_row_eq_None)
    then have "r \<in> set ?d" using True by (force simp: dedup_by_eq)
    then have "(k, r) \<in> set (rev (map (\<lambda>r. (key r, r)) ?d))" using last_row_SomeD [OF r] by force
    then have "last_row key ?d k = Some r"
      unfolding last_row_def by (intro map_of_is_SomeI) (use dist in \<open>simp_all add: comp_def flip: rev_map\<close>)
    then show ?thesis using r by simp
  next
    case False
    moreover have "set (map key ?d) = key ` set rows" by (simp add: dedup_by_keys)
    ultimately have "last_row key ?d k = None" by (simp add: last_row_eq_None)
    with False show ?thesis using last_row_eq_None [of key rows k] by simp
  qed
qed

section \<open>Compaction over a row format\<close>

locale row_codec =
  fixes read :: "'l \<Rightarrow> 'r res"
    and emit :: "'r \<Rightarrow> 'l"
    and norm :: "'r \<Rightarrow> 'r"
    and key :: "'r \<Rightarrow> 'k"
    and line_ok :: "'l \<Rightarrow> bool"
  assumes reread: "line_ok l \<Longrightarrow> read l = Inr r \<Longrightarrow> read (emit r) = Inr (norm r)"
    and emit_ok: "line_ok l \<Longrightarrow> read l = Inr r \<Longrightarrow> line_ok (emit r)"
    and key_norm: "key (norm r) = key r"
    and norm_norm: "norm (norm r) = norm r"
begin

lemma read_back:
  assumes "list_all2 (\<lambda>l r. read l = Inr r) ls rows" "list_all line_ok ls" "set kept \<subseteq> set rows"
  shows "traverse_res read (map emit kept) = Inr (map norm kept)"
proof -
  have "read (emit r) = Inr (norm r)" if "r \<in> set rows" for r
    using list_all2_pick(2) [OF assms(1) that] assms(2) reread by (auto simp: list_all_iff)
  then show ?thesis using assms(3)
    by (auto simp: traverse_res_eq_Inr list_all2_map1 list_all2_map2 list_all2_same)
qed

lemma last_row_norm: "last_row key (map norm rows) k = map_option norm (last_row key rows k)"
  by (induction rows rule: rev_induct) (auto simp: last_row_snoc key_norm)

text \<open>
  The rows of a compaction that stopped somewhere: some of the old sealed rows, the new sealed rows,
  and the rows of the segments that are still live.
\<close>

lemma crash_latest:
  assumes "set S' \<subseteq> set S"
  shows "map_option norm (last_row key (S' @ map norm (dedup_by key (S @ G @ G')) @ G') k)
    = map_option norm (last_row key (S @ G @ G') k)"
proof (cases "last_row key G' k")
  case None
  have "last_row key (map norm (dedup_by key (S @ G @ G'))) k = map_option norm (last_row key (S @ G @ G') k)"
    by (simp add: last_row_norm last_row_dedup_by)
  moreover have "last_row key S' k = None" if "last_row key (S @ G @ G') k = None"
    using that assms by (auto simp: last_row_eq_None)
  ultimately show ?thesis
    using None by (cases "last_row key (S @ G @ G') k") (auto simp: last_row_append [of _ S'] last_row_append [of _ "map norm X" for X] map_add_def norm_norm)
next
  case (Some r)
  then show ?thesis by (simp add: last_row_append map_add_def)
qed

end

definition line_ok :: "line \<Rightarrow> bool" where
  "line_ok l = (case l of Json j \<Rightarrow> context_distinct j | _ \<Rightarrow> True)"

interpretation ledger: row_codec read_line to_json_line normal_record row_key line_ok
proof
  fix l r
  assume l: "line_ok l" "read_line l = Inr r"
  then obtain j where j: "l = Json j" "read_row_upgrading j = Inr r" "context_distinct j"
    by (cases l) (auto simp: read_line_def line_ok_def)
  note ok = read_row_upgrading_ok [OF j(2,3)]
  show "read_line (to_json_line r) = Inr (normal_record r)"
    using read_written [OF ok] by (simp add: read_line_def to_json_line_def)
  show "line_ok (to_json_line r)"
    using context_distinct_written [OF ok(1)] by (simp add: line_ok_def to_json_line_def)
qed (simp_all add: row_key_def normal_record_idem)


section \<open>Reading a ledger strictly\<close>

definition file_lines :: "ledger_file \<Rightarrow> line list" where
  "file_lines f = (case file_text [] f of Inl _ \<Rightarrow> [] | Inr ls \<Rightarrow> filter (\<lambda>l. l \<noteq> Blank) ls)"

definition readable :: "ledger_file \<Rightarrow> bool" where
  "readable f = (f \<noteq> Unreadable \<and> f \<noteq> NotUtf8)"

lemma file_lines_Lines [simp]: "file_lines (Lines ls) = filter (\<lambda>l. l \<noteq> Blank) ls"
  by (simp add: file_lines_def file_text_def)

lemma readable_Lines [simp]: "readable (Lines ls)"
  by (simp add: readable_def)

lemma file_text_readable: "readable f \<Longrightarrow> \<exists>ls. file_text path f = Inr ls \<and> file_lines f = filter (\<lambda>l. l \<noteq> Blank) ls"
  by (cases f) (auto simp: readable_def file_text_def file_lines_def)

definition all_lines :: "(string \<times> ledger_file) list \<Rightarrow> line list" where
  "all_lines srcs = concat (map (file_lines \<circ> snd) srcs)"

lemma all_lines_append [simp]: "all_lines (xs @ ys) = all_lines xs @ all_lines ys"
  by (simp add: all_lines_def)

lemma iter_lines_strict:
  "iter_lines True path n ls = bind_res (traverse_res read_line (filter (\<lambda>l. l \<noteq> Blank) ls)) (\<lambda>rs. Inr (rs, []))"
proof (induction ls arbitrary: n)
  case (Cons l ls)
  then show ?case by (cases "read_line l") (auto simp: bind_res_assoc)
qed simp

lemma iter_file_strict:
  assumes "readable f"
  shows "iter_file True (path, f) = bind_res (traverse_res read_line (file_lines f)) (\<lambda>rs. Inr (rs, []))"
  using file_text_readable [OF assms, of path] by (auto simp: iter_file_def iter_lines_strict)

lemma iter_file_readable: "iter_file True (path, f) = Inr rw \<Longrightarrow> readable f"
  by (cases f) (auto simp: iter_file_def file_text_def readable_def)

definition strict_rows :: "(string \<times> ledger_file) list \<Rightarrow> run_ledger_record list \<Rightarrow> bool" where
  "strict_rows srcs rows \<longleftrightarrow> (\<forall>f \<in> snd ` set srcs. readable f) \<and> list_all2 (\<lambda>l r. read_line l = Inr r) (all_lines srcs) rows"

lemma strict_rows_Nil: "strict_rows [] rows \<longleftrightarrow> rows = []"
  by (simp add: strict_rows_def all_lines_def)

lemma strict_rows_append:
  "strict_rows (xs @ ys) rows \<longleftrightarrow> (\<exists>r1 r2. rows = r1 @ r2 \<and> strict_rows xs r1 \<and> strict_rows ys r2)"
proof
  assume "strict_rows (xs @ ys) rows"
  then show "\<exists>r1 r2. rows = r1 @ r2 \<and> strict_rows xs r1 \<and> strict_rows ys r2"
    by (auto simp: strict_rows_def list_all2_append1)
qed (auto simp: strict_rows_def intro: list_all2_appendI)

lemma traverse_iter_file_strict:
  "traverse_res (iter_file True) srcs = Inr rws \<Longrightarrow> strict_rows srcs (concat (map fst rws)) \<and> concat (map snd rws) = []"
proof (induction srcs arbitrary: rws)
  case (Cons src srcs)
  obtain path f where src: "src = (path, f)" by fastforce
  from Cons.prems obtain rw rws' where rw: "iter_file True src = Inr rw" "traverse_res (iter_file True) srcs = Inr rws'" "rws = rw # rws'"
    by (auto simp: bind_res_eq_Inr)
  then have f: "readable f" using iter_file_readable [of path f rw] by (simp add: src)
  then have "strict_rows [src] (fst rw)" "snd rw = []"
    using rw(1) by (auto simp: src iter_file_strict bind_res_eq_Inr traverse_res_eq_Inr strict_rows_def all_lines_def)
  with Cons.IH [OF rw(2)] show ?case
    using strict_rows_append [of "[src]" srcs] by (auto simp: rw(3))
qed (simp add: strict_rows_Nil)

lemma strict_rows_traverse:
  "strict_rows srcs rows \<Longrightarrow> \<exists>rws. traverse_res (iter_file True) srcs = Inr rws \<and> concat (map fst rws) = rows"
proof (induction srcs arbitrary: rows)
  case (Cons src srcs)
  then obtain r1 r2 where r: "rows = r1 @ r2" "strict_rows [src] r1" "strict_rows srcs r2"
    using strict_rows_append [of "[src]" srcs rows] by auto
  obtain path f where src: "src = (path, f)" by fastforce
  with r(2) have f: "readable f" by (simp add: strict_rows_def)
  have "iter_file True src = Inr (r1, [])"
    using r(2) by (simp add: src iter_file_strict [OF f] strict_rows_def all_lines_def flip: traverse_res_eq_Inr)
  then show ?case using Cons.IH [OF r(3)] r(1) by auto
qed (simp add: strict_rows_Nil)

lemma iter_rows_strict: "iter_rows True True fs = Inr (rows, ws) \<longleftrightarrow> strict_rows (ledger_sources True fs) rows \<and> ws = []"
proof
  assume "iter_rows True True fs = Inr (rows, ws)"
  then show "strict_rows (ledger_sources True fs) rows \<and> ws = []"
    by (auto simp: iter_rows_def bind_res_eq_Inr dest: traverse_iter_file_strict)
next
  assume "strict_rows (ledger_sources True fs) rows \<and> ws = []"
  then show "iter_rows True True fs = Inr (rows, ws)"
    using strict_rows_traverse [of "ledger_sources True fs" rows] traverse_iter_file_strict
    by (fastforce simp: iter_rows_def)
qed

section \<open>The states of a compaction\<close>

lemma delete_filter: "AList.delete k d = filter (\<lambda>x. fst x \<noteq> k) d"
  by (induction d) auto

lemma archive_sealed:
  "fs_sealed (fold apply_op (map ArchiveSealed ns) fs) = filter (\<lambda>x. fst x \<notin> set ns) (fs_sealed fs)
   \<and> fs_segments (fold apply_op (map ArchiveSealed ns) fs) = fs_segments fs"
proof (induction ns arbitrary: fs)
  case (Cons n ns)
  show ?case
  proof (cases "map_of (fs_sealed fs) n")
    case None
    then have "filter (\<lambda>x. fst x \<noteq> n) (fs_sealed fs) = fs_sealed fs"
      by (force simp: map_of_eq_None_iff intro!: filter_True)
    moreover have "filter (\<lambda>x. fst x \<noteq> n \<and> fst x \<notin> set ns) (fs_sealed fs)
        = filter (\<lambda>x. fst x \<notin> set ns) (filter (\<lambda>x. fst x \<noteq> n) (fs_sealed fs))"
      by (simp add: conj_commute)
    ultimately show ?thesis using Cons.IH [of fs] None by simp
  next
    case (Some f)
    then show ?thesis using Cons.IH by (simp add: delete_filter conj_commute)
  qed
qed simp

lemma archive_segments:
  "fs_segments (fold apply_op (map ArchiveSegment ns) fs) = filter (\<lambda>x. fst x \<notin> set ns) (fs_segments fs)
   \<and> fs_sealed (fold apply_op (map ArchiveSegment ns) fs) = fs_sealed fs"
proof (induction ns arbitrary: fs)
  case (Cons n ns)
  show ?case
  proof (cases "map_of (fs_segments fs) n")
    case None
    then have "filter (\<lambda>x. fst x \<noteq> n) (fs_segments fs) = fs_segments fs"
      by (force simp: map_of_eq_None_iff intro!: filter_True)
    moreover have "filter (\<lambda>x. fst x \<noteq> n \<and> fst x \<notin> set ns) (fs_segments fs)
        = filter (\<lambda>x. fst x \<notin> set ns) (filter (\<lambda>x. fst x \<noteq> n) (fs_segments fs))"
      by (simp add: conj_commute)
    ultimately show ?thesis using Cons.IH [of fs] None by simp
  next
    case (Some f)
    then show ?thesis using Cons.IH by (simp add: delete_filter conj_commute)
  qed
qed simp

lemma jsonl_files_filter: "jsonl_files (filter P d) = filter P (jsonl_files d)"
  by (simp add: jsonl_files_def filter_sort conj_commute)

lemma filter_drop:
  assumes "distinct (map fst xs)"
  shows "filter (\<lambda>x. fst x \<notin> set (take j (map fst xs))) xs = drop j xs"
  using assms
proof (induction xs arbitrary: j)
  case (Cons x xs)
  show ?case
  proof (cases j)
    case 0
    then show ?thesis by simp
  next
    case (Suc i)
    have "filter (\<lambda>y. fst y \<noteq> fst x \<and> fst y \<notin> set (take i (map fst xs))) xs
        = filter (\<lambda>y. fst y \<notin> set (take i (map fst xs))) xs"
      using Cons.prems by (intro filter_cong) (auto simp: image_iff)
    then show ?thesis using Cons Suc by simp
  qed
qed simp

lemma distinct_jsonl_files: "distinct (map fst d) \<Longrightarrow> distinct (map fst (jsonl_files d))"
  by (simp add: jsonl_files_def distinct_map inj_on_def)

text \<open>The sealed files are numbered, as the code numbers them, and the number is in range.\<close>

definition canonical_sealed :: "ledger_fs \<Rightarrow> bool" where
  "canonical_sealed fs = (distinct (map fst (fs_sealed fs))
     \<and> (\<forall>n\<in>set (map fst (jsonl_files (fs_sealed fs))). \<exists>k<99999. n = numbered_name k))"

lemma sorted_le_last: "sorted xs \<Longrightarrow> x \<in> set xs \<Longrightarrow> x \<le> last xs"
  by (induction xs) auto

lemma next_sealed_canonical:
  assumes "canonical_sealed fs"
  shows "\<exists>k. next_sealed fs = Inr (numbered_name k) \<and> (\<forall>n\<in>set (map fst (jsonl_files (fs_sealed fs))). n < numbered_name k)"
proof (cases "jsonl_files (fs_sealed fs) = []")
  case True
  have "fmt05 0 @ ''.jsonl'' = numbered_name 0" by (simp add: numbered_name_def)
  then show ?thesis using True by (auto simp: next_sealed_def)
next
  case False
  let ?ns = "map fst (jsonl_files (fs_sealed fs))"
  have "last ?ns \<in> set ?ns" using False by (intro last_in_set) simp
  then obtain k where k: "k < 99999" "last ?ns = numbered_name k"
    using assms unfolding canonical_sealed_def by blast
  have "sorted ?ns" by (simp add: jsonl_files_def)
  then have "n \<le> last ?ns" if "n \<in> set ?ns" for n
    using that by (rule sorted_le_last)
  moreover have "numbered_name k < numbered_name (Suc k)" using k(1) by (intro numbered_name_less) simp_all
  ultimately have "\<forall>n\<in>set ?ns. n < numbered_name (Suc k)" using k(2) by (metis order_le_less_trans)
  moreover have "next_sealed fs = Inr (numbered_name (Suc k))"
    using False k(2) by (simp add: next_sealed_def) (simp add: numbered_name_def add.commute)
  ultimately show ?thesis by blast
qed

text \<open>
  After any number of the operations of a compaction: nothing has happened, or the new sealed file is
  there and the old sealed files, and after them the segments, are leaving from the front.
\<close>

lemma crash_sources:
  fixes kept :: "run_ledger_record list"
  assumes canon: "canonical_sealed fs" "next_sealed fs = Inr target" and segs: "distinct (map fst (fs_segments fs))"
  defines "S \<equiv> jsonl_files (fs_sealed fs)" and "G \<equiv> jsonl_files (fs_segments fs)"
    and "new \<equiv> (target, Lines (map to_json_line kept))"
  shows "ledger_sources True (fold apply_op (take i (compact_ops target kept fs)) fs)
    = (if i = 0 then S @ G else drop (i - 1) S @ [new] @ drop (i - 1 - length S) G)"
proof (cases i)
  case 0
  then show ?thesis by (simp add: ledger_sources_def S_def G_def)
next
  case (Suc j)
  obtain k where k: "target = numbered_name k" "\<And>n. n \<in> set (map fst S) \<Longrightarrow> n < target"
    using next_sealed_canonical [OF canon(1)] canon(2) unfolding S_def by auto
  let ?fs1 = "fs\<lparr>fs_sealed := AList.update target (Lines (map to_json_line kept)) (fs_sealed fs)\<rparr>"
  have le: "n \<le> target" if "n \<in> set (map fst (fs_sealed fs))" "jsonl n" for n
  proof -
    have "n \<in> set (map fst S)" using that by (force simp: S_def jsonl_files_def)
    then show ?thesis using k(2) by (simp add: less_imp_le)
  qed
  have "jsonl_files (AList.update target (Lines (map to_json_line kept)) (fs_sealed fs))
      = filter (\<lambda>x. fst x \<noteq> target) S @ [new]"
    unfolding S_def new_def
    by (rule jsonl_files_update_greatest [OF _ _ le]) (use canon(1) k(1) in \<open>simp_all add: canonical_sealed_def\<close>)
  moreover have "filter (\<lambda>x. fst x \<noteq> target) S = S" using k(2) by (fastforce intro!: filter_True)
  ultimately have sealed1: "jsonl_files (fs_sealed ?fs1) = S @ [new]" by simp
  have ops: "take i (compact_ops target kept fs)
      = WriteSealed target (map to_json_line kept) # map ArchiveSealed (take j (map fst S))
          @ map ArchiveSegment (take (j - length S) (map fst G))"
    by (simp add: Suc compact_ops_def S_def G_def take_map)
  let ?fs2 = "fold apply_op (map ArchiveSealed (take j (map fst S))) ?fs1"
  let ?fs3 = "fold apply_op (map ArchiveSegment (take (j - length S) (map fst G))) ?fs2"
  have "fst new \<notin> set (map fst S)" using k(2) by (auto simp: new_def)
  then have new: "fst new \<notin> set (take j (map fst S))" by (meson in_set_takeD)
  have dS: "distinct (map fst S)" using canon(1) by (simp add: S_def distinct_jsonl_files canonical_sealed_def)
  have "jsonl_files (fs_sealed ?fs3) = drop j S @ [new]"
    using archive_segments [of "take (j - length S) (map fst G)" ?fs2] archive_sealed [of "take j (map fst S)" ?fs1]
      filter_drop [OF dS] new sealed1 by (simp add: jsonl_files_filter)
  moreover have "jsonl_files (fs_segments ?fs3) = drop (j - length S) G"
    using archive_segments [of "take (j - length S) (map fst G)" ?fs2] archive_sealed [of "take j (map fst S)" ?fs1]
      filter_drop [OF distinct_jsonl_files [OF segs]] by (simp add: jsonl_files_filter G_def)
  moreover have "fold apply_op (take i (compact_ops target kept fs)) fs = ?fs3"
    unfolding ops by simp
  ultimately show ?thesis by (simp add: Suc ledger_sources_def)
qed

section \<open>Compaction keeps the latest rows\<close>

lemma compact_rows_Inr: "compact_rows fs = Inr rows \<longleftrightarrow> strict_rows (ledger_sources True fs) rows"
proof -
  have "compact_rows fs = Inr rows \<longleftrightarrow> (\<exists>ws. iter_rows True True fs = Inr (rows, ws))"
    by (auto simp: compact_rows_def split: sum.splits)
  then show ?thesis by (simp add: iter_rows_strict)
qed

definition lines_ok :: "ledger_fs \<Rightarrow> bool" where
  "lines_ok fs = list_all line_ok (all_lines (ledger_sources True fs))"

lemma strict_rows_drop:
  "strict_rows xs rows \<Longrightarrow> \<exists>r1 r2. rows = r1 @ r2 \<and> strict_rows (drop n xs) r2"
  using strict_rows_append [of "take n xs" "drop n xs" rows] by auto

lemma strict_rows_sealed:
  assumes "strict_rows srcs rows" "list_all line_ok (all_lines srcs)"
  shows "strict_rows [(target, Lines (map to_json_line (dedup rows)))] (map normal_record (dedup rows))"
proof -
  have "traverse_res read_line (map to_json_line (dedup rows)) = Inr (map normal_record (dedup rows))"
    by (rule ledger.read_back [OF _ assms(2)]) (use assms(1) set_dedup_by [of row_key rows] in \<open>auto simp: strict_rows_def dedup_def\<close>)
  moreover have "filter (\<lambda>l. l \<noteq> Blank) (map to_json_line (dedup rows)) = map to_json_line (dedup rows)"
    by (simp add: filter_empty_conv to_json_line_def filter_id_conv)
  ultimately show ?thesis
    by (simp add: strict_rows_def all_lines_def traverse_res_eq_Inr)
qed

lemma crash_rows:
  assumes canon: "canonical_sealed fs" "next_sealed fs = Inr target" "distinct (map fst (fs_segments fs))"
    and rows: "strict_rows (ledger_sources True fs) rows" "lines_ok fs"
  shows "\<exists>rows'. strict_rows (ledger_sources True (fold apply_op (take i (compact_ops target (dedup rows) fs)) fs)) rows'
    \<and> (\<forall>key. map_option normal_record (last_row row_key rows' key) = map_option normal_record (last_row row_key rows key))"
proof (cases "i = 0")
  case True
  then show ?thesis using rows(1) by auto
next
  case False
  let ?S = "jsonl_files (fs_sealed fs)" and ?G = "jsonl_files (fs_segments fs)"
  obtain rS rG where r: "rows = rS @ rG" "strict_rows ?S rS" "strict_rows ?G rG"
    using rows(1) by (auto simp: ledger_sources_def strict_rows_append)
  obtain r1 rS' where S': "rS = r1 @ rS'" "strict_rows (drop (i - 1) ?S) rS'" using strict_rows_drop [OF r(2)] by blast
  obtain r2 rG' where G': "rG = r2 @ rG'" "strict_rows (drop (i - 1 - length ?S) ?G) rG'" using strict_rows_drop [OF r(3)] by blast
  have "strict_rows (drop (i - 1) ?S @ [(target, Lines (map to_json_line (dedup rows)))] @ drop (i - 1 - length ?S) ?G)
      (rS' @ map normal_record (dedup rows) @ rG')"
    using S'(2) G'(2) strict_rows_sealed [OF rows(1)] rows(2) unfolding strict_rows_append lines_ok_def by blast
  moreover have "map_option normal_record (last_row row_key (rS' @ map normal_record (dedup rows) @ rG') key)
      = map_option normal_record (last_row row_key rows key)" for key
    using ledger.crash_latest [of rS' rS r2 rG' key] by (simp add: dedup_def r(1) S'(1) G'(1))
  ultimately show ?thesis
    using crash_sources [OF canon, where i = i and kept = "dedup rows"] False by auto
qed

text \<open>
  C16. Wherever a compaction stops, the ledger can still be read strictly, and for every run and kind its
  most recent row is the one the ledger had before, up to the order of dictionary keys. The directory
  that \<open>compact_ledger\<close> leaves, whether it returns or raises, is one of these states.
\<close>

theorem compaction_keeps_latest:
  assumes "canonical_sealed fs" "next_sealed fs = Inr target" "distinct (map fst (fs_segments fs))"
    and "compact_rows fs = Inr rows" "lines_ok fs"
  shows "(\<exists>rows'. iter_rows True True (fold apply_op (take i (compact_ops target (dedup rows) fs)) fs) = Inr (rows', [])
      \<and> (\<forall>key. map_option normal_record (last_row row_key rows' key) = map_option normal_record (last_row row_key rows key)))
    \<and> (\<exists>j. fst (fst (compact_ledger c st_size args (fs, blobs))) = fold apply_op (take j (compact_ops target (dedup rows) fs)) fs)"
proof
  show "\<exists>rows'. iter_rows True True (fold apply_op (take i (compact_ops target (dedup rows) fs)) fs) = Inr (rows', [])
      \<and> (\<forall>key. map_option normal_record (last_row row_key rows' key) = map_option normal_record (last_row row_key rows key))"
    using crash_rows [OF assms(1-3) _ assms(5), of rows i] assms(4) by (simp add: compact_rows_Inr iter_rows_strict)
  let ?ops = "compact_ops target (dedup rows) fs"
  have "fst (fst (compact_ledger c st_size args (fs, blobs))) \<in> {fold apply_op (take 0 ?ops) fs, fold apply_op (take (length ?ops) ?ops) fs}"
    using assms(2,4) by (auto simp: compact_ledger_def Let_def split: sum.splits prod.splits)
  then show "\<exists>j. fst (fst (compact_ledger c st_size args (fs, blobs))) = fold apply_op (take j ?ops) fs" by blast
qed

section \<open>Compaction and the archive\<close>

lemma archive_sealed_other:
  "m \<notin> (@) ''sealed-'' ` set ns \<Longrightarrow>
     map_of (fs_archive (fold apply_op (map ArchiveSealed ns) fs)) m = map_of (fs_archive fs) m"
  by (induction ns arbitrary: fs) (auto simp: update_conv split: option.splits)

lemma archive_sealed_moved:
  "distinct ns \<Longrightarrow> n \<in> set ns \<Longrightarrow> map_of (fs_sealed fs) n = Some f
     \<Longrightarrow> map_of (fs_archive (fold apply_op (map ArchiveSealed ns) fs)) (''sealed-'' @ n) = Some f"
proof (induction ns arbitrary: fs)
  case (Cons a ns)
  show ?case
  proof (cases "n = a")
    case True
    then have "''sealed-'' @ n \<notin> (@) ''sealed-'' ` set ns" using Cons.prems(1) by auto
    from archive_sealed_other [OF this] show ?thesis using Cons.prems(3) True by (simp add: update_conv)
  next
    case False
    with Cons show ?thesis by (auto simp: delete_conv' split: option.splits)
  qed
qed simp

lemma archive_segments_other:
  "m \<notin> (@) ''segment-'' ` set ns \<Longrightarrow>
     map_of (fs_archive (fold apply_op (map ArchiveSegment ns) fs)) m = map_of (fs_archive fs) m"
  by (induction ns arbitrary: fs) (auto simp: update_conv split: option.splits)

lemma archive_segments_moved:
  "distinct ns \<Longrightarrow> n \<in> set ns \<Longrightarrow> map_of (fs_segments fs) n = Some f
     \<Longrightarrow> map_of (fs_archive (fold apply_op (map ArchiveSegment ns) fs)) (''segment-'' @ n) = Some f"
proof (induction ns arbitrary: fs)
  case (Cons a ns)
  show ?case
  proof (cases "n = a")
    case True
    then have "''segment-'' @ n \<notin> (@) ''segment-'' ` set ns" using Cons.prems(1) by auto
    from archive_segments_other [OF this] show ?thesis using Cons.prems(3) True by (simp add: update_conv)
  next
    case False
    with Cons show ?thesis by (auto simp: delete_conv' split: option.splits)
  qed
qed simp

text \<open>No file of the archive has the name of a file that is moved there.\<close>

definition archive_fresh :: "ledger_fs \<Rightarrow> bool" where
  "archive_fresh fs = (distinct (map fst (fs_archive fs))
     \<and> (\<forall>n\<in>set (map fst (jsonl_files (fs_sealed fs))). map_of (fs_archive fs) (''sealed-'' @ n) = None)
     \<and> (\<forall>n\<in>set (map fst (jsonl_files (fs_segments fs))). map_of (fs_archive fs) (''segment-'' @ n) = None))"

lemma jsonl_append: "jsonl n \<Longrightarrow> jsonl (p @ n)"
proof -
  assume n: "jsonl n"
  then have "length (drop (length n - 6) n) = 6" by (simp add: jsonl_def)
  then have "6 \<le> length n" by simp
  then show ?thesis using n by (simp add: jsonl_def)
qed

lemma jsonl_files_iff: "distinct (map fst d) \<Longrightarrow> (n, f) \<in> set (jsonl_files d) \<longleftrightarrow> jsonl n \<and> map_of d n = Some f"
  by (auto simp: jsonl_files_def)

lemma in_jsonl_files: "map_of d n = Some f \<Longrightarrow> jsonl n \<Longrightarrow> (n, f) \<in> set (jsonl_files d)"
  by (auto simp: jsonl_files_def dest: map_of_SomeD)

definition all_sources :: "ledger_fs \<Rightarrow> (string \<times> ledger_file) list" where
  "all_sources fs = jsonl_files (fs_sealed fs) @ jsonl_files (fs_segments fs) @ jsonl_files (fs_archive fs)"

lemma compaction_archives_everything:
  assumes canon: "canonical_sealed fs" "next_sealed fs = Inr target" and segs: "distinct (map fst (fs_segments fs))"
    and fresh: "archive_fresh fs" and src: "(n, f) \<in> set (all_sources fs)"
  shows "\<exists>m. (m, f) \<in> set (all_sources (fold apply_op (compact_ops target kept fs) fs))"
proof -
  let ?S = "map fst (jsonl_files (fs_sealed fs))" and ?G = "map fst (jsonl_files (fs_segments fs))"
  let ?fs1 = "fs\<lparr>fs_sealed := AList.update target (Lines (map to_json_line kept)) (fs_sealed fs)\<rparr>"
  let ?fs2 = "fold apply_op (map ArchiveSealed ?S) ?fs1" and ?fs3 = "fold apply_op (map ArchiveSegment ?G) (fold apply_op (map ArchiveSealed ?S) ?fs1)"
  have fs3: "fold apply_op (compact_ops target kept fs) fs = ?fs3" by (simp add: compact_ops_def comp_def)
  have dS: "distinct (map fst (fs_sealed fs))" using canon(1) by (simp add: canonical_sealed_def)
  note arch = archive_sealed_moved [OF distinct_jsonl_files [OF dS]] archive_segments_moved [OF distinct_jsonl_files [OF segs]]
  have target: "target \<notin> set ?S" using next_sealed_canonical [OF canon(1)] canon(2) by fastforce
  consider (sealed) "(n, f) \<in> set (jsonl_files (fs_sealed fs))" | (segment) "(n, f) \<in> set (jsonl_files (fs_segments fs))"
    | (archived) "(n, f) \<in> set (jsonl_files (fs_archive fs))"
    using src by (auto simp: all_sources_def)
  then have "\<exists>m. jsonl m \<and> map_of (fs_archive ?fs3) m = Some f"
  proof cases
    case sealed
    have n: "jsonl n" "map_of (fs_sealed fs) n = Some f" using sealed dS by (auto simp: jsonl_files_iff)
    have nS: "n \<in> set ?S" using sealed by force
    have "map_of (fs_sealed ?fs1) n = Some f" using target n nS by (auto simp: update_conv)
    from arch(1) [OF nS this] have "map_of (fs_archive ?fs2) (''sealed-'' @ n) = Some f" .
    moreover have "''sealed-'' @ n \<notin> (@) ''segment-'' ` set ?G" by auto
    ultimately show ?thesis using archive_segments_other [where fs = ?fs2] jsonl_append [OF n(1)] by metis
  next
    case segment
    have n: "jsonl n" "map_of (fs_segments fs) n = Some f" using segment segs by (auto simp: jsonl_files_iff)
    have nG: "n \<in> set ?G" using segment by force
    have "map_of (fs_segments ?fs2) n = Some f" using n archive_sealed [of ?S ?fs1] by simp
    from arch(2) [OF nG this] show ?thesis using jsonl_append [OF n(1)] by blast
  next
    case archived
    then have n: "jsonl n" "map_of (fs_archive fs) n = Some f" using fresh by (auto simp: jsonl_files_iff archive_fresh_def)
    have "n \<notin> (@) ''sealed-'' ` set ?S" "n \<notin> (@) ''segment-'' ` set ?G" using fresh n(2) by (auto simp: archive_fresh_def)
    then have "map_of (fs_archive ?fs3) n = map_of (fs_archive ?fs1) n"
      using archive_sealed_other [where fs = ?fs1] archive_segments_other [where fs = ?fs2] by metis
    then show ?thesis using n by auto
  qed
  then show ?thesis unfolding fs3 all_sources_def by (auto dest: in_jsonl_files)
qed

lemma referenced_digests_iff:
  assumes "referenced_digests fs = Inr ds"
  shows "j \<in> set ds \<longleftrightarrow> (\<exists>n f js. (n, f) \<in> set (all_sources fs) \<and> file_digests (n, f) = Inr js \<and> j \<in> set js)"
proof -
  obtain dss where dss: "list_all2 (\<lambda>x y. file_digests x = Inr y) (all_sources fs) dss" "ds = concat dss"
    using assms by (auto simp: referenced_digests_def all_sources_def bind_res_eq_Inr traverse_res_eq_Inr)
  show ?thesis
  proof
    assume "j \<in> set ds"
    then obtain js where js: "js \<in> set dss" "j \<in> set js" using dss(2) by auto
    from list_all2_pick(2) [OF dss(1) js(1)] js(2)
    show "\<exists>n f js. (n, f) \<in> set (all_sources fs) \<and> file_digests (n, f) = Inr js \<and> j \<in> set js" by auto
  next
    assume "\<exists>n f js. (n, f) \<in> set (all_sources fs) \<and> file_digests (n, f) = Inr js \<and> j \<in> set js"
    then obtain n f js where js: "(n, f) \<in> set (all_sources fs)" "file_digests (n, f) = Inr js" "j \<in> set js" by blast
    from list_all2_pick(1) [OF dss(1) js(1)] js(2,3) show "j \<in> set ds" unfolding dss(2) by auto
  qed
qed

lemma file_digests_name: "file_digests (n, f) = Inr js \<Longrightarrow> file_digests (m, f) = Inr js"
  by (cases f) (simp_all add: file_digests_def file_text_def)

context blob_laws
begin

lemma gc_blobs_keeps:
  assumes "store_ok c blobs" "gc_blobs c st_size referenced digests blobs deleted bytes = (blobs', r)"
  shows "store_ok c blobs' \<and> (JStr sha256 \<in> set referenced \<longrightarrow> contents c blobs' sha256 = contents c blobs sha256)"
  using assms
proof (induction digests arbitrary: blobs deleted bytes)
  case (Cons digest digests)
  show ?case
  proof (cases "JStr digest \<in> set referenced")
    case True
    then show ?thesis using Cons by auto
  next
    case False
    show ?thesis
    proof (cases "find_blob c blobs digest")
      case (Inl e)
      then show ?thesis using Cons.prems False by auto
    next
      case (Inr found)
      then have len: "length digest = 64" by (auto simp: find_blob_def validate_digest_def bind_res_eq_Inr split: if_splits)
      obtain d' where d': "delete_blob c blobs digest = Inr (d', contents c blobs digest \<noteq> None)" "store_ok c d'"
          "contents c d' = (contents c blobs)(digest := None)"
        using delete_blob_contents [OF Cons.prems(1) len] by blast
      then show ?thesis
        using Cons.IH [OF d'(2)] Cons.prems(2) False Inr by (auto simp: Let_def split: if_splits)
    qed
  qed
qed simp

end

text \<open>
  C17. A compaction whose moved files do not collide with files of the archive loses no row, and garbage
  collection keeps every blob that any row named before it, also a superseded or archived one.
\<close>

theorem compaction_keeps_blobs:
  assumes "blob_laws c" "store_ok c blobs"
    and "canonical_sealed fs" "distinct (map fst (fs_segments fs))" "archive_fresh fs"
    and "compact_ledger c st_size args (fs, blobs) = ((fs', blobs'), r)"
    and "referenced_digests fs = Inr named" "JStr sha256 \<in> set named"
  shows "contents c blobs' sha256 = contents c blobs sha256"
proof (cases "blobs' = blobs")
  case False
  then obtain rows target referenced r' where run: "next_sealed fs = Inr target"
      "fs' = fold apply_op (compact_ops target (dedup rows) fs) fs" "referenced_digests fs' = Inr referenced"
      "gc_blobs c st_size referenced (iter_digests c blobs) blobs 0 0 = (blobs', r')"
    using assms(6) by (fastforce simp: compact_ledger_def Let_def split: if_splits sum.splits prod.splits)
  obtain n f js where src: "(n, f) \<in> set (all_sources fs)" "file_digests (n, f) = Inr js" "JStr sha256 \<in> set js"
    using referenced_digests_iff [OF assms(7)] assms(8) by blast
  obtain m where "(m, f) \<in> set (all_sources fs')"
    using compaction_archives_everything [OF assms(3) run(1) assms(4,5) src(1)] unfolding run(2) by blast
  then have "JStr sha256 \<in> set referenced"
    using referenced_digests_iff [OF run(3)] file_digests_name [OF src(2)] src(3) by blast
  then show ?thesis using blob_laws.gc_blobs_keeps [OF assms(1,2) run(4)] by blast
qed simp

section \<open>Two limits of compaction\<close>

definition force_args :: compact_args where
  "force_args = \<lparr>ca_force = True, ca_threshold = 50, ca_gc_blobs = True, ca_dry_run = False, ca_backend = ''jsonl''\<rparr>"

definition kind_row :: "string \<Rightarrow> string \<Rightarrow> json \<Rightarrow> run_ledger_record" where
  "kind_row kind status why = (demo_record status why)\<lparr>rl_kind := kind\<rparr>"

definition mixed_rows :: "run_ledger_record list" where
  "mixed_rows = [kind_row ''train'' ''complete'' JNull, kind_row ''eval'' ''complete'' JNull,
     kind_row ''train'' ''failed'' (JStr ''run raised E'')]"

definition compacted :: "ledger_fs \<times> string directory \<Rightarrow> ledger_fs \<times> string directory" where
  "compacted s = fst (compact_ledger plain_codecs (int \<circ> length) force_args s)"

text \<open>
  \<open>find_run\<close> takes the last row of a run, but compaction orders the rows by the first row of
  every run and kind: a run trained, then evaluated, then trained again and failed cannot be cited before
  compaction and can be cited after it.
\<close>

theorem compaction_changes_citability:
  "run_is_citable ''r1'' (demo_fs (map to_json_line mixed_rows)) = Inr False
   \<and> run_is_citable ''r1'' (fst (compacted (demo_fs (map to_json_line mixed_rows), []))) = Inr True"
  by code_simp

definition blob_row :: "string \<Rightarrow> run_ledger_record" where
  "blob_row t = (demo_record ''complete'' JNull)\<lparr>rl_ir :=
     [capture_ref ''jaxpr'' (fst (bc_digest_of plain_codecs t)) (snd (bc_digest_of plain_codecs t)) ''full'' JNull]\<rparr>"

definition old_blob :: string where
  "old_blob = fst (bc_digest_of plain_codecs ''old'')"

definition history :: "ledger_fs \<times> string directory" where
  "history = (demo_fs [to_json_line (blob_row ''old''), to_json_line (demo_record ''complete'' JNull)],
     [(old_blob @ ''.zst'', ''old'')])"

text \<open>One more row for the same run, appended to the active segment.\<close>

definition rerun :: "ledger_fs \<times> string directory \<Rightarrow> ledger_fs \<times> string directory" where
  "rerun s = (fst (append_line WriteOk (fst s) (active_segment (\<lambda>_. 0) (fst s)) (to_json_line (demo_record ''complete'' JNull))), snd s)"

definition demo_line :: line where
  "demo_line = to_json_line (demo_record ''complete'' JNull)"

definition once_compacted :: "ledger_fs \<times> string directory" where
  "once_compacted = (\<lparr>fs_segments = [], fs_sealed = [(''00000.jsonl'', Lines [demo_line])],
     fs_archive = [(''segment-00001.jsonl'', Lines [to_json_line (blob_row ''old''), demo_line])]\<rparr>,
     [(old_blob @ ''.zst'', ''old'')])"

definition twice_compacted :: "ledger_fs \<times> string directory" where
  "twice_compacted = (\<lparr>fs_segments = [], fs_sealed = [(''00001.jsonl'', Lines [demo_line])],
     fs_archive = [(''segment-00001.jsonl'', Lines [demo_line]), (''sealed-00000.jsonl'', Lines [demo_line])]\<rparr>, [])"

lemma history_compacted: "compacted history = once_compacted"
  by code_simp

lemma history_recompacted: "compacted (rerun once_compacted) = twice_compacted"
  by code_simp

text \<open>
  Compaction can destroy history: after it the segments start again at \<open>00001\<close>, so the second compaction
  moves its segment over the archived segment of the first. A superseded row that the first compaction
  kept in the archive is gone after the second, and its blob, still held after the first, is deleted.
\<close>

theorem second_compaction_destroys_history:
  "compacted history = once_compacted \<and> compacted (rerun (compacted history)) = twice_compacted
   \<and> map_of (fs_archive (fst once_compacted)) ''segment-00001.jsonl'' = Some (Lines [to_json_line (blob_row ''old''), demo_line])
   \<and> map_of (fs_archive (fst twice_compacted)) ''segment-00001.jsonl'' = Some (Lines [demo_line])
   \<and> map_of (snd once_compacted) (old_blob @ ''.zst'') = Some ''old''
   \<and> snd twice_compacted = []"
  by (simp add: history_compacted history_recompacted) (simp add: once_compacted_def twice_compacted_def)

theorem compaction_keeps_latest_witness:
  "\<exists>rows'. iter_rows True True (fold apply_op (take 1 (compact_ops ''00000.jsonl'' (dedup mixed_rows)
         (demo_fs (map to_json_line mixed_rows)))) (demo_fs (map to_json_line mixed_rows))) = Inr (rows', [])
     \<and> map_option normal_record (last_row row_key rows' (''r1'', ''train''))
         = Some (normal_record (kind_row ''train'' ''failed'' (JStr ''run raised E'')))"
proof -
  let ?fs = "demo_fs (map to_json_line mixed_rows)"
  have canon: "canonical_sealed ?fs" "distinct (map fst (fs_segments ?fs))"
    by (simp_all add: canonical_sealed_def demo_fs_def jsonl_files_def)
  have nxt: "next_sealed ?fs = Inr ''00000.jsonl''" by code_simp
  have rows: "compact_rows ?fs = Inr mixed_rows" by code_simp
  have ok: "lines_ok ?fs" by code_simp
  have "last_row row_key mixed_rows (''r1'', ''train'') = Some (kind_row ''train'' ''failed'' (JStr ''run raised E''))"
    by code_simp
  then have "map_option normal_record (last_row row_key mixed_rows (''r1'', ''train''))
      = Some (normal_record (kind_row ''train'' ''failed'' (JStr ''run raised E'')))" by simp
  then show ?thesis
    using conjunct1 [OF compaction_keeps_latest [OF canon(1) nxt canon(2) rows ok, of 1 plain_codecs "int \<circ> length" force_args "[]"]]
    by metis
qed

theorem compaction_keeps_blobs_witness:
  "contents plain_codecs (snd (compacted history)) old_blob = contents plain_codecs (snd history) old_blob"
proof -
  have ok: "store_ok plain_codecs (snd history)"
  proof -
    have "put_blob plain_codecs None [] ''old'' = Inr (snd history, bc_digest_of plain_codecs ''old'')" by code_simp
    moreover have "store_ok plain_codecs []" by (simp add: store_ok_def)
    ultimately show ?thesis using plain.put_blob_contents [of "[]" "''old''"] by auto
  qed
  have canon: "canonical_sealed (fst history)" "distinct (map fst (fs_segments (fst history)))" "archive_fresh (fst history)"
    by (simp_all add: canonical_sealed_def history_def demo_fs_def jsonl_files_def archive_fresh_def)
  have ref: "referenced_digests (fst history) = Inr [JStr old_blob]" by code_simp
  obtain r where run: "compact_ledger plain_codecs (int \<circ> length) force_args (fst history, snd history)
      = ((fst (compacted history), snd (compacted history)), r)"
    by (cases "compact_ledger plain_codecs (int \<circ> length) force_args history") (auto simp: compacted_def)
  show ?thesis
    by (rule compaction_keeps_blobs [OF plain.blob_laws_axioms ok canon run ref]) simp
qed

end
