(* ===== verification/Unit_Liveness.thy ===== *)
theory Unit_Liveness
  imports Python_Values
begin

text \<open>
  Is the writer of a unit-index segment dead? \<open>run/writer_liveness.py\<close>, with the runner that a
  compaction pass wraps around the scheduler (\<open>_PassRunner\<close> of \<open>run/unit_index.py\<close>).

  A segment file is a list of pieces, the line breaks and what is written between two of them: the text of
  one JSON value, or the fragment of it that a failed write left. A fragment is never valid JSON, because it
  is a proper prefix of an object. The size of a file is the number of its pieces, which grows with every write
  exactly when the number of bytes does. The scheduler is a parameter: it answers a command with a return code and its
  outputs, or raises.
\<close>

section \<open>Segment files\<close>

datatype piece = Newline | Text json | Fragment

type_synonym file_data = "piece list"

record seg_file =
  fl_ino :: nat
  fl_mtime :: int
  fl_data :: file_data

text \<open>\<open>data.split(b"\n")\<close>, and \<open>json.loads\<close> of a line that is not blank.\<close>

fun split_lines :: "file_data \<Rightarrow> file_data list" where
  "split_lines [] = [[]]"
| "split_lines (Newline # ps) = [] # split_lines ps"
| "split_lines (p # ps) = (case split_lines ps of [] \<Rightarrow> [[p]] | l # ls \<Rightarrow> (p # l) # ls)"

fun loads :: "file_data \<Rightarrow> json option" where
  "loads [Text j] = Some j"
| "loads _ = None"

text \<open>\<open>isinstance(obj, dict) and obj.get("closed") is True\<close>.\<close>

fun is_trailer :: "json \<Rightarrow> bool" where
  "is_trailer (JObj d) = (obj_get d ''closed'' = JBool True)"
| "is_trailer _ = False"

definition has_trailer :: "file_data \<Rightarrow> bool" where
  "has_trailer data =
     (let ls = filter (\<lambda>l. l \<noteq> []) (split_lines data) in
      ls \<noteq> [] \<and> (case loads (last ls) of None \<Rightarrow> False | Some j \<Rightarrow> is_trailer j))"

section \<open>Writer ids\<close>

record writer_id =
  wi_host :: string
  wi_pid :: int
  wi_job_id :: "string option"
  wi_restart :: int
  wi_uuid8 :: string

text \<open>\<open>s.rsplit("-", n)\<close>, on the reversed string.\<close>

fun rsplit_rev :: "nat \<Rightarrow> string \<Rightarrow> string \<Rightarrow> string list" where
  "rsplit_rev n [] acc = [acc]"
| "rsplit_rev n (c # cs) acc =
     (if c = CHR ''-'' \<and> n > 0 then rsplit_rev (n - 1) cs [] @ [acc] else rsplit_rev n cs (c # acc))"

definition rsplit_dash :: "nat \<Rightarrow> string \<Rightarrow> string list" where
  "rsplit_dash n s = rsplit_rev n (rev s) []"

text \<open>\<open>str.isdigit\<close> also accepts the superscripts one, two and three, which \<open>int\<close> refuses.\<close>

definition py_isdigit :: "string \<Rightarrow> bool" where
  "py_isdigit s = (s \<noteq> [] \<and> list_all (\<lambda>c. digit_val c \<noteq> None \<or> of_char c \<in> {178, 179, 185 :: nat}) s)"

definition not_a_writer_id :: "string \<Rightarrow> 'a res" where
  "not_a_writer_id s = Inl (Exn ValueError ''not a writer id'' [ArgStr s])"

definition py_int_res :: "string \<Rightarrow> int res" where
  "py_int_res s = (case py_int s of None \<Rightarrow> Inl (Exn ValueError ''invalid literal for int()'' []) | Some i \<Rightarrow> Inr i)"

definition parse_writer_id :: "string \<Rightarrow> writer_id res" where
  "parse_writer_id s = (case rsplit_dash 4 s of
     [host, pid, job, restart, u] \<Rightarrow>
       if host = [] then not_a_writer_id s
       else if \<not> (py_isdigit pid \<and> py_isdigit restart \<and> u \<noteq> []) then not_a_writer_id s
       else if job \<noteq> ''nojob'' \<and> \<not> py_isdigit job then not_a_writer_id s
       else bind_res (py_int_res pid) (\<lambda>p. bind_res (py_int_res restart) (\<lambda>r.
         Inr \<lparr>wi_host = host, wi_pid = p, wi_job_id = (if job = ''nojob'' then None else Some job),
              wi_restart = r, wi_uuid8 = u\<rparr>))
   | _ \<Rightarrow> not_a_writer_id s)"

section \<open>The scheduler\<close>

datatype sched_state = PRESENT | ABSENT | UNKNOWN

record job_status =
  js_state :: sched_state
  js_raw :: string
  js_detail :: string

type_synonym sched_answer = "string + (int \<times> string \<times> string)"

definition TERMINAL :: "string list" where
  "TERMINAL = [''COMPLETED'', ''FAILED'', ''TIMEOUT'', ''OUT_OF_MEMORY'', ''NODE_FAIL'', ''BOOT_FAIL'', ''DEADLINE'']"

definition NONTERMINAL :: "string list" where
  "NONTERMINAL = [''PENDING'', ''RUNNING'', ''COMPLETING'', ''SUSPENDED'', ''CONFIGURING'', ''PREEMPTED'', ''RESIZING'',
     ''RESV_DEL_HOLD'', ''REQUEUED'', ''REQUEUE_FED'', ''REQUEUE_HOLD'', ''SIGNALING'', ''STAGE_OUT'', ''STOPPED'',
     ''SPECIAL_EXIT'', ''STAGE_IN'', ''POWER_UP_NODE'']"

definition state_word :: "string \<Rightarrow> string" where
  "state_word raw =
     rev (dropWhile (\<lambda>c. c = CHR ''+'') (rev (takeWhile (\<lambda>c. c \<noteq> CHR '' '') (strip raw))))"

definition prefix_of :: "string \<Rightarrow> string \<Rightarrow> bool" where
  "prefix_of p s = (take (length p) s = p)"

fun contains :: "string \<Rightarrow> string \<Rightarrow> bool" where
  "contains p [] = (p = [])"
| "contains p (c # cs) = (prefix_of p (c # cs) \<or> contains p cs)"

definition classify_state :: "string \<Rightarrow> sched_state option" where
  "classify_state raw =
     (let word = state_word raw in
      if word \<in> set TERMINAL \<or> prefix_of ''CANCELLED'' word then Some ABSENT
      else if word \<in> set NONTERMINAL then Some PRESENT
      else None)"

text \<open>\<open>[ln.strip() for ln in out.splitlines() if ln.strip()]\<close>.\<close>

definition line_break :: "char \<Rightarrow> bool" where
  "line_break c = (of_char c \<in> {10, 11, 12, 13, 28, 29, 30, 133 :: nat})"

fun split_at :: "(char \<Rightarrow> bool) \<Rightarrow> string \<Rightarrow> string list" where
  "split_at P [] = [[]]"
| "split_at P (c # cs) = (if P c then [] # split_at P cs
     else case split_at P cs of [] \<Rightarrow> [[c]] | w # ws \<Rightarrow> (c # w) # ws)"

definition stripped_lines :: "string \<Rightarrow> string list" where
  "stripped_lines out = filter (\<lambda>l. l \<noteq> []) (map strip (split_at line_break out))"

text \<open>\<open>job_state\<close>: the runner has a state of its own, which the query threads through its two commands.\<close>

definition unknown_job :: "string \<Rightarrow> job_status" where
  "unknown_job why = \<lparr>js_state = UNKNOWN, js_raw = [], js_detail = why\<rparr>"

definition sacct_state :: "sched_answer \<Rightarrow> job_status" where
  "sacct_state answer = (case answer of
     Inl exc \<Rightarrow> unknown_job (''sacct unavailable: '' @ exc)
   | Inr (rc, out, err) \<Rightarrow>
       if rc \<noteq> 0 then unknown_job (''sacct rc: '' @ take 200 (strip err))
       else
         let states = stripped_lines out in
         if states = [] then unknown_job ''sacct returned no rows''
         else if None \<in> set (map classify_state states) then
           \<lparr>js_state = UNKNOWN, js_raw = hd states, js_detail = ''sacct unrecognised state''\<rparr>
         else if Some PRESENT \<in> set (map classify_state states) then
           \<lparr>js_state = PRESENT, js_raw = hd states, js_detail = ''sacct non-terminal''\<rparr>
         else \<lparr>js_state = ABSENT, js_raw = hd states, js_detail = ''sacct terminal''\<rparr>)"

definition squeue_argv :: "string \<Rightarrow> string list" where
  "squeue_argv job_id = [''squeue'', ''-h'', ''-j'', job_id, ''-o'', ''%T'']"

definition sacct_argv :: "string \<Rightarrow> string list" where
  "sacct_argv job_id = [''sacct'', ''-j'', job_id, ''-n'', ''-X'', ''-P'', ''-o'', ''State'']"

definition job_state :: "('r \<Rightarrow> string list \<Rightarrow> sched_answer \<times> 'r) \<Rightarrow> string \<Rightarrow> 'r \<Rightarrow> job_status \<times> 'r" where
  "job_state run job_id r =
     (case run r (squeue_argv job_id) of
        (Inl exc, r') \<Rightarrow> (unknown_job (''squeue unavailable: '' @ exc), r')
      | (Inr (rc, out, err), r') \<Rightarrow>
          let ls = stripped_lines out in
          if rc = 0 \<and> ls \<noteq> [] then (\<lparr>js_state = PRESENT, js_raw = hd ls, js_detail = ''squeue''\<rparr>, r')
          else if rc \<noteq> 0 \<and> \<not> contains ''invalid job id'' (lower (err @ out)) then
            (unknown_job (''squeue rc: '' @ take 200 (strip err)), r')
          else (case run r' (sacct_argv job_id) of (answer, r'') \<Rightarrow> (sacct_state answer, r'')))"

section \<open>The verdict\<close>

definition stem_name :: "string \<Rightarrow> string" where
  "stem_name name =
     (let ext = rev (takeWhile (\<lambda>c. c \<noteq> CHR ''.'') (rev name)); n = length name - length ext
      in if ext \<noteq> [] \<and> 1 < n then take (n - 1) name else name)"

definition st_mtime :: "seg_file \<Rightarrow> rat" where
  "st_mtime f = of_int (fl_mtime f) / 10 ^ 9"

text \<open>\<open>clock\<close> is what \<open>server_now\<close> would read from its probe file.\<close>

definition segment_writer_dead ::
  "('r \<Rightarrow> string list \<Rightarrow> sched_answer \<times> 'r) \<Rightarrow> rat \<Rightarrow> rat option \<Rightarrow> rat \<Rightarrow> string \<Rightarrow> seg_file \<Rightarrow> 'r \<Rightarrow> (bool \<times> string) \<times> 'r"
where
  "segment_writer_dead run grace now_server clock name f r =
     (if has_trailer (fl_data f) then ((True, ''closed trailer''), r)
      else case parse_writer_id (stem_name name) of
        Inl _ \<Rightarrow> ((False, ''unparseable writer id, no trailer''), r)
      | Inr wid \<Rightarrow>
          (case wi_job_id wid of
             None \<Rightarrow> ((False, ''no job id, no trailer''), r)
           | Some job \<Rightarrow>
               (case job_state run job r of
                  (js, r') \<Rightarrow>
                    (case js_state js of
                       PRESENT \<Rightarrow> ((False, ''job present''), r')
                     | UNKNOWN \<Rightarrow> ((False, ''job state unknown''), r')
                     | ABSENT \<Rightarrow>
                         let now = (case now_server of None \<Rightarrow> clock | Some t \<Rightarrow> t); age = now - st_mtime f in
                         if age > grace then ((True, ''job absent, mtime age above grace''), r')
                         else ((False, ''job absent but mtime age within grace''), r')))))"

section \<open>The runner of one pass\<close>

record pass_runner =
  pr_cache :: "(string list \<times> (int \<times> string \<times> string)) list"
  pr_broken :: "string option"
  pr_calls :: nat

definition new_pass_runner :: pass_runner where
  "new_pass_runner = \<lparr>pr_cache = [], pr_broken = None, pr_calls = 0\<rparr>"

definition pass_call :: "(string list \<Rightarrow> sched_answer) \<Rightarrow> pass_runner \<Rightarrow> string list \<Rightarrow> sched_answer \<times> pass_runner" where
  "pass_call inner pr argv = (case map_of (pr_cache pr) argv of
     Some result \<Rightarrow> (Inr result, pr)
   | None \<Rightarrow>
       (case pr_broken pr of
          Some _ \<Rightarrow> (Inl ''OSError'', pr)
        | None \<Rightarrow>
            let pr' = pr\<lparr>pr_calls := pr_calls pr + 1\<rparr> in
            (case inner argv of
               Inl exc \<Rightarrow> (Inl exc, pr'\<lparr>pr_broken := Some exc\<rparr>)
             | Inr result \<Rightarrow> (Inr result, pr'\<lparr>pr_cache := (argv, result) # pr_cache pr'\<rparr>))))"

text \<open>\<open>_decide\<close>: the segments in order; a segment that vanished since it was listed has no file.\<close>

fun decide ::
  "(string list \<Rightarrow> sched_answer) \<Rightarrow> rat \<Rightarrow> rat option \<Rightarrow> rat \<Rightarrow> (string \<times> seg_file option) list \<Rightarrow> pass_runner
     \<Rightarrow> (string \<times> bool \<times> string) list \<times> pass_runner"
where
  "decide inner grace now clock [] pr = ([], pr)"
| "decide inner grace now clock ((name, None) # segs) pr =
     (case decide inner grace now clock segs pr of
        (ds, pr') \<Rightarrow> ((name, False, ''vanished (moved by another compactor)'') # ds, pr'))"
| "decide inner grace now clock ((name, Some f) # segs) pr =
     (let now' = (if now = None \<and> \<not> has_trailer (fl_data f) then Some clock else now) in
      case segment_writer_dead (pass_call inner) grace now' clock name f pr of
        (v, pr') \<Rightarrow> (case decide inner grace now' clock segs pr' of (ds, pr'') \<Rightarrow> ((name, v) # ds, pr'')))"

section \<open>Unknown is never dead\<close>

text \<open>What a pass has learnt: answers of the scheduler, one call for each, and at most one failure.\<close>

definition pass_ok :: "(string list \<Rightarrow> sched_answer) \<Rightarrow> pass_runner \<Rightarrow> bool" where
  "pass_ok inner pr =
     (distinct (map fst (pr_cache pr)) \<and> (\<forall>(argv, result)\<in>set (pr_cache pr). inner argv = Inr result)
      \<and> pr_calls pr = length (pr_cache pr) + (if pr_broken pr = None then 0 else 1))"

lemma pass_ok_new [simp]: "pass_ok inner new_pass_runner"
  by (simp add: pass_ok_def new_pass_runner_def)

lemma pass_call_ok:
  assumes "pass_ok inner pr" "pass_call inner pr argv = (answer, pr')"
  shows "pass_ok inner pr'" and "answer = inner argv \<or> (\<exists>exc. answer = Inl exc)"
    and "set (map fst (pr_cache pr')) \<subseteq> insert argv (set (map fst (pr_cache pr)))"
proof -
  have "map_of (pr_cache pr) argv = Some result \<Longrightarrow> inner argv = Inr result" for result
    using assms(1) by (auto simp: pass_ok_def dest: map_of_SomeD)
  moreover have "map_of (pr_cache pr) argv = None \<longleftrightarrow> argv \<notin> fst ` set (pr_cache pr)"
    by (rule map_of_eq_None_iff)
  ultimately show "pass_ok inner pr'" "answer = inner argv \<or> (\<exists>exc. answer = Inl exc)"
    "set (map fst (pr_cache pr')) \<subseteq> insert argv (set (map fst (pr_cache pr)))"
    using assms by (auto simp: pass_call_def pass_ok_def Let_def split: option.splits sum.splits)
qed

text \<open>The scheduler's own account of a job that is certainly gone.\<close>

definition job_gone :: "(string list \<Rightarrow> sched_answer) \<Rightarrow> string \<Rightarrow> bool" where
  "job_gone inner job =
     ((\<exists>rc out err. inner (squeue_argv job) = Inr (rc, out, err)
        \<and> (if rc = 0 then stripped_lines out = [] else contains ''invalid job id'' (lower (err @ out))))
      \<and> (\<exists>out err. inner (sacct_argv job) = Inr (0, out, err) \<and> stripped_lines out \<noteq> []
        \<and> list_all (\<lambda>s. classify_state s = Some ABSENT) (stripped_lines out)))"

lemma classify_state_cases: "classify_state s \<in> {None, Some PRESENT, Some ABSENT}"
  by (simp add: classify_state_def Let_def)

lemma sacct_state_ABSENT:
  assumes "js_state (sacct_state answer) = ABSENT"
  shows "\<exists>out err. answer = Inr (0, out, err) \<and> stripped_lines out \<noteq> []
    \<and> list_all (\<lambda>s. classify_state s = Some ABSENT) (stripped_lines out)"
proof -
  obtain rc out err where a: "answer = Inr (rc, out, err)"
    using assms by (cases answer) (auto simp: sacct_state_def unknown_job_def)
  then have "rc = 0" "stripped_lines out \<noteq> []" "None \<notin> classify_state ` set (stripped_lines out)"
      "Some PRESENT \<notin> classify_state ` set (stripped_lines out)"
    using assms by (auto simp: sacct_state_def unknown_job_def Let_def split: if_splits)
  moreover from this have "classify_state s = Some ABSENT" if "s \<in> set (stripped_lines out)" for s
    using that classify_state_cases [of s] by (metis empty_iff image_eqI insert_iff)
  ultimately show ?thesis using a by (simp add: list_all_iff)
qed

lemma job_state_pass:
  assumes "pass_ok inner pr" "job_state (pass_call inner) job pr = (js, pr')"
  shows "pass_ok inner pr'" and "js_state js = ABSENT \<Longrightarrow> job_gone inner job"
    and "set (map fst (pr_cache pr')) \<subseteq> {squeue_argv job, sacct_argv job} \<union> set (map fst (pr_cache pr))"
proof -
  obtain a1 pr1 where c1: "pass_call inner pr (squeue_argv job) = (a1, pr1)" by fastforce
  note p1 = pass_call_ok [OF assms(1) c1]
  obtain a2 pr2 where c2: "pass_call inner pr1 (sacct_argv job) = (a2, pr2)" by fastforce
  note p2 = pass_call_ok [OF p1(1) c2]
  have pr': "pr' = pr1 \<or> pr' = pr2"
    using assms(2) c1 c2 by (auto simp: job_state_def Let_def split: sum.splits prod.splits if_splits)
  then show "pass_ok inner pr'" using p1(1) p2(1) by blast
  show "set (map fst (pr_cache pr')) \<subseteq> {squeue_argv job, sacct_argv job} \<union> set (map fst (pr_cache pr))"
    using pr' p1(3) p2(3) by blast
  show "job_gone inner job" if absent: "js_state js = ABSENT"
  proof -
    obtain rc out err where a1: "a1 = Inr (rc, out, err)"
      using assms(2) c1 absent by (cases a1) (auto simp: job_state_def unknown_job_def)
    then have "js = sacct_state a2"
        and 1: "if rc = 0 then stripped_lines out = [] else contains ''invalid job id'' (lower (err @ out))"
      using assms(2) c1 c2 absent by (auto simp: job_state_def Let_def unknown_job_def split: if_splits)
    with absent obtain out2 err2 where "a2 = Inr (0, out2, err2)" "stripped_lines out2 \<noteq> []"
        "list_all (\<lambda>s. classify_state s = Some ABSENT) (stripped_lines out2)"
      using sacct_state_ABSENT by blast
    then show ?thesis using a1 1 p1(2) p2(2) unfolding job_gone_def by (metis Inl_not_Inr)
  qed
qed

definition certainly_dead :: "(string list \<Rightarrow> sched_answer) \<Rightarrow> rat \<Rightarrow> rat \<Rightarrow> string \<Rightarrow> seg_file \<Rightarrow> bool" where
  "certainly_dead inner grace now name f =
     (has_trailer (fl_data f)
      \<or> (\<exists>wid job. parse_writer_id (stem_name name) = Inr wid \<and> wi_job_id wid = Some job \<and> job_gone inner job
          \<and> grace < now - st_mtime f))"

lemma segment_writer_dead_pass:
  assumes "pass_ok inner pr"
    and "segment_writer_dead (pass_call inner) grace now_server clock name f pr = ((dead, why), pr')"
  shows "pass_ok inner pr'"
    and "dead \<Longrightarrow> certainly_dead inner grace (case now_server of None \<Rightarrow> clock | Some t \<Rightarrow> t) name f"
proof -
  have "pass_ok inner pr' \<and> (dead \<longrightarrow> certainly_dead inner grace (case now_server of None \<Rightarrow> clock | Some t \<Rightarrow> t) name f)"
  proof (cases "\<not> has_trailer (fl_data f) \<and> (\<exists>wid job. parse_writer_id (stem_name name) = Inr wid \<and> wi_job_id wid = Some job)")
    case True
    then obtain wid job where wid: "parse_writer_id (stem_name name) = Inr wid" "wi_job_id wid = Some job" by blast
    obtain js pr1 where js: "job_state (pass_call inner) job pr = (js, pr1)" by fastforce
    note j = job_state_pass [OF assms(1) js]
    show ?thesis
      using assms(2) True wid js j(1,2)
      by (cases "js_state js") (auto simp: segment_writer_dead_def certainly_dead_def Let_def split: if_splits)
  next
    case False
    then show ?thesis
      using assms by (auto simp: segment_writer_dead_def certainly_dead_def split: sum.splits option.splits if_splits)
  qed
  then show "pass_ok inner pr'" "dead \<Longrightarrow> certainly_dead inner grace (case now_server of None \<Rightarrow> clock | Some t \<Rightarrow> t) name f"
    by blast+
qed

lemma pass_call_count: "pass_call inner pr argv = (answer, pr') \<Longrightarrow> pr_calls pr' \<le> pr_calls pr + 1"
  by (auto simp: pass_call_def Let_def split: option.splits sum.splits)

lemma job_state_count:
  assumes "job_state (pass_call inner) job pr = (js, pr')"
  shows "pr_calls pr' \<le> pr_calls pr + 2"
proof -
  obtain a1 pr1 where c1: "pass_call inner pr (squeue_argv job) = (a1, pr1)" by fastforce
  obtain a2 pr2 where c2: "pass_call inner pr1 (sacct_argv job) = (a2, pr2)" by fastforce
  have "pr' = pr1 \<or> pr' = pr2"
    using assms c1 c2 by (auto simp: job_state_def Let_def split: sum.splits prod.splits if_splits)
  then show ?thesis using pass_call_count [OF c1] pass_call_count [OF c2] by auto
qed

lemma segment_writer_dead_count:
  "segment_writer_dead (pass_call inner) grace now clock name f pr = (v, pr') \<Longrightarrow> pr_calls pr' \<le> pr_calls pr + 2"
  by (auto simp: segment_writer_dead_def Let_def dest!: job_state_count
      split: if_splits sum.splits option.splits prod.splits sched_state.splits)

lemma decide_pass:
  assumes "decide inner grace now clock segs pr = (ds, pr')" "pass_ok inner pr"
  shows "pass_ok inner pr' \<and> pr_calls pr' \<le> pr_calls pr + 2 * length segs \<and> map fst ds = map fst segs
    \<and> (\<forall>(name, dead, why)\<in>set ds. dead \<longrightarrow> (\<exists>f. (name, Some f) \<in> set segs
          \<and> certainly_dead inner grace (case now of None \<Rightarrow> clock | Some t \<Rightarrow> t) name f))"
  using assms
proof (induction inner grace now clock segs pr arbitrary: ds pr' rule: decide.induct)
  case (2 inner grace now clock name segs pr)
  obtain ds1 pr1 where d: "decide inner grace now clock segs pr = (ds1, pr1)" by fastforce
  have ds: "ds = (name, False, ''vanished (moved by another compactor)'') # ds1" "pr' = pr1"
    using "2.prems"(1) d by auto
  from "2.IH" [OF d "2.prems"(2)] show ?case unfolding ds by auto
next
  case (3 inner grace now clock name f segs pr)
  define now' where "now' = (if now = None \<and> \<not> has_trailer (fl_data f) then Some clock else now)"
  obtain dead why pr1 where v: "segment_writer_dead (pass_call inner) grace now' clock name f pr = ((dead, why), pr1)"
    by (metis surj_pair)
  obtain ds2 pr2 where d: "decide inner grace now' clock segs pr1 = (ds2, pr2)" by fastforce
  have eq: "(case now' of None \<Rightarrow> clock | Some t \<Rightarrow> t) = (case now of None \<Rightarrow> clock | Some t \<Rightarrow> t)"
    by (simp add: now'_def)
  note ok = segment_writer_dead_pass [OF "3.prems"(2) v]
  have ds: "ds = (name, dead, why) # ds2" "pr' = pr2" using "3.prems"(1) v d by (auto simp: now'_def Let_def)
  from "3.IH" [OF now'_def v [symmetric] d ok(1)] ok(2) segment_writer_dead_count [OF v] show ?case
    unfolding ds eq by auto
qed auto

text \<open>
  C13. A compaction pass never takes the segment of a writer that might still run: a segment is judged dead
  only when its last line is the trailer, or when its job is known, the queue does not list it, the accounting reports
  nothing but terminal states for it, and it is older than the grace time. Every scheduler
  command is run at most once, at most twice per segment, and none after one has failed.
\<close>

theorem pass_never_guesses:
  assumes "decide inner grace now clock segs new_pass_runner = (ds, pr)"
  shows "map fst ds = map fst segs
    \<and> (\<forall>(name, dead, why)\<in>set ds. dead \<longrightarrow> (\<exists>f. (name, Some f) \<in> set segs
          \<and> certainly_dead inner grace (case now of None \<Rightarrow> clock | Some t \<Rightarrow> t) name f))
    \<and> pass_ok inner pr \<and> pr_calls pr \<le> 2 * length segs
    \<and> (pr_broken pr \<noteq> None \<longrightarrow> (\<forall>argv. pr_calls (snd (pass_call inner pr argv)) = pr_calls pr))"
  using decide_pass [OF assms pass_ok_new]
  by (auto simp: new_pass_runner_def pass_call_def split: option.splits)

definition demo_scheduler :: "string list \<Rightarrow> sched_answer" where
  "demo_scheduler argv =
     (if argv = squeue_argv ''41'' then Inr (1, [], ''slurm_load_jobs error: Invalid job id specified'')
      else if argv = sacct_argv ''41'' then Inr (0, ''CANCELLED by 7'', [])
      else Inl ''TimeoutExpired'')"

definition demo_segments :: "(string \<times> seg_file option) list" where
  "demo_segments = [(''n1-7-41-0-aa.jsonl'', Some \<lparr>fl_ino = 1, fl_mtime = 0, fl_data = [Text JNull, Newline]\<rparr>),
     (''n1-8-42-0-bb.jsonl'', Some \<lparr>fl_ino = 2, fl_mtime = 0, fl_data = [Fragment]\<rparr>),
     (''n1-9-43-0-cc.jsonl'', Some \<lparr>fl_ino = 3, fl_mtime = 0, fl_data = [Fragment]\<rparr>)]"

definition demo_decisions :: "(string \<times> bool \<times> string) list" where
  "demo_decisions = [(''n1-7-41-0-aa.jsonl'', True, ''job absent, mtime age above grace''),
     (''n1-8-42-0-bb.jsonl'', False, ''job state unknown''), (''n1-9-43-0-cc.jsonl'', False, ''job state unknown'')]"

definition demo_runner :: pass_runner where
  "demo_runner = \<lparr>pr_cache = [(sacct_argv ''41'', (0, ''CANCELLED by 7'', [])),
       (squeue_argv ''41'', (1, [], ''slurm_load_jobs error: Invalid job id specified''))],
     pr_broken = Some ''TimeoutExpired'', pr_calls = 3\<rparr>"

theorem pass_never_guesses_witness:
  "certainly_dead demo_scheduler 300 301 ''n1-7-41-0-aa.jsonl'' \<lparr>fl_ino = 1, fl_mtime = 0, fl_data = [Text JNull, Newline]\<rparr>
   \<and> pr_calls demo_runner \<le> 6"
proof -
  have run: "decide demo_scheduler 300 None 301 demo_segments new_pass_runner = (demo_decisions, demo_runner)"
    by code_simp
  have "(''n1-7-41-0-aa.jsonl'', True, ''job absent, mtime age above grace'') \<in> set demo_decisions"
    by (simp add: demo_decisions_def)
  with pass_never_guesses [OF run]
  obtain f where "(''n1-7-41-0-aa.jsonl'', Some f) \<in> set demo_segments"
      "certainly_dead demo_scheduler 300 301 ''n1-7-41-0-aa.jsonl'' f" by fastforce
  then show ?thesis by (auto simp: demo_segments_def demo_runner_def)
qed

end
