(* ===== verification/Unit_Index.thy ===== *)
theory Unit_Index
  imports Unit_Liveness "HOL-Library.Sublist" "HOL-Library.Product_Lexorder"
begin

text \<open>
  The unit index: rows, the segment writer, the read side and lookups of \<open>run/unit_index.py\<close>.

  A segment file is a list of pieces (theory \<open>Unit_Liveness\<close>). A write is given with its outcome: it succeeds, or
  it raises after a prefix of its bytes. The file system's spelling of paths (\<open>expanduser\<close>, \<open>realpath\<close>) and
  the record adapters of a lookup are parameters.
\<close>

section \<open>Rows\<close>

record index_row =
  ix_store :: string
  ix_locator :: string
  ix_unit_key :: string
  ix_input_digest :: string
  ix_content_digest :: string
  ix_record_digest :: string
  ix_adapter :: string
  ix_writer_id :: string
  ix_run_id :: string
  ix_ts :: py_float
  ix_reused_from :: "(string \<times> string \<times> string) option"
  ix_schema_version :: int

definition INDEX_SCHEMA_VERSION :: int where
  "INDEX_SCHEMA_VERSION = 1"

definition REQUIRED_STR :: "string list" where
  "REQUIRED_STR = [''store'', ''locator'', ''unit_key'', ''input_digest'', ''content_digest'', ''record_digest'']"

definition PLAIN_STR :: "string list" where
  "PLAIN_STR = [''adapter'', ''writer_id'', ''run_id'']"

definition read_key :: "index_row \<Rightarrow> string \<times> string \<times> string" where
  "read_key r = (ix_store r, ix_locator r, ix_record_digest r)"

definition unit_id :: "index_row \<Rightarrow> string \<times> string" where
  "unit_id r = (ix_unit_key r, ix_input_digest r)"

definition IndexRow_to_dict :: "index_row \<Rightarrow> (string \<times> json) list" where
  "IndexRow_to_dict r =
     [(''schema_version'', JInt (ix_schema_version r)), (''store'', JStr (ix_store r)), (''locator'', JStr (ix_locator r)),
      (''unit_key'', JStr (ix_unit_key r)), (''input_digest'', JStr (ix_input_digest r)),
      (''content_digest'', JStr (ix_content_digest r)), (''record_digest'', JStr (ix_record_digest r)),
      (''adapter'', JStr (ix_adapter r)), (''writer_id'', JStr (ix_writer_id r)), (''run_id'', JStr (ix_run_id r)),
      (''ts'', JFloat (ix_ts r)),
      (''reused_from'', case ix_reused_from r of None \<Rightarrow> JNull | Some (a, b, c) \<Rightarrow> JArr [JStr a, JStr b, JStr c])]"

text \<open>\<open>to_json_line\<close>: the text of the line, as it is read back, and its line break.\<close>

definition IndexRow_to_json_line :: "index_row \<Rightarrow> file_data" where
  "IndexRow_to_json_line r = [Text (sort_keys (JObj (IndexRow_to_dict r))), Newline]"

text \<open>\<open>float(i)\<close>: 53 significant bits, half to even.\<close>

definition round_bits :: "nat \<Rightarrow> nat \<Rightarrow> nat" where
  "round_bits n e =
     (let q = n div 2 ^ e; rest = n mod 2 ^ e; half = 2 ^ e div 2 in
      (if e = 0 then n
       else if rest > half \<or> rest = half \<and> odd q then (q + 1) * 2 ^ e
       else q * 2 ^ e))"

fun excess_bits :: "nat \<Rightarrow> nat" where
  "excess_bits n = (if n < 2 ^ 53 then 0 else Suc (excess_bits (n div 2)))"

declare excess_bits.simps [simp del]

definition float_of_int :: "int \<Rightarrow> py_float res" where
  "float_of_int i =
     (let n = nat \<bar>i\<bar>; m = round_bits n (excess_bits n) in
      if m \<ge> 2 ^ 1024 then Inl (Exn OverflowError ''int too large to convert to float'' [])
      else Inr (Finite (of_int (sgn i * int m))))"

abbreviation row_error :: "string \<Rightarrow> string \<Rightarrow> 'a res" where
  "row_error m f \<equiv> Inl (Exn RowError m [ArgStr f])"

definition required_str :: "(string \<times> json) list \<Rightarrow> string \<Rightarrow> string res" where
  "required_str d f = (case obj_get d f of
     JStr (c # cs) \<Rightarrow> Inr (c # cs)
   | _ \<Rightarrow> row_error ''field must be a non-empty string'' f)"

definition plain_str :: "(string \<times> json) list \<Rightarrow> string \<Rightarrow> string res" where
  "plain_str d f = (case obj_get d f of JStr s \<Rightarrow> Inr s | _ \<Rightarrow> row_error ''field must be a string'' f)"

fun number_field :: "json \<Rightarrow> unit res" where
  "number_field (JInt _) = Inr ()"
| "number_field (JFloat _) = Inr ()"
| "number_field _ = row_error ''field must be a number'' ''ts''"

fun float_field :: "json \<Rightarrow> py_float res" where
  "float_field (JInt i) = float_of_int i"
| "float_field (JFloat x) = Inr x"
| "float_field _ = Inl (Exn TypeError ''float() argument must be a number'' [])"

fun reused_field :: "json \<Rightarrow> (string \<times> string \<times> string) option res" where
  "reused_field JNull = Inr None"
| "reused_field (JArr [JStr a, JStr b, JStr c]) =
     (if a \<noteq> [] \<and> b \<noteq> [] \<and> c \<noteq> [] then Inr (Some (a, b, c))
      else row_error ''field must be null or 3 strings'' ''reused_from'')"
| "reused_field _ = row_error ''field must be null or 3 strings'' ''reused_from''"

definition IndexRow_from_dict :: "(string \<times> json) list \<Rightarrow> index_row res" where
  "IndexRow_from_dict d =
     (if obj_get d ''schema_version'' \<notin> {JInt INDEX_SCHEMA_VERSION, JFloat (Finite (of_int INDEX_SCHEMA_VERSION))} then
        Inl (Exn SchemaMismatchError ''schema_version'' [])
      else
        bind_res (traverse_res (required_str d) REQUIRED_STR) (\<lambda>req.
        bind_res (traverse_res (plain_str d) PLAIN_STR) (\<lambda>str.
        bind_res (number_field (obj_get d ''ts'')) (\<lambda>_.
        bind_res (reused_field (obj_get d ''reused_from'')) (\<lambda>reused.
        bind_res (float_field (obj_get d ''ts'')) (\<lambda>ts.
          Inr \<lparr>ix_store = req ! 0, ix_locator = req ! 1, ix_unit_key = req ! 2, ix_input_digest = req ! 3,
               ix_content_digest = req ! 4, ix_record_digest = req ! 5,
               ix_adapter = str ! 0, ix_writer_id = str ! 1, ix_run_id = str ! 2,
               ix_ts = ts, ix_reused_from = reused, ix_schema_version = INDEX_SCHEMA_VERSION\<rparr>))))))"

section \<open>Paths\<close>

record path_ops =
  po_expanduser :: "string \<Rightarrow> string"
  po_realpath :: "string \<Rightarrow> string"

definition isabs :: "string \<Rightarrow> bool" where
  "isabs p = prefix_of ''/'' p"

definition canonical_store :: "path_ops \<Rightarrow> string \<Rightarrow> string res" where
  "canonical_store po store =
     (let path = po_expanduser po store in
      if \<not> isabs path then Inl (Exn ValueError ''store is relative; give the absolute path'' [ArgStr store])
      else Inr (po_realpath po path))"

section \<open>Parsing a segment\<close>

record bad_line =
  bl_path :: string
  bl_line :: nat
  bl_torn :: bool
  bl_reason :: exn
  bl_key :: "(string \<times> string) option"

record parsed =
  pa_rows :: "index_row list"
  pa_torn :: "bad_line list"
  pa_unreadable :: "bad_line list"
  pa_trailer :: bool

definition not_json :: exn where
  "not_json = Exn ValueError ''not JSON'' []"

definition mismatch_key :: "path_ops \<Rightarrow> (string \<times> json) list \<Rightarrow> (string \<times> string) option" where
  "mismatch_key po d = (case (obj_get d ''store'', obj_get d ''unit_key'') of
     (JStr store, JStr unit_key) \<Rightarrow>
       let spelled = po_expanduser po store
       in Some (if isabs spelled then po_realpath po spelled else store, unit_key)
   | _ \<Rightarrow> None)"

text \<open>One line that is not blank: what it adds to the result.\<close>

definition parse_line :: "path_ops \<Rightarrow> string \<Rightarrow> nat \<Rightarrow> file_data \<Rightarrow> parsed \<Rightarrow> parsed res" where
  "parse_line po path i raw out = (case loads raw of
     None \<Rightarrow> Inr (out\<lparr>pa_torn := pa_torn out @
         [\<lparr>bl_path = path, bl_line = i, bl_torn = True, bl_reason = not_json, bl_key = None\<rparr>]\<rparr>)
   | Some (JObj d) \<Rightarrow>
       if obj_get d ''closed'' = JBool True then Inr (out\<lparr>pa_trailer := True\<rparr>)
       else (case IndexRow_from_dict d of
         Inr row \<Rightarrow> Inr (out\<lparr>pa_rows := pa_rows out @ [row]\<rparr>)
       | Inl e \<Rightarrow>
           if class_of e \<in> {RowError, SchemaMismatchError} then
             Inr (out\<lparr>pa_unreadable := pa_unreadable out @
               [\<lparr>bl_path = path, bl_line = i, bl_torn = False, bl_reason = e,
                 bl_key = (if class_of e = SchemaMismatchError then mismatch_key po d else None)\<rparr>]\<rparr>)
           else Inl e)
   | Some _ \<Rightarrow> Inr (out\<lparr>pa_unreadable := pa_unreadable out @
         [\<lparr>bl_path = path, bl_line = i, bl_torn = False, bl_reason = Exn RowError ''not a JSON object'' [], bl_key = None\<rparr>]\<rparr>))"

fun parse_lines :: "path_ops \<Rightarrow> string \<Rightarrow> nat \<Rightarrow> file_data list \<Rightarrow> parsed \<Rightarrow> parsed res" where
  "parse_lines po path i [] out = Inr out"
| "parse_lines po path i (raw # raws) out =
     (if raw = [] then parse_lines po path (Suc i) raws out
      else bind_res (parse_line po path i raw out) (\<lambda>out'. parse_lines po path (Suc i) raws out'))"

definition no_lines :: parsed where
  "no_lines = \<lparr>pa_rows = [], pa_torn = [], pa_unreadable = [], pa_trailer = False\<rparr>"

definition parse_file :: "path_ops \<Rightarrow> string \<Rightarrow> file_data \<Rightarrow> parsed res" where
  "parse_file po path data = parse_lines po path 1 (split_lines data) no_lines"

section \<open>The segment writer\<close>

record segment_writer =
  sw_writer_id :: string
  sw_open :: bool
  sw_closed :: bool
  sw_clean :: bool
  sw_rows_written :: nat

definition utf8_len :: "string \<Rightarrow> nat" where
  "utf8_len s = sum_list (map (\<lambda>c. if of_char c < (128 :: nat) then 1 else 2) s)"

definition WRITER_ID_MAX_BYTES :: nat where
  "WRITER_ID_MAX_BYTES = 255 - 8 - 6 - 9"

definition plain_file_name :: "string \<Rightarrow> bool" where
  "plain_file_name s = (s \<noteq> [] \<and> CHR ''/'' \<notin> set s \<and> \<not> prefix_of ''.'' s \<and> CHR 0x00 \<notin> set s)"

definition SegmentWriter_init :: "string \<Rightarrow> segment_writer res" where
  "SegmentWriter_init wid =
     bind_res (parse_writer_id wid) (\<lambda>_.
       if \<not> plain_file_name wid then Inl (Exn ValueError ''writer_id is not a plain file name'' [ArgStr wid])
       else if utf8_len wid > WRITER_ID_MAX_BYTES then Inl (Exn ValueError ''writer_id is too long'' [ArgStr wid])
       else Inr \<lparr>sw_writer_id = wid, sw_open = False, sw_closed = False, sw_clean = True, sw_rows_written = 0\<rparr>)"

text \<open>\<open>open\<close>: \<open>guard\<close> is the error of the file guard, \<open>existing\<close> the file that \<open>O_EXCL\<close> would find.\<close>

definition writer_open :: "exn option \<Rightarrow> file_data option \<Rightarrow> segment_writer \<Rightarrow> (segment_writer \<times> file_data) res" where
  "writer_open guard existing w =
     (if sw_open w \<or> sw_closed w then Inl (Exn RuntimeError ''segment was already opened'' [ArgStr (sw_writer_id w)])
      else case guard of
        Some e \<Rightarrow> Inl e
      | None \<Rightarrow>
          (case existing of
             Some _ \<Rightarrow> Inl (Exn FileExistsError ''file exists'' [ArgStr (sw_writer_id w)])
           | None \<Rightarrow> Inr (w\<lparr>sw_open := True\<rparr>, [])))"

text \<open>
  The outcome of a write: it succeeds, or it raises after \<open>i\<close> pieces and possibly a part of the next
  one. A failing \<open>fsync\<close> raises after all of them.
\<close>

datatype write_outcome = Written | Raises nat bool exn

definition written_part :: "file_data \<Rightarrow> nat \<Rightarrow> bool \<Rightarrow> file_data" where
  "written_part data i part =
     take i data @ (if part \<and> i < length data \<and> data ! i \<noteq> Newline then [Fragment] else [])"

definition writer_write ::
  "write_outcome \<Rightarrow> file_data \<Rightarrow> segment_writer \<times> file_data \<Rightarrow> (segment_writer \<times> file_data) \<times> exn option"
where
  "writer_write outcome data = (\<lambda>(w, content).
     if \<not> sw_open w then ((w, content), Some (Exn RuntimeError ''segment is not open'' [ArgStr (sw_writer_id w)]))
     else
       let data' = (if sw_clean w then data else Newline # data) in
       case outcome of
         Written \<Rightarrow> ((w\<lparr>sw_clean := True\<rparr>, content @ data'), None)
       | Raises i part e \<Rightarrow> ((w\<lparr>sw_clean := False\<rparr>, content @ written_part data' i part), Some e))"

definition writer_append ::
  "path_ops \<Rightarrow> write_outcome \<Rightarrow> index_row \<Rightarrow> segment_writer \<times> file_data \<Rightarrow> (segment_writer \<times> file_data) \<times> exn option"
where
  "writer_append po outcome row = (\<lambda>(w, content).
     if sw_closed w then ((w, content), Some (Exn RuntimeError ''segment is closed'' [ArgStr (sw_writer_id w)]))
     else if ix_writer_id row \<noteq> sw_writer_id w then
       ((w, content), Some (Exn ValueError ''row writer_id is another one'' [ArgStr (ix_writer_id row)]))
     else case canonical_store po (ix_store row) of
       Inl e \<Rightarrow> ((w, content), Some e)
     | Inr store \<Rightarrow>
         (case writer_write outcome (IndexRow_to_json_line (row\<lparr>ix_store := store\<rparr>)) (w, content) of
            ((w', content'), Some e) \<Rightarrow> ((w', content'), Some e)
          | ((w', content'), None) \<Rightarrow> ((w'\<lparr>sw_rows_written := sw_rows_written w' + 1\<rparr>, content'), None)))"

definition TRAILER :: file_data where
  "TRAILER = [Text (JObj [(''closed'', JBool True)]), Newline]"

definition writer_close ::
  "write_outcome \<Rightarrow> segment_writer \<times> file_data \<Rightarrow> (segment_writer \<times> file_data) \<times> exn option"
where
  "writer_close outcome = (\<lambda>(w, content).
     if sw_closed w then ((w, content), None)
     else
       let w = w\<lparr>sw_closed := True\<rparr> in
       if \<not> sw_open w then ((w, content), None)
       else (case writer_write outcome TRAILER (w, content) of
         ((w', content'), e) \<Rightarrow> ((w'\<lparr>sw_open := False\<rparr>, content'), e)))"


text \<open>What a caller does with an open writer, and the rows whose \<open>append\<close> returned.\<close>

datatype writer_op = Append index_row write_outcome | Close write_outcome

fun writer_run :: "path_ops \<Rightarrow> writer_op list \<Rightarrow> segment_writer \<times> file_data \<Rightarrow> (segment_writer \<times> file_data) \<times> index_row list" where
  "writer_run po [] s = (s, [])"
| "writer_run po (Append row outcome # ops) s =
     (case writer_append po outcome row s of
        (s', Some _) \<Rightarrow> writer_run po ops s'
      | (s', None) \<Rightarrow>
          (case writer_run po ops s' of (s'', rows) \<Rightarrow> (s'', (case canonical_store po (ix_store row) of
             Inr store \<Rightarrow> row\<lparr>ix_store := store\<rparr> # rows | Inl _ \<Rightarrow> rows))))"
| "writer_run po (Close outcome # ops) s = (case writer_close outcome s of (s', _) \<Rightarrow> writer_run po ops s')"

section \<open>Rows survive the writer\<close>

lemma split_lines_not_Nil [simp]: "split_lines ps \<noteq> []"
  by (induction ps rule: split_lines.induct) (auto split: list.splits)

lemma split_lines_append:
  "split_lines (xs @ ys) = butlast (split_lines xs) @ (last (split_lines xs) @ hd (split_lines ys)) # tl (split_lines ys)"
  by (induction xs rule: split_lines.induct) (auto split: list.splits simp: neq_Nil_conv)

text \<open>The row of a line, when it has one, and the rows of a file.\<close>

definition row_of_line :: "file_data \<Rightarrow> index_row option" where
  "row_of_line raw = (case loads raw of
     Some (JObj d) \<Rightarrow>
       if obj_get d ''closed'' = JBool True then None
       else (case IndexRow_from_dict d of Inr row \<Rightarrow> Some row | Inl _ \<Rightarrow> None)
   | _ \<Rightarrow> None)"

definition rows_of :: "file_data \<Rightarrow> index_row list" where
  "rows_of data = List.map_filter row_of_line (split_lines data)"

lemma parse_line_rows: "parse_line po path i raw out = Inr out' \<Longrightarrow>
    pa_rows out' = pa_rows out @ (case row_of_line raw of None \<Rightarrow> [] | Some row \<Rightarrow> [row])"
  by (auto simp: parse_line_def row_of_line_def split: option.splits json.splits if_splits sum.splits)

lemma parse_lines_rows: "parse_lines po path i raws out = Inr out' \<Longrightarrow>
    pa_rows out' = pa_rows out @ List.map_filter row_of_line raws"
proof (induction raws arbitrary: i out)
  case (Cons raw raws)
  show ?case
  proof (cases "raw = []")
    case True
    then show ?thesis using Cons by (simp add: map_filter_simps row_of_line_def)
  next
    case False
    then obtain o1 where o1: "parse_line po path i raw out = Inr o1" "parse_lines po path (Suc i) raws o1 = Inr out'"
      using Cons.prems by (auto simp: bind_res_eq_Inr)
    show ?thesis
      using Cons.IH [OF o1(2)] parse_line_rows [OF o1(1)] by (auto simp: map_filter_simps split: option.splits)
  qed
qed (simp add: map_filter_simps)

lemma parse_file_rows: "parse_file po path data = Inr out \<Longrightarrow> pa_rows out = rows_of data"
  unfolding parse_file_def rows_of_def by (drule parse_lines_rows) (simp add: no_lines_def)

subsection \<open>Complete lines\<close>

text \<open>The rows of the lines that end in a line break: later writes do not change them.\<close>

definition complete_rows :: "file_data \<Rightarrow> index_row list" where
  "complete_rows data = List.map_filter row_of_line (butlast (split_lines data))"

lemma map_filter_append: "List.map_filter f (xs @ ys) = List.map_filter f xs @ List.map_filter f ys"
  by (simp add: List.map_filter_def)

lemma rows_of_complete: "rows_of data = complete_rows data
    @ (case row_of_line (last (split_lines data)) of None \<Rightarrow> [] | Some row \<Rightarrow> [row])"
proof -
  have "rows_of data = List.map_filter row_of_line (butlast (split_lines data) @ [last (split_lines data)])"
    by (simp add: rows_of_def)
  then show ?thesis
    unfolding map_filter_append complete_rows_def by (auto simp: map_filter_simps split: option.splits)
qed

lemma complete_rows_append: "\<exists>more. complete_rows (xs @ ys) = complete_rows xs @ more"
  by (simp add: complete_rows_def split_lines_append butlast_append map_filter_append)

lemma complete_rows_line:
  assumes "last (split_lines data) = []"
  shows "complete_rows (data @ [Text j, Newline]) = complete_rows data
      @ (case row_of_line [Text j] of None \<Rightarrow> [] | Some row \<Rightarrow> [row])"
    and "last (split_lines (data @ [Text j, Newline])) = []"
  using assms by (auto simp: complete_rows_def split_lines_append butlast_append map_filter_append map_filter_simps
      split: option.splits)

lemma last_split_Newline: "last (split_lines (data @ [Newline])) = []"
  by (simp add: split_lines_append)

subsection \<open>Written rows\<close>

text \<open>A row that its own reader accepts: this is what \<open>make_row\<close> checks.\<close>

definition row_valid :: "index_row \<Rightarrow> bool" where
  "row_valid r = (IndexRow_from_dict (IndexRow_to_dict r) = Inr r)"

lemma distinct_IndexRow_dict: "distinct (map fst (IndexRow_to_dict r))"
  by (simp add: IndexRow_to_dict_def)

lemma required_str_JStr: "obj_get d f = JStr s \<Longrightarrow> required_str d f = (if s = [] then row_error ''field must be a non-empty string'' f else Inr s)"
  by (cases s) (simp_all add: required_str_def)

lemma IndexRow_obj_get:
  shows "obj_get (IndexRow_to_dict r) ''store'' = JStr (ix_store r)" "obj_get (IndexRow_to_dict r) ''locator'' = JStr (ix_locator r)"
      "obj_get (IndexRow_to_dict r) ''unit_key'' = JStr (ix_unit_key r)"
      "obj_get (IndexRow_to_dict r) ''input_digest'' = JStr (ix_input_digest r)"
      "obj_get (IndexRow_to_dict r) ''content_digest'' = JStr (ix_content_digest r)"
      "obj_get (IndexRow_to_dict r) ''record_digest'' = JStr (ix_record_digest r)"
      "obj_get (IndexRow_to_dict r) ''adapter'' = JStr (ix_adapter r)" "obj_get (IndexRow_to_dict r) ''writer_id'' = JStr (ix_writer_id r)"
      "obj_get (IndexRow_to_dict r) ''run_id'' = JStr (ix_run_id r)" "obj_get (IndexRow_to_dict r) ''ts'' = JFloat (ix_ts r)"
      "obj_get (IndexRow_to_dict r) ''schema_version'' = JInt (ix_schema_version r)"
      "obj_get (IndexRow_to_dict r) ''reused_from''
        = (case ix_reused_from r of None \<Rightarrow> JNull | Some (a, b, c) \<Rightarrow> JArr [JStr a, JStr b, JStr c])"
  by (simp_all add: obj_get_def IndexRow_to_dict_def)

lemma IndexRow_eta:
  "\<lparr>ix_store = ix_store r, ix_locator = ix_locator r, ix_unit_key = ix_unit_key r, ix_input_digest = ix_input_digest r,
      ix_content_digest = ix_content_digest r, ix_record_digest = ix_record_digest r, ix_adapter = ix_adapter r,
      ix_writer_id = ix_writer_id r, ix_run_id = ix_run_id r, ix_ts = ix_ts r, ix_reused_from = u, ix_schema_version = v\<rparr> = r
      \<longleftrightarrow> u = ix_reused_from r \<and> v = ix_schema_version r"
  by (cases r) auto

lemmas from_dict_simps = IndexRow_from_dict_def IndexRow_obj_get required_str_JStr plain_str_def REQUIRED_STR_def PLAIN_STR_def
  INDEX_SCHEMA_VERSION_def IndexRow_eta

lemma index_row_reread:
  assumes "IndexRow_from_dict (IndexRow_to_dict r) = Inr r'"
  shows "r' = r"
proof (cases "ix_reused_from r")
  case None
  then show ?thesis using assms by (cases r) (auto simp: from_dict_simps bind_res_eq_Inr split: if_splits)
next
  case (Some abc)
  then show ?thesis using assms by (cases r; cases abc) (auto simp: from_dict_simps bind_res_eq_Inr split: if_splits)
qed

lemma row_valid_iff:
  "row_valid r \<longleftrightarrow> ix_schema_version r = 1 \<and> [] \<notin> {ix_store r, ix_locator r, ix_unit_key r, ix_input_digest r, ix_content_digest r, ix_record_digest r}
     \<and> (case ix_reused_from r of None \<Rightarrow> True | Some (a, b, c) \<Rightarrow> [] \<notin> {a, b, c})"
proof (cases "ix_reused_from r")
  case None
  then show ?thesis by (simp add: row_valid_def from_dict_simps)
next
  case (Some abc)
  then show ?thesis by (cases abc) (auto simp: row_valid_def from_dict_simps)
qed

lemma from_dict_sorted: "IndexRow_from_dict (sort_key fst (map (\<lambda>kv. (fst kv, sort_keys (snd kv))) (IndexRow_to_dict r)))
    = IndexRow_from_dict (IndexRow_to_dict r)"
proof -
  have id: "sort_keys (obj_get (IndexRow_to_dict r) k) = obj_get (IndexRow_to_dict r) k" for k
    by (auto simp: obj_get_def IndexRow_to_dict_def split: option.splits)
  have get: "obj_get (sort_key fst (map (\<lambda>kv. (fst kv, sort_keys (snd kv))) (IndexRow_to_dict r))) k
      = obj_get (IndexRow_to_dict r) k" for k
    by (subst obj_get_sorted [OF distinct_IndexRow_dict]) (rule id)
  show ?thesis unfolding IndexRow_from_dict_def required_str_def plain_str_def get ..
qed

lemma row_of_written: "row_valid r \<Longrightarrow> row_of_line [Text (sort_keys (JObj (IndexRow_to_dict r)))] = Some r"
proof -
  assume "row_valid r"
  moreover have "obj_get (sort_key fst (map (\<lambda>kv. (fst kv, sort_keys (snd kv))) (IndexRow_to_dict r))) ''closed'' = JNull"
    by (subst obj_get_sorted [OF distinct_IndexRow_dict]) (simp add: obj_get_def IndexRow_to_dict_def)
  ultimately show ?thesis by (simp add: row_of_line_def from_dict_sorted row_valid_def del: sort_key_simps)
qed

text \<open>The lines that a writer of the rows \<open>A\<close> leaves.\<close>

definition line_kind :: "index_row set \<Rightarrow> file_data \<Rightarrow> bool" where
  "line_kind A l = (l \<in> {[], [Fragment], [Text (JObj [(''closed'', JBool True)])]}
     \<or> (\<exists>r\<in>A. row_valid r \<and> l = [Text (sort_keys (JObj (IndexRow_to_dict r)))]))"

definition clean_lines :: "index_row set \<Rightarrow> file_data \<Rightarrow> bool" where
  "clean_lines A content = list_all (line_kind A) (split_lines content)"

lemma clean_lines_parse:
  assumes "list_all (line_kind A) raws"
  shows "\<exists>out'. parse_lines po path i raws out = Inr out' \<and> pa_unreadable out' = pa_unreadable out
    \<and> set (pa_rows out') \<subseteq> set (pa_rows out) \<union> A"
  using assms
proof (induction raws arbitrary: i out)
  case (Cons raw raws)
  have "\<exists>o1. parse_line po path i raw out = Inr o1 \<and> pa_unreadable o1 = pa_unreadable out
    \<and> set (pa_rows o1) \<subseteq> set (pa_rows out) \<union> A" if "raw \<noteq> []"
  proof -
    have "raw = [Fragment] \<or> raw = [Text (JObj [(''closed'', JBool True)])]
        \<or> (\<exists>r\<in>A. row_valid r \<and> raw = [Text (sort_keys (JObj (IndexRow_to_dict r)))])"
      using Cons.prems that by (simp add: line_kind_def)
    then show ?thesis
    proof (elim disjE bexE conjE)
      fix r assume r: "r \<in> A" "row_valid r" "raw = [Text (sort_keys (JObj (IndexRow_to_dict r)))]"
      from row_of_written [OF r(2)] show ?thesis
        using r(1) by (auto simp: r(3) row_of_line_def parse_line_def simp del: sort_key_simps split: if_splits sum.splits)
    qed (auto simp: parse_line_def obj_get_def)
  qed
  then obtain o1 where o1: "raw \<noteq> [] \<Longrightarrow> parse_line po path i raw out = Inr o1"
      "raw \<noteq> [] \<Longrightarrow> pa_unreadable o1 = pa_unreadable out" "raw \<noteq> [] \<Longrightarrow> set (pa_rows o1) \<subseteq> set (pa_rows out) \<union> A"
    by blast
  show ?case
    using Cons.IH [of "Suc i" out] Cons.IH [of "Suc i" o1] Cons.prems o1 by (cases "raw = []") auto
qed auto

lemma clean_lines_snoc:
  assumes "clean_lines A content"
  shows "clean_lines A (content @ [Newline])"
    and "last (split_lines content) = [] \<Longrightarrow> line_kind A [Text j] \<Longrightarrow> clean_lines A (content @ [Text j])"
    and "last (split_lines content) = [] \<Longrightarrow> clean_lines A (content @ [Fragment])"
  using assms append_butlast_last_id [OF split_lines_not_Nil, of content]
  by (auto simp: clean_lines_def split_lines_append list_all_iff line_kind_def dest: in_set_butlastD)

lemma written_part_cases:
  "written_part [Text j, Newline] i part \<in> {[], [Fragment], [Text j], [Text j, Newline]}"
  "written_part [Newline, Text j, Newline] i part \<in> {[], [Newline], [Newline, Fragment], [Newline, Text j], [Newline, Text j, Newline]}"
proof -
  show "written_part [Text j, Newline] i part \<in> {[], [Fragment], [Text j], [Text j, Newline]}"
    by (cases i; cases "i - 1") (auto simp: written_part_def)
  show "written_part [Newline, Text j, Newline] i part \<in> {[], [Newline], [Newline, Fragment], [Newline, Text j], [Newline, Text j, Newline]}"
    by (cases i; cases "i - 1"; cases "i - 2") (auto simp: written_part_def)
qed

text \<open>What every write of one line keeps of the file.\<close>

definition writer_inv :: "index_row set \<Rightarrow> segment_writer \<times> file_data \<Rightarrow> bool" where
  "writer_inv A = (\<lambda>(w, content). clean_lines A content \<and> (sw_clean w \<longrightarrow> last (split_lines content) = [])
     \<and> sw_open w = (\<not> sw_closed w) \<and> (sw_closed w \<and> sw_clean w \<longrightarrow> has_trailer content))"

lemma write_line:
  assumes "clean_lines A content" "sw_clean w \<longrightarrow> last (split_lines content) = []" "sw_open w" "line_kind A [Text j]"
    and "writer_write outcome [Text j, Newline] (w, content) = ((w', content'), e)"
  shows "clean_lines A content'" "sw_clean w' \<longrightarrow> last (split_lines content') = []"
    and "\<exists>more. complete_rows content' = complete_rows content @ more"
    and "e = None \<Longrightarrow> \<exists>more. complete_rows content' = complete_rows content @ more
          @ (case row_of_line [Text j] of None \<Rightarrow> [] | Some row \<Rightarrow> [row])"
    and "e = None \<Longrightarrow> \<exists>init. split_lines content' = init @ [[Text j], []]"
    and "w' = w\<lparr>sw_clean := (e = None)\<rparr>"
proof -
  define c where "c = (if sw_clean w then content else content @ [Newline])"
  have c: "clean_lines A c" "last (split_lines c) = []"
    using clean_lines_snoc(1) [OF assms(1)] assms(1,2) last_split_Newline by (auto simp: c_def)
  obtain part where part: "content' = c @ part \<or> content' = content"
      "part \<in> {[], [Fragment], [Text j], [Text j, Newline]}" "outcome = Written \<Longrightarrow> content' = c @ [Text j, Newline]"
  proof (cases outcome)
    case Written
    then show ?thesis using assms(3,5) that [of "[Text j, Newline]"] by (auto simp: writer_write_def Let_def c_def)
  next
    case (Raises i p exc)
    then have w': "content' = content @ written_part (if sw_clean w then [Text j, Newline] else [Newline, Text j, Newline]) i p"
      using assms(3,5) by (auto simp: writer_write_def Let_def)
    show ?thesis
      using w' Raises written_part_cases [of j i p] that by (cases "sw_clean w") (auto simp: c_def)
  qed
  have e: "e = None \<longleftrightarrow> outcome = Written" "w' = w\<lparr>sw_clean := (e = None)\<rparr>"
    using assms(3,5) by (auto simp: writer_write_def Let_def split: write_outcome.splits)
  have two: "clean_lines A (c @ [Text j, Newline])"
    using clean_lines_snoc(1) [OF clean_lines_snoc(2) [OF c assms(4)]] by simp
  then show "clean_lines A content'"
    using part(1,2) c clean_lines_snoc(2,3) [OF c(1)] assms(1,4) by auto
  show "w' = w\<lparr>sw_clean := (e = None)\<rparr>" by (rule e(2))
  have more: "\<exists>more. complete_rows content' = complete_rows content @ more"
  proof -
    have "\<exists>ext. content' = content @ ext"
      using part(1) by (cases "sw_clean w") (auto simp: c_def)
    then show ?thesis using complete_rows_append by blast
  qed
  then show "\<exists>more. complete_rows content' = complete_rows content @ more" .
  show "sw_clean w' \<longrightarrow> last (split_lines content') = []"
    using e part(3) complete_rows_line(2) [OF c(2)] by auto
  show "\<exists>more. complete_rows content' = complete_rows content @ more
      @ (case row_of_line [Text j] of None \<Rightarrow> [] | Some row \<Rightarrow> [row])" if "e = None"
  proof -
    obtain m where "complete_rows c = complete_rows content @ m"
      using complete_rows_append [of content "[Newline]"] by (cases "sw_clean w") (auto simp: c_def)
    then show ?thesis using complete_rows_line(1) [OF c(2), of j] part(3) e(1) that by auto
  qed
  show "\<exists>init. split_lines content' = init @ [[Text j], []]" if "e = None"
    using part(3) e(1) that c(2) by (simp add: split_lines_append)
qed

text \<open>The row as it is stored, and the rows that a sequence of operations tries to append.\<close>

definition stored_row :: "path_ops \<Rightarrow> index_row \<Rightarrow> index_row option" where
  "stored_row po row = (case canonical_store po (ix_store row) of Inl _ \<Rightarrow> None | Inr store \<Rightarrow> Some (row\<lparr>ix_store := store\<rparr>))"

definition attempted :: "path_ops \<Rightarrow> writer_op list \<Rightarrow> index_row set" where
  "attempted po ops = {r. \<exists>row outcome. Append row outcome \<in> set ops \<and> stored_row po row = Some r}"

lemma append_line_inv:
  assumes "writer_inv A s" "writer_append po outcome row s = (s', e)"
    and "\<forall>r. stored_row po row = Some r \<longrightarrow> r \<in> A \<and> row_valid r"
  shows "writer_inv A s'" "\<exists>more. complete_rows (snd s') = complete_rows (snd s) @ more"
    and "e = None \<Longrightarrow> \<exists>r more. stored_row po row = Some r \<and> complete_rows (snd s') = complete_rows (snd s) @ more @ [r]"
proof -
  obtain w content where s: "s = (w, content)" by fastforce
  have "writer_inv A s' \<and> (\<exists>more. complete_rows (snd s') = complete_rows content @ more)
    \<and> (e = None \<longrightarrow> (\<exists>r more. stored_row po row = Some r \<and> complete_rows (snd s') = complete_rows content @ more @ [r]))"
  proof (cases "sw_closed w \<or> ix_writer_id row \<noteq> sw_writer_id w \<or> stored_row po row = None")
    case True
    then have "s' = s \<and> e \<noteq> None"
      using assms(2) by (auto simp: s writer_append_def stored_row_def split: sum.splits if_splits)
    then show ?thesis using assms(1) s by simp
  next
    case False
    then obtain store where store: "canonical_store po (ix_store row) = Inr store"
      by (auto simp: stored_row_def split: sum.splits)
    define r where "r = row\<lparr>ix_store := store\<rparr>"
    define j where "j = sort_keys (JObj (IndexRow_to_dict r))"
    have r: "stored_row po row = Some r" "r \<in> A" "row_valid r" using assms(3) store by (auto simp: r_def stored_row_def)
    then have kind: "line_kind A [Text j]" by (auto simp: line_kind_def j_def)
    obtain w1 c1 e1 where wr: "writer_write outcome [Text j, Newline] (w, content) = ((w1, c1), e1)" by (metis surj_pair)
    have inv: "clean_lines A content" "sw_clean w \<longrightarrow> last (split_lines content) = []" "sw_open w"
      using assms(1) False by (auto simp: writer_inv_def s)
    note l = write_line [OF inv kind wr]
    have s': "e = e1" "snd s' = c1" "sw_clean (fst s') = (e1 = None)" "sw_open (fst s')" "\<not> sw_closed (fst s')"
      using assms(2) False store wr l(6) inv(3)
      by (auto simp: s writer_append_def IndexRow_to_json_line_def r_def j_def simp del: sort_keys.simps split: option.splits)
    then have "writer_inv A s'" using l(1,2,6) by (auto simp: writer_inv_def split: prod.splits)
    moreover have "row_of_line [Text j] = Some r" unfolding j_def by (rule row_of_written [OF r(3)])
    ultimately show ?thesis using l(3,4) s' r(1) by auto
  qed
  then show "writer_inv A s'" "\<exists>more. complete_rows (snd s') = complete_rows (snd s) @ more"
    "e = None \<Longrightarrow> \<exists>r more. stored_row po row = Some r \<and> complete_rows (snd s') = complete_rows (snd s) @ more @ [r]"
    by (simp_all add: s)
qed

lemma has_trailer_last: "split_lines content = init @ [[Text j], []] \<Longrightarrow> is_trailer j \<Longrightarrow> has_trailer content"
  by (simp add: has_trailer_def)

lemma close_line_inv:
  assumes "writer_inv A s" "writer_close outcome s = (s', e)"
  shows "writer_inv A s'" "\<exists>more. complete_rows (snd s') = complete_rows (snd s) @ more"
proof -
  obtain w content where s: "s = (w, content)" by fastforce
  have "writer_inv A s' \<and> (\<exists>more. complete_rows (snd s') = complete_rows content @ more)"
  proof (cases "sw_closed w")
    case True
    then have "s' = s" using assms(2) by (simp add: s writer_close_def)
    then show ?thesis using assms(1) s by simp
  next
    case False
    let ?w = "w\<lparr>sw_closed := True\<rparr>" and ?j = "JObj [(''closed'', JBool True)]"
    obtain w1 c1 e1 where wr: "writer_write outcome [Text ?j, Newline] (?w, content) = ((w1, c1), e1)" by (metis surj_pair)
    have inv: "clean_lines A content" "sw_clean ?w \<longrightarrow> last (split_lines content) = []" "sw_open ?w"
      using assms(1) False by (auto simp: writer_inv_def s)
    have kind: "line_kind A [Text ?j]" by (simp add: line_kind_def)
    note l = write_line [OF inv kind wr]
    have s': "s' = (w1\<lparr>sw_open := False\<rparr>, c1)"
      using assms(2) False inv(3) wr by (simp add: s writer_close_def TRAILER_def Let_def)
    have "e1 = None \<Longrightarrow> has_trailer c1" using l(5) has_trailer_last [of c1 _ ?j] by (auto simp: obj_get_def)
    then show ?thesis using l(1-3,6) s' by (auto simp: writer_inv_def)
  qed
  then show "writer_inv A s'" "\<exists>more. complete_rows (snd s') = complete_rows (snd s) @ more" by (simp_all add: s)
qed

lemma writer_run_inv:
  assumes "writer_inv A s" "writer_run po ops s = (s', rows)"
    and "attempted po ops \<subseteq> {r \<in> A. row_valid r}"
  shows "writer_inv A s' \<and> (\<exists>more. complete_rows (snd s') = complete_rows (snd s) @ more \<and> subseq rows more)"
  using assms
proof (induction ops arbitrary: s rows)
  case (Cons op ops)
  have valid: "attempted po ops \<subseteq> {r \<in> A. row_valid r}" using Cons.prems(3) by (auto simp: attempted_def)
  show ?case
  proof (cases op)
    case (Close outcome)
    obtain s1 e where s1: "writer_close outcome s = (s1, e)" by fastforce
    note c = close_line_inv [OF Cons.prems(1) s1]
    have "writer_run po ops s1 = (s', rows)" using Cons.prems(2) Close s1 by simp
    from Cons.IH [OF c(1) this valid] c(2) show ?thesis by (auto intro: list_emb_append2)
  next
    case (Append row outcome)
    obtain s1 e where s1: "writer_append po outcome row s = (s1, e)" by fastforce
    have "\<forall>r. stored_row po row = Some r \<longrightarrow> r \<in> A \<and> row_valid r"
      using Cons.prems(3) Append by (auto simp: attempted_def)
    note a = append_line_inv [OF Cons.prems(1) s1 this]
    obtain rows1 where run: "writer_run po ops s1 = (s', rows1)"
      and rows: "rows = (if e = None then (case stored_row po row of None \<Rightarrow> [] | Some r \<Rightarrow> [r]) @ rows1 else rows1)"
      using Cons.prems(2) Append s1 by (auto simp: stored_row_def split: option.splits prod.splits sum.splits)
    obtain more where more: "writer_inv A s'" "complete_rows (snd s') = complete_rows (snd s1) @ more" "subseq rows1 more"
      using Cons.IH [OF a(1) run valid] by auto
    show ?thesis
    proof (cases "e = None")
      case True
      obtain r m where r: "stored_row po row = Some r" "complete_rows (snd s1) = complete_rows (snd s) @ m @ [r]"
        using a(3) [OF True] by blast
      have "subseq ([r] @ rows1) ((m @ [r]) @ more)"
        using more(3) by (intro list_emb_append_mono) auto
      then show ?thesis using more(1,2) r True rows by auto
    next
      case False
      then show ?thesis using more a(2) rows by (auto intro: list_emb_append2)
    qed
  qed
qed simp

text \<open>
  C11. Whatever writes of a segment fail, and wherever they fail, a reader finds every row whose \<open>append\<close> returned,
  in order and in a complete line, so that no later write can damage it; it finds no row that was not
  appended and no unreadable line, and a \<open>close\<close> that returned leaves the trailer that lets a compaction take the segment.
\<close>

theorem appended_rows_are_read:
  assumes "SegmentWriter_init wid = Inr w0" "writer_open None None w0 = Inr s0"
    and "writer_run po ops s0 = ((w, content), rows)" "\<forall>r\<in>attempted po ops. row_valid r"
  shows "\<exists>out. parse_file po path content = Inr out \<and> subseq rows (pa_rows out)
    \<and> set (pa_rows out) \<subseteq> attempted po ops \<and> pa_unreadable out = []
    \<and> (\<forall>more. subseq rows (complete_rows (content @ more)))
    \<and> (sw_closed w \<and> sw_clean w \<longrightarrow> has_trailer content)"
proof -
  have s0: "writer_inv (attempted po ops) s0" "complete_rows (snd s0) = []"
    using assms(1,2) by (auto simp: SegmentWriter_init_def writer_open_def writer_inv_def clean_lines_def line_kind_def
        complete_rows_def map_filter_simps bind_res_eq_Inr split: if_splits)
  have "writer_inv (attempted po ops) (w, content)" "subseq rows (complete_rows content)"
    using writer_run_inv [OF s0(1) assms(3)] assms(4) s0(2) by auto
  moreover from this obtain out where out: "parse_file po path content = Inr out" "pa_unreadable out = []"
      "set (pa_rows out) \<subseteq> attempted po ops"
    using clean_lines_parse [of "attempted po ops" "split_lines content" po path 1 no_lines]
    by (auto simp: writer_inv_def clean_lines_def parse_file_def no_lines_def)
  moreover have "subseq rows (pa_rows out)"
    using \<open>subseq rows (complete_rows content)\<close> parse_file_rows [OF out(1)] rows_of_complete [of content]
    by (simp add: list_emb_append_mono [of "(=)" rows _ "[]", simplified])
  moreover have "subseq rows (complete_rows (content @ more))" for more
    using \<open>subseq rows (complete_rows content)\<close> complete_rows_append [of content more]
    by (metis append.right_neutral list_emb_append_mono list_emb_Nil)
  ultimately show ?thesis by (auto simp: writer_inv_def)
qed

definition plain_paths :: path_ops where
  "plain_paths = \<lparr>po_expanduser = (\<lambda>s. s), po_realpath = (\<lambda>s. s)\<rparr>"

definition demo_row :: "string \<Rightarrow> string \<Rightarrow> index_row" where
  "demo_row key content = \<lparr>ix_store = ''/data/s.zarr'', ix_locator = key, ix_unit_key = key, ix_input_digest = ''in1'',
     ix_content_digest = content, ix_record_digest = ''rec'' @ content, ix_adapter = ''zarr_commit'', ix_writer_id = ''n1-7-nojob-0-ab'',
     ix_run_id = ''r1'', ix_ts = Finite 5, ix_reused_from = None, ix_schema_version = 1\<rparr>"

definition demo_ops :: "writer_op list" where
  "demo_ops = [Append (demo_row ''k0'' ''c0'') (Raises 0 True (Exn OSError ''disk full'' [])), Append (demo_row ''k1'' ''c1'') Written,
     Close Written]"

theorem appended_rows_are_read_witness:
  "\<exists>out. parse_file plain_paths ''segments/n1-7-nojob-0-ab.jsonl''
       (snd (fst (writer_run plain_paths demo_ops (\<lparr>sw_writer_id = ''n1-7-nojob-0-ab'', sw_open = True, sw_closed = False,
          sw_clean = True, sw_rows_written = 0\<rparr>, [])))) = Inr out
     \<and> subseq [demo_row ''k1'' ''c1''] (pa_rows out) \<and> pa_unreadable out = []"
proof -
  let ?w = "\<lparr>sw_writer_id = ''n1-7-nojob-0-ab'', sw_open = False, sw_closed = False, sw_clean = True, sw_rows_written = 0\<rparr>"
  have init: "SegmentWriter_init ''n1-7-nojob-0-ab'' = Inr ?w" by code_simp
  have opened: "writer_open None None ?w = Inr (?w\<lparr>sw_open := True\<rparr>, [])" by code_simp
  have rows: "snd (writer_run plain_paths demo_ops (?w\<lparr>sw_open := True\<rparr>, [])) = [demo_row ''k1'' ''c1'']" by code_simp
  obtain w content where run: "writer_run plain_paths demo_ops (?w\<lparr>sw_open := True\<rparr>, []) = ((w, content), [demo_row ''k1'' ''c1''])"
    using rows by (metis prod.collapse)
  have "\<forall>r\<in>attempted plain_paths demo_ops. row_valid r"
    by (auto simp: attempted_def demo_ops_def stored_row_def canonical_store_def plain_paths_def isabs_def prefix_of_def
        demo_row_def row_valid_iff split: if_splits)
  from appended_rows_are_read [OF init opened run this, of "''segments/n1-7-nojob-0-ab.jsonl''"] show ?thesis
    using run by auto
qed

section \<open>The read side\<close>

record index_fs =
  xf_segments :: "seg_file directory"
  xf_sealed :: "seg_file directory"
  xf_rebuilt :: "seg_file directory"
  xf_archive :: "seg_file directory"
  xf_manifests :: "json directory"

text \<open>\<open>_listing\<close>: the sorted entries of a directory that end in \<open>.jsonl\<close> and are not hidden.\<close>

definition index_listing :: "'f directory \<Rightarrow> (string \<times> 'f) list" where
  "index_listing d = filter (\<lambda>f. \<not> prefix_of ''.'' (fst f)) (jsonl_files d)"

text \<open>\<open>_scan\<close> of an index that nobody changes meanwhile: every file of the three directories, parsed.\<close>

definition index_files :: "index_fs \<Rightarrow> (string \<times> seg_file) list" where
  "index_files fs =
     map (\<lambda>(n, f). (''segments/'' @ n, f)) (index_listing (xf_segments fs))
     @ map (\<lambda>(n, f). (''sealed/'' @ n, f)) (index_listing (xf_sealed fs))
     @ map (\<lambda>(n, f). (''rebuilt/'' @ n, f)) (index_listing (xf_rebuilt fs))"

definition index_scan :: "path_ops \<Rightarrow> index_fs \<Rightarrow> parsed list res" where
  "index_scan po fs = traverse_res (\<lambda>(path, f). parse_file po path (fl_data f)) (index_files fs)"

record read_report =
  rr_files :: nat
  rr_rows_read :: nat
  rr_duplicates :: nat
  rr_torn :: "bad_line list"
  rr_unreadable :: "bad_line list"

fun first_copies :: "(string \<times> string \<times> string) set \<Rightarrow> index_row list \<Rightarrow> index_row list" where
  "first_copies seen [] = []"
| "first_copies seen (row # rows) =
     (if read_key row \<in> seen then first_copies seen rows
      else row # first_copies (insert (read_key row) seen) rows)"

definition index_iter_rows :: "path_ops \<Rightarrow> index_fs \<Rightarrow> (index_row list \<times> read_report) res" where
  "index_iter_rows po fs = bind_res (index_scan po fs) (\<lambda>ps.
     let all = concat (map pa_rows ps); kept = first_copies {} all in
     Inr (kept, \<lparr>rr_files = length ps, rr_rows_read = length all, rr_duplicates = length all - length kept,
                rr_torn = concat (map pa_torn ps), rr_unreadable = concat (map pa_unreadable ps)\<rparr>))"

section \<open>Records and lookup\<close>

record core_record =
  co_unit_key :: string
  co_input_digest :: string
  co_content_digest :: string
  co_record_digest :: string
  co_run_id :: string

datatype lookup_result =
    IndexReuse string string core_record
  | IndexStale string string core_record
  | Missing
  | Corrupt string
  | SchemaMismatch exn

definition make_row ::
  "path_ops \<Rightarrow> string \<Rightarrow> string \<Rightarrow> core_record \<Rightarrow> string \<Rightarrow> string \<Rightarrow> (string \<times> string \<times> string) option \<Rightarrow> py_float \<Rightarrow> index_row res"
where
  "make_row po store locator core adapter writer_id reused_from ts =
     bind_res (canonical_store po store) (\<lambda>s.
       let row = \<lparr>ix_store = s, ix_locator = locator, ix_unit_key = co_unit_key core, ix_input_digest = co_input_digest core,
                  ix_content_digest = co_content_digest core, ix_record_digest = co_record_digest core, ix_adapter = adapter,
                  ix_writer_id = writer_id, ix_run_id = co_run_id core, ix_ts = ts, ix_reused_from = reused_from,
                  ix_schema_version = INDEX_SCHEMA_VERSION\<rparr>
       in bind_res (IndexRow_from_dict (IndexRow_to_dict row)) (\<lambda>_. Inr row))"

record index_snapshot =
  sn_rows :: "index_row list"
  sn_schema_mismatch :: "((string \<times> string) \<times> exn) list"
  sn_report :: read_report

text \<open>\<open>load_index\<close>; the rows of a unit are looked up by \<open>unit_rows\<close> in place of a dictionary.\<close>

definition load_index :: "path_ops \<Rightarrow> index_fs \<Rightarrow> index_snapshot res" where
  "load_index po fs = bind_res (index_iter_rows po fs) (\<lambda>(rows, report).
     Inr \<lparr>sn_rows = rows,
          sn_schema_mismatch = fold (\<lambda>b d. case bl_key b of None \<Rightarrow> d | Some k \<Rightarrow> AList.update k (bl_reason b) d)
            (rr_unreadable report) [],
          sn_report = report\<rparr>)"

definition unit_rows :: "index_snapshot \<Rightarrow> string \<Rightarrow> string \<Rightarrow> index_row list" where
  "unit_rows snap s unit_key = filter (\<lambda>r. ix_store r = s \<and> ix_unit_key r = unit_key) (sn_rows snap)"

fun result_rank :: "lookup_result \<Rightarrow> nat" where
  "result_rank (IndexReuse _ _ _) = 0"
| "result_rank (Corrupt _) = 1"
| "result_rank (SchemaMismatch _) = 2"
| "result_rank (IndexStale _ _ _) = 3"
| "result_rank Missing = 4"

text \<open>The record must be this unit's and, to be reused, this input's.\<close>

definition checked_result :: "string \<Rightarrow> string \<Rightarrow> string \<Rightarrow> lookup_result \<Rightarrow> lookup_result" where
  "checked_result unit_key input_digest locator got = (case got of
     IndexReuse s l core \<Rightarrow>
       if co_unit_key core \<noteq> unit_key then Corrupt (locator @ '' holds the record of another unit'')
       else if co_input_digest core \<noteq> input_digest then Corrupt (locator @ '' reported reuse for another input'')
       else got
   | IndexStale s l core \<Rightarrow>
       if co_unit_key core \<noteq> unit_key then Corrupt (locator @ '' holds the record of another unit'') else got
   | _ \<Rightarrow> got)"

type_synonym adapter_table = "string \<Rightarrow> (string \<Rightarrow> string \<Rightarrow> string \<Rightarrow> bool \<Rightarrow> lookup_result res) option"

fun lookup_rows ::
  "adapter_table \<Rightarrow> string \<Rightarrow> string \<Rightarrow> bool \<Rightarrow> index_row list \<Rightarrow> (string \<times> string) set \<Rightarrow> lookup_result option \<Rightarrow> lookup_result option res"
where
  "lookup_rows table unit_key input_digest verify [] seen best = Inr best"
| "lookup_rows table unit_key input_digest verify (row # rows) seen best =
     (if (ix_adapter row, ix_locator row) \<in> seen then lookup_rows table unit_key input_digest verify rows seen best
      else case table (ix_adapter row) of
        None \<Rightarrow> Inl (Exn UnitIndexError ''no record adapter of this name'' [ArgStr (ix_adapter row)])
      | Some classify \<Rightarrow>
          bind_res (classify (ix_store row) (ix_locator row) input_digest verify) (\<lambda>got.
            let got = checked_result unit_key input_digest (ix_locator row) got in
            if result_rank got = 0 then Inr (Some got)
            else lookup_rows table unit_key input_digest verify rows (insert (ix_adapter row, ix_locator row) seen)
              (case best of None \<Rightarrow> Some got | Some b \<Rightarrow> if result_rank got < result_rank b then Some got else best)))"

text \<open>\<open>-r.ts\<close>, in the order of the sort key.\<close>

fun neg_float :: "py_float \<Rightarrow> py_float" where
  "neg_float NegInf = PosInf"
| "neg_float (Finite x) = Finite (- x)"
| "neg_float PosInf = NegInf"
| "neg_float NaN = NaN"

definition index_lookup ::
  "path_ops \<Rightarrow> adapter_table \<Rightarrow> index_snapshot \<Rightarrow> string \<Rightarrow> string \<Rightarrow> string \<Rightarrow> bool \<Rightarrow> lookup_result res"
where
  "index_lookup po table snap store unit_key input_digest verify =
     bind_res (canonical_store po store) (\<lambda>s.
       let rows = unit_rows snap s unit_key in
       if rows = [] then
         Inr (case map_of (sn_schema_mismatch snap) (s, unit_key) of None \<Rightarrow> Missing | Some e \<Rightarrow> SchemaMismatch e)
       else
         bind_res (lookup_rows table unit_key input_digest verify
             (sort_key (\<lambda>r. (ix_input_digest r \<noteq> input_digest, neg_float (ix_ts r))) rows) {} None)
           (\<lambda>best. case best of None \<Rightarrow> Inr Missing | Some got \<Rightarrow> Inr got))"

section \<open>What a lookup answers\<close>

definition row_outcome :: "adapter_table \<Rightarrow> string \<Rightarrow> string \<Rightarrow> bool \<Rightarrow> index_row \<Rightarrow> lookup_result option" where
  "row_outcome table unit_key input_digest verify row = (case table (ix_adapter row) of
     None \<Rightarrow> None
   | Some classify \<Rightarrow>
       (case classify (ix_store row) (ix_locator row) input_digest verify of
          Inl _ \<Rightarrow> None
        | Inr got \<Rightarrow> Some (checked_result unit_key input_digest (ix_locator row) got)))"

lemma row_outcome_place:
  assumes "ix_store r = ix_store r'" "ix_adapter r = ix_adapter r'" "ix_locator r = ix_locator r'"
  shows "row_outcome table unit_key input_digest verify r = row_outcome table unit_key input_digest verify r'"
  unfolding row_outcome_def assms ..

text \<open>A result at least as good as what every row in \<open>R\<close> leads to.\<close>

definition beats :: "(index_row \<Rightarrow> lookup_result option) \<Rightarrow> index_row set \<Rightarrow> lookup_result \<Rightarrow> bool" where
  "beats outcome R g = (\<forall>row\<in>R. \<forall>g'. outcome row = Some g' \<longrightarrow> result_rank g \<le> result_rank g')"

lemma lookup_rows_best:
  fixes table unit_key input_digest verify s
  defines "outcome \<equiv> row_outcome table unit_key input_digest verify"
  assumes "\<forall>row\<in>set rows. outcome row \<noteq> None" "\<forall>row\<in>set rows. ix_store row = s"
    and "\<forall>row. ix_store row = s \<and> (ix_adapter row, ix_locator row) \<in> seen \<longrightarrow> (\<exists>b. best = Some b \<and> beats outcome {row} b)"
    and "rows \<noteq> [] \<or> best \<noteq> None"
  shows "\<exists>g. lookup_rows table unit_key input_digest verify rows seen best = Inr (Some g)
    \<and> (best = Some g \<or> (\<exists>row\<in>set rows. outcome row = Some g))
    \<and> beats outcome (set rows) g \<and> (\<forall>b. best = Some b \<longrightarrow> result_rank g \<le> result_rank b)"
  using assms(2-)
proof (induction rows arbitrary: seen best)
  case (Cons row rows)
  note defined = Cons.prems(1) and stores = Cons.prems(2) and seen = Cons.prems(3)
  show ?case
  proof (cases "(ix_adapter row, ix_locator row) \<in> seen")
    case True
    with seen stores obtain b where b: "best = Some b" "beats outcome {row} b" by auto
    have "\<exists>g. lookup_rows table unit_key input_digest verify rows seen best = Inr (Some g)
      \<and> (best = Some g \<or> (\<exists>row\<in>set rows. outcome row = Some g))
      \<and> beats outcome (set rows) g \<and> (\<forall>b. best = Some b \<longrightarrow> result_rank g \<le> result_rank b)"
      by (rule Cons.IH) (use defined stores seen b in auto)
    then show ?thesis using True b by (fastforce simp: beats_def)
  next
    case False
    obtain classify got where got: "table (ix_adapter row) = Some classify"
        "classify (ix_store row) (ix_locator row) input_digest verify = Inr got"
      using defined by (auto simp: outcome_def row_outcome_def split: option.splits sum.splits)
    define g where "g = checked_result unit_key input_digest (ix_locator row) got"
    have g: "outcome row = Some g" by (simp add: outcome_def row_outcome_def got g_def)
    show ?thesis
    proof (cases "result_rank g = 0")
      case True
      then show ?thesis using False got g by (auto simp: beats_def simp flip: g_def)
    next
      case worse: False
      let ?seen = "insert (ix_adapter row, ix_locator row) seen"
      let ?best = "case best of None \<Rightarrow> Some g | Some b \<Rightarrow> if result_rank g < result_rank b then Some g else best"
      obtain b' where b': "?best = Some b'" "b' = g \<or> best = Some b'" "result_rank b' \<le> result_rank g"
          "\<forall>b. best = Some b \<longrightarrow> result_rank b' \<le> result_rank b"
        by (cases best; cases "result_rank g < result_rank (the best)") auto
      have "\<exists>b. ?best = Some b \<and> beats outcome {r} b" if "ix_store r = s" "(ix_adapter r, ix_locator r) \<in> ?seen" for r
      proof (cases "(ix_adapter r, ix_locator r) \<in> seen")
        case True
        then obtain b where "best = Some b" "beats outcome {r} b" using seen \<open>ix_store r = s\<close> by auto
        then show ?thesis using b' by (fastforce simp: beats_def)
      next
        case new: False
        then have "outcome r = outcome row"
          unfolding outcome_def by (intro row_outcome_place) (use that stores in auto)
        then show ?thesis using b'(1,3) g by (auto simp: beats_def)
      qed
      then have "\<exists>g'. lookup_rows table unit_key input_digest verify rows ?seen ?best = Inr (Some g')
        \<and> (?best = Some g' \<or> (\<exists>row\<in>set rows. outcome row = Some g'))
        \<and> beats outcome (set rows) g' \<and> (\<forall>b. ?best = Some b \<longrightarrow> result_rank g' \<le> result_rank b)"
        by (intro Cons.IH) (use defined stores b'(1) in auto)
      then obtain g' where g': "lookup_rows table unit_key input_digest verify rows ?seen ?best = Inr (Some g')"
          "?best = Some g' \<or> (\<exists>row\<in>set rows. outcome row = Some g')" "beats outcome (set rows) g'"
          "result_rank g' \<le> result_rank b'"
        using b'(1) by blast
      have "lookup_rows table unit_key input_digest verify (row # rows) seen best = Inr (Some g')"
        using False got worse g'(1) by (simp flip: g_def)
      moreover have "best = Some g' \<or> (\<exists>row'\<in>set (row # rows). outcome row' = Some g')"
        using g'(2) b'(1,2) g by auto
      moreover have "beats outcome (set (row # rows)) g'" using g'(3,4) b'(3) g by (auto simp: beats_def)
      moreover have "\<forall>b. best = Some b \<longrightarrow> result_rank g' \<le> result_rank b" using g'(4) b'(4) by fastforce
      ultimately show ?thesis by blast
    qed
  qed
qed (auto simp: beats_def)

lemma checked_result_reuse:
  "checked_result unit_key input_digest locator got = IndexReuse s l core \<Longrightarrow> co_unit_key core = unit_key \<and> co_input_digest core = input_digest"
  by (auto simp: checked_result_def split: lookup_result.splits if_splits)

text \<open>The best that the rows of a unit lead to.\<close>

lemma index_lookup_best:
  fixes table unit_key input_digest verify
  defines "outcome \<equiv> row_outcome table unit_key input_digest verify"
  assumes "canonical_store po store = Inr s" "unit_rows snap s unit_key \<noteq> []"
    and "\<forall>row\<in>set (unit_rows snap s unit_key). outcome row \<noteq> None"
  shows "\<exists>g. index_lookup po table snap store unit_key input_digest verify = Inr g
    \<and> (\<exists>row\<in>set (unit_rows snap s unit_key). outcome row = Some g) \<and> beats outcome (set (unit_rows snap s unit_key)) g"
proof -
  let ?rows = "sort_key (\<lambda>r. (ix_input_digest r \<noteq> input_digest, neg_float (ix_ts r))) (unit_rows snap s unit_key)"
  have "\<exists>g. lookup_rows table unit_key input_digest verify ?rows {} None = Inr (Some g)
    \<and> (None = Some g \<or> (\<exists>row\<in>set ?rows. row_outcome table unit_key input_digest verify row = Some g))
    \<and> beats (row_outcome table unit_key input_digest verify) (set ?rows) g \<and> (\<forall>b. None = Some b \<longrightarrow> result_rank g \<le> result_rank b)"
    by (rule lookup_rows_best [where s = s]) (use assms(3,4) in \<open>auto simp: outcome_def unit_rows_def\<close>)
  then show ?thesis using assms(2,3) by (auto simp: index_lookup_def outcome_def Let_def)
qed

lemma read_keys_first_copies: "read_key ` set (first_copies seen rows) = read_key ` set rows - seen"
  by (induction rows arbitrary: seen) auto

lemma first_copies_subset: "set (first_copies seen rows) \<subseteq> set rows"
  by (induction rows arbitrary: seen) auto

lemma index_rows_scanned:
  assumes "load_index po fs = Inr snap"
  shows "set (sn_rows snap) \<subseteq> (\<Union>(p, f)\<in>set (index_files fs). set (rows_of (fl_data f)))"
    and "read_key ` set (sn_rows snap) = read_key ` (\<Union>(p, f)\<in>set (index_files fs). set (rows_of (fl_data f)))"
proof -
  obtain ps where ps: "index_scan po fs = Inr ps" "sn_rows snap = first_copies {} (concat (map pa_rows ps))"
    using assms by (auto simp: load_index_def index_iter_rows_def bind_res_eq_Inr Let_def)
  have "list_all2 (\<lambda>(path, f) p. parse_file po path (fl_data f) = Inr p) (index_files fs) ps"
    using ps(1) by (simp add: index_scan_def traverse_res_eq_Inr case_prod_beta')
  then have "map pa_rows ps = map (\<lambda>(p, f). rows_of (fl_data f)) (index_files fs)"
    by (induction rule: list_all2_induct) (auto dest: parse_file_rows)
  then have "set (concat (map pa_rows ps)) = (\<Union>(p, f)\<in>set (index_files fs). set (rows_of (fl_data f)))"
    by (auto simp: case_prod_beta')
  then show "set (sn_rows snap) \<subseteq> (\<Union>(p, f)\<in>set (index_files fs). set (rows_of (fl_data f)))"
    "read_key ` set (sn_rows snap) = read_key ` (\<Union>(p, f)\<in>set (index_files fs). set (rows_of (fl_data f)))"
    using first_copies_subset [of "{}" "concat (map pa_rows ps)"] read_keys_first_copies [of "{}" "concat (map pa_rows ps)"]
    by (auto simp: ps(2))
qed

text \<open>A row that a file holds is among the rows of its unit, itself or as a copy.\<close>

lemma unit_row_copy:
  assumes "load_index po fs = Inr snap" "(p, f) \<in> set (index_files fs)" "r \<in> set (rows_of (fl_data f))"
    and "\<forall>r'. (\<exists>(p, f)\<in>set (index_files fs). r' \<in> set (rows_of (fl_data f))) \<and> read_key r' = read_key r
           \<longrightarrow> ix_unit_key r' = ix_unit_key r \<and> ix_adapter r' = ix_adapter r"
  obtains r' where "r' \<in> set (unit_rows snap (ix_store r) (ix_unit_key r))"
    "\<And>table key input_digest verify. row_outcome table key input_digest verify r' = row_outcome table key input_digest verify r"
proof -
  note scanned = index_rows_scanned [OF assms(1)]
  obtain r' where r': "r' \<in> set (sn_rows snap)" "read_key r' = read_key r"
    using scanned(2) assms(2,3) by (smt (verit) UN_iff case_prod_conv image_iff)
  have "ix_unit_key r' = ix_unit_key r" "ix_adapter r' = ix_adapter r"
    using assms(4) r' scanned(1) by blast+
  moreover from this r' have "ix_store r' = ix_store r" "ix_locator r' = ix_locator r" by (auto simp: read_key_def)
  ultimately show thesis
    using r'(1) row_outcome_place [of r' r] by (intro that [of r']) (simp_all add: unit_rows_def)
qed

lemma index_lookup_reuses:
  assumes "canonical_store po store = Inr s" "row \<in> set (unit_rows snap s unit_key)"
    and "\<forall>row\<in>set (unit_rows snap s unit_key). row_outcome table unit_key input_digest verify row \<noteq> None"
    and "row_outcome table unit_key input_digest verify row = Some (IndexReuse s0 l core)"
  shows "\<exists>s' l' core'. index_lookup po table snap store unit_key input_digest verify = Inr (IndexReuse s' l' core')
    \<and> co_unit_key core' = unit_key \<and> co_input_digest core' = input_digest"
proof -
  let ?rows = "unit_rows snap s unit_key" and ?outcome = "row_outcome table unit_key input_digest verify"
  have "?rows \<noteq> []" using assms(2) by auto
  from index_lookup_best [OF assms(1) this assms(3)]
  obtain g row' where g: "index_lookup po table snap store unit_key input_digest verify = Inr g"
      "?outcome row' = Some g" "beats ?outcome (set ?rows) g"
    by blast
  have "result_rank g = 0" using g(3) assms(2,4) by (fastforce simp: beats_def)
  then obtain s' l' core' where "g = IndexReuse s' l' core'" by (cases g) auto
  with g show ?thesis
    by (auto simp: row_outcome_def split: option.splits sum.splits dest: checked_result_reuse)
qed

text \<open>
  C12. The contract of the index: if any readable file holds a row of a unit and the record at its place verifies for the
  asked input, a lookup answers with a reusable copy, whose record is of this unit and of this input; the rows only say
  where to look. Rows with the same store, place and record digest are taken to be copies of one row.
\<close>

theorem indexed_unit_is_reused:
  assumes "load_index po fs = Inr snap" "(p, f) \<in> set (index_files fs)" "r \<in> set (rows_of (fl_data f))"
    and "canonical_store po store = Inr (ix_store r)"
    and "\<forall>r'. (\<exists>(p, f)\<in>set (index_files fs). r' \<in> set (rows_of (fl_data f))) \<and> read_key r' = read_key r
           \<longrightarrow> ix_unit_key r' = ix_unit_key r \<and> ix_adapter r' = ix_adapter r"
    and "\<forall>row\<in>set (unit_rows snap (ix_store r) (ix_unit_key r)). row_outcome table (ix_unit_key r) input_digest verify row \<noteq> None"
    and "row_outcome table (ix_unit_key r) input_digest verify r = Some (IndexReuse s l core)"
  shows "\<exists>s' l' core'. index_lookup po table snap store (ix_unit_key r) input_digest verify = Inr (IndexReuse s' l' core')
    \<and> co_unit_key core' = ix_unit_key r \<and> co_input_digest core' = input_digest"
proof -
  obtain r' where "r' \<in> set (unit_rows snap (ix_store r) (ix_unit_key r))"
      "row_outcome table (ix_unit_key r) input_digest verify r' = Some (IndexReuse s l core)"
    using unit_row_copy [OF assms(1-3,5)] assms(7) by metis
  from index_lookup_reuses [OF assms(4) this(1) assms(6) this(2)] show ?thesis .
qed

definition demo_index :: index_fs where
  "demo_index = \<lparr>xf_segments = [(''n1-7-nojob-0-ab.jsonl'', \<lparr>fl_ino = 1, fl_mtime = 0,
       fl_data = Fragment # Newline # IndexRow_to_json_line (demo_row ''k1'' ''c1'')\<rparr>)],
     xf_sealed = [], xf_rebuilt = [], xf_archive = [], xf_manifests = []\<rparr>"

definition demo_core :: core_record where
  "demo_core = \<lparr>co_unit_key = ''k1'', co_input_digest = ''in1'', co_content_digest = ''c1'', co_record_digest = ''recc1'', co_run_id = ''r1''\<rparr>"

definition demo_table :: adapter_table where
  "demo_table name = (if name = ''zarr_commit'' then Some (\<lambda>s l input verify. Inr (if l = ''k1'' then IndexReuse s l demo_core else Missing))
     else None)"

definition demo_snapshot :: index_snapshot where
  "demo_snapshot = \<lparr>sn_rows = [demo_row ''k1'' ''c1''], sn_schema_mismatch = [],
     sn_report = \<lparr>rr_files = 1, rr_rows_read = 1, rr_duplicates = 0,
       rr_torn = [\<lparr>bl_path = ''segments/n1-7-nojob-0-ab.jsonl'', bl_line = 1, bl_torn = True, bl_reason = not_json, bl_key = None\<rparr>],
       rr_unreadable = []\<rparr>\<rparr>"

theorem indexed_unit_is_reused_witness:
  "\<exists>s l core. index_lookup plain_paths demo_table demo_snapshot ''/data/s.zarr'' ''k1'' ''in1'' True = Inr (IndexReuse s l core)
    \<and> co_unit_key core = ''k1'' \<and> co_input_digest core = ''in1''"
proof -
  let ?r = "demo_row ''k1'' ''c1''"
  have load: "load_index plain_paths demo_index = Inr demo_snapshot" by code_simp
  define f where "f = \<lparr>fl_ino = 1, fl_mtime = 0, fl_data = Fragment # Newline # IndexRow_to_json_line ?r\<rparr>"
  have files: "index_files demo_index = [(''segments/n1-7-nojob-0-ab.jsonl'', f)]"
    by (simp add: index_files_def index_listing_def jsonl_files_def jsonl_def demo_index_def prefix_of_def f_def)
  have rows: "rows_of (fl_data f) = [?r]" unfolding f_def by code_simp
  have r: "ix_store ?r = ''/data/s.zarr''" "ix_unit_key ?r = ''k1''" "ix_adapter ?r = ''zarr_commit''" by (simp_all add: demo_row_def)
  have can: "canonical_store plain_paths ''/data/s.zarr'' = Inr (ix_store ?r)" unfolding r by code_simp
  have out: "row_outcome demo_table (ix_unit_key ?r) ''in1'' True ?r = Some (IndexReuse ''/data/s.zarr'' ''k1'' demo_core)"
    by code_simp
  have unit: "unit_rows demo_snapshot (ix_store ?r) (ix_unit_key ?r) = [?r]" by (simp add: unit_rows_def demo_snapshot_def)
  show ?thesis
    using indexed_unit_is_reused [OF load _ _ can _ _ out, of _ f] by (simp add: files rows unit [unfolded r] out [unfolded r] r)
qed

end
