(* ===== verification/Unit_Compact.thy ===== *)
theory Unit_Compact
  imports Unit_Index
begin

text \<open>
  Compaction of the unit index: the second half of \<open>run/unit_index.py\<close>.

  A pass first archives the inputs of every sealed file that is old enough, then seals: it reads the segments of
  closed and dead writers and the other sealed files, writes their rows to one new sealed file, and
  records the inputs in a manifest. The definitions follow one pass on an index that nobody else changes; theory
  \<open>Unit_Protocol\<close> interleaves passes, writers and readers. Times, names and inode numbers that the file system or
  \<open>uuid4\<close> choose are fields of the environment. Temporary files are left out, since a write by temporary file and
  \<open>os.replace\<close> is one step for every reader.
\<close>

section \<open>Collapsing rows\<close>

type_synonym row_place = "string \<times> string \<times> string \<times> string \<times> string"

definition place :: "index_row \<Rightarrow> row_place" where
  "place r = (ix_unit_key r, ix_input_digest r, ix_content_digest r, ix_store r, ix_locator r)"

text \<open>\<open>(r.ts, r.record_digest) > (cur.ts, cur.record_digest)\<close>.\<close>

definition newer_row :: "index_row \<Rightarrow> index_row \<Rightarrow> bool" where
  "newer_row r cur =
     (if float_eq (ix_ts r) (ix_ts cur) then ix_record_digest r > ix_record_digest cur else float_less (ix_ts cur) (ix_ts r))"

definition collapse_step :: "index_row \<Rightarrow> (row_place \<times> index_row) list \<times> nat \<Rightarrow> (row_place \<times> index_row) list \<times> nat" where
  "collapse_step r = (\<lambda>(by_place, collapsed). case map_of by_place (place r) of
     None \<Rightarrow> (AList.update (place r) r by_place, collapsed)
   | Some cur \<Rightarrow> (if newer_row r cur then AList.update (place r) r by_place else by_place, collapsed + 1))"

record conflict =
  cf_unit_key :: string
  cf_input_digest :: string
  cf_content_digests :: "string list"

definition contents_of :: "index_row list \<Rightarrow> string \<times> string \<Rightarrow> string list" where
  "contents_of rows u = sort (remdups (map ix_content_digest (filter (\<lambda>r. unit_id r = u) rows)))"

definition row_conflicts :: "index_row list \<Rightarrow> conflict list" where
  "row_conflicts kept = map (\<lambda>u. \<lparr>cf_unit_key = fst u, cf_input_digest = snd u, cf_content_digests = contents_of kept u\<rparr>)
     (filter (\<lambda>u. length (contents_of kept u) > 1) (sort (remdups (map unit_id kept))))"

definition row_copies :: "index_row list \<Rightarrow> nat" where
  "row_copies kept = length kept - length (remdups (map (\<lambda>r. (unit_id r, ix_content_digest r)) kept))"

definition collapse_rows :: "index_row list \<Rightarrow> index_row list \<times> nat \<times> nat \<times> conflict list" where
  "collapse_rows rows =
     (let (by_place, collapsed) = fold collapse_step rows ([], 0); kept = sort_key place (map snd by_place)
      in (kept, collapsed, row_copies kept, row_conflicts kept))"

section \<open>Manifests\<close>

datatype in_dir = Segments | Sealed

type_synonym in_path = "in_dir \<times> string"

text \<open>\<open>_Ident\<close>: size, inode and modification time.\<close>

type_synonym ident = "int \<times> int \<times> int"

definition ident_of :: "seg_file \<Rightarrow> ident" where
  "ident_of f = (int (length (fl_data f)), int (fl_ino f), fl_mtime f)"

record manifest =
  mn_name :: string
  mn_sealed :: string
  mn_inputs :: "(in_path \<times> ident) list"

definition dir_name :: "in_dir \<Rightarrow> string" where
  "dir_name d = (case d of Segments \<Rightarrow> ''segments'' | Sealed \<Rightarrow> ''sealed'')"

definition archive_prefix :: "in_dir \<Rightarrow> string" where
  "archive_prefix d = (case d of Segments \<Rightarrow> ''segment-'' | Sealed \<Rightarrow> ''sealed-'')"

definition dir_files :: "index_fs \<Rightarrow> in_dir \<Rightarrow> seg_file directory" where
  "dir_files fs d = (case d of Segments \<Rightarrow> xf_segments fs | Sealed \<Rightarrow> xf_sealed fs)"

definition file_at :: "index_fs \<Rightarrow> in_path \<Rightarrow> seg_file option" where
  "file_at fs p = map_of (dir_files fs (fst p)) (snd p)"

definition manifest_json :: "string \<Rightarrow> (in_path \<times> ident) list \<Rightarrow> json" where
  "manifest_json sealed inputs = sort_keys (JObj
     [(''sealed'', JStr sealed),
      (''inputs'', JArr (map (\<lambda>((d, n), (sz, ino, mtime)).
         JObj [(''path'', JStr (dir_name d @ ''/'' @ n)), (''size'', JInt sz), (''ino'', JInt ino),
               (''mtime_ns'', JInt mtime)]) inputs))])"

text \<open>\<open>Path(s).parts\<close>.\<close>

definition path_parts :: "string \<Rightarrow> string list" where
  "path_parts s = (if isabs s then [''/''] else [])
     @ filter (\<lambda>p. p \<noteq> [] \<and> p \<noteq> ''.'') (split_at (\<lambda>c. c = CHR ''/'') s)"

definition malformed :: "string \<Rightarrow> 'a res" where
  "malformed name = Inl (Exn UnitIndexError ''refusing to compact: a manifest is malformed'' [ArgStr name])"

definition manifest_input :: "string \<Rightarrow> json \<Rightarrow> (in_path \<times> ident) res" where
  "manifest_input name item = (case item of
     JObj e \<Rightarrow>
       (case (obj_get e ''path'', obj_get e ''size'', obj_get e ''ino'', obj_get e ''mtime_ns'') of
          (JStr s, JInt sz, JInt ino, JInt mtime) \<Rightarrow>
            (case path_parts s of
               [d, n] \<Rightarrow>
                 if prefix_of ''.'' n then malformed name
                 else if d = ''segments'' then Inr ((Segments, n), (sz, ino, mtime))
                 else if d = ''sealed'' then Inr ((Sealed, n), (sz, ino, mtime))
                 else malformed name
             | _ \<Rightarrow> malformed name)
        | _ \<Rightarrow> malformed name)
   | _ \<Rightarrow> malformed name)"

text \<open>\<open>for item in d["inputs"]\<close> also runs, without an item, over an empty string or object.\<close>

fun json_items :: "json \<Rightarrow> json list option" where
  "json_items (JArr items) = Some items"
| "json_items (JStr []) = Some []"
| "json_items (JObj []) = Some []"
| "json_items _ = None"

definition load_manifest :: "string \<Rightarrow> json \<Rightarrow> manifest res" where
  "load_manifest name raw = (case raw of
     JObj d \<Rightarrow>
       (case (obj_get d ''sealed'', json_items (obj_get d ''inputs'')) of
          (JStr sealed, Some items) \<Rightarrow>
            bind_res (traverse_res (manifest_input name) items) (\<lambda>inputs.
              if CHR ''/'' \<in> set sealed \<or> sealed = ''.'' then malformed name
              else Inr \<lparr>mn_name = name, mn_sealed = sealed, mn_inputs = inputs\<rparr>)
        | _ \<Rightarrow> malformed name)
   | _ \<Rightarrow> malformed name)"

definition MANIFEST_SUFFIX :: string where
  "MANIFEST_SUFFIX = ''.inputs.json''"

definition ends_with :: "string \<Rightarrow> string \<Rightarrow> bool" where
  "ends_with e s = (drop (length s - length e) s = e)"

definition manifest_listing :: "index_fs \<Rightarrow> (string \<times> json) list" where
  "manifest_listing fs = sort_key fst (filter (\<lambda>f. ends_with MANIFEST_SUFFIX (fst f) \<and> \<not> prefix_of ''.'' (fst f)) (xf_manifests fs))"

text \<open>\<open>_manifests\<close>: those whose sealed file exists, by sealed file; the others are removed when asked.\<close>

definition unlink_manifest :: "string \<Rightarrow> index_fs \<Rightarrow> index_fs" where
  "unlink_manifest name fs = fs\<lparr>xf_manifests := AList.delete name (xf_manifests fs)\<rparr>"

fun load_manifests ::
  "bool \<Rightarrow> (string \<times> json) list \<Rightarrow> (string \<times> manifest) list \<Rightarrow> index_fs \<Rightarrow> index_fs \<times> (string \<times> manifest) list res"
where
  "load_manifests remove [] out fs = (fs, Inr out)"
| "load_manifests remove ((name, raw) # rest) out fs = (case load_manifest name raw of
     Inl e \<Rightarrow> (fs, Inl e)
   | Inr m \<Rightarrow>
       if file_at fs (Sealed, mn_sealed m) \<noteq> None then load_manifests remove rest (AList.update (mn_sealed m) m out) fs
       else load_manifests remove rest out (if remove then unlink_manifest name fs else fs))"

definition index_manifests :: "bool \<Rightarrow> index_fs \<Rightarrow> index_fs \<times> (string \<times> manifest) list res" where
  "index_manifests remove fs = load_manifests remove (manifest_listing fs) [] fs"

section \<open>One pass\<close>

record compact_env =
  ce_scheduler :: "string list \<Rightarrow> sched_answer"
  ce_grace :: rat
  ce_now_server :: "rat option"
  ce_clock :: rat
  ce_archive_after :: rat
  ce_archive_now :: "rat option"
  ce_dry_run :: bool
  ce_target_stem :: string
  ce_uuid :: "nat \<Rightarrow> string"
  ce_ino :: nat
  ce_mtime :: int

text \<open>\<open>still_dead\<close>, asked for a segment without a trailer just before it is archived.\<close>

definition still_dead :: "compact_env \<Rightarrow> string \<Rightarrow> seg_file \<Rightarrow> pass_runner \<Rightarrow> bool \<times> pass_runner" where
  "still_dead ce name f pr =
     (case segment_writer_dead (pass_call (ce_scheduler ce)) (ce_grace ce)
         (Some (case ce_now_server ce of None \<Rightarrow> ce_clock ce | Some t \<Rightarrow> t)) (ce_clock ce) name f pr of
        ((dead, _), pr') \<Rightarrow> (dead, pr'))"

text \<open>\<open>os.replace(p, dest)\<close> into the archive, under a name that no archived file has.\<close>

definition archive_dest :: "compact_env \<Rightarrow> nat \<Rightarrow> index_fs \<Rightarrow> in_path \<Rightarrow> string" where
  "archive_dest ce k fs p =
     (let name = archive_prefix (fst p) @ snd p in
      if map_of (xf_archive fs) name = None then name else name @ ''.'' @ ce_uuid ce k)"

definition move_to_archive :: "string \<Rightarrow> in_path \<Rightarrow> index_fs \<Rightarrow> index_fs" where
  "move_to_archive dest p fs = (case file_at fs p of
     None \<Rightarrow> fs
   | Some f \<Rightarrow>
       let fs = fs\<lparr>xf_archive := AList.update dest f (xf_archive fs)\<rparr> in
       (case fst p of
          Segments \<Rightarrow> fs\<lparr>xf_segments := AList.delete (snd p) (xf_segments fs)\<rparr>
        | Sealed \<Rightarrow> fs\<lparr>xf_sealed := AList.delete (snd p) (xf_sealed fs)\<rparr>))"

record archive_state =
  as_fs :: index_fs
  as_stack :: "manifest list"
  as_archived :: "string list"
  as_runner :: pass_runner

definition archive_input ::
  "compact_env \<Rightarrow> (string \<times> manifest) list \<Rightarrow> in_path \<times> ident \<Rightarrow> archive_state \<Rightarrow> archive_state"
where
  "archive_input ce ms = (\<lambda>(p, ident) st.
     case file_at (as_fs st) p of
       None \<Rightarrow> st
     | Some f \<Rightarrow>
         if ident_of f \<noteq> ident then st
         else
           let st = (case (fst p, map_of ms (snd p)) of (Sealed, Some inner) \<Rightarrow> st\<lparr>as_stack := inner # as_stack st\<rparr> | _ \<Rightarrow> st);
               (go, pr) = (if fst p = Segments \<and> \<not> has_trailer (fl_data f) then still_dead ce (snd p) f (as_runner st)
                           else (True, as_runner st));
               st = st\<lparr>as_runner := pr\<rparr>
           in if \<not> go then st
              else st\<lparr>as_fs := move_to_archive (archive_dest ce (length (as_archived st)) (as_fs st) p) p (as_fs st),
                     as_archived := as_archived st @ [snd p]\<rparr>)"

text \<open>The work list; \<open>stack.pop()\<close> takes the head.\<close>

lemma map_of_snd: "map_of xs k = Some v \<Longrightarrow> v \<in> snd ` set xs"
  by (force dest: map_of_SomeD)

lemma archive_inputs_stack:
  "set (as_stack (fold (archive_input ce ms) inputs st)) \<subseteq> set (as_stack st) \<union> set (map snd ms)"
proof (induction inputs arbitrary: st)
  case (Cons x inputs)
  have "set (as_stack (archive_input ce ms x st)) \<subseteq> set (as_stack st) \<union> set (map snd ms)"
    by (cases x) (auto simp: archive_input_def Let_def dest: map_of_snd split: option.splits in_dir.splits if_splits prod.splits)
  then show ?case using Cons.IH [of "archive_input ce ms x st"] by auto
qed simp

function archive_loop ::
  "compact_env \<Rightarrow> (string \<times> manifest) list \<Rightarrow> string set \<Rightarrow> manifest list \<Rightarrow> archive_state \<Rightarrow> manifest list \<times> archive_state"
where
  "archive_loop ce ms seen fin st = (case as_stack st of
     [] \<Rightarrow> (fin, st)
   | m # stack \<Rightarrow>
       if mn_name m \<in> seen then archive_loop ce ms seen fin (st\<lparr>as_stack := stack\<rparr>)
       else archive_loop ce ms (insert (mn_name m) seen) (fin @ [m])
         (fold (archive_input ce ms) (mn_inputs m) (st\<lparr>as_stack := stack\<rparr>)))"
  by pat_completeness auto
termination
proof (relation "measures [\<lambda>(ce, ms, seen, fin, st). card (mn_name ` (set (map snd ms) \<union> set (as_stack st)) - seen),
    \<lambda>(ce, ms, seen, fin, st). length (as_stack st)]", goal_cases)
  case (2 ce ms seen fin st m stack)
  have "mn_name ` (set (map snd ms) \<union> set stack) - seen \<subseteq> mn_name ` (set (map snd ms) \<union> set (as_stack st)) - seen"
    using 2(1) by auto
  then have "card (mn_name ` (set (map snd ms) \<union> set stack) - seen) \<le> card (mn_name ` (set (map snd ms) \<union> set (as_stack st)) - seen)"
    by (intro card_mono) auto
  then show ?case using 2(1) by auto
next
  case (3 ce ms seen fin st m stack)
  let ?st = "fold (archive_input ce ms) (mn_inputs m) (st\<lparr>as_stack := stack\<rparr>)"
  have "mn_name ` (set (map snd ms) \<union> set (as_stack ?st)) - insert (mn_name m) seen
      \<subset> mn_name ` (set (map snd ms) \<union> set (as_stack st)) - seen"
    using archive_inputs_stack [of ce ms "mn_inputs m" "st\<lparr>as_stack := stack\<rparr>"] 3 by auto
  then have "card (mn_name ` (set (map snd ms) \<union> set (as_stack ?st)) - insert (mn_name m) seen)
      < card (mn_name ` (set (map snd ms) \<union> set (as_stack st)) - seen)"
    by (intro psubset_card_mono) auto
  then show ?case by simp
qed simp

declare archive_loop.simps [simp del]

definition archive_due ::
  "compact_env \<Rightarrow> (string \<times> manifest) list \<Rightarrow> rat \<Rightarrow> rat option \<Rightarrow> index_fs \<Rightarrow> pass_runner \<Rightarrow> index_fs \<times> string list \<times> pass_runner"
where
  "archive_due ce ms after archive_now fs pr =
     (let now = (case archive_now of None \<Rightarrow> ce_clock ce | Some t \<Rightarrow> t);
          due = filter (\<lambda>m. after \<le> 0 \<or> (case file_at fs (Sealed, mn_sealed m) of
                    None \<Rightarrow> False | Some f \<Rightarrow> after \<le> now - st_mtime f)) (map snd ms)
      in if due = [] then (fs, [], pr)
         else
           let (fin, st) = archive_loop ce ms {} []
                 \<lparr>as_fs = fs, as_stack = rev due, as_archived = [], as_runner = pr\<rparr>
           in (fold (unlink_manifest \<circ> mn_name) fin (as_fs st), as_archived st, as_runner st))"

text \<open>What is read of the inputs: in \<open>taken\<close> and \<open>sealed_in\<close>, the path, the identity and the parsed lines.\<close>

type_synonym read_input = "in_path \<times> ident \<times> parsed"

record segment_read =
  sg_final :: "(string \<times> bool \<times> string) list"
  sg_taken :: "read_input list"
  sg_left_unreadable :: "string list"

text \<open>
  The file of a path when it is read, and when \<open>stat\<close> looks at the path afterwards: \<open>None\<close> when it is gone. A file of another length was changed while
  it was being read, and gets no identity.
\<close>

type_synonym looks = "in_path \<Rightarrow> (seg_file \<times> seg_file option) option"

definition read_with_ident :: "looks \<Rightarrow> in_path \<Rightarrow> (file_data \<times> ident option) option" where
  "read_with_ident look p = (case look p of
     Some (f, Some g) \<Rightarrow> Some (fl_data f, if fst (ident_of g) = int (length (fl_data f)) then Some (ident_of g) else None)
   | _ \<Rightarrow> None)"

fun read_segments ::
  "path_ops \<Rightarrow> looks \<Rightarrow> (string \<times> bool \<times> string) list \<Rightarrow> segment_read \<Rightarrow> segment_read res"
where
  "read_segments po look [] sg = Inr sg"
| "read_segments po look ((name, dead, why) # ds) sg =
     (if \<not> dead then read_segments po look ds (sg\<lparr>sg_final := sg_final sg @ [(name, dead, why)]\<rparr>)
      else case read_with_ident look (Segments, name) of
        None \<Rightarrow> read_segments po look ds
          (sg\<lparr>sg_final := sg_final sg @ [(name, False, ''vanished (moved by another compactor)'')]\<rparr>)
      | Some (raw, None) \<Rightarrow> read_segments po look ds
          (sg\<lparr>sg_final := sg_final sg @ [(name, False, ''changed while being read; next pass'')]\<rparr>)
      | Some (raw, Some ident) \<Rightarrow>
          bind_res (parse_file po (''segments/'' @ name) raw) (\<lambda>p.
            if pa_unreadable p \<noteq> [] then
              read_segments po look ds (sg\<lparr>sg_final := sg_final sg @ [(name, False, ''left in place'')],
                sg_left_unreadable := sg_left_unreadable sg @ [name]\<rparr>)
            else
              read_segments po look ds (sg\<lparr>sg_final := sg_final sg @ [(name, dead, why)],
                sg_taken := sg_taken sg @ [((Segments, name), ident, p)]\<rparr>)))"

fun read_sealed :: "path_ops \<Rightarrow> looks \<Rightarrow> string list \<Rightarrow> read_input list res" where
  "read_sealed po look [] = Inr []"
| "read_sealed po look (name # rest) = (case read_with_ident look (Sealed, name) of
     Some (raw, Some ident) \<Rightarrow>
       bind_res (parse_file po (''sealed/'' @ name) raw) (\<lambda>p.
         if pa_unreadable p \<noteq> [] \<or> pa_torn p \<noteq> [] then
           Inl (Exn UnitIndexError ''refusing to compact: a sealed file has a bad line'' [ArgStr name])
         else bind_res (read_sealed po look rest) (\<lambda>more. Inr (((Sealed, name), ident, p) # more)))
   | _ \<Rightarrow> read_sealed po look rest)"

record index_compact_report =
  ic_dry_run :: bool
  ic_segments :: "(string \<times> bool \<times> string) list"
  ic_sealed_inputs :: "string list"
  ic_rows_in :: nat
  ic_rows_sealed :: nat
  ic_collapsed :: nat
  ic_copies :: nat
  ic_conflicts :: "conflict list"
  ic_torn :: "bad_line list"
  ic_left_unreadable :: "string list"
  ic_sealed_path :: "string option"
  ic_archived :: "string list"
  ic_pending_archive :: "string list"
  ic_scheduler_calls :: nat

definition row_lines :: "index_row list \<Rightarrow> file_data" where
  "row_lines rows = concat (map IndexRow_to_json_line rows)"

text \<open>Writing the sealed file and then its manifest, and archiving at once when no delay is asked for.\<close>

definition write_sealed :: "compact_env \<Rightarrow> index_row list \<Rightarrow> index_fs \<Rightarrow> index_fs" where
  "write_sealed ce kept fs = fs\<lparr>xf_sealed := AList.update (ce_target_stem ce @ ''.jsonl'')
     \<lparr>fl_ino = ce_ino ce, fl_mtime = ce_mtime ce, fl_data = row_lines kept\<rparr> (xf_sealed fs)\<rparr>"

definition write_manifest :: "string \<Rightarrow> (in_path \<times> ident) list \<Rightarrow> index_fs \<Rightarrow> index_fs" where
  "write_manifest target_stem inputs fs = fs\<lparr>xf_manifests :=
     AList.update (target_stem @ MANIFEST_SUFFIX) (manifest_json (target_stem @ ''.jsonl'') inputs) (xf_manifests fs)\<rparr>"

definition input_rows :: "read_input list \<Rightarrow> index_row list" where
  "input_rows ins = concat (map (\<lambda>(p, ident, parsed). pa_rows parsed) ins)"

definition seal ::
  "compact_env \<Rightarrow> read_input list \<Rightarrow> string list \<Rightarrow> pass_runner \<Rightarrow> index_fs \<Rightarrow> index_fs \<times> (string list \<times> pass_runner) res"
where
  "seal ce ins archived pr fs =
     (let fs1 = write_sealed ce (fst (collapse_rows (input_rows ins))) fs;
          inputs = map (\<lambda>(p, ident, parsed). (p, ident)) ins;
          fs2 = write_manifest (ce_target_stem ce) inputs fs1
      in if ce_archive_after ce > 0 then (fs2, Inr (archived, pr))
         else case load_manifest (ce_target_stem ce @ MANIFEST_SUFFIX) (manifest_json (ce_target_stem ce @ ''.jsonl'') inputs) of
           Inl e \<Rightarrow> (fs2, Inl e)
         | Inr m \<Rightarrow>
             (case archive_due ce [(mn_sealed m, m)] 0 None fs2 pr of
                (fs3, archived', pr') \<Rightarrow> (fs3, Inr (archived @ archived', pr'))))"

definition pending_inputs :: "(string \<times> manifest) list \<Rightarrow> in_path list" where
  "pending_inputs ms = concat (map (map fst \<circ> mn_inputs \<circ> snd) ms)"

definition pending_names :: "in_dir \<Rightarrow> in_path list \<Rightarrow> string list" where
  "pending_names d pending = sort (remdups (map snd (filter (\<lambda>p. fst p = d) pending)))"

definition compact_seal_half ::
  "path_ops \<Rightarrow> looks \<Rightarrow> compact_env \<Rightarrow> string list \<Rightarrow> pass_runner \<Rightarrow> index_fs \<Rightarrow> index_fs \<times> index_compact_report res"
where
  "compact_seal_half po look ce archived pr fs = (case index_manifests False fs of
     (_, Inl e) \<Rightarrow> (fs, Inl e)
   | (_, Inr ms) \<Rightarrow>
       let pending = pending_inputs ms;
           segments = filter (\<lambda>(n, f). (Segments, n) \<notin> set pending) (index_listing (xf_segments fs));
           (decisions, pr) = decide (ce_scheduler ce) (ce_grace ce) (ce_now_server ce) (ce_clock ce)
             (map (\<lambda>(n, f). (n, Some f)) segments) pr;
           waiting = map (\<lambda>n. (n, False, ''already sealed; archive pending'')) (pending_names Segments pending)
       in case read_segments po look decisions \<lparr>sg_final = waiting, sg_taken = [], sg_left_unreadable = []\<rparr> of
         Inl e \<Rightarrow> (fs, Inl e)
       | Inr sg \<Rightarrow>
           let report = (\<lambda>archived pr. \<lparr>ic_dry_run = ce_dry_run ce, ic_segments = sg_final sg, ic_sealed_inputs = [], ic_rows_in = 0,
                 ic_rows_sealed = 0, ic_collapsed = 0, ic_copies = 0, ic_conflicts = [], ic_torn = [],
                 ic_left_unreadable = sg_left_unreadable sg, ic_sealed_path = None, ic_archived = archived,
                 ic_pending_archive = sort (map snd (remdups pending)), ic_scheduler_calls = pr_calls pr\<rparr>)
           in if sg_taken sg = [] then (fs, Inr (report archived pr))
              else case read_sealed po look (filter (\<lambda>n. (Sealed, n) \<notin> set pending) (map fst (index_listing (xf_sealed fs)))) of
                Inl e \<Rightarrow> (fs, Inl e)
              | Inr sealed_in \<Rightarrow>
                  let ins = sealed_in @ sg_taken sg;
                      (kept, collapsed, copies, conflicts) = collapse_rows (input_rows ins);
                      summary = (\<lambda>archived pr. (report archived pr)\<lparr>ic_sealed_inputs := map (\<lambda>(p, _). snd p) sealed_in,
                        ic_rows_in := length (input_rows ins), ic_rows_sealed := length kept, ic_collapsed := collapsed,
                        ic_copies := copies, ic_conflicts := conflicts,
                        ic_torn := concat (map (\<lambda>(p, ident, parsed). pa_torn parsed) (sg_taken sg))\<rparr>)
                  in if ce_dry_run ce then (fs, Inr (summary archived pr))
                     else case seal ce ins archived pr fs of
                       (fs', Inl e) \<Rightarrow> (fs', Inl e)
                     | (fs', Inr (archived', pr')) \<Rightarrow>
                         (fs', Inr ((summary archived' pr')\<lparr>ic_sealed_path := Some (ce_target_stem ce @ ''.jsonl'')\<rparr>)))"

text \<open>A whole pass, on an index that nobody else changes meanwhile.\<close>

definition still_looks :: "index_fs \<Rightarrow> looks" where
  "still_looks fs p = map_option (\<lambda>f. (f, Some f)) (file_at fs p)"

lemma read_still: "read_with_ident (still_looks fs) p = map_option (\<lambda>f. (fl_data f, Some (ident_of f))) (file_at fs p)"
  by (cases "file_at fs p") (simp_all add: read_with_ident_def still_looks_def ident_of_def)

definition compact_index ::
  "path_ops \<Rightarrow> compact_env \<Rightarrow> index_fs \<Rightarrow> index_fs \<times> index_compact_report res"
where
  "compact_index po ce fs =
     (if ce_dry_run ce then compact_seal_half po (still_looks fs) ce [] new_pass_runner fs
      else case index_manifests True fs of
        (fs', Inl e) \<Rightarrow> (fs', Inl e)
      | (fs', Inr ms) \<Rightarrow>
          (case archive_due ce ms (ce_archive_after ce) (ce_archive_now ce) fs' new_pass_runner of
             (fs'', archived, pr) \<Rightarrow> compact_seal_half po (still_looks fs'') ce archived pr fs''))"

section \<open>Collapsing keeps every place\<close>

text \<open>What the dictionary of a collapse holds after the rows \<open>rs\<close>.\<close>

definition collapse_inv :: "index_row list \<Rightarrow> (row_place \<times> index_row) list \<times> nat \<Rightarrow> bool" where
  "collapse_inv rs = (\<lambda>(d, n). distinct (map fst d) \<and> set (map fst d) = place ` set rs \<and> (\<forall>(k, r)\<in>set d. k = place r \<and> r \<in> set rs)
     \<and> n + length d = length rs)"

lemma update_key:
  "map_of d k = None \<Longrightarrow> AList.update k v d = d @ [(k, v)]"
  "k \<in> fst ` set d \<Longrightarrow> length (AList.update k v d) = length d \<and> map fst (AList.update k v d) = map fst d"
  by (induction d) (auto split: if_splits)

lemma collapse_step_inv:
  assumes "collapse_inv rs s"
  shows "collapse_inv (rs @ [r]) (collapse_step r s)"
proof -
  obtain d n where s: "s = (d, n)" by fastforce
  note inv = assms [unfolded s collapse_inv_def prod.case]
  show ?thesis
  proof (cases "map_of d (place r)")
    case None
    then have "place r \<notin> set (map fst d)" by (simp add: map_of_eq_None_iff)
    then show ?thesis
      using inv None by (auto simp: s collapse_step_def collapse_inv_def update_key(1))
  next
    case (Some cur)
    then have mem: "place r \<in> set (map fst d)" by (force dest: map_of_SomeD)
    then have img: "place r \<in> fst ` set d" by simp
    define d' where "d' = (if newer_row r cur then AList.update (place r) r d else d)"
    have d': "map fst d' = map fst d" "length d' = length d" "set d' \<subseteq> insert (place r, r) (set d)"
      using update_key(2) [OF img, of r] set_update [of d "place r" r] inv by (auto simp: d'_def)
    have k1: "set (map fst d') = place ` set (rs @ [r])" using inv mem unfolding d'(1) by auto
    have k2: "\<forall>(k, q)\<in>set d'. k = place q \<and> q \<in> set (rs @ [r])" using d'(3) inv by auto
    have "collapse_inv (rs @ [r]) (d', n + 1)"
      unfolding collapse_inv_def prod.case by (intro conjI k1 k2) (use inv d'(1,2) in simp_all)
    then show ?thesis using Some by (simp add: s collapse_step_def d'_def)
  qed
qed

lemma collapse_fold_inv: "collapse_inv rs s \<Longrightarrow> collapse_inv (rs @ rows) (fold collapse_step rows s)"
proof (induction rows arbitrary: rs s)
  case (Cons r rows)
  show ?case using Cons.IH [OF collapse_step_inv [OF Cons.prems, of r]] by simp
qed simp

lemma collapse_rows_kept:
  fixes rows
  defines "kept \<equiv> fst (collapse_rows rows)"
  shows "set kept \<subseteq> set rows" "place ` set kept = place ` set rows" "distinct (map place kept)" "sorted (map place kept)"
    and "fst (snd (collapse_rows rows)) + length kept = length rows"
proof -
  obtain d n where d: "fold collapse_step rows ([], 0) = (d, n)" by fastforce
  have "collapse_inv rows (d, n)" using collapse_fold_inv [of "[]" "([], 0)" rows] d by (simp add: collapse_inv_def)
  then have inv: "distinct (map fst d)" "fst ` set d = place ` set rows" "\<forall>(k, r)\<in>set d. k = place r \<and> r \<in> set rows"
      "n + length d = length rows" by (auto simp: collapse_inv_def)
  have kept: "kept = sort_key place (map snd d)" by (simp add: kept_def collapse_rows_def d Let_def)
  have "map place (map snd d) = map fst d" using inv(3) by auto
  then have "distinct (map place (map snd d))" "place ` set (map snd d) = fst ` set d"
    using inv(1) by (metis, metis list.set_map)
  then show "place ` set kept = place ` set rows" "distinct (map place kept)"
    by (auto simp: kept inv(2) distinct_map inj_on_def)
  show "set kept \<subseteq> set rows" using inv(3) by (auto simp: kept)
  show "sorted (map place kept)" by (simp add: kept)
  show "fst (snd (collapse_rows rows)) + length kept = length rows"
    using inv(4) by (simp add: kept collapse_rows_def d Let_def)
qed

text \<open>Rows of which none has a NaN stamp are ordered by stamp and record digest.\<close>

definition row_stamp :: "index_row \<Rightarrow> py_float \<times> string" where
  "row_stamp r = (ix_ts r, ix_record_digest r)"

lemma newer_row_stamp:
  assumes "ix_ts r \<noteq> NaN" "ix_ts cur \<noteq> NaN"
  shows "newer_row r cur \<longleftrightarrow> row_stamp cur < row_stamp r"
  using assms by (auto simp: newer_row_def row_stamp_def float_eq_def float_less_def)

lemma collapse_fold_latest:
  assumes "collapse_inv rs s" "\<forall>r\<in>set (rs @ rows). ix_ts r \<noteq> NaN"
    and "\<forall>r\<in>set rs. \<exists>r'. map_of (fst s) (place r) = Some r' \<and> row_stamp r \<le> row_stamp r'"
  shows "\<forall>r\<in>set (rs @ rows). \<exists>r'. map_of (fst (fold collapse_step rows s)) (place r) = Some r' \<and> row_stamp r \<le> row_stamp r'"
  using assms
proof (induction rows arbitrary: rs s)
  case (Cons q rows)
  obtain d n where s: "s = (d, n)" by fastforce
  have old: "\<exists>r'. map_of d (place r) = Some r' \<and> row_stamp r \<le> row_stamp r'" if "r \<in> set rs" for r
    using Cons.prems(3) that by (simp add: s)
  have "\<exists>r'. map_of (fst (collapse_step q s)) (place r) = Some r' \<and> row_stamp r \<le> row_stamp r'" if r: "r \<in> set (rs @ [q])" for r
  proof (cases "map_of d (place q)")
    case None
    then show ?thesis using r old by (auto simp: s collapse_step_def update_conv' dest: old)
  next
    case (Some cur)
    have "cur \<in> set rs" using Some Cons.prems(1) by (force simp: s collapse_inv_def dest: map_of_SomeD)
    then have new: "newer_row q cur \<longleftrightarrow> row_stamp cur < row_stamp q"
      using Cons.prems(2) by (intro newer_row_stamp) auto
    show ?thesis
    proof (cases "place r = place q")
      case True
      have "row_stamp r \<le> max (row_stamp cur) (row_stamp q)"
        using r old [of r] Some True by (auto simp: max_def)
      then show ?thesis using Some True new by (auto simp: s collapse_step_def update_conv' max_def split: if_splits)
    next
      case False
      then have "r \<in> set rs" using r by auto
      then show ?thesis using old False Some by (simp add: s collapse_step_def update_conv')
    qed
  qed
  then show ?case using Cons.IH [OF collapse_step_inv [OF Cons.prems(1), of q]] Cons.prems(2) by simp
qed simp

lemma collapse_rows_latest:
  assumes "\<forall>r\<in>set rows. ix_ts r \<noteq> NaN" "r \<in> set rows" "k \<in> set (fst (collapse_rows rows))" "place k = place r"
  shows "row_stamp r \<le> row_stamp k"
proof -
  obtain d n where d: "fold collapse_step rows ([], 0) = (d, n)" by fastforce
  have inv: "collapse_inv rows (d, n)" using collapse_fold_inv [of "[]" "([], 0)" rows] d by (simp add: collapse_inv_def)
  obtain r' where r': "map_of d (place r) = Some r'" "row_stamp r \<le> row_stamp r'"
    using collapse_fold_latest [of "[]" "([], 0)" rows] assms(1,2) d by (auto simp: collapse_inv_def)
  have "k \<in> snd ` set d" using assms(3) by (auto simp: collapse_rows_def d Let_def)
  then have "map_of d (place k) = Some k" using inv by (auto simp: collapse_inv_def)
  then show ?thesis using r' assms(4) by simp
qed

lemma contents_of_set: "contents_of rows u = sorted_list_of_set (ix_content_digest ` {r \<in> set rows. unit_id r = u})"
proof -
  have "set (map ix_content_digest (filter (\<lambda>r. unit_id r = u) rows)) = ix_content_digest ` {r \<in> set rows. unit_id r = u}"
    by auto
  then show ?thesis by (simp only: contents_of_def sorted_list_of_set_sort_remdups [symmetric])
qed

lemma contents_of_places:
  assumes "place ` set kept = place ` set rows"
  shows "contents_of kept u = contents_of rows u"
proof -
  have sub: "ix_content_digest ` {r \<in> set xs. unit_id r = u} \<subseteq> ix_content_digest ` {r \<in> set ys. unit_id r = u}"
    if "place ` set xs \<subseteq> place ` set ys" for xs ys
  proof
    fix c assume "c \<in> ix_content_digest ` {r \<in> set xs. unit_id r = u}"
    then obtain r where r: "r \<in> set xs" "unit_id r = u" "c = ix_content_digest r" by blast
    have "place r \<in> place ` set ys" using r(1) that by blast
    then obtain r' where "place r = place r'" "r' \<in> set ys" by (rule imageE)
    then show "c \<in> ix_content_digest ` {r \<in> set ys. unit_id r = u}"
      using r by (intro image_eqI [of _ _ r']) (auto simp: place_def unit_id_def)
  qed
  have "ix_content_digest ` {r \<in> set kept. unit_id r = u} = ix_content_digest ` {r \<in> set rows. unit_id r = u}"
    by (intro subset_antisym sub) (simp_all only: assms subset_refl)
  then show ?thesis by (simp only: contents_of_set)
qed

lemma contents_of_unit: "contents_of rows u \<noteq> [] \<Longrightarrow> u \<in> unit_id ` set rows"
proof -
  assume "contents_of rows u \<noteq> []"
  then have "set (contents_of rows u) \<noteq> {}" by simp
  then show ?thesis unfolding contents_of_set by auto
qed

lemma row_conflicts_set:
  assumes "place ` set kept = place ` set rows"
  shows "set (row_conflicts kept) = (\<lambda>u. \<lparr>cf_unit_key = fst u, cf_input_digest = snd u, cf_content_digests = contents_of rows u\<rparr>)
      ` {u. 1 < length (contents_of rows u)}"
proof -
  have "u \<in> unit_id ` set kept" if "1 < length (contents_of kept u)" for u
    using that contents_of_unit [of kept u] by force
  then have "{u \<in> unit_id ` set kept. 1 < length (contents_of rows u)} = {u. 1 < length (contents_of rows u)}"
    unfolding contents_of_places [OF assms] by blast
  then show ?thesis unfolding row_conflicts_def contents_of_places [OF assms] by simp
qed

text \<open>
  C14. Collapsing rows keeps exactly one row for every unit, input, content, store and place, and it is the latest
  one when no stamp is NaN. Two contents for one unit and input are both kept and reported: the
  conflicts are those of the rows that came in.
\<close>

theorem collapse_keeps_every_place:
  assumes "collapse_rows rows = (kept, collapsed, copies, conflicts)"
  shows "set kept \<subseteq> set rows \<and> place ` set kept = place ` set rows \<and> distinct (map place kept) \<and> sorted (map place kept)
    \<and> collapsed + length kept = length rows
    \<and> ((\<forall>r\<in>set rows. ix_ts r \<noteq> NaN) \<longrightarrow> (\<forall>k\<in>set kept. \<forall>r\<in>set rows. place r = place k \<longrightarrow> row_stamp r \<le> row_stamp k))
    \<and> set conflicts = (\<lambda>u. \<lparr>cf_unit_key = fst u, cf_input_digest = snd u, cf_content_digests = contents_of rows u\<rparr>)
      ` {u. 1 < length (contents_of rows u)}"
proof -
  have kept: "kept = fst (collapse_rows rows)" "collapsed = fst (snd (collapse_rows rows))" using assms by simp_all
  have "conflicts = row_conflicts kept" using assms by (auto simp: collapse_rows_def Let_def split: prod.splits)
  then show ?thesis
    using collapse_rows_kept [of rows] row_conflicts_set [of kept rows] collapse_rows_latest [of rows]
    by (simp add: kept [symmetric])
qed

definition demo_rows :: "index_row list" where
  "demo_rows = [demo_row ''k1'' ''c1'', (demo_row ''k1'' ''c2'')\<lparr>ix_ts := Finite 7\<rparr>, (demo_row ''k1'' ''c1'')\<lparr>ix_ts := Finite 6\<rparr>]"

definition demo_kept :: "index_row list" where
  "demo_kept = [(demo_row ''k1'' ''c1'')\<lparr>ix_ts := Finite 6\<rparr>, (demo_row ''k1'' ''c2'')\<lparr>ix_ts := Finite 7\<rparr>]"

theorem collapse_keeps_every_place_witness:
  "collapse_rows demo_rows = (demo_kept, 1, 0, row_conflicts demo_kept) \<and> place ` set demo_kept = place ` set demo_rows
   \<and> set (row_conflicts demo_kept) = (\<lambda>u. \<lparr>cf_unit_key = fst u, cf_input_digest = snd u, cf_content_digests = contents_of demo_rows u\<rparr>)
      ` {u. 1 < length (contents_of demo_rows u)}"
proof -
  have "collapse_rows demo_rows = (demo_kept, 1, 0, row_conflicts demo_kept)" by code_simp
  with collapse_keeps_every_place [OF this] show ?thesis by blast
qed

section \<open>Manifests are read as they were written\<close>

definition plain_name :: "string \<Rightarrow> bool" where
  "plain_name n = (n \<noteq> [] \<and> CHR ''/'' \<notin> set n \<and> \<not> prefix_of ''.'' n)"

lemma split_at_plain: "list_all (\<lambda>c. \<not> P c) xs \<Longrightarrow> split_at P xs = [xs]"
  by (induction xs) auto

lemma split_at_sep: "list_all (\<lambda>c. \<not> P c) xs \<Longrightarrow> P c \<Longrightarrow> split_at P (xs @ c # ys) = xs # split_at P ys"
  by (induction xs) auto

lemma path_parts_input:
  assumes "plain_name n"
  shows "path_parts (dir_name d @ ''/'' @ n) = [dir_name d, n]"
proof -
  have n: "n \<noteq> [] \<and> n \<noteq> ''.''" "list_all (\<lambda>c. c \<noteq> CHR ''/'') n"
    using assms by (auto simp: plain_name_def prefix_of_def list_all_iff)
  have d: "list_all (\<lambda>c. c \<noteq> CHR ''/'') (dir_name d)" "dir_name d \<noteq> []" "dir_name d \<noteq> ''.''"
      "\<not> isabs (dir_name d @ ''/'' @ n)"
    by (cases d; simp add: dir_name_def isabs_def prefix_of_def)+
  have "split_at (\<lambda>c. c = CHR ''/'') (dir_name d @ ''/'' @ n) = dir_name d # split_at (\<lambda>c. c = CHR ''/'') n"
    using split_at_sep [of "\<lambda>c. c = CHR ''/''" "dir_name d" "CHR ''/''" n] d(1) by simp
  then show ?thesis using split_at_plain [of "\<lambda>c. c = CHR ''/''" n] n d(2-4) by (simp add: path_parts_def)
qed

lemma manifest_input_written:
  assumes "plain_name n"
  shows "manifest_input name (sort_keys (JObj [(''path'', JStr (dir_name d @ ''/'' @ n)), (''size'', JInt sz), (''ino'', JInt ino),
    (''mtime_ns'', JInt mtime)])) = Inr ((d, n), (sz, ino, mtime))"
proof -
  let ?e = "[(''path'', JStr (dir_name d @ ''/'' @ n)), (''size'', JInt sz), (''ino'', JInt ino), (''mtime_ns'', JInt mtime)]"
  have get: "obj_get (sort_key fst (map (\<lambda>kv. (fst kv, sort_keys (snd kv))) ?e)) k = sort_keys (obj_get ?e k)" for k
    by (rule obj_get_sorted) simp
  have "obj_get ?e ''path'' = JStr (dir_name d @ ''/'' @ n)" "obj_get ?e ''size'' = JInt sz" "obj_get ?e ''ino'' = JInt ino"
      "obj_get ?e ''mtime_ns'' = JInt mtime"
    by (simp_all add: obj_get_def)
  moreover have "\<not> prefix_of ''.'' n" using assms by (simp add: plain_name_def)
  moreover have "dir_name d = ''segments'' \<longleftrightarrow> d = Segments" "dir_name d = ''sealed'' \<longleftrightarrow> d = Sealed"
    by (cases d; simp add: dir_name_def)+
  ultimately show ?thesis
    unfolding manifest_input_def sort_keys.simps json.case get
    using path_parts_input [OF assms, of d] by (cases d) (simp_all add: del: append.simps)
qed

lemma load_manifest_written:
  assumes "CHR ''/'' \<notin> set sealed" "sealed \<noteq> ''.''" "\<forall>((d, n), ident)\<in>set inputs. plain_name n"
  shows "load_manifest name (manifest_json sealed inputs) = Inr \<lparr>mn_name = name, mn_sealed = sealed, mn_inputs = inputs\<rparr>"
proof -
  define item where "item = (\<lambda>((d, n), (sz, ino, mtime)). JObj [(''path'', JStr (dir_name d @ ''/'' @ n)), (''size'', JInt sz),
      (''ino'', JInt ino), (''mtime_ns'', JInt mtime)])"
  let ?d = "[(''sealed'', JStr sealed), (''inputs'', JArr (map item inputs))]"
  have json: "manifest_json sealed inputs = sort_keys (JObj ?d)" by (simp add: manifest_json_def item_def)
  have get: "obj_get (sort_key fst (map (\<lambda>kv. (fst kv, sort_keys (snd kv))) ?d)) k = sort_keys (obj_get ?d k)" for k
    by (rule obj_get_sorted) simp
  have fields: "obj_get ?d ''sealed'' = JStr sealed" "obj_get ?d ''inputs'' = JArr (map item inputs)"
    by (simp_all add: obj_get_def)
  have "traverse_res (manifest_input name) (map (sort_keys \<circ> item) inputs) = Inr inputs"
    using assms(3) manifest_input_written
    by (auto simp: traverse_res_eq_Inr list_all2_map1 list_all2_same item_def simp del: sort_keys.simps append.simps)
  then show ?thesis
    unfolding load_manifest_def json sort_keys.simps json.case get fields
    using assms(1,2) by (simp del: sort_keys.simps)
qed

end
