(* ===== verification/Unit_Protocol.thy ===== *)
theory Unit_Protocol
  imports Unit_Compact
begin

text \<open>
  The unit index under concurrency: writers, compactors and crashes interleaved.

  There is no lock. Every step below is one atomic action of \<open>run/unit_index.py\<close> on the shared directories, by one of any
  number of compactors, each with what it has learnt so far in this pass. The order of the
  steps of a pass is not fixed, so the passes of the code, in any interleaving and stopped anywhere, are among
  the runs. What a compactor does in two looks is two steps: it reads a file and then stats it (\<open>read_with_ident\<close>), and it checks an
  input and then renames it (\<open>_archive_due\<close>); in between, others take steps, and \<open>ps_busy\<close> has the compactors that are there.

  A verdict on a writer may be wrong: any segment may be read and sealed while its writer still writes. Two
  things the code relies on and does not enforce are the faults: \<open>WrongVerdict\<close>, that the last verdict, the one just before a segment is
  moved, is wrong as well; and \<open>ReopenedName\<close>, that a writer opens a name while a compactor is between its two looks at
  that name. Without them (\<open>preach {}\<close>) no row is lost, and each of them loses a row. Names may be used again otherwise; the inode of a segment is not,
  since the file is moved and never deleted.
  The history (\<open>ps_hist\<close>, \<open>ps_born\<close>, \<open>ps_inos\<close>, \<open>ps_durable\<close>) is for the proofs: the last file of every
  path, the inodes of the segments, and the rows in complete lines.
\<close>

section \<open>Steps\<close>

record known =
  kn_manifests :: "manifest list"
  kn_reads :: "(in_path \<times> ident \<times> index_row list) list"
  kn_written :: "(string \<times> (in_path \<times> ident) list) option"

definition nothing_known :: known where
  "nothing_known = \<lparr>kn_manifests = [], kn_reads = [], kn_written = None\<rparr>"

record pstate =
  ps_fs :: index_fs
  ps_writers :: "string list"
  ps_known :: "nat \<Rightarrow> known"
  ps_busy :: "(nat \<times> in_path \<times> file_data option) list"
  ps_hist :: "in_path \<Rightarrow> seg_file option"
  ps_born :: "in_path \<Rightarrow> nat"
  ps_clock :: nat
  ps_inos :: "nat list"
  ps_durable :: "index_row list"

definition empty_index :: pstate where
  "empty_index = \<lparr>ps_fs = \<lparr>xf_segments = [], xf_sealed = [], xf_rebuilt = [], xf_archive = [], xf_manifests = []\<rparr>,
     ps_writers = [], ps_known = (\<lambda>_. nothing_known), ps_busy = [], ps_hist = (\<lambda>_. None), ps_born = (\<lambda>_. 0), ps_clock = 0,
     ps_inos = [], ps_durable = []\<rparr>"

datatype action =
    OpenWriter string nat int
  | WriteSegment string file_data int
  | StopWriter string
  | Rebuild string seg_file
  | LoadManifest nat string
  | UnlinkManifest nat string
  | CheckInput nat manifest in_path ident
  | MoveInput nat in_path string
  | ReadInput nat in_path
  | StatInput nat in_path
  | WriteSealed nat string "(in_path \<times> ident \<times> index_row list) list" nat int
  | WriteManifest nat
  | Forget nat

datatype fault = WrongVerdict | ReopenedName

definition add_file :: "in_path \<Rightarrow> seg_file \<Rightarrow> pstate \<Rightarrow> pstate" where
  "add_file p f s = s\<lparr>ps_fs := (case fst p of
       Segments \<Rightarrow> (ps_fs s)\<lparr>xf_segments := AList.update (snd p) f (xf_segments (ps_fs s))\<rparr>
     | Sealed \<Rightarrow> (ps_fs s)\<lparr>xf_sealed := AList.update (snd p) f (xf_sealed (ps_fs s))\<rparr>),
     ps_hist := (ps_hist s)(p \<mapsto> f)\<rparr>"

definition born_now :: "in_path \<Rightarrow> pstate \<Rightarrow> pstate" where
  "born_now p s = s\<lparr>ps_born := (ps_born s)(p := ps_clock s), ps_clock := ps_clock s + 1\<rparr>"

definition learn :: "nat \<Rightarrow> (known \<Rightarrow> known) \<Rightarrow> pstate \<Rightarrow> pstate" where
  "learn c g s = s\<lparr>ps_known := (ps_known s)(c := g (ps_known s c))\<rparr>"

text \<open>Compactor \<open>c\<close> has read a file, or has checked an input (\<open>None\<close>), and looks at the same path again in its next step.\<close>

definition busy_with :: "nat \<Rightarrow> in_path \<Rightarrow> file_data option \<Rightarrow> pstate \<Rightarrow> pstate" where
  "busy_with c p raw s = s\<lparr>ps_busy := AList.update c (p, raw) (ps_busy s)\<rparr>"

definition idle :: "nat \<Rightarrow> pstate \<Rightarrow> pstate" where
  "idle c s = s\<lparr>ps_busy := AList.delete c (ps_busy s)\<rparr>"

definition listed_name :: "string \<Rightarrow> bool" where
  "listed_name n = (plain_name n \<and> jsonl n)"

definition stopped :: "pstate \<Rightarrow> in_path \<Rightarrow> bool" where
  "stopped s p = (fst p = Segments \<longrightarrow> snd p \<notin> set (ps_writers s))"

fun pstep :: "fault set \<Rightarrow> action \<Rightarrow> pstate \<Rightarrow> pstate option" where
  "pstep faults (OpenWriter n ino mtime) s =
     (if listed_name n \<and> file_at (ps_fs s) (Segments, n) = None \<and> ino \<notin> set (ps_inos s)
         \<and> (ReopenedName \<in> faults \<or> (Segments, n) \<notin> set (map (fst \<circ> snd) (ps_busy s)))
      then Some (born_now (Segments, n) (add_file (Segments, n) \<lparr>fl_ino = ino, fl_mtime = mtime, fl_data = []\<rparr>
        (s\<lparr>ps_writers := n # ps_writers s, ps_inos := ino # ps_inos s\<rparr>)))
      else None)"
| "pstep faults (WriteSegment n data mtime) s =
     (case file_at (ps_fs s) (Segments, n) of
        None \<Rightarrow> None
      | Some f \<Rightarrow>
          if n \<in> set (ps_writers s)
          then let f' = f\<lparr>fl_data := fl_data f @ data, fl_mtime := mtime\<rparr>
               in Some ((add_file (Segments, n) f' s)\<lparr>ps_durable := complete_rows (fl_data f') @ ps_durable s\<rparr>)
          else None)"
| "pstep faults (StopWriter n) s = Some (s\<lparr>ps_writers := removeAll n (ps_writers s)\<rparr>)"
| "pstep faults (Rebuild n f) s = Some (s\<lparr>ps_fs := (ps_fs s)\<lparr>xf_rebuilt := AList.update n f (xf_rebuilt (ps_fs s))\<rparr>\<rparr>)"
| "pstep faults (LoadManifest c name) s =
     (case map_of (xf_manifests (ps_fs s)) name of
        None \<Rightarrow> None
      | Some raw \<Rightarrow>
          (case load_manifest name raw of
             Inl _ \<Rightarrow> None
           | Inr m \<Rightarrow> Some (learn c (\<lambda>k. k\<lparr>kn_manifests := m # kn_manifests k\<rparr>) s)))"
| "pstep faults (UnlinkManifest c name) s =
     (if name \<in> mn_name ` set (kn_manifests (ps_known s c)) then Some (s\<lparr>ps_fs := unlink_manifest name (ps_fs s)\<rparr>) else None)"
| "pstep faults (CheckInput c m p ident) s =
     (case file_at (ps_fs s) p of
        None \<Rightarrow> None
      | Some f \<Rightarrow>
          if m \<in> set (kn_manifests (ps_known s c)) \<and> (p, ident) \<in> set (mn_inputs m) \<and> ident_of f = ident
             \<and> (WrongVerdict \<in> faults \<or> stopped s p)
          then Some (busy_with c p None s)
          else None)"
| "pstep faults (MoveInput c p dest) s =
     (if map_of (ps_busy s) c = Some (p, None) \<and> file_at (ps_fs s) p \<noteq> None
      then Some (idle c (s\<lparr>ps_fs := move_to_archive dest p (ps_fs s)\<rparr>))
      else None)"
| "pstep faults (ReadInput c p) s =
     (case file_at (ps_fs s) p of None \<Rightarrow> None | Some f \<Rightarrow> Some (busy_with c p (Some (fl_data f)) s))"
| "pstep faults (StatInput c p) s =
     (case (map_of (ps_busy s) c, file_at (ps_fs s) p) of
        (Some (q, Some raw), Some f) \<Rightarrow>
          if q = p \<and> length (fl_data f) = length raw
          then Some (idle c (learn c (\<lambda>k. k\<lparr>kn_reads := (p, ident_of f, rows_of raw) # kn_reads k\<rparr>) s))
          else None
      | _ \<Rightarrow> None)"
| "pstep faults (WriteSealed c st reads ino mtime) s =
     (let p = (Sealed, st @ ''.jsonl'') in
      if set reads \<subseteq> set (kn_reads (ps_known s c)) \<and> plain_name st \<and> ps_hist s p = None
      then Some (learn c (\<lambda>k. k\<lparr>kn_written := Some (st, map (\<lambda>(p, ident, rows). (p, ident)) reads)\<rparr>)
        (born_now p (add_file p \<lparr>fl_ino = ino, fl_mtime = mtime,
          fl_data = row_lines (fst (collapse_rows (concat (map (\<lambda>(p, ident, rows). rows) reads))))\<rparr> s)))
      else None)"
| "pstep faults (WriteManifest c) s =
     (case kn_written (ps_known s c) of
        None \<Rightarrow> None
      | Some (st, inputs) \<Rightarrow> Some (s\<lparr>ps_fs := write_manifest st inputs (ps_fs s)\<rparr>))"
| "pstep faults (Forget c) s = Some (idle c (s\<lparr>ps_known := (ps_known s)(c := nothing_known)\<rparr>))"

inductive preach :: "fault set \<Rightarrow> pstate \<Rightarrow> pstate \<Rightarrow> bool" for faults start where
  here: "preach faults start start"
| step: "preach faults start s \<Longrightarrow> pstep faults a s = Some s' \<Longrightarrow> preach faults start s'"

section \<open>Rows of sealed files\<close>

lemma from_dict_valid: "IndexRow_from_dict d = Inr r \<Longrightarrow> row_valid r"
proof -
  assume read: "IndexRow_from_dict d = Inr r"
  have req: "required_str d f = Inr x \<Longrightarrow> x \<noteq> []" for f x
    by (auto simp: required_str_def split: json.splits list.splits)
  have reused: "reused_field j = Inr (Some (a, b, c)) \<Longrightarrow> a \<noteq> [] \<and> b \<noteq> [] \<and> c \<noteq> []" for j a b c
    by (induction j rule: reused_field.induct) (auto split: if_splits)
  obtain rs ss reu ts where r: "traverse_res (required_str d) REQUIRED_STR = Inr rs"
      "reused_field (obj_get d ''reused_from'') = Inr reu"
      "r = \<lparr>ix_store = rs ! 0, ix_locator = rs ! 1, ix_unit_key = rs ! 2, ix_input_digest = rs ! 3,
         ix_content_digest = rs ! 4, ix_record_digest = rs ! 5, ix_adapter = ss ! 0, ix_writer_id = ss ! 1, ix_run_id = ss ! 2,
         ix_ts = ts, ix_reused_from = reu, ix_schema_version = INDEX_SCHEMA_VERSION\<rparr>"
    using read unfolding IndexRow_from_dict_def by (auto simp: bind_res_eq_Inr split: if_splits)
  have all2: "list_all2 (\<lambda>f x. required_str d f = Inr x) REQUIRED_STR rs" using r(1) by (simp add: traverse_res_eq_Inr)
  then have len: "length rs = 6" by (auto simp: REQUIRED_STR_def dest: list_all2_lengthD)
  have "[] \<notin> set rs" using list_all2_pick(2) [OF all2] req by blast
  moreover have "{rs ! 0, rs ! 1, rs ! 2, rs ! 3, rs ! 4, rs ! 5} \<subseteq> set rs" using len by simp
  ultimately have "[] \<notin> {rs ! 0, rs ! 1, rs ! 2, rs ! 3, rs ! 4, rs ! 5}" by blast
  moreover have "case reu of None \<Rightarrow> True | Some (a, b, c) \<Rightarrow> [] \<notin> {a, b, c}"
    using reused r(2) by (cases reu) force+
  ultimately show ?thesis unfolding row_valid_iff r(3) by (simp add: INDEX_SCHEMA_VERSION_def)
qed

lemma row_of_line_valid: "row_of_line raw = Some r \<Longrightarrow> row_valid r"
proof -
  assume "row_of_line raw = Some r"
  then obtain d where "IndexRow_from_dict d = Inr r"
    by (auto simp: row_of_line_def split: option.splits json.splits if_splits sum.splits)
  then show ?thesis by (rule from_dict_valid)
qed

lemma rows_of_valid: "r \<in> set (rows_of data) \<Longrightarrow> row_valid r"
  unfolding rows_of_def set_map_filter_iff using row_of_line_valid by blast

lemma rows_of_row_lines: "list_all row_valid rows \<Longrightarrow> rows_of (row_lines rows) = rows"
proof -
  have "last (split_lines (row_lines rows)) = [] \<and> (list_all row_valid rows \<longrightarrow> complete_rows (row_lines rows) = rows)"
  proof (induction rows rule: rev_induct)
    case (snoc r rows)
    have "row_lines (rows @ [r]) = row_lines rows @ [Text (sort_keys (JObj (IndexRow_to_dict r))), Newline]"
      by (simp add: row_lines_def IndexRow_to_json_line_def)
    then show ?case
      using snoc.IH complete_rows_line [of "row_lines rows" "sort_keys (JObj (IndexRow_to_dict r))"] row_of_written [of r]
      by (auto simp del: sort_keys.simps)
  qed (simp add: row_lines_def complete_rows_def map_filter_simps)
  then show "list_all row_valid rows \<Longrightarrow> rows_of (row_lines rows) = rows"
    by (simp add: rows_of_complete row_of_line_def)
qed

section \<open>The invariant\<close>

lemma file_at_add [simp]: "file_at (ps_fs (add_file p f s)) q = (if q = p then Some f else file_at (ps_fs s) q)"
  by (cases p; cases q; cases "fst p"; cases "fst q") (auto simp: add_file_def file_at_def dir_files_def update_conv')

lemma file_at_move [simp]: "file_at (move_to_archive dest p fs) q = (if q = p then None else file_at fs q)"
  by (cases p; cases q; cases "fst p"; cases "fst q")
    (auto simp: move_to_archive_def file_at_def dir_files_def delete_conv' Let_def split: option.splits)

lemma file_at_unlink [simp]: "file_at (unlink_manifest n fs) q = file_at fs q"
  by (simp add: unlink_manifest_def file_at_def dir_files_def split: in_dir.split)

lemma file_at_write_manifest [simp]: "file_at (write_manifest n inputs fs) q = file_at fs q"
  by (simp add: write_manifest_def file_at_def dir_files_def split: in_dir.split)

lemma file_at_other [simp]:
  "file_at (fs\<lparr>xf_rebuilt := d\<rparr>) q = file_at fs q" "file_at (fs\<lparr>xf_manifests := ms\<rparr>) q = file_at fs q"
  by (simp_all add: file_at_def dir_files_def split: in_dir.split)

lemma manifests_of [simp]:
  "xf_manifests (ps_fs (add_file p f s)) = xf_manifests (ps_fs s)"
  "xf_manifests (move_to_archive dest p fs) = xf_manifests fs"
  by (auto simp: add_file_def move_to_archive_def Let_def split: in_dir.splits option.splits)

lemma add_file_simps [simp]:
  "ps_hist (add_file p f s) = (ps_hist s)(p \<mapsto> f)" "ps_writers (add_file p f s) = ps_writers s"
  "ps_known (add_file p f s) = ps_known s" "ps_born (add_file p f s) = ps_born s" "ps_clock (add_file p f s) = ps_clock s"
  "ps_durable (add_file p f s) = ps_durable s" "ps_busy (add_file p f s) = ps_busy s" "ps_inos (add_file p f s) = ps_inos s"
  by (simp_all add: add_file_def)

lemma born_now_simps [simp]:
  "ps_fs (born_now p s) = ps_fs s" "ps_hist (born_now p s) = ps_hist s" "ps_writers (born_now p s) = ps_writers s"
  "ps_known (born_now p s) = ps_known s" "ps_durable (born_now p s) = ps_durable s"
  "ps_busy (born_now p s) = ps_busy s" "ps_inos (born_now p s) = ps_inos s"
  "ps_born (born_now p s) = (ps_born s)(p := ps_clock s)" "ps_clock (born_now p s) = ps_clock s + 1"
  by (simp_all add: born_now_def)

lemma learn_simps [simp]:
  "ps_fs (learn c g s) = ps_fs s" "ps_hist (learn c g s) = ps_hist s" "ps_writers (learn c g s) = ps_writers s"
  "ps_born (learn c g s) = ps_born s" "ps_clock (learn c g s) = ps_clock s" "ps_durable (learn c g s) = ps_durable s"
  "ps_busy (learn c g s) = ps_busy s" "ps_inos (learn c g s) = ps_inos s"
  "ps_known (learn c g s) = (ps_known s)(c := g (ps_known s c))"
  by (simp_all add: learn_def)

lemma busy_simps [simp]:
  "ps_fs (busy_with c p raw s) = ps_fs s" "ps_hist (busy_with c p raw s) = ps_hist s" "ps_writers (busy_with c p raw s) = ps_writers s"
  "ps_born (busy_with c p raw s) = ps_born s" "ps_clock (busy_with c p raw s) = ps_clock s" "ps_durable (busy_with c p raw s) = ps_durable s"
  "ps_known (busy_with c p raw s) = ps_known s" "ps_inos (busy_with c p raw s) = ps_inos s"
  "ps_busy (busy_with c p raw s) = AList.update c (p, raw) (ps_busy s)"
  by (simp_all add: busy_with_def)

lemma idle_simps [simp]:
  "ps_fs (idle c s) = ps_fs s" "ps_hist (idle c s) = ps_hist s" "ps_writers (idle c s) = ps_writers s"
  "ps_born (idle c s) = ps_born s" "ps_clock (idle c s) = ps_clock s" "ps_durable (idle c s) = ps_durable s"
  "ps_known (idle c s) = ps_known s" "ps_inos (idle c s) = ps_inos s" "ps_busy (idle c s) = AList.delete c (ps_busy s)"
  by (simp_all add: idle_def)

text \<open>A sealed file that holds every place of another, older file.\<close>

definition covers :: "seg_file \<Rightarrow> seg_file \<Rightarrow> bool" where
  "covers f g = (place ` set (rows_of (fl_data f)) \<subseteq> place ` set (rows_of (fl_data g)))"

lemma covers_trans: "covers f g \<Longrightarrow> covers g h \<Longrightarrow> covers f h"
  by (auto simp: covers_def)

definition held :: "pstate \<Rightarrow> in_path \<Rightarrow> in_path \<Rightarrow> seg_file \<Rightarrow> bool" where
  "held s q p f = (\<exists>g. ps_hist s q = Some g \<and> fst q = Sealed \<and> covers f g \<and> ps_born s p < ps_born s q)"

text \<open>
  What is recorded of an input is the identity of a file that the path had: no longer than that file is now, or of another inode.
  Only when the file is still the same does the record say anything about it.
\<close>

definition same_file :: "ident \<Rightarrow> seg_file \<Rightarrow> bool" where
  "same_file ident f = (fst ident = int (length (fl_data f)) \<and> fst (snd ident) = int (fl_ino f))"

definition past_ident :: "pstate \<Rightarrow> in_path \<Rightarrow> ident \<Rightarrow> bool" where
  "past_ident s p ident =
     ((case fst p of Segments \<Rightarrow> fst (snd ident) \<in> int ` set (ps_inos s) | Sealed \<Rightarrow> ps_hist s p \<noteq> None)
      \<and> (\<forall>f. ps_hist s p = Some f \<longrightarrow> fst (snd ident) = int (fl_ino f) \<longrightarrow> fst ident \<le> int (length (fl_data f))))"

definition sound_input :: "pstate \<Rightarrow> in_path \<Rightarrow> in_path \<times> ident \<Rightarrow> bool" where
  "sound_input s q = (\<lambda>(p, ident). past_ident s p ident \<and> (\<forall>f. ps_hist s p = Some f \<longrightarrow> same_file ident f \<longrightarrow> held s q p f))"

definition sound_read :: "pstate \<Rightarrow> in_path \<times> ident \<times> index_row list \<Rightarrow> bool" where
  "sound_read s = (\<lambda>(p, ident, rows). plain_name (snd p) \<and> past_ident s p ident \<and> (\<forall>r\<in>set rows. row_valid r)
     \<and> (\<forall>f. ps_hist s p = Some f \<longrightarrow> same_file ident f \<longrightarrow> rows = rows_of (fl_data f)))"

definition sound_manifest :: "pstate \<Rightarrow> manifest \<Rightarrow> bool" where
  "sound_manifest s m = (\<forall>input\<in>set (mn_inputs m). sound_input s (Sealed, mn_sealed m) input)"

definition sound_known :: "pstate \<Rightarrow> known \<Rightarrow> bool" where
  "sound_known s k =
     ((\<forall>m\<in>set (kn_manifests k). sound_manifest s m) \<and> (\<forall>r\<in>set (kn_reads k). sound_read s r)
      \<and> (\<forall>st inputs. kn_written k = Some (st, inputs) \<longrightarrow> plain_name st \<and> (\<forall>(p, ident)\<in>set inputs. plain_name (snd p))
           \<and> sound_manifest s \<lparr>mn_name = st @ MANIFEST_SUFFIX, mn_sealed = st @ ''.jsonl'', mn_inputs = inputs\<rparr>))"

text \<open>Between two looks: the file has only grown since it was read; a checked input has stopped and is held by a sealed file.\<close>

definition sound_busy :: "pstate \<Rightarrow> in_path \<times> file_data option \<Rightarrow> bool" where
  "sound_busy s = (\<lambda>(p, raw). case raw of
     None \<Rightarrow> stopped s p \<and> (\<exists>f q. ps_hist s p = Some f \<and> held s q p f)
   | Some raw \<Rightarrow> \<exists>f more. ps_hist s p = Some f \<and> fl_data f = raw @ more)"

definition live_cover :: "pstate \<Rightarrow> in_path \<Rightarrow> seg_file \<Rightarrow> bool" where
  "live_cover s p f =
     (\<exists>q g. file_at (ps_fs s) q = Some g \<and> fst q = Sealed \<and> covers f g \<and> ps_born s p < ps_born s q)"

text \<open>The file \<open>f\<close> at \<open>p\<close> shows a row: in a sealed file, every line counts; in a segment, every finished one.\<close>

definition shows_row :: "in_path \<Rightarrow> seg_file \<Rightarrow> index_row \<Rightarrow> bool" where
  "shows_row p f r = (place r \<in> place ` set (if fst p = Sealed then rows_of (fl_data f) else complete_rows (fl_data f)))"

definition pinv :: "pstate \<Rightarrow> bool" where
  "pinv s =
     ((\<forall>p f. file_at (ps_fs s) p = Some f \<longrightarrow> ps_hist s p = Some f)
      \<and> (\<forall>p f. ps_hist s p = Some f \<longrightarrow> listed_name (snd p) \<and> ps_born s p < ps_clock s \<and> (fst p = Segments \<longrightarrow> fl_ino f \<in> set (ps_inos s))
           \<and> (file_at (ps_fs s) p = Some f \<or> live_cover s p f))
      \<and> (\<forall>n\<in>set (ps_writers s). file_at (ps_fs s) (Segments, n) \<noteq> None)
      \<and> (\<forall>name raw m. map_of (xf_manifests (ps_fs s)) name = Some raw \<longrightarrow> load_manifest name raw = Inr m \<longrightarrow> sound_manifest s m)
      \<and> (\<forall>c. sound_known s (ps_known s c)) \<and> (\<forall>e\<in>set (ps_busy s). sound_busy s (snd e))
      \<and> (\<forall>r\<in>set (ps_durable s). \<exists>p f. ps_hist s p = Some f \<and> shows_row p f r))"

lemma pinv_empty: "pinv empty_index"
  by (simp add: pinv_def empty_index_def file_at_def dir_files_def sound_known_def nothing_known_def split: in_dir.split)

lemma pinvI:
  assumes "\<And>p f. file_at (ps_fs s) p = Some f \<Longrightarrow> ps_hist s p = Some f"
    and "\<And>p f. ps_hist s p = Some f \<Longrightarrow> listed_name (snd p) \<and> ps_born s p < ps_clock s \<and> (fst p = Segments \<longrightarrow> fl_ino f \<in> set (ps_inos s))"
    and "\<And>p f. ps_hist s p = Some f \<Longrightarrow> file_at (ps_fs s) p = Some f \<or> live_cover s p f"
    and "\<And>n. n \<in> set (ps_writers s) \<Longrightarrow> file_at (ps_fs s) (Segments, n) \<noteq> None"
    and "\<And>name raw m. map_of (xf_manifests (ps_fs s)) name = Some raw \<Longrightarrow> load_manifest name raw = Inr m \<Longrightarrow> sound_manifest s m"
    and "\<And>c. sound_known s (ps_known s c)" "\<And>e. e \<in> set (ps_busy s) \<Longrightarrow> sound_busy s (snd e)"
    and "\<And>r. r \<in> set (ps_durable s) \<Longrightarrow> \<exists>p f. ps_hist s p = Some f \<and> shows_row p f r"
  shows "pinv s"
  unfolding pinv_def using assms by blast

lemma pinvD:
  assumes "pinv s"
  shows "file_at (ps_fs s) p = Some f \<Longrightarrow> ps_hist s p = Some f"
    and "ps_hist s p = Some f \<Longrightarrow> listed_name (snd p) \<and> ps_born s p < ps_clock s \<and> (fst p = Segments \<longrightarrow> fl_ino f \<in> set (ps_inos s))"
    and "ps_hist s p = Some f \<Longrightarrow> file_at (ps_fs s) p = Some f \<or> live_cover s p f"
    and "n \<in> set (ps_writers s) \<Longrightarrow> file_at (ps_fs s) (Segments, n) \<noteq> None"
    and "map_of (xf_manifests (ps_fs s)) name = Some raw \<Longrightarrow> load_manifest name raw = Inr m \<Longrightarrow> sound_manifest s m"
    and "sound_known s (ps_known s c)" and "e \<in> set (ps_busy s) \<Longrightarrow> sound_busy s (snd e)"
    and "r \<in> set (ps_durable s) \<Longrightarrow> \<exists>p f. ps_hist s p = Some f \<and> shows_row p f r"
  using assms unfolding pinv_def by blast+

section \<open>What is recorded stays true\<close>

text \<open>A step lets the file of a path grow, or puts a file there that was not there before; sealed files stay as they are.\<close>

definition grown :: "pstate \<Rightarrow> pstate \<Rightarrow> in_path \<Rightarrow> seg_file \<Rightarrow> bool" where
  "grown s s' p f' = (\<exists>f more. ps_hist s p = Some f \<and> fl_ino f' = fl_ino f \<and> fl_data f' = fl_data f @ more \<and> ps_born s' p = ps_born s p)"

definition fresh_file :: "pstate \<Rightarrow> in_path \<Rightarrow> seg_file \<Rightarrow> bool" where
  "fresh_file s p f' = (case fst p of Segments \<Rightarrow> fl_ino f' \<notin> set (ps_inos s) | Sealed \<Rightarrow> ps_hist s p = None)"

definition evolves :: "pstate \<Rightarrow> pstate \<Rightarrow> bool" where
  "evolves s s' = ((\<forall>p f'. ps_hist s' p = Some f' \<longrightarrow> grown s s' p f' \<or> fresh_file s p f')
     \<and> (\<forall>q g. fst q = Sealed \<longrightarrow> ps_hist s q = Some g \<longrightarrow> ps_hist s' q = Some g \<and> ps_born s' q = ps_born s q)
     \<and> set (ps_inos s) \<subseteq> set (ps_inos s'))"

lemma grown_same: "ps_hist s p = Some f \<Longrightarrow> ps_born s' p = ps_born s p \<Longrightarrow> grown s s' p f"
  unfolding grown_def by (intro exI [of _ f] exI [of _ "[]"]) simp

lemma evolves_same: "ps_hist s' = ps_hist s \<Longrightarrow> ps_born s' = ps_born s \<Longrightarrow> set (ps_inos s) \<subseteq> set (ps_inos s') \<Longrightarrow> evolves s s'"
  unfolding evolves_def using grown_same [of s _ _ s'] by auto

lemma recorded_file:
  assumes ev: "evolves s s'" and past: "past_ident s p ident" and f': "ps_hist s' p = Some f'" "fst (snd ident) = int (fl_ino f')"
  shows "fst ident \<le> int (length (fl_data f'))"
    and "same_file ident f' \<Longrightarrow> \<exists>f. ps_hist s p = Some f \<and> same_file ident f \<and> fl_data f' = fl_data f \<and> ps_born s' p = ps_born s p"
proof -
  have "\<not> fresh_file s p f'"
    using past f'(2) by (cases "fst p") (auto simp: past_ident_def fresh_file_def)
  then obtain f more where f: "ps_hist s p = Some f" "fl_ino f' = fl_ino f" "fl_data f' = fl_data f @ more" "ps_born s' p = ps_born s p"
    using ev f'(1) unfolding evolves_def grown_def by blast
  have le: "fst ident \<le> int (length (fl_data f))" using past f(1,2) f'(2) by (simp add: past_ident_def)
  then show "fst ident \<le> int (length (fl_data f'))" using f(3) by simp
  assume "same_file ident f'"
  then have "fl_data f' = fl_data f" "same_file ident f" using le f(2,3) by (auto simp: same_file_def)
  then show "\<exists>f. ps_hist s p = Some f \<and> same_file ident f \<and> fl_data f' = fl_data f \<and> ps_born s' p = ps_born s p" using f by blast
qed

lemma past_ident_mono:
  assumes ev: "evolves s s'" and past: "past_ident s p ident"
  shows "past_ident s' p ident"
  unfolding past_ident_def
proof (intro conjI allI impI)
  show "case fst p of Segments \<Rightarrow> fst (snd ident) \<in> int ` set (ps_inos s') | Sealed \<Rightarrow> ps_hist s' p \<noteq> None"
  proof (cases "fst p")
    case Segments
    then show ?thesis using past ev by (auto simp: past_ident_def evolves_def)
  next
    case Sealed
    then obtain g where "ps_hist s p = Some g" using past by (auto simp: past_ident_def)
    then have "ps_hist s' p = Some g" using ev Sealed unfolding evolves_def by blast
    then show ?thesis using Sealed by simp
  qed
qed (use recorded_file(1) [OF assms] in blast)

lemma held_mono:
  assumes "evolves s s'" "held s q p f" "fl_data f' = fl_data f" "ps_born s' p = ps_born s p"
  shows "held s' q p f'"
  using assms unfolding held_def evolves_def covers_def by (metis (no_types, lifting))

lemma sound_input_mono:
  assumes ev: "evolves s s'" and x: "sound_input s q x"
  shows "sound_input s' q x"
proof -
  obtain p ident where eq: "x = (p, ident)" by (cases x)
  have past: "past_ident s p ident" using x eq by (simp add: sound_input_def)
  have "held s' q p f'" if f': "ps_hist s' p = Some f'" "same_file ident f'" for f'
  proof -
    have "fst (snd ident) = int (fl_ino f')" using f'(2) by (simp add: same_file_def)
    from recorded_file(2) [OF ev past f'(1) this f'(2)] obtain f where
      f: "ps_hist s p = Some f" "same_file ident f" "fl_data f' = fl_data f" "ps_born s' p = ps_born s p" by blast
    have "held s q p f" using x eq f(1,2) by (simp add: sound_input_def)
    then show ?thesis by (rule held_mono [OF ev _ f(3,4)])
  qed
  then show ?thesis using past_ident_mono [OF ev past] eq by (simp add: sound_input_def)
qed

lemma sound_read_mono:
  assumes ev: "evolves s s'" and x: "sound_read s x"
  shows "sound_read s' x"
proof (cases x)
  case (fields p ident rows)
  have past: "past_ident s p ident" using x fields by (simp add: sound_read_def)
  have "rows = rows_of (fl_data f')" if f': "ps_hist s' p = Some f'" "same_file ident f'" for f'
  proof -
    have "fst (snd ident) = int (fl_ino f')" using f'(2) by (simp add: same_file_def)
    from recorded_file(2) [OF ev past f'(1) this f'(2)] show ?thesis using x fields by (auto simp: sound_read_def)
  qed
  then show ?thesis using x past_ident_mono [OF ev past] fields by (auto simp: sound_read_def)
qed

lemma sound_manifest_mono: "evolves s s' \<Longrightarrow> sound_manifest s m \<Longrightarrow> sound_manifest s' m"
  by (auto simp: sound_manifest_def intro: sound_input_mono)

lemma sound_known_mono: "evolves s s' \<Longrightarrow> sound_known s k \<Longrightarrow> sound_known s' k"
  unfolding sound_known_def using sound_manifest_mono sound_read_mono by blast

text \<open>A path that a compactor looks at twice keeps its file meanwhile, or lets it grow; a stopped one does not grow.\<close>

lemma sound_busy_mono:
  assumes "evolves s s'" "sound_busy s (p, raw)" and keep: "\<And>f. ps_hist s p = Some f \<Longrightarrow> \<exists>f'. ps_hist s' p = Some f' \<and> grown s s' p f'"
    and stop: "stopped s p \<Longrightarrow> stopped s' p \<and> ps_hist s' p = ps_hist s p"
  shows "sound_busy s' (p, raw)"
proof (cases raw)
  case None
  then obtain f q where f: "stopped s p" "ps_hist s p = Some f" "held s q p f" using assms(2) by (auto simp: sound_busy_def)
  have "ps_hist s' p = Some f" "ps_born s' p = ps_born s p" using stop [OF f(1)] keep [OF f(2)] f(2) by (auto simp: grown_def)
  moreover from this have "held s' q p f" using held_mono [OF assms(1) f(3) refl] by blast
  ultimately have "stopped s' p \<and> (\<exists>f q. ps_hist s' p = Some f \<and> held s' q p f)" using stop [OF f(1)] by blast
  then show ?thesis using None by (simp add: sound_busy_def)
next
  case (Some d)
  then obtain f more where f: "ps_hist s p = Some f" "fl_data f = d @ more" using assms(2) by (auto simp: sound_busy_def)
  from keep [OF f(1)] f obtain f' more' where "ps_hist s' p = Some f'" "fl_data f' = d @ more @ more'"
    by (auto simp: grown_def)
  then show ?thesis using Some by (auto simp: sound_busy_def)
qed

section \<open>Every step keeps the invariant\<close>

text \<open>Steps that leave the files alone and teach one compactor something sound.\<close>

lemma pinv_same_files:
  assumes inv: "pinv s"
    and same: "ps_hist s' = ps_hist s" "ps_born s' = ps_born s" "set (ps_writers s') \<subseteq> set (ps_writers s)"
      "ps_clock s' = ps_clock s" "ps_durable s' = ps_durable s" "ps_inos s' = ps_inos s"
    and files: "\<And>p. file_at (ps_fs s') p = file_at (ps_fs s) p"
    and manifests: "\<And>name raw m. map_of (xf_manifests (ps_fs s')) name = Some raw \<Longrightarrow> load_manifest name raw = Inr m \<Longrightarrow> sound_manifest s m"
    and known: "\<And>c. sound_known s (ps_known s' c)" and busy: "\<And>e. e \<in> set (ps_busy s') \<Longrightarrow> sound_busy s (snd e)"
  shows "pinv s'"
proof (rule pinvI)
  have ev: "evolves s s'" using same by (intro evolves_same) auto
  show "sound_known s' (ps_known s' c)" for c using sound_known_mono [OF ev known] .
  show "sound_busy s' (snd e)" if "e \<in> set (ps_busy s')" for e
  proof -
    obtain c p raw where e: "e = (c, p, raw)" by (cases e)
    have "sound_busy s' (p, raw)"
      by (rule sound_busy_mono [OF ev]) (use busy [OF that] e same grown_same [of s p _ s'] in \<open>auto simp: stopped_def\<close>)
    then show ?thesis by (simp add: e)
  qed
  show "sound_manifest s' m" if "map_of (xf_manifests (ps_fs s')) name = Some raw" "load_manifest name raw = Inr m" for name raw m
    using sound_manifest_mono [OF ev manifests] that .
  show "file_at (ps_fs s') p = Some f \<or> live_cover s' p f" if "ps_hist s' p = Some f" for p f
    using pinvD(3) [OF inv] that by (simp add: live_cover_def same files)
  show "file_at (ps_fs s') (Segments, n) \<noteq> None" if "n \<in> set (ps_writers s')" for n
    using pinvD(4) [OF inv, of n] same(3) that by (auto simp: files)
qed (use pinvD [OF inv] same files in auto)

lemma pinv_learn:
  assumes inv: "pinv s" and "sound_known s (g (ps_known s c))"
  shows "pinv (learn c g s)"
  by (rule pinv_same_files [OF inv]) (use pinvD [OF inv] assms in auto)

lemma set_update_subset: "kv \<in> set (AList.update k v d) \<Longrightarrow> kv = (k, v) \<or> kv \<in> set d"
  by (induction d) (auto split: if_splits)

lemma set_delete_subset: "set (AList.delete k d) \<subseteq> set d"
  by (induction d) auto

lemma pinv_busy: "pinv s \<Longrightarrow> sound_busy s (p, raw) \<Longrightarrow> pinv (busy_with c p raw s)"
  by (rule pinv_same_files [of s]) (auto dest: pinvD(5,6,7) dest!: set_update_subset)

lemma pinv_idle: "pinv s \<Longrightarrow> pinv (idle c s)"
  using set_delete_subset [of c "ps_busy s"] by (intro pinv_same_files [of s "idle c s"]) (auto dest: pinvD(5,6,7))

lemma step_load_manifest:
  assumes inv: "pinv s" and st: "pstep faults (LoadManifest c name) s = Some s'"
  shows "pinv s'"
proof -
  obtain raw m where m: "map_of (xf_manifests (ps_fs s)) name = Some raw" "load_manifest name raw = Inr m"
      "s' = learn c (\<lambda>k. k\<lparr>kn_manifests := m # kn_manifests k\<rparr>) s"
    using st by (auto split: option.splits sum.splits)
  have "sound_known s ((ps_known s c)\<lparr>kn_manifests := m # kn_manifests (ps_known s c)\<rparr>)"
    using pinvD(5) [OF inv m(1,2)] pinvD(6) [OF inv, of c] by (auto simp: sound_known_def)
  then show ?thesis unfolding m(3) by (rule pinv_learn [OF inv])
qed

lemma same_ident: "same_file (ident_of f) f"
  by (simp add: same_file_def ident_of_def)

lemma step_check:
  assumes inv: "pinv s" and st: "pstep {} (CheckInput c m p ident) s = Some s'"
  shows "pinv s'"
proof -
  obtain f where m: "m \<in> set (kn_manifests (ps_known s c))" "(p, ident_of f) \<in> set (mn_inputs m)" "file_at (ps_fs s) p = Some f"
      "stopped s p" "s' = busy_with c p None s"
    using st by (auto split: option.splits if_splits)
  have f: "ps_hist s p = Some f" using pinvD(1) [OF inv m(3)] .
  have "sound_manifest s m" using pinvD(6) [OF inv, of c] m(1) by (simp add: sound_known_def)
  then have "sound_input s (Sealed, mn_sealed m) (p, ident_of f)" using m(2) unfolding sound_manifest_def by blast
  then have "held s (Sealed, mn_sealed m) p f" using same_ident f by (simp add: sound_input_def)
  then have "sound_busy s (p, None)" using m(4) f by (auto simp: sound_busy_def)
  then show ?thesis unfolding m(5) by (rule pinv_busy [OF inv])
qed

lemma step_read:
  assumes inv: "pinv s" and st: "pstep faults (ReadInput c p) s = Some s'"
  shows "pinv s'"
proof -
  obtain f where f: "file_at (ps_fs s) p = Some f" "s' = busy_with c p (Some (fl_data f)) s"
    using st by (auto split: option.splits)
  have "sound_busy s (p, Some (fl_data f))" using pinvD(1) [OF inv f(1)] by (simp add: sound_busy_def)
  then show ?thesis unfolding f(2) by (rule pinv_busy [OF inv])
qed

lemma past_now: "pinv s \<Longrightarrow> file_at (ps_fs s) p = Some f \<Longrightarrow> past_ident s p (ident_of f)"
  using pinvD(1) [of s p f] pinvD(2) [of s p f] by (cases "fst p") (auto simp: past_ident_def ident_of_def)

text \<open>A stat that finds the length that was read finds the file that was read.\<close>

lemma step_stat:
  assumes inv: "pinv s" and st: "pstep faults (StatInput c p) s = Some s'"
  shows "pinv s'"
proof -
  obtain raw f where f: "map_of (ps_busy s) c = Some (p, Some raw)" "file_at (ps_fs s) p = Some f" "length (fl_data f) = length raw"
      "s' = idle c (learn c (\<lambda>k. k\<lparr>kn_reads := (p, ident_of f, rows_of raw) # kn_reads k\<rparr>) s)"
    using st by (auto split: option.splits if_splits)
  have hist: "ps_hist s p = Some f" using pinvD(1) [OF inv f(2)] .
  have "sound_busy s (p, Some raw)" using pinvD(7) [OF inv map_of_SomeD [OF f(1)]] by simp
  then have data: "fl_data f = raw" using hist f(3) by (auto simp: sound_busy_def)
  have "sound_read s (p, ident_of f, rows_of raw)"
    using pinvD(2) [OF inv hist] past_now [OF inv f(2)] hist data rows_of_valid
    by (auto simp: sound_read_def listed_name_def)
  then have "sound_known s ((ps_known s c)\<lparr>kn_reads := (p, ident_of f, rows_of raw) # kn_reads (ps_known s c)\<rparr>)"
    using pinvD(6) [OF inv, of c] by (auto simp: sound_known_def)
  then show ?thesis unfolding f(4) by (intro pinv_idle pinv_learn [OF inv])
qed

lemma sound_nothing: "sound_known s nothing_known"
  by (simp add: sound_known_def nothing_known_def)

lemma step_forget: "pinv s \<Longrightarrow> pstep faults (Forget c) s = Some s' \<Longrightarrow> pinv s'"
  by (auto intro!: pinv_idle pinv_same_files [of s "s\<lparr>ps_known := _\<rparr>"] sound_nothing dest: pinvD(5,6,7))

lemma step_stop: "pinv s \<Longrightarrow> pstep faults (StopWriter n) s = Some s' \<Longrightarrow> pinv s'"
  by (auto intro!: pinv_same_files [of s] dest: pinvD(5,6,7))

lemma step_rebuild: "pinv s \<Longrightarrow> pstep faults (Rebuild n f) s = Some s' \<Longrightarrow> pinv s'"
  by (auto intro!: pinv_same_files [of s] dest: pinvD(5,6,7))

lemma step_unlink: "pinv s \<Longrightarrow> pstep faults (UnlinkManifest c n) s = Some s' \<Longrightarrow> pinv s'"
  by (auto intro!: pinv_same_files [of s] dest: pinvD(5,6,7) simp: unlink_manifest_def delete_conv' split: if_splits)

lemma step_write_manifest:
  assumes inv: "pinv s" and st: "pstep faults (WriteManifest c) s = Some s'"
  shows "pinv s'"
proof -
  obtain stm inputs where w: "kn_written (ps_known s c) = Some (stm, inputs)"
      "s' = s\<lparr>ps_fs := write_manifest stm inputs (ps_fs s)\<rparr>"
    using st by (auto split: option.splits)
  have k: "plain_name stm" "\<forall>(p, ident)\<in>set inputs. plain_name (snd p)"
      "sound_manifest s \<lparr>mn_name = stm @ MANIFEST_SUFFIX, mn_sealed = stm @ ''.jsonl'', mn_inputs = inputs\<rparr>"
    using pinvD(6) [OF inv, of c] w(1) by (auto simp: sound_known_def)
  have "load_manifest (stm @ MANIFEST_SUFFIX) (manifest_json (stm @ ''.jsonl'') inputs)
      = Inr \<lparr>mn_name = stm @ MANIFEST_SUFFIX, mn_sealed = stm @ ''.jsonl'', mn_inputs = inputs\<rparr>"
    using k(1,2) by (intro load_manifest_written) (auto simp: plain_name_def)
  then show ?thesis
    unfolding w(2) using k(3) pinvD(5-7) [OF inv]
    by (intro pinv_same_files [OF inv]) (auto simp: write_manifest_def update_conv' split: if_splits)
qed

text \<open>Steps that put a file where there is none: a new segment, whose name may have been used before, or a new sealed file.\<close>

lemma live_cover_new:
  assumes inv: "pinv s" and gone: "file_at (ps_fs s) p = None" and lc: "live_cover s q g" "q \<noteq> p"
    and s': "ps_born s' = (ps_born s)(p := b)" and files: "\<And>q. file_at (ps_fs s') q = (if q = p then Some f else file_at (ps_fs s) q)"
  shows "live_cover s' q g"
proof -
  obtain r h where r: "file_at (ps_fs s) r = Some h" "fst r = Sealed" "covers g h" "ps_born s q < ps_born s r"
    using lc unfolding live_cover_def by blast
  have "r \<noteq> p" using r(1) gone by auto
  then show ?thesis unfolding live_cover_def using r lc(2) by (intro exI [of _ r] exI [of _ h]) (simp add: files s')
qed

lemma pinv_add_file:
  assumes inv: "pinv s" and new: "file_at (ps_fs s) p = None" "fresh_file s p f" and name: "listed_name (snd p)"
    and free: "p \<notin> (\<lambda>e. fst (snd e)) ` set (ps_busy s) \<or> ps_hist s p = None"
    and writers: "set (ps_writers s') = set (ps_writers s) \<union> ws" "\<forall>n\<in>ws. p = (Segments, n)"
    and s': "ps_hist s' = (ps_hist s)(p \<mapsto> f)" "ps_born s' = (ps_born s)(p := ps_clock s)" "ps_clock s' = ps_clock s + 1"
      "ps_durable s' = ps_durable s" "xf_manifests (ps_fs s') = xf_manifests (ps_fs s)" "ps_busy s' = ps_busy s"
      "set (ps_inos s) \<subseteq> set (ps_inos s')" "fst p = Segments \<Longrightarrow> fl_ino f \<in> set (ps_inos s')"
    and files: "\<And>q. file_at (ps_fs s') q = (if q = p then Some f else file_at (ps_fs s) q)"
    and known: "\<And>c. evolves s s' \<Longrightarrow> sound_known s' (ps_known s' c)"
  shows "pinv s'"
proof (rule pinvI)
  have sealed: "q \<noteq> p" if "fst q = Sealed" "ps_hist s q = Some g" for q g
    using new(2) that by (auto simp: fresh_file_def)
  have ev: "evolves s s'"
    unfolding evolves_def
  proof (intro conjI allI impI)
    show "grown s s' q g \<or> fresh_file s q g" if "ps_hist s' q = Some g" for q g
      using that new(2) grown_same [of s q g s'] by (cases "q = p") (auto simp: s')
  qed (use sealed s' in auto)
  show "sound_known s' (ps_known s' c)" for c using known [OF ev] .
  show "sound_manifest s' m" if "map_of (xf_manifests (ps_fs s')) name = Some raw" "load_manifest name raw = Inr m" for name raw m
    using sound_manifest_mono [OF ev pinvD(5) [OF inv]] that by (simp add: s')
  show "sound_busy s' (snd e)" if e: "e \<in> set (ps_busy s')" for e
  proof -
    obtain c q raw where eq: "e = (c, q, raw)" by (cases e)
    have b: "sound_busy s (q, raw)" using pinvD(7) [OF inv, of e] e eq s'(6) by simp
    then have "ps_hist s q \<noteq> None" by (auto simp: sound_busy_def split: option.splits)
    then have q: "q \<noteq> p" using free e eq s'(6) by force
    have "sound_busy s' (q, raw)"
      by (rule sound_busy_mono [OF ev b]) (use q s' writers grown_same [of s q _ s'] in \<open>cases q; auto simp: stopped_def\<close>)+
    then show ?thesis by (simp add: eq)
  qed
  show "file_at (ps_fs s') q = Some g \<or> live_cover s' q g" if "ps_hist s' q = Some g" for q g
  proof (cases "q = p")
    case False
    then have g: "ps_hist s q = Some g" using that by (simp add: s')
    from pinvD(3) [OF inv g] live_cover_new [OF inv new(1) _ False s'(2) files] False show ?thesis by (auto simp: files)
  qed (use that in \<open>simp add: s' files\<close>)
  show "file_at (ps_fs s') (Segments, n) \<noteq> None" if "n \<in> set (ps_writers s')" for n
    using pinvD(4) [OF inv, of n] writers that by (auto simp: files)
  show "\<exists>p f. ps_hist s' p = Some f \<and> shows_row p f r" if "r \<in> set (ps_durable s')" for r
  proof -
    have "r \<in> set (ps_durable s)" using that by (simp add: s')
    then obtain q g where q: "ps_hist s q = Some g" "shows_row q g r" using pinvD(8) [OF inv] by blast
    show ?thesis
    proof (cases "q = p")
      case True
      then obtain r' h where h: "file_at (ps_fs s) r' = Some h" "fst r' = Sealed" "covers g h"
        using pinvD(3) [OF inv q(1)] new(1) unfolding live_cover_def by auto
      have "place r \<in> place ` set (rows_of (fl_data g))"
        using q(2) by (auto simp: shows_row_def rows_of_complete split: if_splits)
      then have "shows_row r' h r" using h(2,3) by (auto simp: shows_row_def covers_def)
      moreover have "ps_hist s' r' = Some h" using pinvD(1) [OF inv h(1)] h(1) new(1) by (auto simp: s')
      ultimately show ?thesis by blast
    qed (use q in \<open>intro exI [of _ q] exI [of _ g], simp add: s'\<close>)
  qed
  show "listed_name (snd q) \<and> ps_born s' q < ps_clock s' \<and> (fst q = Segments \<longrightarrow> fl_ino g \<in> set (ps_inos s'))" if "ps_hist s' q = Some g" for q g
    using pinvD(2) [OF inv, of q g] that name s'(7,8) by (auto simp: s'(1-3) split: if_splits)
  show "ps_hist s' q = Some g" if "file_at (ps_fs s') q = Some g" for q g
    using pinvD(1) [OF inv, of q g] that by (auto simp: s' files split: if_splits)
qed

lemma step_open:
  assumes inv: "pinv s" and st: "pstep {} (OpenWriter n ino mtime) s = Some s'"
  shows "pinv s'"
proof -
  have new: "listed_name n" "file_at (ps_fs s) (Segments, n) = None" "ino \<notin> set (ps_inos s)"
      "(Segments, n) \<notin> (\<lambda>e. fst (snd e)) ` set (ps_busy s)"
      "s' = born_now (Segments, n) (add_file (Segments, n) \<lparr>fl_ino = ino, fl_mtime = mtime, fl_data = []\<rparr>
        (s\<lparr>ps_writers := n # ps_writers s, ps_inos := ino # ps_inos s\<rparr>))"
    using st by (auto split: if_splits)
  show ?thesis
    by (rule pinv_add_file [OF inv new(2), where ws = "{n}"])
      (use new sound_known_mono [OF _ pinvD(6) [OF inv]] in \<open>auto simp: fresh_file_def\<close>)
qed

lemma sealed_name: "plain_name st \<Longrightarrow> listed_name (st @ ''.jsonl'')"
  by (cases st) (auto simp: listed_name_def plain_name_def jsonl_def prefix_of_def)

lemma collapsed_valid: "\<forall>r\<in>set rows. row_valid r \<Longrightarrow> list_all row_valid (fst (collapse_rows rows))"
  using collapse_rows_kept(1) [of rows] by (auto simp: list_all_iff)

lemma step_write_sealed:
  assumes inv: "pinv s" and st: "pstep faults (WriteSealed c stm reads ino mtime) s = Some s'"
  shows "pinv s'"
proof -
  define p where "p = (Sealed, stm @ ''.jsonl'')"
  define inputs where "inputs = map (\<lambda>(p, ident, rows). (p, ident)) reads"
  define rows where "rows = concat (map (\<lambda>(p, ident, rows). rows) reads)"
  define f where "f = \<lparr>fl_ino = ino, fl_mtime = mtime, fl_data = row_lines (fst (collapse_rows rows))\<rparr>"
  have new: "set reads \<subseteq> set (kn_reads (ps_known s c))" "plain_name stm" "ps_hist s p = None"
      "s' = learn c (\<lambda>k. k\<lparr>kn_written := Some (stm, inputs)\<rparr>) (born_now p (add_file p f s))"
    using st by (auto simp: p_def inputs_def rows_def f_def Let_def split: if_splits)
  have gone: "file_at (ps_fs s) p = None" using pinvD(1) [OF inv, of p] new(3) by fastforce
  have read: "sound_read s x" if "x \<in> set reads" for x
    using pinvD(6) [OF inv, of c] new(1) that unfolding sound_known_def by blast
  have "row_valid r" if r: "r \<in> set rows" for r
    using r read by (fastforce simp: rows_def sound_read_def)
  then have "list_all row_valid (fst (collapse_rows rows))" by (intro collapsed_valid) blast
  then have rows_f: "place ` set (rows_of (fl_data f)) = place ` set rows"
    using rows_of_row_lines collapse_rows_kept(2) [of rows] by (simp add: f_def)
  have hist_p: "ps_hist s' p = Some f" by (simp add: new(4))
  have holds: "sound_input s' p (q, ident)" if ev: "evolves s s'" and q: "(q, ident) \<in> set inputs" for q ident
  proof -
    obtain rs where rs: "(q, ident, rs) \<in> set reads" using q by (auto simp: inputs_def)
    have rd: "sound_read s' (q, ident, rs)" using sound_read_mono [OF ev read [OF rs]] .
    have qp: "q \<noteq> p" using read [OF rs] new(3) by (auto simp: sound_read_def past_ident_def p_def)
    have "rs \<in> set (map (\<lambda>(p, ident, rows). rows) reads)" using imageI [OF rs, of "\<lambda>(p, ident, rows). rows"] by simp
    then have sub: "set rs \<subseteq> set rows" unfolding rows_def set_concat by blast
    have "held s' p q g" if g: "ps_hist s' q = Some g" "same_file ident g" for g
    proof -
      have "covers g f" using rd g sub by (auto simp: sound_read_def covers_def rows_f)
      moreover have "ps_born s' q < ps_born s' p" using pinvD(2) [OF inv, of q g] g(1) qp by (simp add: new(4))
      ultimately show ?thesis using hist_p by (simp add: held_def p_def)
    qed
    then show ?thesis using rd by (simp add: sound_input_def sound_read_def)
  qed
  show ?thesis
  proof (rule pinv_add_file [OF inv gone, where ws = "{}"])
    fix c' assume ev: "evolves s s'"
    have plain: "\<forall>(q, ident)\<in>set inputs. plain_name (snd q)" using read by (fastforce simp: inputs_def sound_read_def)
    have "sound_manifest s' \<lparr>mn_name = stm @ MANIFEST_SUFFIX, mn_sealed = stm @ ''.jsonl'', mn_inputs = inputs\<rparr>"
      using holds [OF ev] by (auto simp: sound_manifest_def p_def)
    then show "sound_known s' (ps_known s' c')"
      using sound_known_mono [OF ev pinvD(6) [OF inv, of c']] plain new(2) by (auto simp: sound_known_def new(4))
  qed (use sealed_name [OF new(2)] new(3) in \<open>simp_all add: new(4) fresh_file_def, simp_all add: p_def\<close>)
qed

text \<open>A writer adds to its file, also when a compactor has read it.\<close>

lemma rows_of_append: "set (complete_rows d) \<subseteq> set (complete_rows (d @ e))"
  using complete_rows_append [of d e] by auto

lemma step_write:
  assumes inv: "pinv s" and st: "pstep faults (WriteSegment n data mtime) s = Some s'"
  shows "pinv s'"
proof -
  obtain f where f: "file_at (ps_fs s) (Segments, n) = Some f" using st by (auto split: option.splits)
  define f' where "f' = f\<lparr>fl_data := fl_data f @ data, fl_mtime := mtime\<rparr>"
  have w: "n \<in> set (ps_writers s)" "s' = (add_file (Segments, n) f' s)\<lparr>ps_durable := complete_rows (fl_data f') @ ps_durable s\<rparr>"
    using st f by (auto simp: f'_def Let_def split: if_splits)
  have hist: "ps_hist s (Segments, n) = Some f" using pinvD(1) [OF inv f] .
  have grown: "grown s s' (Segments, n) f'" using hist by (auto simp: grown_def w(2) f'_def)
  have ev: "evolves s s'"
    unfolding evolves_def
  proof (intro conjI allI impI)
    show "grown s s' q g \<or> fresh_file s q g" if "ps_hist s' q = Some g" for q g
      using that grown grown_same [of s q g s'] by (cases "q = (Segments, n)") (auto simp: w(2))
  qed (auto simp: w(2))
  show ?thesis
  proof (rule pinvI)
    show "sound_known s' (ps_known s' c)" for c using sound_known_mono [OF ev pinvD(6) [OF inv]] by (simp add: w(2))
    show "sound_manifest s' m" if "map_of (xf_manifests (ps_fs s')) name = Some raw" "load_manifest name raw = Inr m" for name raw m
      using sound_manifest_mono [OF ev pinvD(5) [OF inv]] that by (simp add: w(2))
    show "sound_busy s' (snd e)" if e: "e \<in> set (ps_busy s')" for e
    proof -
      obtain c q raw where eq: "e = (c, q, raw)" by (cases e)
      have b: "sound_busy s (q, raw)" using pinvD(7) [OF inv, of e] e eq by (simp add: w(2))
      have "sound_busy s' (q, raw)"
        by (rule sound_busy_mono [OF ev b]; cases "q = (Segments, n)")
          (use grown grown_same [of s q _ s'] w(1) in \<open>auto simp: w(2) stopped_def\<close>)
      then show ?thesis by (simp add: eq)
    qed
    show "file_at (ps_fs s') q = Some g \<or> live_cover s' q g" if h: "ps_hist s' q = Some g" for q g
    proof (cases "q = (Segments, n)")
      case False
      have "live_cover s' q g" if lc: "live_cover s q g"
      proof -
        obtain r h where r: "file_at (ps_fs s) r = Some h" "fst r = Sealed" "covers g h" "ps_born s q < ps_born s r"
          using lc unfolding live_cover_def by blast
        then show ?thesis unfolding live_cover_def by (intro exI [of _ r] exI [of _ h]) (auto simp: w(2))
      qed
      then show ?thesis using pinvD(3) [OF inv, of q g] False h by (auto simp: w(2))
    qed (use h in \<open>simp add: w(2)\<close>)
    show "\<exists>p f. ps_hist s' p = Some f \<and> shows_row p f r" if r: "r \<in> set (ps_durable s')" for r
    proof (cases "shows_row (Segments, n) f' r")
      case False
      then have "r \<in> set (ps_durable s)" using r by (auto simp: w(2) shows_row_def)
      then obtain q g where q: "ps_hist s q = Some g" "shows_row q g r" using pinvD(8) [OF inv] by blast
      have "q \<noteq> (Segments, n)"
        using q False hist rows_of_append [of "fl_data f" data] by (auto simp: shows_row_def f'_def)
      then show ?thesis using q by (intro exI [of _ q] exI [of _ g]) (simp add: w(2))
    qed (auto simp: w(2))
    show "listed_name (snd q) \<and> ps_born s' q < ps_clock s' \<and> (fst q = Segments \<longrightarrow> fl_ino g \<in> set (ps_inos s'))" if "ps_hist s' q = Some g" for q g
      using pinvD(2) [OF inv, of q g] pinvD(2) [OF inv hist] that by (auto simp: w(2) f'_def split: if_splits)
  qed (use pinvD(1,4) [OF inv] in \<open>auto simp: w(2) split: if_splits\<close>)
qed

text \<open>Archiving an input leaves a newer sealed file with its rows.\<close>

lemma holder_live:
  assumes inv: "pinv s" and q: "held s q p f"
  obtains r h where "file_at (ps_fs s) r = Some h" "fst r = Sealed" "covers f h" "ps_born s p < ps_born s r"
proof -
  obtain g where g: "ps_hist s q = Some g" "fst q = Sealed" "covers f g" "ps_born s p < ps_born s q"
    using q unfolding held_def by blast
  from pinvD(3) [OF inv g(1)] show thesis
  proof
    assume "live_cover s q g"
    then obtain r h where r: "file_at (ps_fs s) r = Some h" "fst r = Sealed" "covers g h" "ps_born s q < ps_born s r"
      unfolding live_cover_def by blast
    show thesis using that [OF r(1,2) covers_trans [OF g(3) r(3)]] g(4) r(4) by simp
  next
    assume "file_at (ps_fs s) q = Some g"
    then show thesis using that g by blast
  qed
qed

lemma pinv_move:
  assumes inv: "pinv s" and b: "sound_busy s (p, None)" and s': "s' = s\<lparr>ps_fs := move_to_archive dest p (ps_fs s)\<rparr>"
  shows "pinv s'"
proof -
  obtain f q where f: "stopped s p" "ps_hist s p = Some f" "held s q p f" using b by (auto simp: sound_busy_def)
  obtain r h where r: "file_at (ps_fs s) r = Some h" "fst r = Sealed" "covers f h" "ps_born s p < ps_born s r"
    by (rule holder_live [OF inv f(3)])
  have ev: "evolves s s'" by (rule evolves_same) (simp_all add: s')
  show ?thesis
  proof (rule pinvI)
    show "sound_known s' (ps_known s' c)" for c using sound_known_mono [OF ev pinvD(6) [OF inv]] by (simp add: s')
    show "sound_manifest s' m" if "map_of (xf_manifests (ps_fs s')) name = Some raw" "load_manifest name raw = Inr m" for name raw m
      using sound_manifest_mono [OF ev pinvD(5) [OF inv]] that by (simp add: s')
    show "sound_busy s' (snd e)" if "e \<in> set (ps_busy s')" for e
      using pinvD(7) [OF inv, of e] that by (auto simp: s' sound_busy_def held_def stopped_def split: option.splits prod.splits)
    have live: "live_cover s' q g" if "file_at (ps_fs s) u = Some k" "fst u = Sealed" "covers g k" "ps_born s q < ps_born s u" "u \<noteq> p" for q g u k
      unfolding live_cover_def using that by (intro exI [of _ u] exI [of _ k]) (simp add: s')
    have "r \<noteq> p" using r(4) by auto
    note live_r = live [OF r(1,2) _ _ this]
    show "file_at (ps_fs s') q = Some g \<or> live_cover s' q g" if h: "ps_hist s' q = Some g" for q g
    proof (cases "q = p")
      case True
      then have "g = f" using h f(2) by (simp add: s')
      then show ?thesis using live_r [OF r(3,4)] True by simp
    next
      case False
      have "live_cover s' q g" if lc: "live_cover s q g"
      proof -
        obtain u k where u: "file_at (ps_fs s) u = Some k" "fst u = Sealed" "covers g k" "ps_born s q < ps_born s u"
          using lc unfolding live_cover_def by blast
        show ?thesis
        proof (cases "u = p")
          case True
          then have "k = f" using pinvD(1) [OF inv u(1)] f(2) by simp
          then have "covers g h" "ps_born s q < ps_born s r" using covers_trans [of g f h] u(3,4) r(3,4) True by simp_all
          then show ?thesis by (rule live_r)
        qed (rule live [OF u])
      qed
      moreover have "file_at (ps_fs s) q = Some g \<or> live_cover s q g" using pinvD(3) [OF inv, of q g] h by (simp add: s')
      ultimately show ?thesis using False by (simp add: s') blast
    qed
    show "file_at (ps_fs s') (Segments, n) \<noteq> None" if n: "n \<in> set (ps_writers s')" for n
    proof -
      have "p \<noteq> (Segments, n)" using f(1) n by (auto simp: s' stopped_def)
      then show ?thesis using pinvD(4) [OF inv, of n] n by (simp add: s')
    qed
    show "ps_hist s' q = Some g" if "file_at (ps_fs s') q = Some g" for q g
      using pinvD(1) [OF inv, of q g] that by (simp add: s' split: if_splits)
    show "listed_name (snd q) \<and> ps_born s' q < ps_clock s' \<and> (fst q = Segments \<longrightarrow> fl_ino g \<in> set (ps_inos s'))" if "ps_hist s' q = Some g" for q g
      using pinvD(2) [OF inv, of q g] that by (simp add: s')
    show "\<exists>p f. ps_hist s' p = Some f \<and> shows_row p f r" if "r \<in> set (ps_durable s')" for r
      using pinvD(8) [OF inv, of r] that by (simp add: s')
  qed
qed

lemma step_move:
  assumes inv: "pinv s" and st: "pstep faults (MoveInput c p dest) s = Some s'"
  shows "pinv s'"
proof -
  have m: "map_of (ps_busy s) c = Some (p, None)" "s' = idle c (s\<lparr>ps_fs := move_to_archive dest p (ps_fs s)\<rparr>)"
    using st by (auto split: if_splits)
  have "sound_busy s (p, None)" using pinvD(7) [OF inv map_of_SomeD [OF m(1)]] by simp
  then show ?thesis unfolding m(2) by (intro pinv_idle pinv_move [OF inv _ refl])
qed

lemma pstep_inv: "pinv s \<Longrightarrow> pstep {} a s = Some s' \<Longrightarrow> pinv s'"
  by (cases a) (blast intro: step_open step_write step_stop step_rebuild step_load_manifest step_unlink step_check step_move step_read
    step_stat step_write_sealed step_write_manifest step_forget)+

lemma preach_inv: "preach {} s s' \<Longrightarrow> pinv s \<Longrightarrow> pinv s'"
  by (induction rule: preach.induct) (auto intro: pstep_inv)

section \<open>No row is lost\<close>

lemma listed_file:
  assumes "file_at fs (d, n) = Some f" "listed_name n"
  shows "(dir_name d @ ''/'' @ n, f) \<in> set (index_files fs)"
proof -
  have "(n, f) \<in> set (index_listing (dir_files fs d))"
    using assms by (auto simp: index_listing_def jsonl_files_def file_at_def listed_name_def plain_name_def dest: map_of_SomeD)
  then show ?thesis
    by (cases d) (force simp: index_files_def dir_files_def dir_name_def)+
qed

lemma durable_listed:
  assumes inv: "pinv s" and r: "r \<in> set (ps_durable s)"
  shows "\<exists>p f. file_at (ps_fs s) p = Some f \<and> shows_row p f r"
proof -
  obtain p f where p: "ps_hist s p = Some f" "shows_row p f r" using pinvD(8) [OF inv r] by blast
  from pinvD(3) [OF inv p(1)] show ?thesis
  proof
    assume "live_cover s p f"
    then obtain q g where q: "file_at (ps_fs s) q = Some g" "fst q = Sealed" "covers f g" unfolding live_cover_def by blast
    have "place r \<in> place ` set (rows_of (fl_data f))" using p(2) by (auto simp: shows_row_def rows_of_complete split: if_splits)
    then have "shows_row q g r" using q(2,3) by (auto simp: shows_row_def covers_def)
    then show ?thesis using q(1) by blast
  qed (use p(2) in blast)
qed


text \<open>Runs of concrete steps.\<close>

fun psteps :: "fault set \<Rightarrow> action list \<Rightarrow> pstate \<Rightarrow> pstate option" where
  "psteps faults [] s = Some s"
| "psteps faults (a # as) s = Option.bind (pstep faults a s) (psteps faults as)"

lemma psteps_reach: "psteps faults as s = Some s' \<Longrightarrow> preach faults start s \<Longrightarrow> preach faults start s'"
  by (induction "as" arbitrary: s) (auto simp: bind_eq_Some_conv intro: preach.step)

definition demo_seg :: in_path where
  "demo_seg = (Segments, ''n1-7-nojob-0-ab.jsonl'')"

definition demo_row_a :: index_row where
  "demo_row_a = demo_row ''k1'' ''c1''"

definition demo_row_b :: index_row where
  "demo_row_b = demo_row ''k2'' ''c2''"

text \<open>A writer stops, its segment is sealed, and the segment is archived.\<close>

definition demo_ident :: ident where
  "demo_ident = (2, 1, 5)"

definition demo_manifest :: manifest where
  "demo_manifest = \<lparr>mn_name = ''1-aa.inputs.json'', mn_sealed = ''1-aa.jsonl'', mn_inputs = [(demo_seg, demo_ident)]\<rparr>"

definition demo_sealing :: "action list" where
  "demo_sealing = [ReadInput 0 demo_seg, StatInput 0 demo_seg, WriteSealed 0 ''1-aa'' [(demo_seg, demo_ident, [demo_row_a])] 2 6,
     WriteManifest 0, LoadManifest 1 ''1-aa.inputs.json'', LoadManifest 2 ''1-aa.inputs.json'']"

definition demo_run :: "action list" where
  "demo_run = [OpenWriter (snd demo_seg) 1 0, WriteSegment (snd demo_seg) (IndexRow_to_json_line demo_row_a) 5,
     StopWriter (snd demo_seg)] @ demo_sealing @ [CheckInput 1 demo_manifest demo_seg demo_ident,
     CheckInput 2 demo_manifest demo_seg demo_ident, MoveInput 1 demo_seg ''segment-n1-7-nojob-0-ab.jsonl'']"

text \<open>
  A writer is taken for dead, read and sealed, and goes on writing. Its segment is not the file that was read
  any more and stays; it is sealed a second time once its writer has stopped, moved, and its name is used again.
\<close>

definition demo_grown_ident :: ident where
  "demo_grown_ident = (4, 1, 7)"

definition demo_second_manifest :: manifest where
  "demo_second_manifest = \<lparr>mn_name = ''2-bb.inputs.json'', mn_sealed = ''2-bb.jsonl'', mn_inputs = [(demo_seg, demo_grown_ident)]\<rparr>"

definition misjudged_start :: "action list" where
  "misjudged_start = [OpenWriter (snd demo_seg) 1 0, WriteSegment (snd demo_seg) (IndexRow_to_json_line demo_row_a) 5] @ demo_sealing
     @ [WriteSegment (snd demo_seg) (IndexRow_to_json_line demo_row_b) 7, StopWriter (snd demo_seg)]"

definition misjudged_run :: "action list" where
  "misjudged_run = misjudged_start @ [UnlinkManifest 1 ''1-aa.inputs.json'', ReadInput 3 demo_seg, StatInput 3 demo_seg,
     WriteSealed 3 ''2-bb'' [(demo_seg, demo_grown_ident, [demo_row_a, demo_row_b])] 3 8, WriteManifest 3,
     LoadManifest 4 ''2-bb.inputs.json'', CheckInput 4 demo_second_manifest demo_seg demo_grown_ident,
     MoveInput 4 demo_seg ''segment-n1-7-nojob-0-ab.jsonl'', OpenWriter (snd demo_seg) 4 9,
     WriteSegment (snd demo_seg) (IndexRow_to_json_line demo_row_a) 10]"


section \<open>Each fault loses a row\<close>

definition row_lost :: "index_row \<Rightarrow> pstate \<Rightarrow> bool" where
  "row_lost r s = (r \<in> set (ps_durable s) \<and> (\<forall>(path, f)\<in>set (index_files (ps_fs s)). place r \<notin> place ` set (rows_of (fl_data f))))"

lemma lost_by_run:
  assumes "case psteps faults acts empty_index of None \<Rightarrow> False | Some s \<Rightarrow> row_lost r s"
  shows "\<exists>s. preach faults empty_index s \<and> row_lost r s"
proof -
  from assms obtain s where "psteps faults acts empty_index = Some s" "row_lost r s" by (auto split: option.splits)
  then show ?thesis using psteps_reach [OF _ preach.here] by blast
qed

text \<open>
  \<open>_archive_due\<close> compares the identity of a segment and then
  renames whatever has that name: if another compactor archives the segment in between and a new writer opens the name
  (an explicit \<open>writer_id\<close>), the live segment of the new writer goes to the archive and its rows are gone from the index.
\<close>

definition reuse_run :: "action list" where
  "reuse_run = demo_run @ [OpenWriter (snd demo_seg) 3 10, WriteSegment (snd demo_seg) (IndexRow_to_json_line demo_row_b) 11,
     MoveInput 2 demo_seg ''segment-n1-7-nojob-0-ab.jsonl.12345678'']"

theorem reused_writer_id_loses_row: "\<exists>s. preach {ReopenedName} empty_index s \<and> row_lost demo_row_b s"
proof -
  have "case psteps {ReopenedName} reuse_run empty_index of None \<Rightarrow> False | Some s \<Rightarrow> row_lost demo_row_b s" by code_simp
  then show ?thesis by (rule lost_by_run)
qed

text \<open>A writer that is still judged dead just before its segment is moved writes its next row into the archive.\<close>

definition misjudged_move :: "action list" where
  "misjudged_move = [OpenWriter (snd demo_seg) 1 0, WriteSegment (snd demo_seg) (IndexRow_to_json_line demo_row_a) 5] @ demo_sealing
     @ [CheckInput 1 demo_manifest demo_seg demo_ident, WriteSegment (snd demo_seg) (IndexRow_to_json_line demo_row_b) 7,
        MoveInput 1 demo_seg ''segment-n1-7-nojob-0-ab.jsonl'']"

theorem misjudged_writer_loses_row: "\<exists>s. preach {WrongVerdict} empty_index s \<and> row_lost demo_row_b s"
proof -
  have "case psteps {WrongVerdict} misjudged_move empty_index of None \<Rightarrow> False | Some s \<Rightarrow> row_lost demo_row_b s" by code_simp
  then show ?thesis by (rule lost_by_run)
qed

end
