(* ===== verification/Unit_Refine.thy ===== *)
theory Unit_Refine
  imports Unit_Protocol
begin

text \<open>
  \<open>compact\<close> as a run of the protocol: a pass on an index that nobody else changes meanwhile takes only steps of
  theory \<open>Unit_Protocol\<close>, so what is proved of every run holds of it. The one thing it relies on is that the
  scheduler does not report the job of a running writer as gone, and that no running writer has written its trailer.
\<close>

section \<open>Runs of one pass\<close>

lemma preach_trans: "preach faults b c \<Longrightarrow> preach faults a b \<Longrightarrow> preach faults a c"
  by (induction rule: preach.induct) (auto intro: preach.step)

lemma preach_step: "pstep faults a s = Some s' \<Longrightarrow> preach faults s s'"
  by (rule preach.step [OF preach.here])

text \<open>What a pass leaves alone; compactor 0 only learns.\<close>

definition pass_run :: "pstate \<Rightarrow> pstate \<Rightarrow> bool" where
  "pass_run s s' = (preach {} s s' \<and> ps_writers s' = ps_writers s \<and> ps_durable s' = ps_durable s
     \<and> set (kn_manifests (ps_known s 0)) \<subseteq> set (kn_manifests (ps_known s' 0)) \<and> set (kn_reads (ps_known s 0)) \<subseteq> set (kn_reads (ps_known s' 0)))"

lemma pass_run_refl [simp]: "pass_run s s"
  by (simp add: pass_run_def preach.here)

lemma pass_run_trans: "pass_run s s' \<Longrightarrow> pass_run s' s'' \<Longrightarrow> pass_run s s''"
  unfolding pass_run_def by (auto intro: preach_trans)

lemma pass_run_step:
  assumes "pstep {} a s = Some s'" "ps_writers s' = ps_writers s" "ps_durable s' = ps_durable s"
    and "set (kn_manifests (ps_known s 0)) \<subseteq> set (kn_manifests (ps_known s' 0))" "set (kn_reads (ps_known s 0)) \<subseteq> set (kn_reads (ps_known s' 0))"
  shows "pass_run s s'"
  unfolding pass_run_def using assms preach_step by blast

text \<open>The same, with the same files ever seen: every step of a pass but the write of its sealed file.\<close>

definition quiet_run :: "pstate \<Rightarrow> pstate \<Rightarrow> bool" where
  "quiet_run s s' = (pass_run s s' \<and> ps_hist s' = ps_hist s)"

lemma quiet_run_refl [simp]: "quiet_run s s"
  by (simp add: quiet_run_def)

lemma quiet_run_trans: "quiet_run s s' \<Longrightarrow> quiet_run s' s'' \<Longrightarrow> quiet_run s s''"
  unfolding quiet_run_def using pass_run_trans by auto

lemma quiet_run_known: "quiet_run s s' \<Longrightarrow> set (kn_manifests (ps_known s 0)) \<subseteq> set (kn_manifests (ps_known s' 0))"
  by (simp add: quiet_run_def pass_run_def)

lemma quiet_run_writers: "quiet_run s s' \<Longrightarrow> ps_writers s' = ps_writers s"
  by (simp add: quiet_run_def pass_run_def)

lemma quiet_step:
  assumes "pstep {} a s = Some s'" "ps_writers s' = ps_writers s" "ps_durable s' = ps_durable s" "ps_hist s' = ps_hist s"
    and "set (kn_manifests (ps_known s 0)) \<subseteq> set (kn_manifests (ps_known s' 0))" "set (kn_reads (ps_known s 0)) \<subseteq> set (kn_reads (ps_known s' 0))"
  shows "quiet_run s s'"
  unfolding quiet_run_def using pass_run_step assms by blast

lemma load_run:
  assumes "map_of (xf_manifests (ps_fs s)) name = Some raw" "load_manifest name raw = Inr m"
  shows "\<exists>s'. quiet_run s s' \<and> ps_fs s' = ps_fs s \<and> m \<in> set (kn_manifests (ps_known s' 0))"
  using assms by (intro exI [of _ "learn 0 (\<lambda>k. k\<lparr>kn_manifests := m # kn_manifests k\<rparr>) s"])
    (auto simp: quiet_run_def intro!: pass_run_step [of "LoadManifest 0 name"])

lemma unlink_run:
  assumes "m \<in> set (kn_manifests (ps_known s 0))"
  shows "\<exists>s'. quiet_run s s' \<and> ps_fs s' = unlink_manifest (mn_name m) (ps_fs s)"
  using assms by (intro exI [of _ "s\<lparr>ps_fs := unlink_manifest (mn_name m) (ps_fs s)\<rparr>"])
    (auto simp: quiet_run_def intro!: pass_run_step [of "UnlinkManifest 0 (mn_name m)"])

lemma read_run:
  assumes "file_at (ps_fs s) p = Some f"
  shows "\<exists>s'. quiet_run s s' \<and> ps_fs s' = ps_fs s \<and> (p, ident_of f, rows_of (fl_data f)) \<in> set (kn_reads (ps_known s' 0))"
proof -
  let ?s1 = "busy_with 0 p (Some (fl_data f)) s"
  let ?s2 = "idle 0 (learn 0 (\<lambda>k. k\<lparr>kn_reads := (p, ident_of f, rows_of (fl_data f)) # kn_reads k\<rparr>) ?s1)"
  have "quiet_run s ?s1" by (rule quiet_step [of "ReadInput 0 p"]) (use assms in simp_all)
  moreover have "quiet_run ?s1 ?s2" by (rule quiet_step [of "StatInput 0 p"]) (use assms in \<open>auto simp: update_conv'\<close>)
  ultimately have "quiet_run s ?s2" by (rule quiet_run_trans)
  then show ?thesis by (intro exI [of _ ?s2]) simp
qed

lemma move_run:
  assumes "file_at (ps_fs s) p = Some f" "stopped s p" "m \<in> set (kn_manifests (ps_known s 0))" "(p, ident_of f) \<in> set (mn_inputs m)"
  shows "\<exists>s'. quiet_run s s' \<and> ps_fs s' = move_to_archive dest p (ps_fs s)"
proof -
  let ?s1 = "busy_with 0 p None s"
  let ?s2 = "idle 0 (?s1\<lparr>ps_fs := move_to_archive dest p (ps_fs s)\<rparr>)"
  have "quiet_run s ?s1" by (rule quiet_step [of "CheckInput 0 m p (ident_of f)"]) (use assms in simp_all)
  moreover have "quiet_run ?s1 ?s2" by (rule quiet_step [of "MoveInput 0 p dest"]) (use assms(1) in \<open>simp_all add: update_conv'\<close>)
  ultimately have "quiet_run s ?s2" by (rule quiet_run_trans)
  then show ?thesis by (intro exI [of _ ?s2]) simp
qed

section \<open>The manifests are loaded\<close>

lemma load_manifests_run:
  assumes "distinct (map fst l)" "\<forall>(name, raw)\<in>set l. map_of (xf_manifests fs) name = Some raw" "ps_fs s = fs"
    and "load_manifests remove l out fs = (fs', got)" "snd ` set out \<subseteq> set (kn_manifests (ps_known s 0))"
  shows "\<exists>s'. quiet_run s s' \<and> ps_fs s' = fs' \<and> (\<forall>ms. got = Inr ms \<longrightarrow> snd ` set ms \<subseteq> set (kn_manifests (ps_known s' 0)))"
  using assms
proof (induction remove l out fs arbitrary: s rule: load_manifests.induct)
  case (2 remove name raw rest out fs)
  show ?case
  proof (cases "load_manifest name raw")
    case (Inl e)
    then show ?thesis using "2.prems" by (intro exI [of _ s]) auto
  next
    case (Inr m)
    have "map_of (xf_manifests (ps_fs s)) name = Some raw" using "2.prems" by auto
    then obtain s1 where s1: "quiet_run s s1" "ps_fs s1 = fs" "m \<in> set (kn_manifests (ps_known s1 0))"
      using load_run Inr "2.prems"(3) by blast
    have out: "snd ` set out \<subseteq> set (kn_manifests (ps_known s1 0))" using "2.prems"(5) quiet_run_known [OF s1(1)] by blast
    have m: "mn_name m = name" using Inr by (auto simp: load_manifest_def malformed_def bind_res_eq_Inr split: json.splits option.splits if_splits)
    show ?thesis
    proof (cases "file_at fs (Sealed, mn_sealed m) \<noteq> None")
      case True
      have "snd ` set (AList.update (mn_sealed m) m out) \<subseteq> set (kn_manifests (ps_known s1 0))"
        using out s1(3) by (auto dest!: set_update_subset)
      moreover have "load_manifests remove rest (AList.update (mn_sealed m) m out) fs = (fs', got)" "distinct (map fst rest)"
          "\<forall>(n, raw)\<in>set rest. map_of (xf_manifests fs) n = Some raw"
        using "2.prems" Inr True by auto
      ultimately obtain s2 where "quiet_run s1 s2" "ps_fs s2 = fs'"
          "\<forall>ms. got = Inr ms \<longrightarrow> snd ` set ms \<subseteq> set (kn_manifests (ps_known s2 0))"
        using "2.IH"(1) [OF Inr True, of s1] s1(2) by blast
      then show ?thesis using quiet_run_trans [OF s1(1)] by blast
    next
      case False
      define fs2 where "fs2 = (if remove then unlink_manifest name fs else fs)"
      obtain s2 where s2: "quiet_run s1 s2" "ps_fs s2 = fs2"
        using unlink_run [OF s1(3)] s1(2) quiet_run_refl [of s1] unfolding m fs2_def by (cases remove) metis+
      have "\<forall>(n, raw)\<in>set rest. map_of (xf_manifests fs2) n = Some raw"
        using "2.prems"(1,2) by (force simp: fs2_def unlink_manifest_def delete_conv')
      moreover have "snd ` set out \<subseteq> set (kn_manifests (ps_known s2 0))" using out quiet_run_known [OF s2(1)] by blast
      moreover have "load_manifests remove rest out fs2 = (fs', got)" using "2.prems"(4) Inr False by (simp add: fs2_def)
      moreover have "distinct (map fst rest)" using "2.prems"(1) by simp
      ultimately obtain s3 where "quiet_run s2 s3" "ps_fs s3 = fs'"
          "\<forall>ms. got = Inr ms \<longrightarrow> snd ` set ms \<subseteq> set (kn_manifests (ps_known s3 0))"
        using "2.IH"(2) [OF Inr False, folded fs2_def, of s2] s2(2) by blast
      then show ?thesis using quiet_run_trans [OF s1(1)] quiet_run_trans [OF s2(1)] by blast
    qed
  qed
qed (auto intro: quiet_run_refl)

section \<open>The archive half\<close>

text \<open>What a pass relies on: the verdict of the scheduler, and the trailer, are true of the writers that run.\<close>

definition verdicts_true :: "compact_env \<Rightarrow> pstate \<Rightarrow> bool" where
  "verdicts_true ce s = (\<forall>n f. ps_hist s (Segments, n) = Some f
     \<and> certainly_dead (ce_scheduler ce) (ce_grace ce) (case ce_now_server ce of None \<Rightarrow> ce_clock ce | Some t \<Rightarrow> t) n f
     \<longrightarrow> n \<notin> set (ps_writers s))"

lemma verdicts_true_run: "quiet_run s s' \<Longrightarrow> verdicts_true ce s \<Longrightarrow> verdicts_true ce s'"
  by (simp add: verdicts_true_def quiet_run_def pass_run_def)

text \<open>The state of an archive loop that a run of the protocol can be in.\<close>

definition archive_at :: "compact_env \<Rightarrow> (string \<times> manifest) list \<Rightarrow> archive_state \<Rightarrow> pstate \<Rightarrow> bool" where
  "archive_at ce ms st s = (pinv s \<and> ps_fs s = as_fs st \<and> verdicts_true ce s \<and> pass_ok (ce_scheduler ce) (as_runner st)
     \<and> snd ` set ms \<union> set (as_stack st) \<subseteq> set (kn_manifests (ps_known s 0)))"

lemma quiet_run_inv: "quiet_run s s' \<Longrightarrow> pinv s \<Longrightarrow> pinv s'"
  unfolding quiet_run_def pass_run_def using preach_inv by blast

lemma still_dead_true:
  assumes "still_dead ce n f pr = (go, pr')" "pass_ok (ce_scheduler ce) pr"
  shows "pass_ok (ce_scheduler ce) pr'"
    and "go \<Longrightarrow> certainly_dead (ce_scheduler ce) (ce_grace ce) (case ce_now_server ce of None \<Rightarrow> ce_clock ce | Some t \<Rightarrow> t) n f"
proof -
  let ?t = "case ce_now_server ce of None \<Rightarrow> ce_clock ce | Some t \<Rightarrow> t"
  obtain why where "segment_writer_dead (pass_call (ce_scheduler ce)) (ce_grace ce) (Some ?t) (ce_clock ce) n f pr = ((go, why), pr')"
    using assms(1) by (auto simp: still_dead_def split: prod.splits)
  from segment_writer_dead_pass [OF assms(2) this]
  show "pass_ok (ce_scheduler ce) pr'" "go \<Longrightarrow> certainly_dead (ce_scheduler ce) (ce_grace ce) ?t n f" by simp_all
qed

lemma archive_input_run:
  assumes at: "archive_at ce ms st s" and m: "m \<in> set (kn_manifests (ps_known s 0))" "(p, ident) \<in> set (mn_inputs m)"
  shows "\<exists>s'. quiet_run s s' \<and> archive_at ce ms (archive_input ce ms (p, ident) st) s'"
proof (cases "\<exists>f. file_at (as_fs st) p = Some f \<and> ident_of f = ident")
  case False
  then have "archive_input ce ms (p, ident) st = st" by (auto simp: archive_input_def split: option.splits)
  then show ?thesis using at by (intro exI [of _ s]) simp
next
  case True
  then obtain f where f: "file_at (as_fs st) p = Some f" "ident_of f = ident" by blast
  define st1 where "st1 = (case (fst p, map_of ms (snd p)) of (Sealed, Some inner) \<Rightarrow> st\<lparr>as_stack := inner # as_stack st\<rparr> | _ \<Rightarrow> st)"
  have st1: "as_fs st1 = as_fs st" "as_runner st1 = as_runner st" "set (as_stack st1) \<subseteq> set (as_stack st) \<union> snd ` set ms"
    by (auto simp: st1_def dest: map_of_snd split: in_dir.splits option.splits)
  obtain go pr where go: "(if fst p = Segments \<and> \<not> has_trailer (fl_data f) then still_dead ce (snd p) f (as_runner st)
      else (True, as_runner st)) = (go, pr)" by fastforce
  define st2 where "st2 = st1\<lparr>as_runner := pr\<rparr>"
  note at' = at [unfolded archive_at_def]
  have pr: "pass_ok (ce_scheduler ce) pr" using go at' still_dead_true(1) by (auto split: if_splits)
  have hist: "ps_hist s p = Some f" using pinvD(1) f(1) at' by auto
  have stop: "stopped s p" if "go"
  proof (cases "fst p")
    case Segments
    then have "certainly_dead (ce_scheduler ce) (ce_grace ce) (case ce_now_server ce of None \<Rightarrow> ce_clock ce | Some t \<Rightarrow> t) (snd p) f"
    proof (cases "has_trailer (fl_data f)")
      case False
      then show ?thesis using still_dead_true(2) [of ce "snd p" f "as_runner st" go pr] go that at' Segments by simp
    qed (simp add: certainly_dead_def)
    then show ?thesis using at' hist Segments unfolding verdicts_true_def stopped_def by (metis prod.collapse)
  qed (simp add: stopped_def)
  have eq: "archive_input ce ms (p, ident) st = (if \<not> go then st2
      else st2\<lparr>as_fs := move_to_archive (archive_dest ce (length (as_archived st2)) (as_fs st2) p) p (as_fs st2),
        as_archived := as_archived st2 @ [snd p]\<rparr>)"
    using f go
    by (cases "fst p"; cases "map_of ms (snd p)"; cases "has_trailer (fl_data f)") (simp_all add: archive_input_def st2_def st1_def Let_def)
  have st2: "archive_at ce ms st2 s" using at' st1 pr by (auto simp: archive_at_def st2_def)
  show ?thesis
  proof (cases go)
    case True
    have "file_at (ps_fs s) p = Some f" using f(1) at' by simp
    then obtain s' where s': "quiet_run s s'"
        "ps_fs s' = move_to_archive (archive_dest ce (length (as_archived st2)) (as_fs st2) p) p (ps_fs s)"
      using move_run [OF _ stop [OF True] m(1)] m(2) f(2) by blast
    have "archive_at ce ms (archive_input ce ms (p, ident) st) s'"
      using st2 s' quiet_run_inv [OF s'(1)] verdicts_true_run [OF s'(1)] quiet_run_known [OF s'(1)] True
      unfolding archive_at_def eq by auto
    then show ?thesis using s'(1) by blast
  qed (use st2 eq in \<open>intro exI [of _ s], simp\<close>)
qed

lemma archive_inputs_run:
  assumes "archive_at ce ms st s" "m \<in> set (kn_manifests (ps_known s 0))" "set inputs \<subseteq> set (mn_inputs m)"
  shows "\<exists>s'. quiet_run s s' \<and> archive_at ce ms (fold (archive_input ce ms) inputs st) s'"
  using assms
proof (induction inputs arbitrary: st s)
  case (Cons x inputs)
  obtain p ident where x: "x = (p, ident)" by (cases x)
  have "(p, ident) \<in> set (mn_inputs m)" using Cons.prems(3) x by simp
  then obtain s1 where s1: "quiet_run s s1" "archive_at ce ms (archive_input ce ms x st) s1"
    using archive_input_run [OF Cons.prems(1,2)] x by blast
  have "m \<in> set (kn_manifests (ps_known s1 0))" using quiet_run_known [OF s1(1)] Cons.prems(2) by blast
  then obtain s2 where "quiet_run s1 s2" "archive_at ce ms (fold (archive_input ce ms) inputs (archive_input ce ms x st)) s2"
    using Cons.IH [OF s1(2)] Cons.prems(3) by auto
  then show ?case using quiet_run_trans [OF s1(1)] by auto
qed (auto intro: quiet_run_refl)

lemma archive_loop_run:
  assumes "archive_at ce ms st s" "set fin \<subseteq> set (kn_manifests (ps_known s 0))" "archive_loop ce ms seen fin st = (fin', st')"
  shows "\<exists>s'. quiet_run s s' \<and> archive_at ce ms st' s' \<and> set fin' \<subseteq> set (kn_manifests (ps_known s' 0))"
  using assms
proof (induction ce ms seen fin st arbitrary: s rule: archive_loop.induct)
  case (1 ce ms seen fin st)
  show ?case
  proof (cases "as_stack st")
    case Nil
    then show ?thesis using "1.prems" by (intro exI [of _ s]) (simp add: archive_loop.simps)
  next
    case (Cons m stack)
    have m: "m \<in> set (kn_manifests (ps_known s 0))" using "1.prems"(1) Cons by (auto simp: archive_at_def)
    have at: "archive_at ce ms (st\<lparr>as_stack := stack\<rparr>) s" using "1.prems"(1) Cons by (auto simp: archive_at_def)
    show ?thesis
    proof (cases "mn_name m \<in> seen")
      case True
      then have "archive_loop ce ms seen fin (st\<lparr>as_stack := stack\<rparr>) = (fin', st')"
        using "1.prems"(3) Cons by (simp add: archive_loop.simps [of _ _ _ _ st])
      then show ?thesis using "1.IH"(1) [OF Cons True at "1.prems"(2)] by blast
    next
      case False
      obtain s1 where s1: "quiet_run s s1" "archive_at ce ms (fold (archive_input ce ms) (mn_inputs m) (st\<lparr>as_stack := stack\<rparr>)) s1"
        using archive_inputs_run [OF at m subset_refl] by blast
      have "set (fin @ [m]) \<subseteq> set (kn_manifests (ps_known s1 0))" using quiet_run_known [OF s1(1)] m "1.prems"(2) by auto
      moreover have "archive_loop ce ms (insert (mn_name m) seen) (fin @ [m])
          (fold (archive_input ce ms) (mn_inputs m) (st\<lparr>as_stack := stack\<rparr>)) = (fin', st')"
        using "1.prems"(3) Cons False by (simp add: archive_loop.simps [of _ _ _ _ st])
      ultimately obtain s2 where "quiet_run s1 s2" "archive_at ce ms st' s2" "set fin' \<subseteq> set (kn_manifests (ps_known s2 0))"
        using "1.IH"(2) [OF Cons False s1(2)] by blast
      then show ?thesis using quiet_run_trans [OF s1(1)] by blast
    qed
  qed
qed

lemma unlinks_run:
  assumes "set fin \<subseteq> set (kn_manifests (ps_known s 0))"
  shows "\<exists>s'. quiet_run s s' \<and> ps_fs s' = fold (unlink_manifest \<circ> mn_name) fin (ps_fs s)"
  using assms
proof (induction fin arbitrary: s)
  case (Cons m fin)
  have "m \<in> set (kn_manifests (ps_known s 0))" using Cons.prems by simp
  then obtain s1 where s1: "quiet_run s s1" "ps_fs s1 = unlink_manifest (mn_name m) (ps_fs s)" using unlink_run by blast
  moreover have "set fin \<subseteq> set (kn_manifests (ps_known s1 0))" using Cons.prems quiet_run_known [OF s1(1)] by auto
  ultimately obtain s2 where "quiet_run s1 s2" "ps_fs s2 = fold (unlink_manifest \<circ> mn_name) fin (ps_fs s1)"
    using Cons.IH by blast
  then show ?case using quiet_run_trans [OF s1(1)] s1(2) by (intro exI [of _ s2]) (simp add: comp_def)
qed (auto intro: quiet_run_refl)

lemma archive_due_run:
  assumes "pinv s" "verdicts_true ce s" "pass_ok (ce_scheduler ce) pr" "snd ` set ms \<subseteq> set (kn_manifests (ps_known s 0))"
    and "archive_due ce ms after archive_now (ps_fs s) pr = (fs', archived, pr')"
  shows "\<exists>s'. quiet_run s s' \<and> ps_fs s' = fs' \<and> pass_ok (ce_scheduler ce) pr'"
proof -
  define due where "due = filter (\<lambda>m. after \<le> 0 \<or> (case file_at (ps_fs s) (Sealed, mn_sealed m) of
      None \<Rightarrow> False | Some f \<Rightarrow> after \<le> (case archive_now of None \<Rightarrow> ce_clock ce | Some t \<Rightarrow> t) - st_mtime f)) (map snd ms)"
  let ?st = "\<lparr>as_fs = ps_fs s, as_stack = rev due, as_archived = [], as_runner = pr\<rparr>"
  obtain fin st where loop: "archive_loop ce ms {} [] ?st = (fin, st)" by fastforce
  have eq: "(fs', archived, pr') = (if due = [] then (ps_fs s, [], pr)
      else (fold (unlink_manifest \<circ> mn_name) fin (as_fs st), as_archived st, as_runner st))"
    using assms(5) loop unfolding archive_due_def Let_def due_def [symmetric] by (cases "due = []") simp_all
  have "archive_at ce ms ?st s" using assms(1-4) by (auto simp: archive_at_def due_def)
  then obtain s1 where s1: "quiet_run s s1" "archive_at ce ms st s1" "set fin \<subseteq> set (kn_manifests (ps_known s1 0))"
    using archive_loop_run [OF _ _ loop] by fastforce
  then obtain s2 where s2: "quiet_run s1 s2" "ps_fs s2 = fold (unlink_manifest \<circ> mn_name) fin (ps_fs s1)"
    using unlinks_run by blast
  show ?thesis
  proof (cases "due = []")
    case False
    then show ?thesis using eq s1 s2 quiet_run_trans [OF s1(1) s2(1)] by (intro exI [of _ s2]) (simp add: archive_at_def)
  qed (use eq assms(3) in \<open>intro exI [of _ s], simp\<close>)
qed

section \<open>The seal half\<close>

lemma quiet_run_reads: "quiet_run s s' \<Longrightarrow> set (kn_reads (ps_known s 0)) \<subseteq> set (kn_reads (ps_known s' 0))"
  by (simp add: quiet_run_def pass_run_def)

lemma quiet_run_stopped: "quiet_run s s' \<Longrightarrow> stopped s' p = stopped s p"
  by (simp add: quiet_run_def pass_run_def stopped_def)

definition reads_known :: "read_input list \<Rightarrow> pstate \<Rightarrow> bool" where
  "reads_known ins s = (\<forall>(p, ident, parsed)\<in>set ins. (p, ident, pa_rows parsed) \<in> set (kn_reads (ps_known s 0)))"

lemma reads_known_run: "quiet_run s s' \<Longrightarrow> reads_known ins s \<Longrightarrow> reads_known ins s'"
  using quiet_run_reads by (fastforce simp: reads_known_def)

lemma read_parsed_run:
  assumes "file_at (ps_fs s) p = Some f" "parse_file po path (fl_data f) = Inr parsed"
  shows "\<exists>s'. quiet_run s s' \<and> ps_fs s' = ps_fs s \<and> reads_known [(p, ident_of f, parsed)] s'"
  using read_run [OF assms(1)] parse_file_rows [OF assms(2)] by (simp add: reads_known_def)

lemma read_segments_run:
  assumes "read_segments po (still_looks (ps_fs s)) ds sg = Inr sg'" "reads_known (sg_taken sg) s"
  shows "\<exists>s'. quiet_run s s' \<and> ps_fs s' = ps_fs s \<and> reads_known (sg_taken sg') s'"
  using assms
proof (induction ds arbitrary: s sg)
  case (Cons d ds)
  obtain name dead why where d: "d = (name, dead, why)" by (cases d)
  consider (skip) sg1 where "read_segments po (still_looks (ps_fs s)) ds sg1 = Inr sg'" "sg_taken sg1 = sg_taken sg"
    | (take) f parsed sg1 where "file_at (ps_fs s) (Segments, name) = Some f"
        "parse_file po (''segments/'' @ name) (fl_data f) = Inr parsed" "read_segments po (still_looks (ps_fs s)) ds sg1 = Inr sg'"
        "sg_taken sg1 = sg_taken sg @ [((Segments, name), ident_of f, parsed)]"
    using Cons.prems(1) by (auto simp: d read_still bind_res_eq_Inr split: if_splits option.splits)
  then show ?case
  proof cases
    case skip
    then show ?thesis using Cons.IH [OF skip(1)] Cons.prems(2) by simp
  next
    case take
    from read_parsed_run [OF take(1,2)] obtain s1 where
      s1: "quiet_run s s1" "ps_fs s1 = ps_fs s" "reads_known [((Segments, name), ident_of f, parsed)] s1" by blast
    have "reads_known (sg_taken sg1) s1"
      using reads_known_run [OF s1(1) Cons.prems(2)] s1(3) by (simp add: reads_known_def take(4))
    then obtain s2 where "quiet_run s1 s2" "ps_fs s2 = ps_fs s1" "reads_known (sg_taken sg') s2"
      using Cons.IH [of s1 sg1] take(3) s1(2) by auto
    then show ?thesis using quiet_run_trans [OF s1(1)] s1(2) by (intro exI [of _ s2]) simp
  qed
qed (auto intro: quiet_run_refl)

lemma read_sealed_run:
  assumes "read_sealed po (still_looks (ps_fs s)) l = Inr ins"
  shows "\<exists>s'. quiet_run s s' \<and> ps_fs s' = ps_fs s \<and> reads_known ins s'"
  using assms
proof (induction l arbitrary: s ins)
  case (Cons name rest)
  show ?case
  proof (cases "file_at (ps_fs s) (Sealed, name)")
    case None
    then show ?thesis using Cons.IH [of s ins] Cons.prems by (simp add: read_still)
  next
    case (Some f)
    obtain parsed more where parsed: "parse_file po (''sealed/'' @ name) (fl_data f) = Inr parsed"
        "read_sealed po (still_looks (ps_fs s)) rest = Inr more" "ins = ((Sealed, name), ident_of f, parsed) # more"
      using Cons.prems Some by (auto simp: read_still bind_res_eq_Inr split: if_splits)
    obtain s1 where s1: "quiet_run s s1" "ps_fs s1 = ps_fs s" "reads_known [((Sealed, name), ident_of f, parsed)] s1"
      using read_parsed_run [OF Some parsed(1)] by blast
    obtain s2 where s2: "quiet_run s1 s2" "ps_fs s2 = ps_fs s1" "reads_known more s2"
      using Cons.IH [of s1 more] parsed(2) s1(2) by auto
    have "reads_known ins s2" using reads_known_run [OF s2(1) s1(3)] s2(3) unfolding parsed(3) by (simp add: reads_known_def)
    then show ?thesis using quiet_run_trans [OF s1(1) s2(1)] s1(2) s2(2) by (intro exI [of _ s2]) simp
  qed
qed (auto intro: quiet_run_refl simp: reads_known_def)

lemma seal_run:
  assumes inv: "pinv s" and true: "verdicts_true ce s" and pr: "pass_ok (ce_scheduler ce) pr" and known: "reads_known ins s"
    and stem: "plain_name (ce_target_stem ce)" "ps_hist s (Sealed, ce_target_stem ce @ ''.jsonl'') = None"
  shows "\<exists>s'. pass_run s s' \<and> ps_fs s' = fst (seal ce ins archived pr (ps_fs s))"
proof -
  define inputs where "inputs = map (\<lambda>(p, ident, parsed). (p, ident)) ins"
  define reads where "reads = map (\<lambda>(p, ident, parsed). (p, ident, pa_rows parsed)) ins"
  define p where "p = (Sealed, ce_target_stem ce @ ''.jsonl'')"
  define f where "f = \<lparr>fl_ino = ce_ino ce, fl_mtime = ce_mtime ce, fl_data = row_lines (fst (collapse_rows (input_rows ins)))\<rparr>"
  have reads: "set reads \<subseteq> set (kn_reads (ps_known s 0))" using known by (auto simp: reads_def reads_known_def)
  have eq: "map (\<lambda>(p, ident, rows). (p, ident)) reads = inputs" "concat (map (\<lambda>(p, ident, rows). rows) reads) = input_rows ins"
    by (simp_all add: reads_def inputs_def input_rows_def comp_def case_prod_beta')
  let ?s1 = "learn 0 (\<lambda>k. k\<lparr>kn_written := Some (ce_target_stem ce, inputs)\<rparr>) (born_now p (add_file p f s))"
  have step1: "pstep {} (WriteSealed 0 (ce_target_stem ce) reads (ce_ino ce) (ce_mtime ce)) s = Some ?s1"
    unfolding pstep.simps Let_def eq using reads stem by (simp add: p_def f_def)
  then have run1: "pass_run s ?s1" by (rule pass_run_step) simp_all
  let ?s2 = "?s1\<lparr>ps_fs := write_manifest (ce_target_stem ce) inputs (ps_fs ?s1)\<rparr>"
  have step2: "pstep {} (WriteManifest 0) ?s1 = Some ?s2" by simp
  then have run2: "pass_run ?s1 ?s2" by (rule pass_run_step) simp_all
  have fs1: "ps_fs ?s1 = write_sealed ce (fst (collapse_rows (input_rows ins))) (ps_fs s)"
    by (simp add: add_file_def p_def f_def write_sealed_def)
  have inv2: "pinv ?s2" using pstep_inv [OF pstep_inv [OF inv step1] step2] .
  have true2: "verdicts_true ce ?s2" using true by (simp add: verdicts_true_def p_def)
  show ?thesis
  proof (cases "ce_archive_after ce > 0")
    case True
    then show ?thesis
      using pass_run_trans [OF run1 run2] fs1 by (intro exI [of _ ?s2]) (simp add: seal_def inputs_def)
  next
    case False
    let ?name = "ce_target_stem ce @ MANIFEST_SUFFIX" and ?raw = "manifest_json (ce_target_stem ce @ ''.jsonl'') inputs"
    show ?thesis
    proof (cases "load_manifest ?name ?raw")
      case (Inl e)
      then show ?thesis
        using pass_run_trans [OF run1 run2] fs1 False by (intro exI [of _ ?s2]) (simp add: seal_def inputs_def Let_def)
    next
      case (Inr m)
      have "map_of (xf_manifests (ps_fs ?s2)) ?name = Some ?raw" by (simp add: write_manifest_def update_conv')
      from load_run [OF this Inr] obtain s3 where s3: "quiet_run ?s2 s3" "ps_fs s3 = ps_fs ?s2" "m \<in> set (kn_manifests (ps_known s3 0))"
        by blast
      obtain fs4 archived4 pr4 where due: "archive_due ce [(mn_sealed m, m)] 0 None (ps_fs s3) pr = (fs4, archived4, pr4)" by (metis prod_cases3)
      have "\<exists>s4. quiet_run s3 s4 \<and> ps_fs s4 = fs4 \<and> pass_ok (ce_scheduler ce) pr4"
        by (rule archive_due_run [OF quiet_run_inv [OF s3(1) inv2] verdicts_true_run [OF s3(1) true2] pr _ due]) (use s3(3) in simp)
      then obtain s4 where s4: "quiet_run s3 s4" "ps_fs s4 = fs4" by blast
      have "pass_run s s4" using pass_run_trans [OF run1 run2] s3(1) s4(1) pass_run_trans unfolding quiet_run_def by blast
      moreover have "fst (seal ce ins archived pr (ps_fs s)) = fs4"
        using due False Inr s3(2) fs1 by (simp add: seal_def inputs_def Let_def)
      ultimately show ?thesis using s4(2) by blast
    qed
  qed
qed

section \<open>The whole pass\<close>

text \<open>Names are unique in every directory.\<close>

definition fs_distinct :: "index_fs \<Rightarrow> bool" where
  "fs_distinct fs = (distinct (map fst (xf_segments fs)) \<and> distinct (map fst (xf_sealed fs)) \<and> distinct (map fst (xf_manifests fs)))"

lemma add_file_distinct: "fs_distinct (ps_fs s) \<Longrightarrow> fs_distinct (ps_fs (add_file p f s))"
  by (cases "fst p") (simp_all add: fs_distinct_def add_file_def distinct_update)

lemma move_distinct: "fs_distinct fs \<Longrightarrow> fs_distinct (move_to_archive dest p fs)"
  by (cases "fst p") (auto simp: fs_distinct_def move_to_archive_def Let_def distinct_delete split: option.splits)

lemma pstep_distinct: "pstep faults a s = Some s' \<Longrightarrow> fs_distinct (ps_fs s) \<Longrightarrow> fs_distinct (ps_fs s')"
  by (cases a)
    (auto simp: Let_def add_file_distinct move_distinct split: if_splits option.splits sum.splits prod.splits,
     auto simp: fs_distinct_def unlink_manifest_def write_manifest_def distinct_update distinct_delete)

lemma preach_distinct: "preach faults s s' \<Longrightarrow> fs_distinct (ps_fs s) \<Longrightarrow> fs_distinct (ps_fs s')"
  by (induction rule: preach.induct) (auto intro: pstep_distinct)

lemma manifests_run:
  assumes "fs_distinct (ps_fs s)" "index_manifests remove (ps_fs s) = (fs', got)"
  shows "\<exists>s'. quiet_run s s' \<and> ps_fs s' = fs' \<and> (\<forall>ms. got = Inr ms \<longrightarrow> snd ` set ms \<subseteq> set (kn_manifests (ps_known s' 0)))"
proof (rule load_manifests_run [OF _ _ refl])
  have d: "distinct (map fst (xf_manifests (ps_fs s)))" using assms(1) by (simp add: fs_distinct_def)
  then show "distinct (map fst (manifest_listing (ps_fs s)))"
    by (simp add: manifest_listing_def distinct_map inj_on_def)
  show "\<forall>(name, raw)\<in>set (manifest_listing (ps_fs s)). map_of (xf_manifests (ps_fs s)) name = Some raw"
    using d by (auto simp: manifest_listing_def)
  show "load_manifests remove (manifest_listing (ps_fs s)) [] (ps_fs s) = (fs', got)" using assms(2) by (simp add: index_manifests_def)
qed simp

text \<open>The seal half either writes nothing or seals what it read.\<close>

lemma compact_seal_half_cases:
  assumes "fst (compact_seal_half po look ce archived pr fs) \<noteq> fs"
  obtains ds pr' segs sg waiting l sealed_in where
    "decide (ce_scheduler ce) (ce_grace ce) (ce_now_server ce) (ce_clock ce) (map (\<lambda>(n, f). (n, Some f)) segs) pr = (ds, pr')"
    "read_segments po look ds \<lparr>sg_final = waiting, sg_taken = [], sg_left_unreadable = []\<rparr> = Inr sg"
    "read_sealed po look l = Inr sealed_in"
    "fst (compact_seal_half po look ce archived pr fs) = fst (seal ce (sealed_in @ sg_taken sg) archived pr' fs)"
proof -
  obtain fs1 ms where ms: "index_manifests False fs = (fs1, Inr ms)"
    using assms by (auto simp: compact_seal_half_def split: prod.splits sum.splits)
  define pending where "pending = pending_inputs ms"
  define segs where "segs = filter (\<lambda>(n, f). (Segments, n) \<notin> set pending) (index_listing (xf_segments fs))"
  define l where "l = filter (\<lambda>n. (Sealed, n) \<notin> set pending) (map fst (index_listing (xf_sealed fs)))"
  define waiting where "waiting = map (\<lambda>n. (n, False, ''already sealed; archive pending'')) (pending_names Segments pending)"
  obtain ds pr' where ds: "decide (ce_scheduler ce) (ce_grace ce) (ce_now_server ce) (ce_clock ce)
      (map (\<lambda>(n, f). (n, Some f)) segs) pr = (ds, pr')" by fastforce
  note half = compact_seal_half_def [of po look ce archived pr fs] ms ds pending_def [symmetric] segs_def [symmetric] l_def [symmetric]
    waiting_def [symmetric] Let_def
  obtain sg where sg: "read_segments po look ds \<lparr>sg_final = waiting, sg_taken = [], sg_left_unreadable = []\<rparr> = Inr sg"
    using assms by (auto simp: half split: sum.splits)
  then obtain sealed_in where sealed: "read_sealed po look l = Inr sealed_in" "sg_taken sg \<noteq> []"
    using assms by (auto simp: half split: sum.splits if_splits)
  have "fst (compact_seal_half po look ce archived pr fs) = fst (seal ce (sealed_in @ sg_taken sg) archived pr' fs)"
    using assms sg sealed by (auto simp: half split: sum.splits if_splits prod.splits)
  then show thesis by (rule that [OF ds sg sealed(1)])
qed

lemma seal_half_run:
  assumes inv: "pinv s" and true: "verdicts_true ce s" and pr: "pass_ok (ce_scheduler ce) pr"
    and stem: "plain_name (ce_target_stem ce)" "ps_hist s (Sealed, ce_target_stem ce @ ''.jsonl'') = None"
  shows "\<exists>s'. pass_run s s' \<and> ps_fs s' = fst (compact_seal_half po (still_looks (ps_fs s)) ce archived pr (ps_fs s))"
proof (cases "fst (compact_seal_half po (still_looks (ps_fs s)) ce archived pr (ps_fs s)) = ps_fs s")
  case False
  then obtain ds pr' segs sg waiting l sealed_in where half:
    "decide (ce_scheduler ce) (ce_grace ce) (ce_now_server ce) (ce_clock ce) (map (\<lambda>(n, f). (n, Some f)) segs) pr = (ds, pr')"
    "read_segments po (still_looks (ps_fs s)) ds \<lparr>sg_final = waiting, sg_taken = [], sg_left_unreadable = []\<rparr> = Inr sg"
    "read_sealed po (still_looks (ps_fs s)) l = Inr sealed_in"
    "fst (compact_seal_half po (still_looks (ps_fs s)) ce archived pr (ps_fs s)) = fst (seal ce (sealed_in @ sg_taken sg) archived pr' (ps_fs s))"
    by (rule compact_seal_half_cases)
  from read_segments_run [OF half(2)] obtain s1 where
    s1: "quiet_run s s1" "ps_fs s1 = ps_fs s" "reads_known (sg_taken sg) s1" by (auto simp: reads_known_def)
  from read_sealed_run [of po s1 l sealed_in] half(3) s1(2) obtain s2 where
    s2: "quiet_run s1 s2" "ps_fs s2 = ps_fs s1" "reads_known sealed_in s2" by auto
  have q: "quiet_run s s2" using quiet_run_trans [OF s1(1) s2(1)] .
  have "reads_known (sealed_in @ sg_taken sg) s2"
    using s2(3) reads_known_run [OF s2(1) s1(3)] by (auto simp: reads_known_def)
  moreover have "pass_ok (ce_scheduler ce) pr'" using decide_pass [OF half(1) pr] by simp
  moreover have "ps_hist s2 (Sealed, ce_target_stem ce @ ''.jsonl'') = None" using q stem(2) by (simp add: quiet_run_def)
  ultimately obtain s3 where s3: "pass_run s2 s3" "ps_fs s3 = fst (seal ce (sealed_in @ sg_taken sg) archived pr' (ps_fs s2))"
    using seal_run [OF quiet_run_inv [OF q inv] verdicts_true_run [OF q true] _ _ stem(1)] by blast
  have "pass_run s s3" using q s3(1) pass_run_trans unfolding quiet_run_def by blast
  then show ?thesis using s3(2) half(4) s1(2) s2(2) by (intro exI [of _ s3]) simp
qed (intro exI [of _ s], simp)

text \<open>
  C9. A compaction pass is a run of the protocol: on an index that nobody else changes meanwhile, whatever the pass does,
  errors included, is done by steps that keep every row readable. The pass relies on the scheduler and the trailer
  being right about the writers that run, and on a sealed name that was never used.
\<close>

theorem compact_is_a_run:
  assumes "preach {} empty_index s" "verdicts_true ce s" "plain_name (ce_target_stem ce)"
    and "ps_hist s (Sealed, ce_target_stem ce @ ''.jsonl'') = None"
  shows "\<exists>s'. preach {} s s' \<and> ps_fs s' = fst (compact_index po ce (ps_fs s))
    \<and> ps_writers s' = ps_writers s \<and> ps_durable s' = ps_durable s"
proof -
  have inv: "pinv s" "fs_distinct (ps_fs s)"
    using preach_inv [OF assms(1) pinv_empty] preach_distinct [OF assms(1)] by (simp_all add: fs_distinct_def empty_index_def)
  have "\<exists>s'. pass_run s s' \<and> ps_fs s' = fst (compact_index po ce (ps_fs s))"
  proof (cases "ce_dry_run ce")
    case True
    then show ?thesis using seal_half_run [OF inv(1) assms(2) pass_ok_new assms(3,4)] by (simp add: compact_index_def)
  next
    case False
    obtain fs1 got where got: "index_manifests True (ps_fs s) = (fs1, got)" by fastforce
    from manifests_run [OF inv(2) got] obtain s1 where
      s1: "quiet_run s s1" "ps_fs s1 = fs1" "\<forall>ms. got = Inr ms \<longrightarrow> snd ` set ms \<subseteq> set (kn_manifests (ps_known s1 0))" by blast
    show ?thesis
    proof (cases got)
      case (Inl e)
      then show ?thesis using s1 got False by (intro exI [of _ s1]) (simp add: compact_index_def quiet_run_def)
    next
      case (Inr ms)
      obtain fs2 archived pr where due: "archive_due ce ms (ce_archive_after ce) (ce_archive_now ce) (ps_fs s1) new_pass_runner
          = (fs2, archived, pr)" by (metis prod_cases3)
      have "\<exists>s2. quiet_run s1 s2 \<and> ps_fs s2 = fs2 \<and> pass_ok (ce_scheduler ce) pr"
        by (rule archive_due_run [OF quiet_run_inv [OF s1(1) inv(1)] verdicts_true_run [OF s1(1) assms(2)] pass_ok_new _ due])
          (use s1(3) Inr in blast)
      then obtain s2 where s2: "quiet_run s1 s2" "ps_fs s2 = fs2" "pass_ok (ce_scheduler ce) pr" by blast
      have q: "quiet_run s s2" using quiet_run_trans [OF s1(1) s2(1)] .
      have "ps_hist s2 (Sealed, ce_target_stem ce @ ''.jsonl'') = None" using q assms(4) by (simp add: quiet_run_def)
      then obtain s3 where "pass_run s2 s3"
          "ps_fs s3 = fst (compact_seal_half po (still_looks (ps_fs s2)) ce archived pr (ps_fs s2))"
        using seal_half_run [OF quiet_run_inv [OF q inv(1)] verdicts_true_run [OF q assms(2)] s2(3) assms(3)] by blast
      moreover have "compact_index po ce (ps_fs s) = compact_seal_half po (still_looks fs2) ce archived pr fs2"
        using False got Inr due s1(2) by (simp add: compact_index_def)
      ultimately show ?thesis using q s2(2) pass_run_trans unfolding quiet_run_def by metis
    qed
  qed
  then show ?thesis unfolding pass_run_def by blast
qed

text \<open>One writer has closed its segment, another one still runs.\<close>

definition busy_run :: "action list" where
  "busy_run = [OpenWriter ''n1-7-nojob-0-ab.jsonl'' 1 0, OpenWriter ''n2-7-nojob-0-cd.jsonl'' 2 0,
     WriteSegment ''n1-7-nojob-0-ab.jsonl'' (IndexRow_to_json_line demo_row_a) 5,
     WriteSegment ''n2-7-nojob-0-cd.jsonl'' (IndexRow_to_json_line demo_row_b) 6,
     WriteSegment ''n1-7-nojob-0-ab.jsonl'' TRAILER 7,
     StopWriter ''n1-7-nojob-0-ab.jsonl'']"

definition busy_index :: pstate where
  "busy_index = the (psteps {} busy_run empty_index)"

definition demo_compact :: compact_env where
  "demo_compact = \<lparr>ce_scheduler = demo_scheduler, ce_grace = 300, ce_now_server = None, ce_clock = 1000, ce_archive_after = 0,
     ce_archive_now = None, ce_dry_run = False, ce_target_stem = ''1-aa'', ce_uuid = (\<lambda>_. ''12345678''), ce_ino = 9, ce_mtime = 8\<rparr>"

lemma busy_index_reached: "preach {} empty_index busy_index"
proof -
  have "psteps {} busy_run empty_index \<noteq> None" by code_simp
  then show ?thesis using psteps_reach [OF _ preach.here] by (auto simp: busy_index_def)
qed

lemma busy_index_verdicts: "verdicts_true demo_compact busy_index"
proof -
  let ?n = "''n2-7-nojob-0-cd.jsonl''"
  have w: "ps_writers busy_index = [?n]" by code_simp
  have "case ps_hist busy_index (Segments, ?n) of None \<Rightarrow> True | Some f \<Rightarrow> \<not> has_trailer (fl_data f)" by code_simp
  then have f: "\<not> has_trailer (fl_data f)" if "ps_hist busy_index (Segments, ?n) = Some f" for f using that by simp
  have "case parse_writer_id (stem_name ?n) of Inl _ \<Rightarrow> True | Inr wid \<Rightarrow> wi_job_id wid = None" by code_simp
  then have "wi_job_id wid = None" if "parse_writer_id (stem_name ?n) = Inr wid" for wid using that by simp
  then have "\<not> certainly_dead inner grace now ?n f" if "ps_hist busy_index (Segments, ?n) = Some f" for inner grace now f
    using f [OF that] unfolding certainly_dead_def by auto
  then show ?thesis unfolding verdicts_true_def w by auto
qed

theorem compact_is_a_run_witness:
  "(\<exists>s'. preach {} busy_index s' \<and> ps_fs s' = fst (compact_index plain_paths demo_compact (ps_fs busy_index))
    \<and> ps_writers s' = ps_writers busy_index \<and> ps_durable s' = ps_durable busy_index)
   \<and> map fst (index_files (fst (compact_index plain_paths demo_compact (ps_fs busy_index))))
     = [''segments/n2-7-nojob-0-cd.jsonl'', ''sealed/1-aa.jsonl'']"
proof -
  have "plain_name (ce_target_stem demo_compact)" "ps_hist busy_index (Sealed, ce_target_stem demo_compact @ ''.jsonl'') = None"
      "map fst (index_files (fst (compact_index plain_paths demo_compact (ps_fs busy_index))))
     = [''segments/n2-7-nojob-0-cd.jsonl'', ''sealed/1-aa.jsonl'']"
    by code_simp+
  with compact_is_a_run [OF busy_index_reached busy_index_verdicts] show ?thesis by blast
qed

end
