(* ===== verification/Unit_Scan.thy ===== *)
theory Unit_Scan
  imports Unit_Protocol
begin

text \<open>
  Reading the unit index while it changes: \<open>_scan\<close> of \<open>run/unit_index.py\<close>.

  An attempt lists the three directories one after the other, then reads every listed file, and every one of these looks may
  find the index in a later state. The attempt is given up when a listed file is gone, or when \<open>sealed/\<close> has a file that was
  not listed. The waits between attempts, and the retries of \<open>_read_bytes\<close> and \<open>_names\<close> on \<open>ESTALE\<close>, are left out.
\<close>

section \<open>Attempts\<close>

datatype read_dir = In in_dir | Rebuilt

type_synonym read_path = "read_dir \<times> string"

definition read_dir_files :: "index_fs \<Rightarrow> read_dir \<Rightarrow> seg_file directory" where
  "read_dir_files fs d = (case d of In d \<Rightarrow> dir_files fs d | Rebuilt \<Rightarrow> xf_rebuilt fs)"

definition read_dir_name :: "read_dir \<Rightarrow> string" where
  "read_dir_name d = (case d of In d \<Rightarrow> dir_name d | Rebuilt \<Rightarrow> ''rebuilt'')"

definition listed_paths :: "read_dir \<Rightarrow> index_fs \<Rightarrow> read_path list" where
  "listed_paths d fs = map (\<lambda>(n, f). (d, n)) (index_listing (read_dir_files fs d))"

text \<open>The index as each look of an attempt finds it.\<close>

record attempt =
  sa_segments :: index_fs
  sa_sealed :: index_fs
  sa_rebuilt :: index_fs
  sa_read :: "read_path \<Rightarrow> index_fs"
  sa_again :: index_fs

definition scan_listed :: "attempt \<Rightarrow> read_path list" where
  "scan_listed a = listed_paths (In Segments) (sa_segments a) @ listed_paths (In Sealed) (sa_sealed a)
     @ listed_paths Rebuilt (sa_rebuilt a)"

text \<open>Reading the listed files in order; \<open>None\<close> when one has vanished.\<close>

fun scan_files :: "path_ops \<Rightarrow> (read_path \<Rightarrow> index_fs) \<Rightarrow> read_path list \<Rightarrow> parsed list option res" where
  "scan_files po look [] = Inr (Some [])"
| "scan_files po look (p # ps) = (case map_of (read_dir_files (look p) (fst p)) (snd p) of
     None \<Rightarrow> Inr None
   | Some f \<Rightarrow> bind_res (parse_file po (read_dir_name (fst p) @ ''/'' @ snd p) (fl_data f)) (\<lambda>parsed.
       bind_res (scan_files po look ps) (\<lambda>more. Inr (map_option (Cons parsed) more))))"

definition scan_try :: "path_ops \<Rightarrow> attempt \<Rightarrow> parsed list option res" where
  "scan_try po a = bind_res (scan_files po (sa_read a) (scan_listed a)) (\<lambda>parsed.
     Inr (if set (listed_paths (In Sealed) (sa_again a)) \<subseteq> set (listed_paths (In Sealed) (sa_sealed a)) then parsed else None))"

definition MAX_RESCANS :: nat where
  "MAX_RESCANS = 9"

fun scan_loop :: "path_ops \<Rightarrow> attempt list \<Rightarrow> parsed list res" where
  "scan_loop po [] = Inl (Exn UnitIndexError ''the index kept changing'' [])"
| "scan_loop po (a # attempts) = bind_res (scan_try po a) (\<lambda>got. case got of
     None \<Rightarrow> scan_loop po attempts
   | Some parsed \<Rightarrow> Inr parsed)"

definition scan_index :: "path_ops \<Rightarrow> attempt list \<Rightarrow> parsed list res" where
  "scan_index po attempts = scan_loop po (take MAX_RESCANS attempts)"

section \<open>An index that nobody changes\<close>

lemma scan_files_still:
  assumes "\<forall>p\<in>set ps. look p = fs" "list_all2 (\<lambda>p (path, f). map_of (read_dir_files fs (fst p)) (snd p) = Some f
      \<and> path = read_dir_name (fst p) @ ''/'' @ snd p) ps files"
  shows "scan_files po look ps = bind_res (traverse_res (\<lambda>(path, f). parse_file po path (fl_data f)) files) (\<lambda>xs. Inr (Some xs))"
  using assms(2,1)
proof (induction rule: list_all2_induct)
  case (Cons p ps x files)
  obtain path f where x: "x = (path, f)" by (cases x)
  show ?case using Cons by (cases "parse_file po path (fl_data f)"; cases "traverse_res (\<lambda>(path, f). parse_file po path (fl_data f)) files")
      (auto simp: x)
qed simp

definition still :: "index_fs \<Rightarrow> attempt" where
  "still fs = \<lparr>sa_segments = fs, sa_sealed = fs, sa_rebuilt = fs, sa_read = (\<lambda>_. fs), sa_again = fs\<rparr>"

lemma listed_paths_files:
  assumes "distinct (map fst (read_dir_files fs d))"
  shows "list_all2 (\<lambda>p (path, f). map_of (read_dir_files fs (fst p)) (snd p) = Some f \<and> path = read_dir_name (fst p) @ ''/'' @ snd p)
    (listed_paths d fs) (map (\<lambda>(n, f). (read_dir_name d @ ''/'' @ n, f)) (index_listing (read_dir_files fs d)))"
  using assms
  by (auto simp: listed_paths_def list_all2_map1 list_all2_map2 list_all2_same index_listing_def jsonl_files_def intro: map_of_is_SomeI)

lemma scan_still:
  assumes "distinct (map fst (xf_segments fs))" "distinct (map fst (xf_sealed fs))" "distinct (map fst (xf_rebuilt fs))"
  shows "scan_index po (still fs # attempts) = index_scan po fs"
proof -
  note files = listed_paths_files [of fs "In Segments"] listed_paths_files [of fs "In Sealed"] listed_paths_files [of fs Rebuilt]
  have "scan_files po (\<lambda>_. fs) (scan_listed (still fs)) = bind_res (index_scan po fs) (\<lambda>xs. Inr (Some xs))"
    unfolding index_scan_def
  proof (rule scan_files_still)
    show "list_all2 (\<lambda>p (path, f). map_of (read_dir_files fs (fst p)) (snd p) = Some f \<and> path = read_dir_name (fst p) @ ''/'' @ snd p)
        (scan_listed (still fs)) (index_files fs)"
      unfolding scan_listed_def index_files_def still_def attempt.select_convs
      using files assms by (intro list_all2_appendI) (simp_all add: read_dir_files_def dir_files_def read_dir_name_def dir_name_def)
  qed simp
  then show ?thesis
    by (cases "index_scan po fs") (simp_all add: scan_index_def MAX_RESCANS_def scan_try_def still_def)
qed

section \<open>Where a row can go\<close>

lemma sealed_fixed:
  assumes "pinv s" "pstep {} a s = Some s'" "fst q = Sealed" "ps_hist s q = Some g"
  shows "ps_hist s' q = Some g"
proof (cases a)
  case (WriteSegment n data mtime)
  then show ?thesis using assms(2-4) by (auto simp: Let_def split: option.splits if_splits)
qed (use assms in \<open>auto simp: Let_def split: if_splits option.splits sum.splits\<close>)

lemma sealed_fixed_run: "preach {} s s' \<Longrightarrow> pinv s \<Longrightarrow> fst q = Sealed \<Longrightarrow> ps_hist s q = Some g \<Longrightarrow> ps_hist s' q = Some g"
  by (induction rule: preach.induct) (auto intro: sealed_fixed preach_inv)

text \<open>A file that is there stays there, and at most grows, or a sealed file that is there holds what it held.\<close>

definition kept_rows :: "pstate \<Rightarrow> in_path \<Rightarrow> seg_file \<Rightarrow> bool" where
  "kept_rows s p f = (\<exists>g. file_at (ps_fs s) p = Some g \<and> (if fst p = Sealed then g = f
     else set (complete_rows (fl_data f)) \<subseteq> set (complete_rows (fl_data g))))"

definition moved_rows :: "pstate \<Rightarrow> in_path \<Rightarrow> seg_file \<Rightarrow> bool" where
  "moved_rows s p f = (\<exists>q g. file_at (ps_fs s) q = Some g \<and> fst q = Sealed \<and> (\<forall>r. shows_row p f r \<longrightarrow> shows_row q g r))"

lemma step_file:
  assumes inv: "pinv s" and st: "pstep {} a s = Some s'" and f: "file_at (ps_fs s) p = Some f"
  shows "\<exists>g. ps_hist s' p = Some g \<and> (if fst p = Sealed then g = f else set (complete_rows (fl_data f)) \<subseteq> set (complete_rows (fl_data g)))"
proof -
  have hist: "ps_hist s p = Some f" using pinvD(1) [OF inv f] .
  show ?thesis
  proof (cases "fst p = Sealed")
    case True
    then show ?thesis using sealed_fixed [OF inv st _ hist] by simp
  next
    case False
    have "ps_hist s' p = Some f \<or> (\<exists>data m. ps_hist s' p = Some (f\<lparr>fl_data := fl_data f @ data, fl_mtime := m\<rparr>))"
    proof (cases a)
      case (WriteSegment n data mtime)
      show ?thesis
      proof (cases "p = (Segments, n)")
        case True
        then have "ps_hist s' p = Some (f\<lparr>fl_data := fl_data f @ data, fl_mtime := mtime\<rparr>)"
          using st f WriteSegment by (auto simp: Let_def split: if_splits)
        then show ?thesis by blast
      qed (use st hist WriteSegment in \<open>auto simp: Let_def split: if_splits option.splits\<close>)
    next
      case (WriteSealed c stm reads ino mtime)
      then show ?thesis using st False hist by (auto simp: Let_def split: if_splits)
    qed (use st f hist False in \<open>auto split: if_splits option.splits sum.splits\<close>)
    then show ?thesis using False rows_of_append [of "fl_data f"] by auto
  qed
qed

text \<open>A row of a file that is not there any more is in a sealed file.\<close>

lemma gone_moved:
  assumes inv: "pinv s" and hist: "ps_hist s p = Some g" and gone: "file_at (ps_fs s) p \<noteq> Some g"
    and sub: "if fst p = Sealed then g = f else set (complete_rows (fl_data f)) \<subseteq> set (complete_rows (fl_data g))"
  shows "moved_rows s p f"
proof -
  obtain q h where q: "file_at (ps_fs s) q = Some h" "fst q = Sealed" "covers g h"
    using pinvD(3) [OF inv hist] gone unfolding live_cover_def by blast
  have "shows_row q h r" if "shows_row p f r" for r
  proof -
    have "place r \<in> place ` set (rows_of (fl_data g))"
      using that sub by (auto simp: shows_row_def rows_of_complete split: if_splits)
    then show ?thesis using q(2,3) by (auto simp: shows_row_def covers_def)
  qed
  then show ?thesis using q(1,2) unfolding moved_rows_def by blast
qed

lemma moved_rows_trans: "moved_rows s q g \<Longrightarrow> \<forall>r. shows_row p f r \<longrightarrow> shows_row q g r \<Longrightarrow> moved_rows s p f"
  unfolding moved_rows_def by blast

lemma rows_followed:
  "preach {} s s' \<Longrightarrow> pinv s \<Longrightarrow> file_at (ps_fs s) p = Some f \<Longrightarrow> kept_rows s' p f \<or> moved_rows s' p f"
proof (induction rule: preach.induct)
  case here
  then show ?case by (auto simp: kept_rows_def)
next
  case (step s1 a s2)
  have inv1: "pinv s1" and inv2: "pinv s2" using preach_inv [OF step.hyps(1)] pstep_inv [OF _ step.hyps(2)] step.prems(1) by blast+
  consider (kept) g where "file_at (ps_fs s1) p = Some g" "if fst p = Sealed then g = f
      else set (complete_rows (fl_data f)) \<subseteq> set (complete_rows (fl_data g))"
    | (moved) q g where "file_at (ps_fs s1) q = Some g" "fst q = Sealed" "\<forall>r. shows_row p f r \<longrightarrow> shows_row q g r"
    using step.IH [OF step.prems] unfolding kept_rows_def moved_rows_def by blast
  then show ?case
  proof cases
    case kept
    obtain h where h: "ps_hist s2 p = Some h" "if fst p = Sealed then h = g else set (complete_rows (fl_data g)) \<subseteq> set (complete_rows (fl_data h))"
      using step_file [OF inv1 step.hyps(2) kept(1)] by blast
    have sub: "if fst p = Sealed then h = f else set (complete_rows (fl_data f)) \<subseteq> set (complete_rows (fl_data h))"
      using kept(2) h(2) by (auto dest: subsetD split: if_splits)
    show ?thesis
    proof (cases "file_at (ps_fs s2) p = Some h")
      case True
      then show ?thesis using sub unfolding kept_rows_def by blast
    next
      case False
      then show ?thesis using gone_moved [OF inv2 h(1) _ sub] by blast
    qed
  next
    case moved
    have h: "ps_hist s2 q = Some g" using sealed_fixed [OF inv1 step.hyps(2) moved(2) pinvD(1) [OF inv1 moved(1)]] .
    show ?thesis
    proof (cases "file_at (ps_fs s2) q = Some g")
      case True
      then show ?thesis using moved(2,3) unfolding moved_rows_def by blast
    next
      case False
      from gone_moved [OF inv2 h False, of g] show ?thesis using moved_rows_trans moved(2,3) by auto
    qed
  qed
qed

section \<open>A scan misses no row\<close>

lemma scan_files_read:
  assumes "scan_files po look ps = Inr (Some parsed)" "p \<in> set ps"
  shows "\<exists>f x. map_of (read_dir_files (look p) (fst p)) (snd p) = Some f \<and> x \<in> set parsed \<and> pa_rows x = rows_of (fl_data f)"
  using assms
proof (induction ps arbitrary: parsed)
  case (Cons q ps)
  obtain f x more where f: "map_of (read_dir_files (look q) (fst q)) (snd q) = Some f"
      "parse_file po (read_dir_name (fst q) @ ''/'' @ snd q) (fl_data f) = Inr x" "scan_files po look ps = Inr (Some more)"
      "parsed = x # more"
    using Cons.prems(1) by (auto simp: bind_res_eq_Inr split: option.splits)
  show ?case
  proof (cases "p = q")
    case True
    then show ?thesis using f parse_file_rows by fastforce
  next
    case False
    then show ?thesis using Cons.IH [OF f(3)] Cons.prems(2) f(4) by auto
  qed
qed simp

lemma scan_loop_try:
  "scan_loop po attempts = Inr parsed \<Longrightarrow> \<exists>a\<in>set attempts. scan_files po (sa_read a) (scan_listed a) = Inr (Some parsed)
    \<and> set (listed_paths (In Sealed) (sa_again a)) \<subseteq> set (listed_paths (In Sealed) (sa_sealed a))"
  by (induction attempts) (auto simp: bind_res_eq_Inr scan_try_def split: option.splits if_splits)

text \<open>The looks of an attempt that starts after \<open>s\<close>: the segments, the sealed files, the files, and the sealed files again.\<close>

definition looks_after :: "pstate \<Rightarrow> attempt \<Rightarrow> bool" where
  "looks_after s a = (\<exists>s1 s2 s3. preach {} s s1 \<and> preach {} s1 s2 \<and> sa_segments a = ps_fs s1 \<and> sa_sealed a = ps_fs s2
     \<and> (\<forall>p. \<exists>t. preach {} s2 t \<and> preach {} t s3 \<and> sa_read a p = ps_fs t) \<and> sa_again a = ps_fs s3)"

lemma listed_path: "file_at fs (d, n) = Some f \<Longrightarrow> listed_name n \<Longrightarrow> (In d, n) \<in> set (listed_paths (In d) fs)"
  by (force simp: listed_paths_def read_dir_files_def index_listing_def jsonl_files_def file_at_def listed_name_def plain_name_def
      dest: map_of_SomeD)

lemma path_listed: "(In d, n) \<in> set (listed_paths (In d) fs) \<Longrightarrow> file_at fs (d, n) \<noteq> None"
proof -
  assume "(In d, n) \<in> set (listed_paths (In d) fs)"
  then obtain f where "(n, f) \<in> set (dir_files fs d)"
    by (auto simp: listed_paths_def read_dir_files_def index_listing_def jsonl_files_def)
  then show ?thesis using weak_map_of_SomeI by (fastforce simp: file_at_def)
qed

lemma preach_durable: "preach {} s s' \<Longrightarrow> r \<in> set (ps_durable s) \<Longrightarrow> r \<in> set (ps_durable s')"
proof (induction rule: preach.induct)
  case (step s1 a s2)
  then show ?case by (cases a) (auto simp: Let_def split: if_splits option.splits sum.splits)
qed

lemma preach_join: "preach {} a b \<Longrightarrow> preach {} b c \<Longrightarrow> preach {} a c"
  by (rotate_tac, induction rule: preach.induct) (auto intro: preach.step)

text \<open>What an attempt that is not given up has read of a file that it has listed.\<close>

lemma attempt_reads:
  assumes read: "scan_files po look listed = Inr (Some parsed)" and p: "(In (fst p), snd p) \<in> set listed"
    and t: "look (In (fst p), snd p) = ps_fs t" and inv: "pinv t"
  obtains g x where "file_at (ps_fs t) p = Some g" "ps_hist t p = Some g" "x \<in> set parsed" "pa_rows x = rows_of (fl_data g)"
proof -
  from scan_files_read [OF read p] obtain g x where g: "map_of (read_dir_files (ps_fs t) (In (fst p))) (snd p) = Some g"
      "x \<in> set parsed" "pa_rows x = rows_of (fl_data g)" by (auto simp: t)
  have "file_at (ps_fs t) p = Some g" using g(1) by (simp add: read_dir_files_def file_at_def)
  then show thesis using that pinvD(1) [OF inv] g(2,3) by blast
qed

lemma shown_row: "shows_row p f r \<Longrightarrow> \<exists>r'\<in>set (rows_of (fl_data f)). place r' = place r"
  by (auto simp: shows_row_def rows_of_complete split: if_splits)


text \<open>A scan that starts while a compactor archives the segment it has listed, and tries again.\<close>

definition before_move :: pstate where
  "before_move = the (psteps {} (butlast demo_run) empty_index)"

definition after_move :: pstate where
  "after_move = the (pstep {} (last demo_run) before_move)"

definition first_try :: attempt where
  "first_try = \<lparr>sa_segments = ps_fs before_move, sa_sealed = ps_fs before_move, sa_rebuilt = ps_fs before_move,
     sa_read = (\<lambda>_. ps_fs after_move), sa_again = ps_fs after_move\<rparr>"

definition second_try :: attempt where
  "second_try = \<lparr>sa_segments = ps_fs after_move, sa_sealed = ps_fs after_move, sa_rebuilt = ps_fs after_move,
     sa_read = (\<lambda>_. ps_fs after_move), sa_again = ps_fs after_move\<rparr>"


end
