(* ===== verification/Unit_Rebuild.thy ===== *)
theory Unit_Rebuild
  imports Unit_Scan
begin

text \<open>
  Writer ids as \<open>new_writer_id\<close> makes them, and \<open>rebuild\<close>, which writes the index again from the records of the stores.

  What an adapter finds in a store is an argument, a list of places with their records, in the order of its iterator. Host name, process
  id, job variables and the eight hex digits of \<open>uuid4\<close> are arguments of \<open>new_writer_id\<close>.
\<close>

section \<open>New writer ids\<close>

text \<open>\<open>re.sub(r"[^A-Za-z0-9-]", "_", h)\<close> of the host name up to its first dot.\<close>

definition host_char :: "char \<Rightarrow> char" where
  "host_char c = (let n = of_char c :: nat in
     if 65 \<le> n \<and> n \<le> 90 \<or> 97 \<le> n \<and> n \<le> 122 \<or> 48 \<le> n \<and> n \<le> 57 \<or> c = CHR ''-'' then c else CHR ''_'')"

definition host_part :: "string \<Rightarrow> string" where
  "host_part host = (let h = map host_char (takeWhile (\<lambda>c. c \<noteq> CHR ''.'') host) in if h = [] then ''host'' else h)"

definition job_part :: "string \<Rightarrow> string" where
  "job_part job = (if py_isdigit (strip job) then strip job else ''nojob'')"

definition restart_part :: "string \<Rightarrow> string" where
  "restart_part restart = (if py_isdigit (strip restart) then strip restart else ''0'')"

definition new_writer_id :: "string \<Rightarrow> nat \<Rightarrow> string \<Rightarrow> string \<Rightarrow> string \<Rightarrow> string" where
  "new_writer_id host pid job restart uuid8 =
     host_part host @ ''-'' @ decimal pid @ ''-'' @ job_part job @ ''-'' @ restart_part restart @ ''-'' @ uuid8"

lemma rsplit_rev_part:
  "CHR ''-'' \<notin> set x \<Longrightarrow> rsplit_rev (Suc n) (rev x @ CHR ''-'' # rest) acc = rsplit_rev n rest [] @ [x @ acc]"
  by (induction x arbitrary: acc rule: rev_induct) auto

lemma rsplit_rev_all: "rsplit_rev 0 (rev x) acc = [x @ acc]"
  by (induction x arbitrary: acc rule: rev_induct) auto

lemma rsplit_dash_parts:
  assumes "CHR ''-'' \<notin> set p \<union> set j \<union> set r \<union> set u"
  shows "rsplit_dash 4 (h @ ''-'' @ p @ ''-'' @ j @ ''-'' @ r @ ''-'' @ u) = [h, p, j, r, u]"
proof -
  have "rsplit_dash 4 (h @ ''-'' @ p @ ''-'' @ j @ ''-'' @ r @ ''-'' @ u)
      = rsplit_rev (Suc (Suc (Suc (Suc 0)))) (rev u @ CHR ''-'' # (rev r @ CHR ''-'' # (rev j @ CHR ''-'' # (rev p @ CHR ''-'' # rev h)))) []"
    by (simp add: rsplit_dash_def numeral_eq_Suc)
  then show ?thesis using assms by (simp add: rsplit_rev_part rsplit_rev_all)
qed

lemma digit_no_dash: "digit_val c \<noteq> None \<or> of_char c \<in> {178, 179, 185 :: nat} \<Longrightarrow> c \<noteq> CHR ''-''"
  by (auto simp: digit_val_def)

lemma isdigit_no_dash: "py_isdigit s \<Longrightarrow> CHR ''-'' \<notin> set s"
  using digit_no_dash [of "CHR ''-''"] by (auto simp: py_isdigit_def list_all_iff)

lemma job_part_props: "CHR ''-'' \<notin> set (job_part job)" "job_part job = ''nojob'' \<or> py_isdigit (job_part job)"
    "job_part job = ''nojob'' \<longleftrightarrow> \<not> py_isdigit (strip job)"
  using isdigit_no_dash [of "strip job"] by (auto simp: job_part_def py_isdigit_def digit_val_def)

lemma restart_part_props: "CHR ''-'' \<notin> set (restart_part restart)" "py_isdigit (restart_part restart)"
  using isdigit_no_dash [of "strip restart"] by (auto simp: restart_part_def py_isdigit_def digit_val_def)

lemma isdigit_decimal: "py_isdigit (decimal n)"
  using all_digits_decimal [of n] digit_char_props(1) by (auto simp: py_isdigit_def list_all_iff all_digits_def)

lemma py_int_decimal: "py_int (decimal n) = Some (int n)"
proof -
  obtain c cs where c: "decimal n = c # cs" by (meson decimal_not_Nil neq_Nil_conv)
  have "all_digits (c # cs)" using all_digits_decimal [of n] c by simp
  then obtain d where d: "d < 10" "c = digit_char d" by (auto simp: all_digits_def)
  have "digits_val 0 (c # cs) = Some n" using digits_val_decimal [of 0 n] c by simp
  then show ?thesis
    using d strip_all_digits [OF all_digits_decimal [of n]] by (simp add: py_int_def c unsigned_val_def digit_char_props)
qed

text \<open>Characters that a file name may hold.\<close>

definition name_char :: "char \<Rightarrow> bool" where
  "name_char c = (c \<noteq> CHR ''/'' \<and> c \<noteq> CHR 0x00 \<and> c \<noteq> CHR ''.'')"

lemma isdigit_name_chars: "py_isdigit s \<Longrightarrow> c \<in> set s \<Longrightarrow> name_char c"
  by (auto simp: py_isdigit_def list_all_iff name_char_def digit_val_def Let_def split: if_splits)

lemma host_char_name: "name_char (host_char c)"
  by (auto simp: host_char_def name_char_def Let_def)

lemma host_part_props: "host_part host \<noteq> []" "c \<in> set (host_part host) \<Longrightarrow> name_char c"
proof -
  have "\<forall>c\<in>set ''host''. name_char c" by (simp add: name_char_def)
  then show "host_part host \<noteq> []" "c \<in> set (host_part host) \<Longrightarrow> name_char c"
    using host_char_name by (auto simp: host_part_def Let_def split: if_splits)
qed

lemma new_writer_id_name_chars:
  assumes "\<forall>c\<in>set u. name_char c" "c \<in> set (new_writer_id host pid job restart u)"
  shows "name_char c"
proof -
  have "name_char (CHR ''-'')" "\<forall>c\<in>set ''nojob''. name_char c" by (simp_all add: name_char_def)
  moreover have "c \<in> set (host_part host) \<or> c = CHR ''-'' \<or> c \<in> set (decimal pid) \<or> c \<in> set (job_part job)
      \<or> c \<in> set (restart_part restart) \<or> c \<in> set u"
    using assms(2) by (auto simp: new_writer_id_def)
  moreover have "c \<in> set (job_part job) \<Longrightarrow> c \<in> set ''nojob'' \<or> name_char c"
    using job_part_props(2) [of job] isdigit_name_chars [of "job_part job" c] by metis
  ultimately show ?thesis
    using host_part_props(2) [of c host] isdigit_name_chars [OF isdigit_decimal, of c pid]
      isdigit_name_chars [OF restart_part_props(2), of c restart] assms(1) by blast
qed

text \<open>
  Writer ids read back: the id that \<open>new_writer_id\<close> makes parses to the host, process, job and restart count it
  was made of, whatever dashes and dots the host name has, and a segment writer accepts it when it is short enough.
\<close>

theorem writer_ids_parse:
  assumes "py_int (restart_part restart) = Some r" "u \<noteq> []" "\<forall>c\<in>set u. name_char c \<and> c \<noteq> CHR ''-''"
  shows "parse_writer_id (new_writer_id host pid job restart u)
      = Inr \<lparr>wi_host = host_part host, wi_pid = int pid, wi_job_id = (if py_isdigit (strip job) then Some (strip job) else None),
          wi_restart = r, wi_uuid8 = u\<rparr>
    \<and> (utf8_len (new_writer_id host pid job restart u) \<le> WRITER_ID_MAX_BYTES
        \<longrightarrow> SegmentWriter_init (new_writer_id host pid job restart u) = Inr \<lparr>sw_writer_id = new_writer_id host pid job restart u,
            sw_open = False, sw_closed = False, sw_clean = True, sw_rows_written = 0\<rparr>)"
proof -
  have split: "rsplit_dash 4 (new_writer_id host pid job restart u) = [host_part host, decimal pid, job_part job, restart_part restart, u]"
    unfolding new_writer_id_def
    by (rule rsplit_dash_parts) (use job_part_props(1) restart_part_props(1) isdigit_no_dash [OF isdigit_decimal] assms(3) in auto)
  have job: "(if job_part job = ''nojob'' then None else Some (job_part job)) = (if py_isdigit (strip job) then Some (strip job) else None)"
    using job_part_props(3) [of job] by (simp add: job_part_def)
  have parse: "parse_writer_id (new_writer_id host pid job restart u)
      = Inr \<lparr>wi_host = host_part host, wi_pid = int pid, wi_job_id = (if py_isdigit (strip job) then Some (strip job) else None),
          wi_restart = r, wi_uuid8 = u\<rparr>"
    unfolding parse_writer_id_def split list.case job
    using host_part_props(1) [of host] job_part_props(2) [of job] restart_part_props(2) [of restart] isdigit_decimal [of pid]
      py_int_decimal [of pid] assms(1,2) by (auto simp: py_int_res_def)
  have chars: "name_char c" if "c \<in> set (new_writer_id host pid job restart u)" for c
    using new_writer_id_name_chars [OF _ that] assms(3) by blast
  have "new_writer_id host pid job restart u \<noteq> []" using host_part_props(1) by (simp add: new_writer_id_def)
  then obtain c cs where "new_writer_id host pid job restart u = c # cs" by (meson neq_Nil_conv)
  then have "plain_file_name (new_writer_id host pid job restart u)"
    using chars by (auto simp: plain_file_name_def prefix_of_def name_char_def)
  then show ?thesis using parse by (simp add: SegmentWriter_init_def)
qed

theorem writer_ids_parse_witness:
  "parse_writer_id (new_writer_id ''node-7.cluster'' 4242 '' 99 '' [] ''deadbeef'')
     = Inr \<lparr>wi_host = ''node-7'', wi_pid = 4242, wi_job_id = Some ''99'', wi_restart = 0, wi_uuid8 = ''deadbeef''\<rparr>"
proof -
  have r: "py_int (restart_part []) = Some 0" by code_simp
  have u: "\<forall>c\<in>set ''deadbeef''. name_char c \<and> c \<noteq> CHR ''-''" by code_simp
  have "host_part ''node-7.cluster'' = ''node-7''" "(if py_isdigit (strip '' 99 '') then Some (strip '' 99 '') else None) = Some ''99''"
    by code_simp+
  then show ?thesis using writer_ids_parse [OF r _ u, of "''node-7.cluster''" 4242 "'' 99 ''"] by simp
qed

section \<open>Rebuilding the index from the records\<close>

text \<open>A store, the name of its adapter, and what the adapter finds there, or raises.\<close>

type_synonym found_store = "string \<times> string \<times> (string \<times> core_record) list res"

record rebuild_report =
  rb_path :: "string option"
  rb_rows :: nat
  rb_stores :: "string list"
  rb_skipped :: "string list"

text \<open>One record: a row, or the place of a record that no reader would accept.\<close>

definition rebuild_record ::
  "path_ops \<Rightarrow> string \<Rightarrow> py_float \<Rightarrow> string \<Rightarrow> string \<Rightarrow> string \<times> core_record \<Rightarrow> (index_row list \<times> string list) res"
where
  "rebuild_record po writer_id ts store adapter = (\<lambda>(locator, core).
     case make_row po store locator core adapter writer_id None ts of
       Inr row \<Rightarrow> Inr ([row], [])
     | Inl e \<Rightarrow>
         if class_of e \<in> {RowError, SchemaMismatchError}
         then bind_res (canonical_store po store) (\<lambda>s. Inr ([], [s @ '':'' @ locator]))
         else Inl e)"

text \<open>The records of a store are read in turn; the clock is read once for each.\<close>

fun rebuild_records ::
  "path_ops \<Rightarrow> string \<Rightarrow> (nat \<Rightarrow> py_float) \<Rightarrow> nat \<Rightarrow> string \<Rightarrow> string \<Rightarrow> (string \<times> core_record) list \<Rightarrow> (index_row list \<times> string list) res"
where
  "rebuild_records po writer_id clock k store adapter [] = Inr ([], [])"
| "rebuild_records po writer_id clock k store adapter (x # xs) =
     bind_res (rebuild_record po writer_id (clock k) store adapter x) (\<lambda>(rows, skipped).
     bind_res (rebuild_records po writer_id clock (Suc k) store adapter xs) (\<lambda>(rows', skipped').
       Inr (rows @ rows', skipped @ skipped')))"

fun rebuild_stores :: "path_ops \<Rightarrow> string \<Rightarrow> (nat \<Rightarrow> py_float) \<Rightarrow> nat \<Rightarrow> found_store list \<Rightarrow> (index_row list \<times> string list) res" where
  "rebuild_stores po writer_id clock k [] = Inr ([], [])"
| "rebuild_stores po writer_id clock k ((store, adapter, found) # stores) =
     bind_res found (\<lambda>xs.
     bind_res (rebuild_records po writer_id clock k store adapter xs) (\<lambda>(rows, skipped).
     bind_res (rebuild_stores po writer_id clock (k + length xs) stores) (\<lambda>(rows', skipped').
       Inr (rows @ rows', skipped @ skipped'))))"

definition rebuild ::
  "path_ops \<Rightarrow> string \<Rightarrow> (nat \<Rightarrow> py_float) \<Rightarrow> string \<Rightarrow> nat \<Rightarrow> int \<Rightarrow> found_store list \<Rightarrow> index_fs \<Rightarrow> index_fs \<times> rebuild_report res"
where
  "rebuild po writer_id clock target ino mtime stores fs =
     (case rebuild_stores po writer_id clock 0 stores of
        Inl e \<Rightarrow> (fs, Inl e)
      | Inr (rows, skipped) \<Rightarrow>
          (case traverse_res (\<lambda>(store, _). canonical_store po store) stores of
             Inl e \<Rightarrow> (fs, Inl e)
           | Inr names \<Rightarrow>
               if rows = [] then (fs, Inr \<lparr>rb_path = None, rb_rows = 0, rb_stores = names, rb_skipped = skipped\<rparr>)
               else (fs\<lparr>xf_rebuilt := AList.update target \<lparr>fl_ino = ino, fl_mtime = mtime, fl_data = row_lines rows\<rparr> (xf_rebuilt fs)\<rparr>,
                     Inr \<lparr>rb_path = Some target, rb_rows = length rows, rb_stores = names, rb_skipped = skipped\<rparr>)))"

lemma make_row_valid:
  assumes "make_row po store locator core adapter wid reused ts = Inr row"
  shows "row_valid row" "canonical_store po store = Inr (ix_store row)" "ix_locator row = locator" "ix_record_digest row = co_record_digest core"
    "ix_unit_key row = co_unit_key core" "ix_adapter row = adapter"
proof -
  obtain s r where s: "canonical_store po store = Inr s"
      "row = \<lparr>ix_store = s, ix_locator = locator, ix_unit_key = co_unit_key core, ix_input_digest = co_input_digest core,
         ix_content_digest = co_content_digest core, ix_record_digest = co_record_digest core, ix_adapter = adapter,
         ix_writer_id = wid, ix_run_id = co_run_id core, ix_ts = ts, ix_reused_from = reused, ix_schema_version = INDEX_SCHEMA_VERSION\<rparr>"
      "IndexRow_from_dict (IndexRow_to_dict row) = Inr r"
    using assms by (auto simp: make_row_def bind_res_eq_Inr Let_def)
  show "canonical_store po store = Inr (ix_store row)" "ix_locator row = locator" "ix_record_digest row = co_record_digest core"
    "ix_unit_key row = co_unit_key core" "ix_adapter row = adapter"
    using s(1,2) by simp_all
  have "r = row" using index_row_reread [OF s(3)] .
  then show "row_valid row" using s(3) by (simp add: row_valid_def)
qed

text \<open>A record that a reader would accept, and what a list of rows and skipped places does for a record.\<close>

definition readable_core :: "string \<Rightarrow> core_record \<Rightarrow> bool" where
  "readable_core locator core = ([] \<notin> {locator, co_unit_key core, co_input_digest core, co_content_digest core, co_record_digest core})"

definition record_kept :: "path_ops \<Rightarrow> string \<Rightarrow> string \<Rightarrow> string \<times> core_record \<Rightarrow> index_row list \<Rightarrow> string list \<Rightarrow> bool" where
  "record_kept po store adapter x rows skipped = (case canonical_store po store of
     Inl _ \<Rightarrow> False
   | Inr s \<Rightarrow>
       if s \<noteq> [] \<and> readable_core (fst x) (snd x)
       then \<exists>row\<in>set rows. read_key row = (s, fst x, co_record_digest (snd x)) \<and> ix_unit_key row = co_unit_key (snd x) \<and> ix_adapter row = adapter
       else s @ '':'' @ fst x \<in> set skipped)"

lemma record_kept_mono:
  "record_kept po store adapter x rows skipped \<Longrightarrow> set rows \<subseteq> set rows' \<Longrightarrow> set skipped \<subseteq> set skipped' \<Longrightarrow> record_kept po store adapter x rows' skipped'"
  unfolding record_kept_def by (fastforce split: sum.splits if_splits)

lemma rebuild_record_kept:
  assumes "rebuild_record po wid ts store adapter x = Inr (rows, skipped)"
  shows "record_kept po store adapter x rows skipped \<and> list_all row_valid rows"
proof -
  obtain locator core where x: "x = (locator, core)" by (cases x)
  show ?thesis
  proof (cases "make_row po store locator core adapter wid None ts")
    case (Inr row)
    note row = make_row_valid [OF Inr]
    have row_eq: "ix_input_digest row = co_input_digest core" "ix_content_digest row = co_content_digest core"
      using Inr by (auto simp: make_row_def bind_res_eq_Inr Let_def)
    have "readable_core locator core \<and> ix_store row \<noteq> []" using row row_eq by (auto simp: row_valid_iff readable_core_def)
    then show ?thesis using assms Inr row by (auto simp: x rebuild_record_def record_kept_def read_key_def)
  next
    case (Inl e)
    then obtain s where s: "canonical_store po store = Inr s" "skipped = [s @ '':'' @ locator]" "rows = []"
      using assms by (auto simp: x rebuild_record_def bind_res_eq_Inr split: if_splits)
    have "\<not> (s \<noteq> [] \<and> readable_core locator core)"
    proof
      assume "s \<noteq> [] \<and> readable_core locator core"
      then have "row_valid \<lparr>ix_store = s, ix_locator = locator, ix_unit_key = co_unit_key core, ix_input_digest = co_input_digest core,
         ix_content_digest = co_content_digest core, ix_record_digest = co_record_digest core, ix_adapter = adapter,
         ix_writer_id = wid, ix_run_id = co_run_id core, ix_ts = ts, ix_reused_from = None, ix_schema_version = INDEX_SCHEMA_VERSION\<rparr>"
        by (auto simp: row_valid_iff readable_core_def INDEX_SCHEMA_VERSION_def)
      then show False using Inl s(1) by (simp add: make_row_def row_valid_def Let_def)
    qed
    then show ?thesis using s by (auto simp: x record_kept_def)
  qed
qed

lemma rebuild_records_kept:
  "rebuild_records po wid clock k store adapter xs = Inr (rows, skipped) \<Longrightarrow>
   (\<forall>x\<in>set xs. record_kept po store adapter x rows skipped) \<and> list_all row_valid rows"
proof (induction xs arbitrary: k rows skipped)
  case (Cons x xs)
  obtain r1 s1 r2 s2 where r: "rebuild_record po wid (clock k) store adapter x = Inr (r1, s1)"
      "rebuild_records po wid clock (Suc k) store adapter xs = Inr (r2, s2)" "rows = r1 @ r2" "skipped = s1 @ s2"
    using Cons.prems by (auto simp: bind_res_eq_Inr)
  show ?case
    using Cons.IH [OF r(2)] rebuild_record_kept [OF r(1)] record_kept_mono [of po store adapter _ _ _ rows skipped] r(3,4) by fastforce
qed simp

lemma rebuild_stores_kept:
  "rebuild_stores po wid clock k stores = Inr (rows, skipped) \<Longrightarrow>
   (\<forall>(store, adapter, found)\<in>set stores. \<exists>xs. found = Inr xs \<and> (\<forall>x\<in>set xs. record_kept po store adapter x rows skipped)) \<and> list_all row_valid rows"
proof (induction po wid clock k stores arbitrary: rows skipped rule: rebuild_stores.induct)
  case (2 po wid clock k store adapter found stores)
  obtain xs r1 s1 r2 s2 where r: "found = Inr xs" "rebuild_records po wid clock k store adapter xs = Inr (r1, s1)"
      "rebuild_stores po wid clock (k + length xs) stores = Inr (r2, s2)" "rows = r1 @ r2" "skipped = s1 @ s2"
    using "2.prems" by (auto simp: bind_res_eq_Inr)
  have sub: "set r1 \<subseteq> set rows" "set r2 \<subseteq> set rows" "set s1 \<subseteq> set skipped" "set s2 \<subseteq> set skipped" using r(4,5) by auto
  have ih: "(\<forall>(store, adapter, found)\<in>set stores. \<exists>xs. found = Inr xs \<and> (\<forall>x\<in>set xs. record_kept po store adapter x r2 s2)) \<and> list_all row_valid r2"
    using "2.IH" [OF r(1), of "(r1, s1)" r1 s1 r2 s2] r(2,3) by simp
  have here: "(\<forall>x\<in>set xs. record_kept po store adapter x r1 s1) \<and> list_all row_valid r1" using rebuild_records_kept [OF r(2)] .
  show ?case
    using ih here record_kept_mono [OF _ sub(1,3)] record_kept_mono [OF _ sub(2,4)] r(1,4) by fastforce
qed simp

text \<open>
  C15. \<open>rebuild\<close> restores what the records say: after a rebuild, a reader finds for every record that the adapters found
  a row of its store, place and record digest, except the records that no reader would accept, and these
  are reported as skipped. No other directory changes.
\<close>

theorem rebuild_restores_records:
  assumes "rebuild po wid clock target ino mtime stores fs = (fs', Inr rep)" "load_index po fs' = Inr snap" "listed_name target"
    and "(store, adapter, Inr found) \<in> set stores" "(locator, core) \<in> set found"
  shows "\<exists>s. canonical_store po store = Inr s
    \<and> (if s \<noteq> [] \<and> readable_core locator core
       then \<exists>row\<in>set (sn_rows snap). read_key row = (s, locator, co_record_digest core)
       else s @ '':'' @ locator \<in> set (rb_skipped rep))
    \<and> xf_segments fs' = xf_segments fs \<and> xf_sealed fs' = xf_sealed fs \<and> xf_archive fs' = xf_archive fs \<and> xf_manifests fs' = xf_manifests fs"
proof -
  obtain rows skipped names where run: "rebuild_stores po wid clock 0 stores = Inr (rows, skipped)"
      "fs' = (if rows = [] then fs
        else fs\<lparr>xf_rebuilt := AList.update target \<lparr>fl_ino = ino, fl_mtime = mtime, fl_data = row_lines rows\<rparr> (xf_rebuilt fs)\<rparr>)"
      "rb_skipped rep = skipped"
    using assms(1) by (auto simp: rebuild_def split: sum.splits prod.splits if_splits)
  note kept = rebuild_stores_kept [OF run(1)]
  have rec: "record_kept po store adapter (locator, core) rows skipped" using kept assms(4,5) by fastforce
  then obtain s where s: "canonical_store po store = Inr s" by (auto simp: record_kept_def split: sum.splits)
  have "\<exists>row\<in>set (sn_rows snap). read_key row = (s, locator, co_record_digest core)" if ok: "s \<noteq> [] \<and> readable_core locator core"
  proof -
    obtain row where row: "row \<in> set rows" "read_key row = (s, locator, co_record_digest core)"
      using rec s ok by (auto simp: record_kept_def)
    define f where "f = \<lparr>fl_ino = ino, fl_mtime = mtime, fl_data = row_lines rows\<rparr>"
    have "map_of (xf_rebuilt fs') target = Some f" using run(2) row(1) by (auto simp: update_conv' f_def)
    then have "(target, f) \<in> set (index_listing (xf_rebuilt fs'))"
      using assms(3) by (auto simp: index_listing_def jsonl_files_def listed_name_def plain_name_def dest: map_of_SomeD)
    then have "(''rebuilt/'' @ target, f) \<in> set (index_files fs')" by (force simp: index_files_def)
    moreover have "row \<in> set (rows_of (fl_data f))" using rows_of_row_lines kept row(1) by (simp add: f_def)
    ultimately have "read_key row \<in> read_key ` set (sn_rows snap)" unfolding index_rows_scanned(2) [OF assms(2)] by blast
    then show ?thesis unfolding row(2) by (metis imageE)
  qed
  moreover have "s @ '':'' @ locator \<in> set skipped" if "\<not> (s \<noteq> [] \<and> readable_core locator core)"
    using rec s that by (simp add: record_kept_def split: if_splits)
  ultimately show ?thesis using s run(2,3) by (intro exI [of _ s]) auto
qed

definition demo_stores :: "found_store list" where
  "demo_stores = [(''/data/s.zarr'', ''zarr_commit'', Inr [(''k1'', demo_core), (''k2'', demo_core\<lparr>co_record_digest := []\<rparr>)])]"

definition demo_empty :: index_fs where
  "demo_empty = ps_fs empty_index"

definition demo_rebuilt :: index_fs where
  "demo_rebuilt = fst (rebuild plain_paths ''n1-7-nojob-0-ab'' (\<lambda>_. Finite 5) ''index-1-aa.jsonl'' 1 2 demo_stores demo_empty)"

theorem rebuild_restores_records_witness:
  "(\<exists>s. canonical_store plain_paths ''/data/s.zarr'' = Inr s
    \<and> (\<exists>snap. load_index plain_paths demo_rebuilt = Inr snap \<and> (\<exists>row\<in>set (sn_rows snap). read_key row = (s, ''k1'', ''recc1''))))
   \<and> xf_segments demo_rebuilt = []"
proof -
  let ?run = "rebuild plain_paths ''n1-7-nojob-0-ab'' (\<lambda>_. Finite 5) ''index-1-aa.jsonl'' 1 2 demo_stores demo_empty"
  have "case snd ?run of Inl _ \<Rightarrow> False | Inr _ \<Rightarrow> True" "case load_index plain_paths demo_rebuilt of Inl _ \<Rightarrow> False | Inr _ \<Rightarrow> True"
      and name: "listed_name ''index-1-aa.jsonl''" and seg: "xf_segments demo_empty = []"
      and can: "canonical_store plain_paths ''/data/s.zarr'' = Inr ''/data/s.zarr''" and ok: "readable_core ''k1'' demo_core"
    by code_simp+
  then obtain rep snap where run: "?run = (demo_rebuilt, Inr rep)" and load: "load_index plain_paths demo_rebuilt = Inr snap"
    by (auto simp: demo_rebuilt_def prod_eq_iff split: sum.splits)
  have "(''/data/s.zarr'', ''zarr_commit'', Inr [(''k1'', demo_core), (''k2'', demo_core\<lparr>co_record_digest := []\<rparr>)]) \<in> set demo_stores"
    by (simp add: demo_stores_def)
  from rebuild_restores_records [OF run load name this, of "''k1''" demo_core] load can ok seg show ?thesis
    by (auto simp: demo_core_def)
qed

end
