(* ===== verification/Run_Digest.thy ===== *)
theory Run_Digest
  imports Python_Values
begin

text \<open>
  Canonical digests: \<open>run/digest.py\<close> and the digest half of \<open>run/zarr_integrity.py\<close>.

  A digest is taken of the list of pieces that the code feeds to \<open>hashlib\<close>, in order: texts, JSON documents and raw bytes, before
  they are encoded. SHA-256 over the encoded pieces and the Unicode normal form are parameters. Values are decoded
  JSON; numpy scalars, tuples and bytes are turned into them by the first step of \<open>normalize_json_value\<close>.
\<close>

section \<open>JSON documents\<close>

datatype token = TText string | TJson json | TBytes "nat list"

record hash_ops =
  ho_sha :: "token list \<Rightarrow> string"
  ho_nfc :: "string \<Rightarrow> string"

function normalize_json :: "hash_ops \<Rightarrow> json \<Rightarrow> json" where
  "normalize_json h (JArr xs) = JArr (map (normalize_json h) xs)"
| "normalize_json h (JObj kvs) = JObj (map (\<lambda>kv. (fst kv, normalize_json h (snd kv))) (sort_key fst kvs))"
| "normalize_json h (JStr s) = JStr (ho_nfc h s)"
| "normalize_json h JNull = JNull"
| "normalize_json h (JBool b) = JBool b"
| "normalize_json h (JInt i) = JInt i"
| "normalize_json h (JFloat x) = JFloat x"
  by pat_completeness auto
termination
  by (relation "measure (size \<circ> snd)") (auto simp: size_snd_less less_Suc_eq_le intro: size_list_estimation')

fun all_finite :: "json \<Rightarrow> bool" where
  "all_finite (JArr xs) = list_all all_finite xs"
| "all_finite (JObj kvs) = list_all (\<lambda>kv. all_finite (snd kv)) kvs"
| "all_finite (JFloat x) = (case x of Finite _ \<Rightarrow> True | _ \<Rightarrow> False)"
| "all_finite _ = True"

text \<open>\<open>canonical_hash\<close>; \<open>allow_nan=False\<close> makes \<open>json.dumps\<close> raise.\<close>

definition canonical_hash :: "hash_ops \<Rightarrow> json \<Rightarrow> string res" where
  "canonical_hash h payload =
     (if all_finite payload then Inr (ho_sha h [TJson (sort_keys payload)])
      else Inl (Exn ValueError ''Out of range float values are not JSON compliant'' []))"

definition canonical_digest :: "hash_ops \<Rightarrow> (string \<times> json) list \<Rightarrow> string res" where
  "canonical_digest h payload = canonical_hash h (normalize_json h (JObj payload))"

section \<open>Zarr hierarchies\<close>

text \<open>An array as it is digested: its type name, its shape and its bytes in little-endian C order.\<close>

record array_data =
  ad_dtype :: string
  ad_shape :: "nat list"
  ad_bytes :: "nat list"

datatype znode =
    ZGroup "(string \<times> json) list" "(string \<times> znode) list"
  | ZArray "(string \<times> json) list" array_data

text \<open>\<open>str(array.shape)\<close>.\<close>

fun comma_sep :: "string list \<Rightarrow> string" where
  "comma_sep [] = []"
| "comma_sep [x] = x"
| "comma_sep (x # xs) = x @ '', '' @ comma_sep xs"

definition shape_text :: "nat list \<Rightarrow> string" where
  "shape_text shape = (case shape of
     [n] \<Rightarrow> ''('' @ decimal n @ '',)''
   | _ \<Rightarrow> ''('' @ comma_sep (map decimal shape) @ '')'')"

definition array_tokens :: "array_data \<Rightarrow> token list" where
  "array_tokens a = [TText (ad_dtype a), TText ''|'', TText (shape_text (ad_shape a)), TText ''|'', TBytes (ad_bytes a)]"

definition CORE_PROVENANCE_FIELDS :: "string list" where
  "CORE_PROVENANCE_FIELDS = [''git_sha'', ''git_branch'', ''git_dirty'', ''run_id'', ''created_at'', ''producer'', ''xtrax_version'']"

definition ROOT_STAMPED_FIELDS :: "string list" where
  "ROOT_STAMPED_FIELDS = [''seed'']"

definition RESERVED_ATTR_PREFIX :: string where
  "RESERVED_ATTR_PREFIX = ''xtrax.''"

definition reserved_attr :: "string \<Rightarrow> bool" where
  "reserved_attr k = (take (length RESERVED_ATTR_PREFIX) k = RESERVED_ATTR_PREFIX)"

text \<open>Whether a group's path is empty once its slashes are stripped.\<close>

definition is_root_path :: "string \<Rightarrow> bool" where
  "is_root_path path = list_all (\<lambda>c. c = CHR ''/'') path"

definition exclude_keys :: "bool \<Rightarrow> bool \<Rightarrow> string \<Rightarrow> string list" where
  "exclude_keys include_provenance is_array path =
     (if is_array then []
      else if include_provenance then []
      else if is_root_path path then CORE_PROVENANCE_FIELDS @ ROOT_STAMPED_FIELDS
      else [''run_id'', ''git_sha''])"

definition attrs_payload :: "hash_ops \<Rightarrow> bool \<Rightarrow> bool \<Rightarrow> string \<Rightarrow> (string \<times> json) list \<Rightarrow> (string \<times> json) list" where
  "attrs_payload h include_provenance is_array path attrs =
     map (\<lambda>kv. (fst kv, normalize_json h (snd kv)))
       (filter (\<lambda>kv. fst kv \<notin> set (exclude_keys include_provenance is_array path)
            \<and> \<not> (\<not> include_provenance \<and> reserved_attr (fst kv)))
         (sort_key fst attrs))"

text \<open>What \<open>update_zarr_node_digest\<close> feeds to the digest; an attribute that is not finite raises.\<close>

definition attr_tokens :: "hash_ops \<Rightarrow> bool \<Rightarrow> bool \<Rightarrow> string \<Rightarrow> (string \<times> json) list \<Rightarrow> token list res" where
  "attr_tokens h include_provenance is_array path attrs =
     (let payload = JObj (attrs_payload h include_provenance is_array path attrs) in
      if all_finite payload then Inr [TText path, TText [CHR 0x0A], TJson (sort_keys payload), TText [CHR 0x0A]]
      else Inl (Exn ValueError ''Out of range float values are not JSON compliant'' []))"

lemma size_znode_less: "kv \<in> set cs \<Longrightarrow> size (snd kv) < Suc (size_list (size_prod (\<lambda>x. 0) size) cs)"
  by (induction cs) auto

function node_tokens :: "hash_ops \<Rightarrow> bool \<Rightarrow> string \<Rightarrow> znode \<Rightarrow> token list res" where
  "node_tokens h incl path (ZArray attrs a) =
     bind_res (attr_tokens h incl True path attrs) (\<lambda>ts. Inr (ts @ array_tokens a @ [TText [CHR 0x0A]]))"
| "node_tokens h incl path (ZGroup attrs children) =
     bind_res (attr_tokens h incl False path attrs) (\<lambda>ts.
     bind_res (traverse_res (\<lambda>kv. node_tokens h incl (path @ ''/'' @ fst kv) (snd kv)) (sort_key fst children)) (\<lambda>tss.
       Inr (ts @ concat tss)))"
  by pat_completeness auto
termination
  by (relation "measure (\<lambda>(h, incl, path, node). size node)") (auto simp: size_znode_less)

end
