(* ===== verification/Zarr_Commit.thy ===== *)
theory Zarr_Commit
  imports Run_Digest
begin

text \<open>
  The durable store of committed groups: \<open>run/zarr_commit.py\<close>.

  A directory is a tree; a file is a JSON document or bytes that do not parse. What the package \<open>zarr\<close> reads from a directory and
  writes to it is a record of operations; the locale \<open>zarr_laws\<close> states what the code relies on of them.
  The staging and the quarantine directories are trees next to the store. Clocks, random names
  and the errors of failing calls, \<open>fsync\<close> among them, are arguments.
\<close>

section \<open>Directory trees\<close>

datatype file_content = JsonText json | OtherBytes "nat list"

datatype fs_node = FsFile file_content | FsDir "(string \<times> fs_node) list"

fun fs_kids :: "fs_node \<Rightarrow> (string \<times> fs_node) list" where
  "fs_kids (FsDir kids) = kids"
| "fs_kids (FsFile _) = []"

fun is_fs_dir :: "fs_node \<Rightarrow> bool" where
  "is_fs_dir (FsDir _) = True"
| "is_fs_dir (FsFile _) = False"

fun fs_get :: "string list \<Rightarrow> fs_node \<Rightarrow> fs_node option" where
  "fs_get [] e = Some e"
| "fs_get (k # ks) e = (case map_of (fs_kids e) k of None \<Rightarrow> None | Some c \<Rightarrow> fs_get ks c)"

text \<open>Writing or removing what is at a path; the parents must exist, otherwise nothing changes.\<close>

fun fs_put :: "string list \<Rightarrow> fs_node option \<Rightarrow> fs_node \<Rightarrow> fs_node" where
  "fs_put [] new e = (case new of None \<Rightarrow> e | Some n \<Rightarrow> n)"
| "fs_put ks new (FsFile c) = FsFile c"
| "fs_put [k] new (FsDir kids) = FsDir (case new of None \<Rightarrow> AList.delete k kids | Some n \<Rightarrow> AList.update k n kids)"
| "fs_put (k # k' # ks) new (FsDir kids) = (case map_of kids k of
     None \<Rightarrow> FsDir kids
   | Some c \<Rightarrow> FsDir (AList.update k (fs_put (k' # ks) new c) kids))"

text \<open>\<open>mkdir(parents=True, exist_ok=True)\<close>; a file in the way makes it raise, and nothing is created.\<close>

fun fs_mkdir :: "string list \<Rightarrow> fs_node \<Rightarrow> fs_node res" where
  "fs_mkdir ks (FsFile c) = Inl (Exn FileExistsError ''File exists'' [])"
| "fs_mkdir [] (FsDir kids) = Inr (FsDir kids)"
| "fs_mkdir (k # ks) (FsDir kids) =
     bind_res (fs_mkdir ks (case map_of kids k of None \<Rightarrow> FsDir [] | Some c \<Rightarrow> c)) (\<lambda>c. Inr (FsDir (AList.update k c kids)))"

lemma fs_get_append: "fs_get (xs @ ys) e = (case fs_get xs e of None \<Rightarrow> None | Some c \<Rightarrow> fs_get ys c)"
  by (induction xs arbitrary: e) (auto split: option.splits)

lemma fs_get_put_same:
  "ks \<noteq> [] \<Longrightarrow> fs_get (butlast ks) e = Some p \<Longrightarrow> is_fs_dir p \<Longrightarrow> fs_get ks (fs_put ks new e) = new"
  by (induction ks new e rule: fs_put.induct) (auto simp: update_conv' delete_conv' split: option.splits if_splits)

text \<open>Paths of which neither is a prefix of the other.\<close>

fun apart :: "string list \<Rightarrow> string list \<Rightarrow> bool" where
  "apart (x # xs) (y # ys) = (x \<noteq> y \<or> apart xs ys)"
| "apart _ _ = False"

lemma fs_get_put_apart: "apart ks ls \<Longrightarrow> fs_get ls (fs_put ks new e) = fs_get ls e"
proof (induction ks new e arbitrary: ls rule: fs_put.induct)
  case (3 k new kids)
  then show ?case by (cases ls) (auto simp: update_conv' delete_conv' split: option.splits)
next
  case (4 k k' ks new kids)
  then show ?case by (cases ls) (auto simp: update_conv' split: option.splits)
qed auto

section \<open>Zarr operations\<close>

text \<open>
  \<open>zr_open\<close>: the hierarchy that \<open>zarr.open_group(path, mode="r")\<close> gives access to, or the error met while it is read;
  \<open>zr_attrs\<close>: the attributes of the group alone; \<open>zr_set_attr\<close>: the directory after
  \<open>group.attrs[key] = value\<close>; \<open>zr_new\<close>: what \<open>open_group(path, mode="w")\<close> leaves; \<open>zr_require\<close>: \<open>require_group\<close>;
  \<open>zr_item\<close>: whether \<open>root[path]\<close> finds a node.
\<close>

record zarr_ops =
  zr_open :: "fs_node \<Rightarrow> znode res"
  zr_attrs :: "fs_node \<Rightarrow> (string \<times> json) list res"
  zr_set_attr :: "fs_node \<Rightarrow> string \<Rightarrow> json \<Rightarrow> fs_node res"
  zr_new :: fs_node
  zr_require :: "fs_node \<Rightarrow> string list \<Rightarrow> fs_node res"
  zr_item :: "fs_node \<Rightarrow> string list \<Rightarrow> unit res"

definition zarr_content_digest :: "zarr_ops \<Rightarrow> hash_ops \<Rightarrow> bool \<Rightarrow> fs_node \<Rightarrow> string res" where
  "zarr_content_digest z h incl e =
     bind_res (zr_open z e) (\<lambda>node. bind_res (node_tokens h incl ''/'' node) (\<lambda>ts. Inr (ho_sha h ts)))"

section \<open>Records\<close>

definition COMMIT_ATTR :: string where
  "COMMIT_ATTR = ''xtrax.commit''"

definition STORE_ATTR :: string where
  "STORE_ATTR = ''xtrax.store''"

record commit_record =
  cr_input_digest :: json
  cr_input_payload :: json
  cr_meta :: json
  cr_content_digest :: json
  cr_run_id :: json
  cr_env :: json
  cr_committed_at :: json
  cr_record_digest :: json

definition CommitRecord_to_dict :: "commit_record \<Rightarrow> (string \<times> json) list" where
  "CommitRecord_to_dict r =
     [(''input_digest'', cr_input_digest r), (''input_payload'', cr_input_payload r), (''meta'', cr_meta r),
      (''content_digest'', cr_content_digest r), (''run_id'', cr_run_id r), (''env'', cr_env r),
      (''committed_at'', cr_committed_at r), (''record_digest'', cr_record_digest r)]"

definition key_of :: "(string \<times> json) list \<Rightarrow> string \<Rightarrow> json res" where
  "key_of d k = (case map_of d k of None \<Rightarrow> Inl (Exn KeyError k []) | Some v \<Rightarrow> Inr v)"

definition get_default :: "(string \<times> json) list \<Rightarrow> string \<Rightarrow> json \<Rightarrow> json" where
  "get_default d k dflt = (case map_of d k of None \<Rightarrow> dflt | Some v \<Rightarrow> v)"

definition CommitRecord_from_dict :: "(string \<times> json) list \<Rightarrow> commit_record res" where
  "CommitRecord_from_dict d =
     bind_res (key_of d ''input_digest'') (\<lambda>input_digest.
     bind_res (key_of d ''content_digest'') (\<lambda>content_digest.
     bind_res (key_of d ''run_id'') (\<lambda>run_id.
     bind_res (key_of d ''committed_at'') (\<lambda>committed_at.
     bind_res (key_of d ''record_digest'') (\<lambda>record_digest.
       Inr \<lparr>cr_input_digest = input_digest, cr_input_payload = get_default d ''input_payload'' (JObj []),
            cr_meta = get_default d ''meta'' (JObj []), cr_content_digest = content_digest, cr_run_id = run_id,
            cr_env = get_default d ''env'' (JObj []), cr_committed_at = committed_at, cr_record_digest = record_digest\<rparr>)))))"

definition compute_record_digest :: "hash_ops \<Rightarrow> (string \<times> json) list \<Rightarrow> string res" where
  "compute_record_digest h d = canonical_digest h (filter (\<lambda>kv. fst kv \<noteq> ''record_digest'') d)"

section \<open>Keys\<close>

definition bad_part :: "string \<Rightarrow> bool" where
  "bad_part p = (p = [] \<or> p = ''.'' \<or> p = ''..'' \<or> CHR ''/'' \<in> set p)"

text \<open>\<open>key_path\<close>; a path is kept as its parts.\<close>

definition key_path :: "string list \<Rightarrow> string list res" where
  "key_path key =
     (if key = [] then Inl (Exn ValueError ''key_path: key must be non-empty'' [])
      else case filter bad_part key of
        [] \<Rightarrow> Inr key
      | p # _ \<Rightarrow> Inl (Exn ValueError ''key_path: invalid part'' [ArgStr p]))"

text \<open>The document in \<open>zarr.json\<close>, if the file is there and parses.\<close>

definition zarr_json :: "fs_node \<Rightarrow> file_content option" where
  "zarr_json e = (case map_of (fs_kids e) ''zarr.json'' of Some (FsFile c) \<Rightarrow> Some c | _ \<Rightarrow> None)"

definition has_commit_attr :: "fs_node option \<Rightarrow> bool" where
  "has_commit_attr e = (case e of
     None \<Rightarrow> False
   | Some e \<Rightarrow> (case zarr_json e of
       Some (JsonText (JObj d)) \<Rightarrow>
         (case obj_get d ''attributes'' of JObj a \<Rightarrow> COMMIT_ATTR \<in> fst ` set a | _ \<Rightarrow> False)
     | _ \<Rightarrow> False))"

section \<open>Reading a record\<close>

definition oserror :: "exn \<Rightarrow> bool" where
  "oserror e = (class_of e \<in> {OSError, FileNotFoundError, FileExistsError})"

text \<open>\<open>_read_record_status\<close>: \<open>Inl\<close> of the inner sum is the reason.\<close>

definition read_record_status :: "zarr_ops \<Rightarrow> hash_ops \<Rightarrow> fs_node \<Rightarrow> (string + commit_record) res" where
  "read_record_status z h e = (case zarr_json e of
     None \<Rightarrow> Inr (Inl ''not a zarr group'')
   | Some (OtherBytes _) \<Rightarrow> Inr (Inl ''unreadable zarr group'')
   | Some (JsonText j) \<Rightarrow>
       (case j of
          JObj d \<Rightarrow>
            if obj_get d ''node_type'' \<noteq> JStr ''group'' then Inr (Inl ''not a zarr group'')
            else (case zr_attrs z e of
               Inl exc \<Rightarrow>
                 if class_of exc \<in> {ValueError, KeyError, BaseZarrError} \<or> oserror exc
                 then Inr (Inl ''unreadable zarr group'') else Inl exc
             | Inr attrs \<Rightarrow>
                 (case obj_get attrs COMMIT_ATTR of
                    JNull \<Rightarrow> Inr (Inl ''uncommitted group (no commit record)'')
                  | JObj data \<Rightarrow>
                      (case CommitRecord_from_dict data of
                         Inl _ \<Rightarrow> Inr (Inl ''commit record tampered or malformed (missing fields)'')
                       | Inr record \<Rightarrow>
                           bind_res (compute_record_digest h data) (\<lambda>digest.
                             if cr_record_digest record \<noteq> JStr digest
                             then Inr (Inl ''commit record tampered (record_digest mismatch)'')
                             else Inr (Inr record)))
                  | _ \<Rightarrow> Inr (Inl ''commit record tampered or malformed (not a mapping)'')))
        | _ \<Rightarrow> Inr (Inl ''unreadable zarr group'')))"

definition read_record :: "zarr_ops \<Rightarrow> hash_ops \<Rightarrow> fs_node \<Rightarrow> commit_record option res" where
  "read_record z h e = bind_res (read_record_status z h e) (\<lambda>r. Inr (case r of Inl _ \<Rightarrow> None | Inr rec \<Rightarrow> Some rec))"

text \<open>Whether a group's content matches its own record: \<open>_group_is_valid\<close>.\<close>

definition group_is_valid :: "zarr_ops \<Rightarrow> hash_ops \<Rightarrow> fs_node \<Rightarrow> bool res" where
  "group_is_valid z h e = bind_res (read_record z h e) (\<lambda>r. case r of
     None \<Rightarrow> Inr False
   | Some rec \<Rightarrow>
       (case zarr_content_digest z h False e of
          Inr digest \<Rightarrow> Inr (JStr digest = cr_content_digest rec)
        | Inl exc \<Rightarrow>
            if class_of exc = MemoryError then Inl exc
            else if class_of exc = BaseZarrError then Inr False
            else if oserror exc then Inl exc
            else Inr False))"

section \<open>Looking up a key\<close>

datatype zlookup = ZReuse commit_record "string list" | ZMissing | ZStale commit_record | ZCorrupt string

text \<open>The store directory may not exist yet.\<close>

record durable =
  du_store :: "fs_node option"
  du_staging :: fs_node
  du_quarantine :: fs_node

definition store_at :: "fs_node option \<Rightarrow> string list \<Rightarrow> fs_node option" where
  "store_at store path = Option.bind store (fs_get path)"

definition dir_at :: "fs_node option \<Rightarrow> string list \<Rightarrow> bool" where
  "dir_at store path = (case store_at store path of None \<Rightarrow> False | Some e \<Rightarrow> is_fs_dir e)"

lemma dir_at_iff [simp]: "dir_at store path \<longleftrightarrow> (\<exists>p. store_at store path = Some p \<and> is_fs_dir p)"
  by (simp add: dir_at_def split: option.splits)

definition zarr_lookup :: "zarr_ops \<Rightarrow> hash_ops \<Rightarrow> fs_node option \<Rightarrow> string list \<Rightarrow> string \<Rightarrow> bool \<Rightarrow> zlookup res" where
  "zarr_lookup z h store key input_digest verify =
     bind_res (key_path key) (\<lambda>path. case store_at store path of
       None \<Rightarrow> Inr ZMissing
     | Some target \<Rightarrow>
         bind_res (read_record_status z h target) (\<lambda>r. case r of
           Inl reason \<Rightarrow> Inr (ZCorrupt reason)
         | Inr record \<Rightarrow>
             if cr_input_digest record \<noteq> JStr input_digest then Inr (ZStale record)
             else if \<not> verify then Inr (ZReuse record path)
             else (case zarr_content_digest z h False target of
                 Inr digest \<Rightarrow>
                   if JStr digest \<noteq> cr_content_digest record then Inr (ZCorrupt ''content digest mismatch'')
                   else Inr (ZReuse record path)
               | Inl exc \<Rightarrow>
                   if class_of exc = MemoryError then Inl exc
                   else if class_of exc = BaseZarrError then Inr (ZCorrupt ''failed to compute content digest'')
                   else if oserror exc then Inl exc
                   else Inr (ZCorrupt ''failed to compute content digest''))))"

section \<open>Committing a key\<close>

text \<open>\<open>ca_fsync_staged\<close> and \<open>ca_fsync_parent\<close>: the errors of \<open>fsync\<close> before and after the rename.\<close>

record commit_args =
  ca_input_digest :: string
  ca_input_payload :: "(string \<times> json) list"
  ca_meta :: "(string \<times> json) list"
  ca_run_id :: string
  ca_env :: "(string \<times> json) list"
  ca_now :: string
  ca_verify_duplicate :: bool
  ca_fsync_staged :: "exn option"
  ca_fsync_parent :: "exn option"

datatype commit_outcome = Committed commit_record | Duplicate commit_record

definition unknown_prefix :: "string list \<Rightarrow> string list \<Rightarrow> string \<Rightarrow> exn" where
  "unknown_prefix key prefix reason = Exn UnknownPrefixError reason [ArgStrs prefix, ArgStrs key]"

definition conflict_error :: "string list \<Rightarrow> string \<Rightarrow> string \<Rightarrow> exn" where
  "conflict_error key input_digest reason = Exn CommitConflictError reason [ArgStrs key, ArgStr input_digest]"

definition remove_staged :: "string list \<Rightarrow> durable \<Rightarrow> durable" where
  "remove_staged staged st = st\<lparr>du_staging := fs_put staged None (du_staging st)\<rparr>"

text \<open>The parent must be a zarr node, and no group above the key may be a committed one.\<close>

definition check_prefix :: "string list \<Rightarrow> fs_node option \<Rightarrow> exn option" where
  "check_prefix key store =
     (let parent = butlast key in
      case Option.bind (store_at store parent) zarr_json of
        None \<Rightarrow> Some (unknown_prefix key parent ''does not exist'')
      | Some _ \<Rightarrow>
          (case filter (\<lambda>depth. has_commit_attr (store_at store (take depth parent))) [1..<length parent + 1] of
             [] \<Rightarrow> None
           | depth # _ \<Rightarrow> Some (unknown_prefix key (take depth parent)
               ''is a committed key; keys cannot be nested inside committed keys'')))"

definition json_pairs :: "json \<Rightarrow> (string \<times> json) list" where
  "json_pairs j = (case j of JObj d \<Rightarrow> d | _ \<Rightarrow> [])"

definition record_fields :: "hash_ops \<Rightarrow> commit_args \<Rightarrow> string \<Rightarrow> (string \<times> json) list" where
  "record_fields h ca content_digest =
     [(''input_digest'', JStr (ca_input_digest ca)),
      (''input_payload'', JObj (json_pairs (normalize_json h (JObj (ca_input_payload ca))))),
      (''meta'', JObj (json_pairs (normalize_json h (JObj (ca_meta ca))))),
      (''content_digest'', JStr content_digest),
      (''run_id'', JStr (ca_run_id ca)),
      (''env'', JObj (ca_env ca)),
      (''committed_at'', JStr (ca_now ca))]"

text \<open>The first half of \<open>commit_key\<close>: everything up to the rename. The result is the record and the content digest.\<close>

definition commit_prepare ::
  "zarr_ops \<Rightarrow> hash_ops \<Rightarrow> string list \<Rightarrow> string list \<Rightarrow> commit_args \<Rightarrow> durable \<Rightarrow> durable \<times> ((string \<times> json) list \<times> string) res"
where
  "commit_prepare z h key staged ca st = (case key_path key of
     Inl e \<Rightarrow> (st, Inl e)
   | Inr path \<Rightarrow>
       (case check_prefix path (du_store st) of
          Some e \<Rightarrow> (remove_staged staged st, Inl e)
        | None \<Rightarrow>
            (case fs_get staged (du_staging st) of
               None \<Rightarrow> (st, Inl (Exn FileNotFoundError ''No such file or directory'' [ArgStrs staged]))
             | Some dir \<Rightarrow>
                 (case zarr_content_digest z h False dir of
                    Inl e \<Rightarrow> (st, Inl e)
                  | Inr content_digest \<Rightarrow>
                      let fields = record_fields h ca content_digest in
                      (case compute_record_digest h fields of
                         Inl e \<Rightarrow> (st, Inl e)
                       | Inr digest \<Rightarrow>
                           let record_dict = fields @ [(''record_digest'', JStr digest)] in
                           (case zr_set_attr z dir COMMIT_ATTR (JObj record_dict) of
                              Inl e \<Rightarrow> (st, Inl e)
                            | Inr dir' \<Rightarrow>
                                (st\<lparr>du_staging := fs_put staged (Some dir') (du_staging st)\<rparr>,
                                 case ca_fsync_staged ca of Some e \<Rightarrow> Inl e | None \<Rightarrow> Inr (record_dict, content_digest))))))))"

text \<open>The second half: \<open>os.rename\<close> onto the target, and what is found there when it is taken.\<close>

definition commit_publish ::
  "zarr_ops \<Rightarrow> hash_ops \<Rightarrow> string list \<Rightarrow> string list \<Rightarrow> commit_args \<Rightarrow> (string \<times> json) list \<times> string \<Rightarrow> durable
     \<Rightarrow> durable \<times> commit_outcome res"
where
  "commit_publish z h key staged ca = (\<lambda>(record_dict, content_digest) st.
     let conflict = (\<lambda>reason. Inl (conflict_error key (ca_input_digest ca) reason)) in
     case (fs_get staged (du_staging st), store_at (du_store st) key) of
       (Some dir, Some (FsDir (k # ks))) \<Rightarrow>
         (case read_record z h (FsDir (k # ks)) of
            Inl e \<Rightarrow> (st, Inl e)
          | Inr existing \<Rightarrow>
              (remove_staged staged st,
               (case existing of
                  None \<Rightarrow> conflict ''uncommitted or tampered group already at target''
                | Some rec \<Rightarrow>
                    bind_res (compute_record_digest h (CommitRecord_to_dict rec)) (\<lambda>digest.
                      if cr_record_digest rec \<noteq> JStr digest then conflict ''uncommitted or tampered group already at target''
                      else if cr_input_digest rec = JStr (ca_input_digest ca) then
                        if ca_verify_duplicate ca \<and> cr_content_digest rec \<noteq> JStr content_digest
                        then conflict ''same input_digest, different content''
                        else if ca_verify_duplicate ca
                        then bind_res (group_is_valid z h (FsDir (k # ks))) (\<lambda>ok.
                          if ok then Inr (Duplicate rec) else conflict ''a damaged committed key'')
                        else Inr (Duplicate rec)
                      else conflict ''different input_digest already committed''))))
     | (Some dir, Some (FsFile _)) \<Rightarrow> (st, Inl (Exn OSError ''Not a directory'' [ArgStrs key]))
     | (Some dir, _) \<Rightarrow>
         if dir_at (du_store st) (butlast key) then
           (st\<lparr>du_store := map_option (fs_put key (Some dir)) (du_store st), du_staging := fs_put staged None (du_staging st)\<rparr>,
            case ca_fsync_parent ca of
              Some e \<Rightarrow> Inl e
            | None \<Rightarrow> bind_res (CommitRecord_from_dict record_dict) (\<lambda>rec. Inr (Committed rec)))
         else (st, Inl (Exn FileNotFoundError ''No such file or directory'' [ArgStrs key]))
     | (None, _) \<Rightarrow> (st, Inl (Exn FileNotFoundError ''No such file or directory'' [ArgStrs staged])))"

definition commit_key ::
  "zarr_ops \<Rightarrow> hash_ops \<Rightarrow> string list \<Rightarrow> string list \<Rightarrow> commit_args \<Rightarrow> durable \<Rightarrow> durable \<times> commit_outcome res"
where
  "commit_key z h key staged ca st = (case commit_prepare z h key staged ca st of
     (st', Inl e) \<Rightarrow> (st', Inl e)
   | (st', Inr prepared) \<Rightarrow> commit_publish z h key staged ca prepared st')"

section \<open>Committed keys\<close>

text \<open>\<open>walk\<close>: a committed group is listed and not descended into.\<close>

lemma size_fs_less: "kv \<in> set cs \<Longrightarrow> size (snd kv) < Suc (size_list (size_prod (\<lambda>x. 0) size) cs)"
  by (induction cs) auto

function walk_keys :: "zarr_ops \<Rightarrow> hash_ops \<Rightarrow> string list \<Rightarrow> fs_node \<Rightarrow> string list list res" where
  "walk_keys z h path (FsFile c) = Inr []"
| "walk_keys z h path (FsDir kids) = bind_res (read_record z h (FsDir kids)) (\<lambda>r. case r of
     Some _ \<Rightarrow> Inr [path]
   | None \<Rightarrow> bind_res (traverse_res (\<lambda>kv. walk_keys z h (path @ [fst kv]) (snd kv)) (sort_key fst kids)) (\<lambda>xs. Inr (concat xs)))"
  by pat_completeness auto
termination
  by (relation "measure (\<lambda>(z, h, path, e). size e)") (auto simp: size_fs_less)

definition committed_keys :: "zarr_ops \<Rightarrow> hash_ops \<Rightarrow> fs_node option \<Rightarrow> string list \<Rightarrow> string list list res" where
  "committed_keys z h store prefix =
     bind_res (if prefix = [] then Inr [] else key_path prefix) (\<lambda>path. case store_at store path of
       None \<Rightarrow> Inr []
     | Some e \<Rightarrow> bind_res (walk_keys z h prefix e) (\<lambda>ks. Inr (sort ks)))"

section \<open>Quarantine\<close>

text \<open>
  \<open>quarantine\<close> has three moments, between which other processes run: the judgement (\<open>False\<close>: the key is gone), the move to
  \<open>dest\<close>, and the check of what was moved.
\<close>

definition quarantine_check :: "zarr_ops \<Rightarrow> hash_ops \<Rightarrow> fs_node option \<Rightarrow> string list \<Rightarrow> bool res" where
  "quarantine_check z h store key =
     bind_res (key_path key) (\<lambda>path. case store_at store path of
       None \<Rightarrow> Inr False
     | Some target \<Rightarrow> bind_res (read_record z h target) (\<lambda>r. case r of
         Some _ \<Rightarrow> Inr True
       | None \<Rightarrow> bind_res (committed_keys z h store key) (\<lambda>descendants.
           if descendants = [] then Inr True
           else Inl (Exn NotALeafKeyError ''has no commit record of its own but holds committed keys''
             (ArgStrs key # map ArgStrs descendants)))))"

definition quarantine_dest :: "string list \<Rightarrow> string \<Rightarrow> string list" where
  "quarantine_dest key token = butlast key @ [last key @ ''-'' @ token]"

text \<open>\<open>fsync\<close>: the error of the \<open>fsync\<close> calls after the rename, here and in \<open>quarantine_settle\<close>.\<close>

definition quarantine_move :: "exn option \<Rightarrow> string list \<Rightarrow> string list \<Rightarrow> durable \<Rightarrow> durable \<times> bool res" where
  "quarantine_move fsync key dest st = (case fs_mkdir (butlast dest) (du_quarantine st) of
     Inl e \<Rightarrow> (st, Inl e)
   | Inr q \<Rightarrow>
       (case store_at (du_store st) key of
          None \<Rightarrow> (st\<lparr>du_quarantine := q\<rparr>, Inr False)
        | Some g \<Rightarrow>
            if fs_get dest q \<in> {None, Some (FsDir [])} then
              (st\<lparr>du_store := map_option (fs_put key None) (du_store st), du_quarantine := fs_put dest (Some g) q\<rparr>,
               case fsync of Some e \<Rightarrow> Inl e | None \<Rightarrow> Inr True)
            else (st\<lparr>du_quarantine := q\<rparr>, Inl (Exn OSError ''Directory not empty'' [ArgStrs dest]))))"

text \<open>Whether what was moved is what the caller meant to move.\<close>

definition meant_to_move :: "zarr_ops \<Rightarrow> hash_ops \<Rightarrow> string option \<Rightarrow> fs_node \<Rightarrow> bool res" where
  "meant_to_move z h expected g =
     bind_res (group_is_valid z h g) (\<lambda>valid.
       if \<not> valid then Inr True
       else (case expected of
         None \<Rightarrow> Inr False
       | Some digest \<Rightarrow> bind_res (read_record z h g) (\<lambda>r. Inr (case r of
           None \<Rightarrow> True
         | Some moved \<Rightarrow> cr_input_digest moved \<noteq> JStr digest))))"

definition quarantine_settle ::
  "zarr_ops \<Rightarrow> hash_ops \<Rightarrow> exn option \<Rightarrow> string list \<Rightarrow> string list \<Rightarrow> string option \<Rightarrow> durable \<Rightarrow> durable \<times> string list option res"
where
  "quarantine_settle z h fsync key dest expected st = (case fs_get dest (du_quarantine st) of
     None \<Rightarrow> (st, Inr (Some dest))
   | Some g \<Rightarrow>
       (case meant_to_move z h expected g of
          Inl e \<Rightarrow> (st, Inl e)
        | Inr True \<Rightarrow> (st, Inr (Some dest))
        | Inr False \<Rightarrow>
            (case store_at (du_store st) key of
               Some (FsDir (k # ks)) \<Rightarrow> (st, Inl (Exn QuarantineRaceError ''a newer one is now in place'' [ArgStrs key, ArgStrs dest]))
             | Some (FsFile _) \<Rightarrow> (st, Inl (Exn OSError ''Not a directory'' [ArgStrs key]))
             | _ \<Rightarrow>
                 if dir_at (du_store st) (butlast key) then
                   (st\<lparr>du_store := map_option (fs_put key (Some g)) (du_store st),
                       du_quarantine := fs_put dest None (du_quarantine st)\<rparr>,
                    Inl (case fsync of Some e \<Rightarrow> e | None \<Rightarrow> Exn QuarantineRaceError ''it was put back untouched'' [ArgStrs key]))
                 else (st, Inl (Exn FileNotFoundError ''No such file or directory'' [ArgStrs key])))))"

text \<open>The three moments in a row; \<open>token\<close> is the random suffix.\<close>

definition quarantine ::
  "zarr_ops \<Rightarrow> hash_ops \<Rightarrow> exn option \<Rightarrow> exn option \<Rightarrow> string list \<Rightarrow> string option \<Rightarrow> string \<Rightarrow> durable
     \<Rightarrow> durable \<times> string list option res"
where
  "quarantine z h fsync1 fsync2 key expected token st = (case quarantine_check z h (du_store st) key of
     Inl e \<Rightarrow> (st, Inl e)
   | Inr False \<Rightarrow> (st, Inr None)
   | Inr True \<Rightarrow>
       (let dest = quarantine_dest key token in
        case quarantine_move fsync1 key dest st of
          (st', Inl e) \<Rightarrow> (st', Inl e)
        | (st', Inr False) \<Rightarrow> (st', Inr None)
        | (st', Inr True) \<Rightarrow> quarantine_settle z h fsync2 key dest expected st'))"

section \<open>Clearing the staging directory\<close>

text \<open>The pattern \<open>\.gc-[0-9a-f]{8}$\<close>, whose \<open>$\<close> also matches before a final newline.\<close>

definition gc_token :: "string \<Rightarrow> bool" where
  "gc_token s = (length s = 12 \<and> take 4 s = ''.gc-'' \<and> list_all (\<lambda>c. c \<in> set ''0123456789abcdef'') (drop 4 s))"

definition gc_suffixed :: "string \<Rightarrow> bool" where
  "gc_suffixed name =
     (gc_token (drop (length name - 12) name)
      \<or> (name \<noteq> [] \<and> last name = CHR 0x0A \<and> gc_token (drop (length name - 13) (butlast name))))"

text \<open>\<open>mtime\<close> is \<open>None\<close> where \<open>stat\<close> raises, \<open>fails\<close> says whose rename is refused.\<close>

definition gc_staging_step ::
  "(string \<Rightarrow> rat option) \<Rightarrow> (string \<Rightarrow> bool) \<Rightarrow> rat \<Rightarrow> rat \<Rightarrow> string list \<Rightarrow> string \<times> fs_node
     \<Rightarrow> fs_node \<times> string list \<Rightarrow> fs_node \<times> string list"
where
  "gc_staging_step mtime fails now older_than exclude = (\<lambda>(name, child) (staging, removed).
     if name \<in> set exclude then (staging, removed)
     else if \<not> is_fs_dir child then (staging, removed)
     else (case mtime name of
         None \<Rightarrow> (staging, removed)
       | Some m \<Rightarrow>
           if now - m \<le> older_than then (staging, removed)
           else if gc_suffixed name then (fs_put [name] None staging, removed)
           else if fails name then (staging, removed)
           else (fs_put [name] None staging, removed @ [name])))"

definition gc_staging ::
  "(string \<Rightarrow> rat option) \<Rightarrow> (string \<Rightarrow> bool) \<Rightarrow> rat \<Rightarrow> rat \<Rightarrow> string list \<Rightarrow> durable \<Rightarrow> durable \<times> string list"
where
  "gc_staging mtime fails now older_than exclude st =
     (let (staging, removed) = fold (gc_staging_step mtime fails now older_than exclude)
        (sort_key fst (fs_kids (du_staging st))) (du_staging st, [])
      in (st\<lparr>du_staging := staging\<rparr>, sort removed))"

section \<open>Creating and opening a store\<close>

definition PRODUCER_NAME :: string where
  "PRODUCER_NAME = ''xtrax''"

definition store_fields :: "(string \<times> json) list \<Rightarrow> string \<Rightarrow> string \<Rightarrow> string \<Rightarrow> string \<Rightarrow> (string \<times> json) list" where
  "store_fields identity digest creator_run_id now version =
     [(''identity_payload'', JObj identity), (''identity_digest'', JStr digest), (''creator_run_id'', JStr creator_run_id),
      (''created_at'', JStr now), (''producer'', JStr PRODUCER_NAME), (''xtrax_version'', JStr version)]"

fun require_groups :: "zarr_ops \<Rightarrow> string list list \<Rightarrow> fs_node \<Rightarrow> fs_node \<times> exn option" where
  "require_groups z [] rootg = (rootg, None)"
| "require_groups z (p # ps) rootg = (case bind_res (key_path p) (zr_require z rootg) of
     Inl e \<Rightarrow> (rootg, Some e)
   | Inr rootg' \<Rightarrow> require_groups z ps rootg')"

definition stage_root ::
  "zarr_ops \<Rightarrow> hash_ops \<Rightarrow> (string \<times> json) list \<Rightarrow> string \<Rightarrow> string \<Rightarrow> string \<Rightarrow> string list list \<Rightarrow> fs_node \<times> exn option"
where
  "stage_root z h identity_payload creator_run_id now version prefixes =
     (let identity = json_pairs (normalize_json h (JObj identity_payload)) in
      case canonical_digest h identity of
        Inl e \<Rightarrow> (zr_new z, Some e)
      | Inr digest \<Rightarrow>
          (case zr_set_attr z (zr_new z) STORE_ATTR (JObj (store_fields identity digest creator_run_id now version)) of
             Inl e \<Rightarrow> (zr_new z, Some e)
           | Inr rootg \<Rightarrow> require_groups z prefixes rootg))"

definition create_store ::
  "zarr_ops \<Rightarrow> hash_ops \<Rightarrow> (string \<times> json) list \<Rightarrow> string \<Rightarrow> string \<Rightarrow> string \<Rightarrow> string list list \<Rightarrow> string \<Rightarrow> durable
     \<Rightarrow> durable \<times> bool res"
where
  "create_store z h identity_payload creator_run_id now version prefixes writer_id st =
     (let root_staged = [writer_id, ''__root__''] in
      case fs_mkdir root_staged (du_staging st) of
        Inl e \<Rightarrow> (st, Inl e)
      | Inr staging \<Rightarrow>
          (let (rootg, failed) = stage_root z h identity_payload creator_run_id now version prefixes;
               staged = st\<lparr>du_staging := fs_put root_staged (Some rootg) staging\<rparr>;
               cleared = fs_put root_staged None staging
           in case failed of
             Some e \<Rightarrow> (staged, Inl e)
           | None \<Rightarrow>
               (case du_store st of
                  Some (FsDir (k # ks)) \<Rightarrow> (st\<lparr>du_staging := cleared\<rparr>, Inr False)
                | Some (FsFile _) \<Rightarrow> (staged, Inl (Exn OSError ''Not a directory'' []))
                | _ \<Rightarrow>
                    (st\<lparr>du_store := Some rootg,
                        du_staging := (case fs_get [writer_id] cleared of
                          Some (FsDir []) \<Rightarrow> fs_put [writer_id] None cleared
                        | _ \<Rightarrow> cleared)\<rparr>, Inr True))))"

definition not_a_store :: "'a res" where
  "not_a_store = Inl (Exn NotADurableStoreError '''' [])"

fun check_prefixes :: "zarr_ops \<Rightarrow> fs_node \<Rightarrow> string list list \<Rightarrow> unit res" where
  "check_prefixes z rootg [] = Inr ()"
| "check_prefixes z rootg (prefix # prefixes) = bind_res (key_path prefix) (\<lambda>path. case zr_item z rootg path of
     Inr u \<Rightarrow> check_prefixes z rootg prefixes
   | Inl e \<Rightarrow> if class_of e \<in> {KeyError, ValueError, BaseZarrError}
       then Inl (unknown_prefix prefix prefix ''does not exist'') else Inl e)"

definition open_store ::
  "zarr_ops \<Rightarrow> hash_ops \<Rightarrow> (string \<times> json) list \<Rightarrow> string list list \<Rightarrow> fs_node option \<Rightarrow> (string \<times> json) list res"
where
  "open_store z h identity_payload prefixes store = (case store of
     None \<Rightarrow> not_a_store
   | Some rootg \<Rightarrow>
       if ''zarr.json'' \<notin> fst ` set (fs_kids rootg) then not_a_store
       else (case zr_attrs z rootg of
         Inl e \<Rightarrow> if class_of e \<in> {ValueError, KeyError, BaseZarrError} then not_a_store else Inl e
       | Inr attrs \<Rightarrow>
           if obj_get attrs STORE_ATTR = JNull then not_a_store
           else bind_res (canonical_digest h (json_pairs (normalize_json h (JObj identity_payload)))) (\<lambda>expected_digest.
             (case obj_get attrs STORE_ATTR of
                JObj store_record \<Rightarrow>
                  bind_res (py_dict (normalize_json h (get_default store_record ''identity_payload'' (JObj [])))) (\<lambda>stored_payload.
                    if obj_get store_record ''identity_digest'' \<noteq> JStr expected_digest
                    then Inl (Exn StoreIdentityMismatch '''' [ArgStrs (map fst identity_payload)])
                    else bind_res (check_prefixes z rootg prefixes) (\<lambda>_. Inr store_record))
              | _ \<Rightarrow> not_a_store))))"

end
