(* ===== verification/Zarr_Laws.thy ===== *)
theory Zarr_Laws
  imports Zarr_Commit
begin

text \<open>
  What the durable store promises, for every reader of zarr directories that keeps the laws of \<open>zarr_laws\<close>: a record is read back
  as it was written, its attribute is no part of the content digest, and a committed key is found. The last
  section shows the laws for a reader of zarr version 3 metadata, whatever reads the arrays.
\<close>

section \<open>Attributes that are no part of the digest\<close>

lemma filter_update_other:
  "\<not> P k \<Longrightarrow> filter (\<lambda>kv. P (fst kv)) (AList.update k v a) = filter (\<lambda>kv. P (fst kv)) a"
  by (induction a) auto

lemma attrs_payload_reserved:
  assumes "reserved_attr k"
  shows "attrs_payload h False is_array path (AList.update k v a) = attrs_payload h False is_array path a"
proof -
  let ?P = "\<lambda>k. k \<notin> set (exclude_keys False is_array path) \<and> \<not> (\<not> False \<and> reserved_attr k)"
  have "filter (\<lambda>kv. ?P (fst kv)) (sort_key fst (AList.update k v a)) = filter (\<lambda>kv. ?P (fst kv)) (sort_key fst a)"
    unfolding filter_sort using assms by (subst filter_update_other) auto
  then show ?thesis by (simp add: attrs_payload_def)
qed

lemma node_tokens_reserved:
  "reserved_attr k \<Longrightarrow> node_tokens h False path (ZGroup (AList.update k v a) cs) = node_tokens h False path (ZGroup a cs)"
  by (simp add: attr_tokens_def attrs_payload_reserved)

lemma COMMIT_ATTR_reserved: "reserved_attr COMMIT_ATTR" "reserved_attr STORE_ATTR"
  by (simp_all add: reserved_attr_def RESERVED_ATTR_PREFIX_def COMMIT_ATTR_def STORE_ATTR_def)

lemma from_dict_record_fields:
  "CommitRecord_from_dict (record_fields h ca cd @ [(''record_digest'', JStr rd)]) = Inr
     \<lparr>cr_input_digest = JStr (ca_input_digest ca),
      cr_input_payload = JObj (json_pairs (normalize_json h (JObj (ca_input_payload ca)))),
      cr_meta = JObj (json_pairs (normalize_json h (JObj (ca_meta ca)))), cr_content_digest = JStr cd,
      cr_run_id = JStr (ca_run_id ca), cr_env = JObj (ca_env ca), cr_committed_at = JStr (ca_now ca),
      cr_record_digest = JStr rd\<rparr>"
  by (simp add: CommitRecord_from_dict_def record_fields_def key_of_def get_default_def)

lemma compute_record_digest_appended:
  "compute_record_digest h (record_fields h ca cd @ [(''record_digest'', JStr rd)]) = compute_record_digest h (record_fields h ca cd)"
  by (simp add: compute_record_digest_def record_fields_def)

lemma key_path_eq: "key_path key = Inr path \<Longrightarrow> path = key \<and> key \<noteq> []"
  by (auto simp: key_path_def split: if_splits list.splits)

lemma fs_kid_dir: "map_of (fs_kids e) k = Some x \<Longrightarrow> is_fs_dir e"
  by (cases e) auto

lemma fs_get_parent:
  assumes "fs_get ks e = Some x" "ks \<noteq> []"
  shows "\<exists>p. fs_get (butlast ks) e = Some p \<and> is_fs_dir p"
proof -
  have "fs_get (butlast ks @ [last ks]) e = Some x" using assms by simp
  then show ?thesis
    unfolding fs_get_append by (auto split: option.splits dest: fs_kid_dir)
qed

lemma fs_get_put_present: "fs_get ks e = Some x \<Longrightarrow> fs_get ks (fs_put ks (Some n) e) = Some n"
  using fs_get_parent [of ks e x] fs_get_put_same [of ks e _ "Some n"] by (cases "ks = []") auto

lemma store_at_put:
  assumes "key \<noteq> []" "store_at store (butlast key) = Some p" "is_fs_dir p"
  shows "store_at (map_option (fs_put key new) store) key = new"
  using assms fs_get_put_same [OF assms(1), of _ p new] by (cases store) (auto simp: store_at_def)

lemma store_at_put_apart: "apart key key' \<Longrightarrow> store_at (map_option (fs_put key new) store) key' = store_at store key'"
  by (cases store) (simp_all add: store_at_def fs_get_put_apart)

text \<open>What the second half of a commit can do.\<close>

lemma commit_publishE:
  assumes "commit_publish z h key staged ca (rd, cd) st = (st', out)"
  obtains (kept) "du_store st' = du_store st" "du_quarantine st' = du_quarantine st" "\<And>rec. out \<noteq> Inr (Committed rec)"
      "du_staging st' = du_staging st \<or> du_staging st' = fs_put staged None (du_staging st)"
  | (renamed) dir p where "fs_get staged (du_staging st) = Some dir" "store_at (du_store st) key \<in> {None, Some (FsDir [])}"
      "store_at (du_store st) (butlast key) = Some p" "is_fs_dir p"
      "st' = st\<lparr>du_store := map_option (fs_put key (Some dir)) (du_store st), du_staging := fs_put staged None (du_staging st)\<rparr>"
      "out = (case ca_fsync_parent ca of Some e \<Rightarrow> Inl e | None \<Rightarrow> bind_res (CommitRecord_from_dict rd) (\<lambda>rec. Inr (Committed rec)))"
proof -
  note facts = assms [unfolded commit_publish_def Let_def prod.case]
  show thesis
  proof (cases "fs_get staged (du_staging st)")
    case None
    with facts show thesis by (intro kept) auto
  next
    case (Some dir)
    have rename: thesis if "store_at (du_store st) key \<in> {None, Some (FsDir [])}"
    proof (cases "\<exists>p. store_at (du_store st) (butlast key) = Some p \<and> is_fs_dir p")
      case True
      then obtain p where "store_at (du_store st) (butlast key) = Some p" "is_fs_dir p" by blast
      with True facts Some that show thesis by (intro renamed [of dir p]) auto
    next
      case False
      with facts Some that show thesis by (intro kept) (auto split: if_splits)
    qed
    show thesis
    proof (cases "store_at (du_store st) key")
      case None
      with rename show thesis by simp
    next
      case (Some e)
      show thesis
      proof (cases e)
        case (FsFile c)
        with facts Some \<open>fs_get staged (du_staging st) = Some dir\<close> show thesis by (intro kept) auto
      next
        case (FsDir kids)
        show thesis
        proof (cases kids)
          case Nil
          with FsDir Some rename show thesis by simp
        next
          case (Cons k ks)
          with facts Some FsDir \<open>fs_get staged (du_staging st) = Some dir\<close> show thesis
            by (intro kept) (auto simp: res_simps remove_staged_def split: sum.splits option.splits if_splits)
        qed
      qed
    qed
  qed
qed

lemma commit_publish_duplicate:
  assumes "commit_publish z h key staged ca (rd, cd) st = (st', Inr (Duplicate rec))"
  shows "\<exists>e. store_at (du_store st) key = Some e \<and> read_record z h e = Inr (Some rec)
    \<and> cr_input_digest rec = JStr (ca_input_digest ca)
    \<and> (ca_verify_duplicate ca \<longrightarrow> cr_content_digest rec = JStr cd \<and> group_is_valid z h e = Inr True)"
  using assms
  by (auto simp: commit_publish_def Let_def res_simps split: option.splits fs_node.splits list.splits sum.splits if_splits)

lemma read_record_iff: "read_record z h e = Inr (Some rec) \<longleftrightarrow> read_record_status z h e = Inr (Inr rec)"
  by (cases "read_record_status z h e") (auto simp: read_record_def split: sum.splits)

lemma commit_prepareE:
  assumes "commit_prepare z h key staged ca st = (st', Inr (rd, cd))"
  obtains dir dir' digest where "key_path key = Inr key" "key \<noteq> []" "check_prefix key (du_store st) = None"
    "fs_get staged (du_staging st) = Some dir" "zarr_content_digest z h False dir = Inr cd"
    "compute_record_digest h (record_fields h ca cd) = Inr digest"
    "rd = record_fields h ca cd @ [(''record_digest'', JStr digest)]"
    "zr_set_attr z dir COMMIT_ATTR (JObj rd) = Inr dir'"
    "st' = st\<lparr>du_staging := fs_put staged (Some dir') (du_staging st)\<rparr>"
  using assms key_path_eq [of key]
  by (auto simp: commit_prepare_def Let_def split: sum.splits option.splits)

text \<open>A staged directory as the first half of a commit leaves it, and a group as the store keeps it.\<close>

definition committed_as :: "zarr_ops \<Rightarrow> hash_ops \<Rightarrow> commit_record \<Rightarrow> fs_node \<Rightarrow> bool" where
  "committed_as z h rec e \<longleftrightarrow> read_record_status z h e = Inr (Inr rec)
     \<and> (\<exists>cd. zarr_content_digest z h False e = Inr cd \<and> cr_content_digest rec = JStr cd)"

section \<open>The laws\<close>

locale zarr_laws =
  fixes z :: zarr_ops
  assumes attrs_of_open: "zr_open z e = Inr (ZGroup a cs) \<Longrightarrow> zr_attrs z e = Inr a"
    and json_of_attrs: "zr_attrs z e = Inr a \<Longrightarrow>
      \<exists>d. zarr_json e = Some (JsonText (JObj d)) \<and> obj_get d ''node_type'' = JStr ''group'' \<and> json_pairs (obj_get d ''attributes'') = a"
    and set_attr_group: "zr_set_attr z e k v = Inr e' \<Longrightarrow> \<exists>a. zr_attrs z e = Inr a \<and> zr_attrs z e' = Inr (AList.update k v a)"
    and set_attr_open: "zr_set_attr z e k v = Inr e' \<Longrightarrow> zr_open z e' =
      bind_res (zr_open z e) (\<lambda>n. Inr (case n of ZGroup a cs \<Rightarrow> ZGroup (AList.update k v a) cs | ZArray a d \<Rightarrow> ZArray a d))"
begin

lemma digest_set_reserved:
  assumes "zr_set_attr z e k v = Inr e'" "reserved_attr k"
  shows "zarr_content_digest z h False e' = zarr_content_digest z h False e"
  unfolding zarr_content_digest_def set_attr_open [OF assms(1)]
  using node_tokens_reserved [OF assms(2)] by (cases "zr_open z e") (auto split: znode.splits simp del: node_tokens.simps)

lemma record_status_written:
  assumes "zr_set_attr z e COMMIT_ATTR (JObj d) = Inr e'" "CommitRecord_from_dict d = Inr rec"
    "compute_record_digest h d = Inr rd" "cr_record_digest rec = JStr rd"
  shows "read_record_status z h e' = Inr (Inr rec)"
proof -
  obtain a where a: "zr_attrs z e' = Inr (AList.update COMMIT_ATTR (JObj d) a)"
    using set_attr_group [OF assms(1)] by blast
  obtain j where "zarr_json e' = Some (JsonText (JObj j))" "obj_get j ''node_type'' = JStr ''group''"
    using json_of_attrs [OF a] by blast
  with a assms(2-4) show ?thesis
    by (simp add: read_record_status_def obj_get_def update_conv')
qed

lemma prepared_is_committed:
  assumes "commit_prepare z h key staged ca st = (st', Inr (rd, cd))"
  obtains dir' rec where "fs_get staged (du_staging st') = Some dir'" "CommitRecord_from_dict rd = Inr rec"
    "committed_as z h rec dir'" "cr_input_digest rec = JStr (ca_input_digest ca)" "cr_content_digest rec = JStr cd"
    "du_store st' = du_store st" "du_quarantine st' = du_quarantine st"
proof -
  obtain dir dir' digest where p: "fs_get staged (du_staging st) = Some dir" "zarr_content_digest z h False dir = Inr cd"
      "compute_record_digest h (record_fields h ca cd) = Inr digest"
      "rd = record_fields h ca cd @ [(''record_digest'', JStr digest)]"
      "zr_set_attr z dir COMMIT_ATTR (JObj rd) = Inr dir'"
      "st' = st\<lparr>du_staging := fs_put staged (Some dir') (du_staging st)\<rparr>"
    using assms by (rule commit_prepareE)
  obtain rec where rec: "CommitRecord_from_dict rd = Inr rec" "cr_record_digest rec = JStr digest"
      "cr_input_digest rec = JStr (ca_input_digest ca)" "cr_content_digest rec = JStr cd"
    unfolding p(4) from_dict_record_fields by simp
  have "compute_record_digest h rd = Inr digest" using p(3,4) compute_record_digest_appended by simp
  from record_status_written [OF p(5) rec(1) this rec(2)]
  have "committed_as z h rec dir'"
    using digest_set_reserved [OF p(5) COMMIT_ATTR_reserved(1)] p(2) rec(4) by (simp add: committed_as_def)
  moreover have "fs_get staged (du_staging st') = Some dir'" using p(6) fs_get_put_present [OF p(1)] by simp
  ultimately show thesis using rec p(6) by (intro that) simp_all
qed

lemma lookup_committed:
  assumes "store_at store key = Some e" "committed_as z h rec e" "key_path key = Inr key"
    "cr_input_digest rec = JStr input_digest"
  shows "zarr_lookup z h store key input_digest verify = Inr (ZReuse rec key)"
  using assms by (auto simp: zarr_lookup_def committed_as_def)

lemma valid_is_committed:
  assumes "group_is_valid z h e = Inr True" "read_record z h e = Inr (Some rec)"
  shows "committed_as z h rec e"
  using assms by (auto simp: group_is_valid_def committed_as_def read_record_iff split: sum.splits if_splits)

end

locale zarr_group_laws = zarr_laws +
  assumes new_attrs: "zr_attrs z (zr_new z) = Inr []"
    and require_item: "zr_require z e path = Inr e' \<Longrightarrow> zr_item z e' path = Inr ()"
    and require_keeps: "zr_require z e path = Inr e' \<Longrightarrow> zr_item z e other = Inr () \<Longrightarrow> zr_item z e' other = Inr ()"
    and require_attrs: "zr_require z e path = Inr e' \<Longrightarrow> zr_attrs z e' = zr_attrs z e"
begin

lemma require_groups_ok:
  assumes "require_groups z prefixes e = (e', None)"
  shows "zr_attrs z e' = zr_attrs z e \<and> (\<forall>p \<in> set prefixes. key_path p = Inr p \<and> zr_item z e' p = Inr ())
    \<and> (\<forall>q. zr_item z e q = Inr () \<longrightarrow> zr_item z e' q = Inr ())"
  using assms
proof (induction prefixes arbitrary: e)
  case (Cons p ps)
  then obtain e1 where e1: "bind_res (key_path p) (zr_require z e) = Inr e1" "require_groups z ps e1 = (e', None)"
    by (auto split: sum.splits)
  then have p: "key_path p = Inr p" "p \<noteq> []" "zr_require z e p = Inr e1"
    using key_path_eq by (auto simp: res_simps)
  from Cons.IH [OF e1(2)] require_item [OF p(3)] require_keeps [OF p(3)] require_attrs [OF p(3)] p(1)
  show ?case by auto
qed simp

end

section \<open>Version 3 directories\<close>

text \<open>
  The hierarchy that version 3 metadata describes: a group is a directory whose \<open>zarr.json\<close> says so, its members are the
  directories with a \<open>zarr.json\<close> of their own. How the chunks of an array are read is the parameter \<open>rd\<close>.
\<close>

definition v3_attrs :: "fs_node \<Rightarrow> (string \<times> json) list res" where
  "v3_attrs e = (case zarr_json e of
     Some (JsonText (JObj d)) \<Rightarrow>
       if obj_get d ''node_type'' = JStr ''group'' then Inr (json_pairs (obj_get d ''attributes''))
       else Inl (Exn BaseZarrError ''not a group'' [])
   | Some _ \<Rightarrow> Inl (Exn ValueError ''zarr.json'' [])
   | None \<Rightarrow> Inl (Exn BaseZarrError ''no group found'' []))"

definition v3_members :: "fs_node \<Rightarrow> (string \<times> fs_node) list" where
  "v3_members e = filter (\<lambda>kv. is_fs_dir (snd kv) \<and> zarr_json (snd kv) \<noteq> None) (fs_kids e)"

lemma v3_members_less: "kv \<in> set (v3_members e) \<Longrightarrow> size (snd kv) < size e"
  by (cases e) (auto simp: v3_members_def size_fs_less)

function v3_open :: "(fs_node \<Rightarrow> znode res) \<Rightarrow> fs_node \<Rightarrow> znode res" where
  "v3_open rd e = (case v3_attrs e of
     Inl exc \<Rightarrow> (case rd e of Inr (ZArray a d) \<Rightarrow> Inr (ZArray a d) | Inr (ZGroup _ _) \<Rightarrow> Inl exc | Inl exc' \<Rightarrow> Inl exc')
   | Inr a \<Rightarrow> bind_res (traverse_res (\<lambda>kv. bind_res (v3_open rd (snd kv)) (\<lambda>n. Inr (fst kv, n))) (v3_members e))
       (\<lambda>cs. Inr (ZGroup a cs)))"
  by pat_completeness auto
termination
  by (relation "measure (\<lambda>(rd, e). size e)") (auto intro: v3_members_less)

declare v3_open.simps [simp del]

definition v3_set_attr :: "fs_node \<Rightarrow> string \<Rightarrow> json \<Rightarrow> fs_node res" where
  "v3_set_attr e k v = bind_res (v3_attrs e) (\<lambda>a. case zarr_json e of
     Some (JsonText (JObj d)) \<Rightarrow>
       Inr (FsDir (AList.update ''zarr.json'' (FsFile (JsonText (JObj (AList.update ''attributes'' (JObj (AList.update k v a)) d)))) (fs_kids e)))
   | _ \<Rightarrow> Inl (Exn ValueError ''zarr.json'' []))"

definition v3_group_doc :: fs_node where
  "v3_group_doc = FsFile (JsonText (JObj [(''zarr_format'', JInt 3), (''node_type'', JStr ''group''), (''attributes'', JObj [])]))"

text \<open>A directory made a group, unless it is a node already.\<close>

definition v3_mark :: "fs_node \<Rightarrow> fs_node res" where
  "v3_mark e = (case map_of (fs_kids e) ''zarr.json'' of
     Some (FsFile c) \<Rightarrow> Inr e
   | Some (FsDir _) \<Rightarrow> Inl (Exn OSError ''Is a directory'' [])
   | None \<Rightarrow> Inr (FsDir (fs_kids e @ [(''zarr.json'', v3_group_doc)])))"

fun v3_require :: "fs_node \<Rightarrow> string list \<Rightarrow> fs_node res" where
  "v3_require e [] = bind_res (v3_attrs e) (\<lambda>_. Inr e)"
| "v3_require (FsFile c) (k # ks) = Inl (Exn OSError ''Not a directory'' [])"
| "v3_require (FsDir kids) (k # ks) = (case map_of kids k of
     Some (FsFile c) \<Rightarrow> Inl (Exn OSError ''Not a directory'' [])
   | found \<Rightarrow> bind_res (v3_mark (case found of Some c \<Rightarrow> c | None \<Rightarrow> FsDir [])) (\<lambda>c. bind_res (v3_require c ks)
       (\<lambda>c. Inr (FsDir (AList.update k c kids)))))"

definition v3_item :: "fs_node \<Rightarrow> string list \<Rightarrow> unit res" where
  "v3_item e path = (if Option.bind (fs_get path e) zarr_json = None then Inl (Exn KeyError ''no node'' [ArgStrs path]) else Inr ())"

definition v3_ops :: "(fs_node \<Rightarrow> znode res) \<Rightarrow> zarr_ops" where
  "v3_ops rd = \<lparr>zr_open = v3_open rd, zr_attrs = v3_attrs, zr_set_attr = v3_set_attr, zr_new = FsDir [(''zarr.json'', v3_group_doc)],
     zr_require = v3_require, zr_item = v3_item\<rparr>"

lemma v3_attrsE:
  assumes "v3_attrs e = Inr a"
  obtains d where "zarr_json e = Some (JsonText (JObj d))" "obj_get d ''node_type'' = JStr ''group''"
    "a = json_pairs (obj_get d ''attributes'')" "is_fs_dir e"
  using assms by (cases e) (auto simp: v3_attrs_def zarr_json_def split: option.splits fs_node.splits file_content.splits json.splits if_splits)

lemma v3_set_attrE:
  assumes "v3_set_attr e k v = Inr e'"
  obtains a where "v3_attrs e = Inr a" "v3_attrs e' = Inr (AList.update k v a)" "v3_members e' = v3_members e"
proof -
  obtain a where a: "v3_attrs e = Inr a" using assms by (auto simp: v3_set_attr_def res_simps)
  then obtain d where d: "zarr_json e = Some (JsonText (JObj d))" "obj_get d ''node_type'' = JStr ''group''" "is_fs_dir e"
    by (rule v3_attrsE)
  then obtain kids where kids: "e = FsDir kids" by (cases e) auto
  let ?f = "FsFile (JsonText (JObj (AList.update ''attributes'' (JObj (AList.update k v a)) d)))"
  have e': "e' = FsDir (AList.update ''zarr.json'' ?f kids)"
    using assms a d kids by (simp add: v3_set_attr_def)
  have "v3_attrs e' = Inr (AList.update k v a)"
    using d(2) by (simp add: e' v3_attrs_def zarr_json_def update_conv' obj_get_def json_pairs_def)
  moreover obtain c where c: "map_of kids ''zarr.json'' = Some (FsFile c)"
    using d(1) kids by (auto simp: zarr_json_def split: option.splits fs_node.splits)
  have "filter (\<lambda>kv. is_fs_dir (snd kv) \<and> P kv) (AList.update n (FsFile f) xs) = filter (\<lambda>kv. is_fs_dir (snd kv) \<and> P kv) xs"
    if "map_of xs n = Some (FsFile c)" for P n f xs
    using that by (induction xs) (auto split: if_splits)
  then have "v3_members e' = v3_members e" using c by (simp add: v3_members_def e' kids)
  ultimately show thesis using a by (intro that)
qed

interpretation v3: zarr_laws "v3_ops rd" for rd
proof
  show "zr_open (v3_ops rd) e = Inr (ZGroup a cs) \<Longrightarrow> zr_attrs (v3_ops rd) e = Inr a" for e a cs
    by (auto simp: v3_ops_def v3_open.simps [of _ e] res_simps split: sum.splits znode.splits)
  show "zr_attrs (v3_ops rd) e = Inr a \<Longrightarrow> \<exists>d. zarr_json e = Some (JsonText (JObj d))
      \<and> obj_get d ''node_type'' = JStr ''group'' \<and> json_pairs (obj_get d ''attributes'') = a" for e a
    by (auto simp: v3_ops_def elim: v3_attrsE)
  show "zr_set_attr (v3_ops rd) e k v = Inr e' \<Longrightarrow>
      \<exists>a. zr_attrs (v3_ops rd) e = Inr a \<and> zr_attrs (v3_ops rd) e' = Inr (AList.update k v a)" for e k v e'
    by (auto simp: v3_ops_def elim: v3_set_attrE)
  show "zr_set_attr (v3_ops rd) e k v = Inr e' \<Longrightarrow> zr_open (v3_ops rd) e' = bind_res (zr_open (v3_ops rd) e)
      (\<lambda>n. Inr (case n of ZGroup a cs \<Rightarrow> ZGroup (AList.update k v a) cs | ZArray a d \<Rightarrow> ZArray a d))" for e k v e'
    by (auto simp: v3_ops_def v3_open.simps [of _ e] v3_open.simps [of _ e'] bind_res_assoc elim!: v3_set_attrE)
qed

lemma zarr_json_update:
  "k \<noteq> ''zarr.json'' \<or> is_fs_dir c \<and> zarr_json (FsDir kids) = None \<Longrightarrow> zarr_json (FsDir (AList.update k c kids)) = zarr_json (FsDir kids)"
  by (cases c) (auto simp: zarr_json_def update_conv')

lemma v3_markE:
  assumes "v3_mark e = Inr e'"
  shows "zarr_json e' \<noteq> None" "fs_get other e = Some c \<Longrightarrow> zarr_json c \<noteq> None \<Longrightarrow> \<exists>c'. fs_get other e' = Some c' \<and> zarr_json c' \<noteq> None"
proof -
  show marked: "zarr_json e' \<noteq> None"
    using assms by (auto simp: v3_mark_def zarr_json_def v3_group_doc_def map_add_def split: option.splits fs_node.splits)
  show "\<exists>c'. fs_get other e' = Some c' \<and> zarr_json c' \<noteq> None" if "fs_get other e = Some c" "zarr_json c \<noteq> None"
    using that assms marked by (cases other)
      (auto simp: v3_mark_def map_add_def split: option.splits fs_node.splits)
qed

lemma v3_require_dir: "v3_require e path = Inr e' \<Longrightarrow> is_fs_dir e'"
  by (cases "(e, path)" rule: v3_require.cases)
    (auto simp: res_simps elim: v3_attrsE split: option.splits fs_node.splits)

text \<open>Every way in which \<open>v3_require\<close> succeeds below the top.\<close>

lemma v3_requireE:
  assumes "v3_require (FsDir kids) (k # ks) = Inr e'"
  obtains c c' where "v3_mark (case map_of kids k of Some c \<Rightarrow> c | None \<Rightarrow> FsDir []) = Inr c" "v3_require c ks = Inr c'"
    "e' = FsDir (AList.update k c' kids)" "is_fs_dir c'" "\<And>f. map_of kids k \<noteq> Some (FsFile f)"
  using assms by (auto simp: res_simps dest: v3_require_dir split: option.splits fs_node.splits)

lemma v3_require_zarr_json: "v3_require e path = Inr e' \<Longrightarrow> zarr_json e' = zarr_json e"
proof (cases "(e, path)" rule: v3_require.cases)
  case (3 kids k ks)
  moreover assume "v3_require e path = Inr e'"
  ultimately have "v3_require (FsDir kids) (k # ks) = Inr e'" by simp
  then obtain c where c: "e' = FsDir (AList.update k c kids)" "is_fs_dir c" "\<And>f. map_of kids k \<noteq> Some (FsFile f)"
    by (rule v3_requireE) blast
  then have "k \<noteq> ''zarr.json'' \<or> zarr_json (FsDir kids) = None"
    by (auto simp: zarr_json_def split: option.splits fs_node.splits)
  with c 3 zarr_json_update show ?thesis by auto
qed (auto simp: res_simps)

lemma v3_require_keeps:
  assumes "v3_require e path = Inr e'" "fs_get other e = Some c" "zarr_json c \<noteq> None"
  shows "\<exists>c'. fs_get other e' = Some c' \<and> zarr_json c' \<noteq> None"
  using assms
proof (induction path arbitrary: e e' other c)
  case (Cons k ks)
  show ?case
  proof (cases other)
    case Nil
    with Cons.prems v3_require_zarr_json [OF Cons.prems(1)] show ?thesis by simp
  next
    case (Cons k' ks')
    obtain kids where kids: "e = FsDir kids" using Cons.prems(1) by (cases e) auto
    obtain c0 c1 where c: "v3_mark (case map_of kids k of Some c \<Rightarrow> c | None \<Rightarrow> FsDir []) = Inr c0"
        "v3_require c0 ks = Inr c1" "e' = FsDir (AList.update k c1 kids)"
      using Cons.prems(1) unfolding kids by (rule v3_requireE)
    show ?thesis
    proof (cases "k' = k")
      case False
      with Cons.prems(2,3) kids c(3) \<open>other = k' # ks'\<close> show ?thesis by (auto simp: update_conv')
    next
      case True
      then obtain d where d: "map_of kids k = Some d" "fs_get ks' d = Some c"
        using Cons.prems(2) kids \<open>other = k' # ks'\<close> by (auto split: option.splits)
      with c(1) v3_markE(2) [of d c0 ks' c] Cons.prems(3)
      obtain c' where "fs_get ks' c0 = Some c'" "zarr_json c' \<noteq> None" by auto
      from Cons.IH [OF c(2) this] True c(3) \<open>other = k' # ks'\<close> show ?thesis by (auto simp: update_conv')
    qed
  qed
qed (auto simp: res_simps)

lemma v3_require_item:
  "v3_require e path = Inr e' \<Longrightarrow> zarr_json e \<noteq> None \<or> path \<noteq> [] \<Longrightarrow> \<exists>c. fs_get path e' = Some c \<and> zarr_json c \<noteq> None"
proof (induction path arbitrary: e e')
  case Nil
  then show ?case by (auto simp: res_simps)
next
  case (Cons k ks)
  obtain kids where kids: "e = FsDir kids" using Cons.prems(1) by (cases e) auto
  obtain c0 c1 where c: "v3_mark (case map_of kids k of Some c \<Rightarrow> c | None \<Rightarrow> FsDir []) = Inr c0"
      "v3_require c0 ks = Inr c1" "e' = FsDir (AList.update k c1 kids)"
    using Cons.prems(1) unfolding kids by (rule v3_requireE)
  from Cons.IH [OF c(2)] v3_markE(1) [OF c(1)] c(3) show ?case by (auto simp: update_conv')
qed

lemma v3_item_iff: "v3_item e path = Inr () \<longleftrightarrow> (\<exists>c. fs_get path e = Some c \<and> zarr_json c \<noteq> None)"
  by (cases "fs_get path e") (auto simp: v3_item_def)

interpretation v3g: zarr_group_laws "v3_ops rd" for rd
proof
  show "zr_attrs (v3_ops rd) (zr_new (v3_ops rd)) = Inr []"
    by (simp add: v3_ops_def v3_attrs_def zarr_json_def v3_group_doc_def obj_get_def json_pairs_def)
  show "zr_require (v3_ops rd) e path = Inr e' \<Longrightarrow> zr_item (v3_ops rd) e' path = Inr ()" for e path e'
    using v3_require_item [of e path e']
    by (cases path) (auto simp: v3_ops_def v3_item_iff res_simps elim: v3_attrsE)
  show "zr_require (v3_ops rd) e path = Inr e' \<Longrightarrow> zr_item (v3_ops rd) e other = Inr () \<Longrightarrow> zr_item (v3_ops rd) e' other = Inr ()"
    for e path e' other
    using v3_require_keeps [of e path e' other] by (auto simp: v3_ops_def v3_item_iff)
  show "zr_require (v3_ops rd) e path = Inr e' \<Longrightarrow> zr_attrs (v3_ops rd) e' = zr_attrs (v3_ops rd) e" for e path e'
    using v3_require_zarr_json [of e path e'] by (simp add: v3_ops_def v3_attrs_def)
qed

end
