(* ===== verification/Zarr_Durable.thy ===== *)
theory Zarr_Durable
  imports Zarr_Laws "HOL-Library.Multiset"
begin

text \<open>
  The durable store of \<open>run/zarr_commit.py\<close> under its operations: a commit and its lookup, commits of several processes
  interleaved, quarantine, the staging directory, and a store created and opened.
\<close>

section \<open>A commit and its lookup\<close>

text \<open>The halves of a commit that returns.\<close>

lemma commit_keyE:
  assumes "zarr_laws z" "commit_key z h key staged ca st = (st', Inr outcome)"
  obtains st1 rd cd dir rec where "commit_publish z h key staged ca (rd, cd) st1 = (st', Inr outcome)"
    "fs_get staged (du_staging st1) = Some dir" "CommitRecord_from_dict rd = Inr rec" "committed_as z h rec dir"
    "cr_input_digest rec = JStr (ca_input_digest ca)" "du_store st1 = du_store st" "du_quarantine st1 = du_quarantine st"
    "key_path key = Inr key" "key \<noteq> []"
proof -
  obtain st1 rd cd where prep: "commit_prepare z h key staged ca st = (st1, Inr (rd, cd))"
    and pub: "commit_publish z h key staged ca (rd, cd) st1 = (st', Inr outcome)"
    using assms(2) by (auto simp: commit_key_def split: prod.splits sum.splits)
  obtain dir rec where dir: "fs_get staged (du_staging st1) = Some dir" "CommitRecord_from_dict rd = Inr rec"
      "committed_as z h rec dir" "cr_input_digest rec = JStr (ca_input_digest ca)"
      "du_store st1 = du_store st" "du_quarantine st1 = du_quarantine st"
    using zarr_laws.prepared_is_committed [OF assms(1) prep] by metis
  have "key_path key = Inr key" "key \<noteq> []" using commit_prepareE [OF prep] by metis+
  with pub dir show thesis by (rule that)
qed

text \<open>A record of another input digest makes the key stale.\<close>

lemma lookup_stale:
  assumes "store_at store key = Some e" "read_record_status z h e = Inr (Inr rec)" "key_path key = Inr key"
    "cr_input_digest rec = JStr input_digest" "other \<noteq> input_digest"
  shows "zarr_lookup z h store key other verify = Inr (ZStale rec)"
  using assms by (simp add: zarr_lookup_def)

lemma commit_lookup:
  assumes "zarr_laws z" "commit_key z h key staged ca st = (st', Inr (Committed rec))"
  shows "zarr_lookup z h (du_store st') key (ca_input_digest ca) True = Inr (ZReuse rec key)"
    and "other \<noteq> ca_input_digest ca \<Longrightarrow> zarr_lookup z h (du_store st') key other verify = Inr (ZStale rec)"
    and "apart key path \<Longrightarrow> store_at (du_store st') path = store_at (du_store st) path"
    and "du_quarantine st' = du_quarantine st"
proof -
  obtain st1 rd cd dir rec' where c: "commit_publish z h key staged ca (rd, cd) st1 = (st', Inr (Committed rec))"
      "fs_get staged (du_staging st1) = Some dir" "CommitRecord_from_dict rd = Inr rec'" "committed_as z h rec' dir"
      "cr_input_digest rec' = JStr (ca_input_digest ca)" "du_store st1 = du_store st" "du_quarantine st1 = du_quarantine st"
      "key_path key = Inr key" "key \<noteq> []"
    using assms by (rule commit_keyE)
  from c(1) obtain p where p: "store_at (du_store st1) (butlast key) = Some p" "is_fs_dir p"
      "st' = st1\<lparr>du_store := map_option (fs_put key (Some dir)) (du_store st1), du_staging := fs_put staged None (du_staging st1)\<rparr>"
      "rec = rec'"
  proof (cases rule: commit_publishE)
    case kept
    from kept(3) [of rec] show ?thesis by simp
  next
    case (renamed dir' p)
    with c(2,3) show ?thesis by (intro that [of p]) (simp_all split: option.splits)
  qed
  have "store_at (du_store st') key = Some dir" using p(3) store_at_put [OF c(9) p(1,2), of "Some dir"] by simp
  from zarr_laws.lookup_committed [OF assms(1) this c(4,8,5)] lookup_stale [OF this _ c(8,5)] c(4) p(4)
  show "zarr_lookup z h (du_store st') key (ca_input_digest ca) True = Inr (ZReuse rec key)"
    and "other \<noteq> ca_input_digest ca \<Longrightarrow> zarr_lookup z h (du_store st') key other verify = Inr (ZStale rec)"
    by (simp_all add: committed_as_def)
  show "apart key path \<Longrightarrow> store_at (du_store st') path = store_at (du_store st) path"
    using p(3) c(6) by (simp add: store_at_put_apart)
  show "du_quarantine st' = du_quarantine st" using p(3) c(7) by simp
qed

lemma commit_duplicate_lookup:
  assumes "zarr_laws z" "commit_key z h key staged ca st = (st', Inr (Duplicate rec))"
  shows "zarr_lookup z h (du_store st') key (ca_input_digest ca) (ca_verify_duplicate ca) = Inr (ZReuse rec key)"
    and "other \<noteq> ca_input_digest ca \<Longrightarrow> zarr_lookup z h (du_store st') key other verify = Inr (ZStale rec)"
    and "du_store st' = du_store st" "du_quarantine st' = du_quarantine st"
proof -
  obtain st1 rd cd where c: "commit_publish z h key staged ca (rd, cd) st1 = (st', Inr (Duplicate rec))"
      "du_store st1 = du_store st" "du_quarantine st1 = du_quarantine st" "key_path key = Inr key"
    using assms by (rule commit_keyE)
  from c(1) have "du_store st' = du_store st1 \<and> du_quarantine st' = du_quarantine st1"
  proof (cases rule: commit_publishE)
    case (renamed dir p)
    from renamed(6) show ?thesis by (cases "CommitRecord_from_dict rd") (simp_all split: option.splits)
  qed simp
  with c(2,3) show same: "du_store st' = du_store st" "du_quarantine st' = du_quarantine st" by simp_all
  obtain e where e: "store_at (du_store st1) key = Some e" "read_record z h e = Inr (Some rec)"
      "cr_input_digest rec = JStr (ca_input_digest ca)" "ca_verify_duplicate ca \<longrightarrow> group_is_valid z h e = Inr True"
    using commit_publish_duplicate [OF c(1)] by blast
  have at: "store_at (du_store st') key = Some e" using e(1) same(1) c(2) by simp
  from lookup_stale [OF at e(2) [unfolded read_record_iff] c(4) e(3)]
  show "other \<noteq> ca_input_digest ca \<Longrightarrow> zarr_lookup z h (du_store st') key other verify = Inr (ZStale rec)" by simp
  show "zarr_lookup z h (du_store st') key (ca_input_digest ca) (ca_verify_duplicate ca) = Inr (ZReuse rec key)"
  proof (cases "ca_verify_duplicate ca")
    case True
    with e zarr_laws.valid_is_committed [OF assms(1)] have "committed_as z h rec e" by blast
    from zarr_laws.lookup_committed [OF assms(1) _ this c(4) e(3), of "du_store st'" True] True e(1) same(1) c(2)
    show ?thesis by simp
  next
    case False
    with e c(2,4) same(1) show ?thesis by (simp add: zarr_lookup_def read_record_iff)
  qed
qed

text \<open>
  C33. A commit that succeeds is found: the lookup of the same input digest reuses the key, with the content
  verified when the key is new or the duplicate was verified; the lookup of any other input digest finds the key stale; every
  key apart from it and the quarantine are as they were.
\<close>

theorem commit_then_lookup:
  assumes "zarr_laws z" "commit_key z h key staged ca st = (st', Inr outcome)"
  shows "\<exists>rec. (outcome = Committed rec \<or> outcome = Duplicate rec)
    \<and> zarr_lookup z h (du_store st') key (ca_input_digest ca) (outcome = Committed rec \<or> ca_verify_duplicate ca)
        = Inr (ZReuse rec key)
    \<and> (\<forall>other verify. other \<noteq> ca_input_digest ca \<longrightarrow> zarr_lookup z h (du_store st') key other verify = Inr (ZStale rec))
    \<and> (outcome = Duplicate rec \<longrightarrow> du_store st' = du_store st)
    \<and> (\<forall>path. apart key path \<longrightarrow> store_at (du_store st') path = store_at (du_store st) path)
    \<and> du_quarantine st' = du_quarantine st"
proof (cases outcome)
  case (Committed rec)
  with commit_lookup [OF assms(1)] assms(2) show ?thesis by auto
next
  case (Duplicate rec)
  with commit_duplicate_lookup [OF assms(1)] assms(2) show ?thesis by auto
qed

text \<open>
  A commit that raises changes nothing in the quarantine, and nothing in the store unless it was the \<open>fsync\<close> after the
  rename that failed: then the key is visible, and the retry of the commit would find it.
\<close>

theorem failed_commit_keeps_the_store:
  assumes "zarr_laws z" "commit_key z h key staged ca st = (st', Inl e)"
  shows "du_quarantine st' = du_quarantine st \<and> (du_store st' = du_store st
    \<or> ca_fsync_parent ca = Some e \<and> (\<exists>rec. zarr_lookup z h (du_store st') key (ca_input_digest ca) True = Inr (ZReuse rec key)))"
proof (cases "commit_prepare z h key staged ca st")
  case (Pair st1 r)
  show ?thesis
  proof (cases r)
    case (Inl e')
    with Pair assms show ?thesis
      by (auto simp: commit_key_def commit_prepare_def Let_def remove_staged_def split: sum.splits option.splits)
  next
    case (Inr prep)
    obtain rd cd where prep: "prep = (rd, cd)" by (cases prep)
    with Pair Inr have p: "commit_prepare z h key staged ca st = (st1, Inr (rd, cd))" by simp
    obtain dir rec where dir: "fs_get staged (du_staging st1) = Some dir" "CommitRecord_from_dict rd = Inr rec"
        "committed_as z h rec dir" "cr_input_digest rec = JStr (ca_input_digest ca)"
        "du_store st1 = du_store st" "du_quarantine st1 = du_quarantine st"
      using zarr_laws.prepared_is_committed [OF assms(1) p] by metis
    have key: "key_path key = Inr key" "key \<noteq> []" using commit_prepareE [OF p] by metis+
    have "commit_publish z h key staged ca (rd, cd) st1 = (st', Inl e)" using assms(2) p by (simp add: commit_key_def)
    then show ?thesis
    proof (cases rule: commit_publishE)
      case (renamed dir' q)
      then have "ca_fsync_parent ca = Some e" using dir(2) by (simp split: option.splits)
      moreover have "store_at (du_store st') key = Some dir"
        using renamed(1,5) dir(1) store_at_put [OF key(2) renamed(3,4), of "Some dir"] by simp
      from zarr_laws.lookup_committed [OF assms(1) this dir(3) key(1) dir(4)]
      have "zarr_lookup z h (du_store st') key (ca_input_digest ca) True = Inr (ZReuse rec key)" .
      ultimately show ?thesis using renamed(5) dir(6) by auto
    qed (use dir in simp)
  qed
qed

section \<open>Commits of several processes\<close>

text \<open>
  \<open>job\<close> gives each writer its key, its staging directory and its arguments. A writer runs the first half of \<open>commit_key\<close>
  and, at any later moment, the second; in between the others run.
\<close>

type_synonym prepared = "(string \<times> json) list \<times> string"

type_synonym commit_state = "durable \<times> (nat \<Rightarrow> prepared option)"

inductive commit_step ::
  "zarr_ops \<Rightarrow> hash_ops \<Rightarrow> (nat \<Rightarrow> string list \<times> string list \<times> commit_args) \<Rightarrow> commit_state \<Rightarrow> commit_state \<Rightarrow> bool"
  for z h job
where
  prepare: "job w = (key, staged, ca) \<Longrightarrow> commit_prepare z h key staged ca st = (st', Inr prep)
    \<Longrightarrow> commit_step z h job (st, ws) (st', ws(w := Some prep))"
| refuse: "job w = (key, staged, ca) \<Longrightarrow> commit_prepare z h key staged ca st = (st', Inl e)
    \<Longrightarrow> commit_step z h job (st, ws) (st', ws(w := None))"
| publish: "job w = (key, staged, ca) \<Longrightarrow> ws w = Some prep \<Longrightarrow> commit_publish z h key staged ca prep st = (st', out)
    \<Longrightarrow> commit_step z h job (st, ws) (st', ws(w := None))"

definition commit_run ::
  "zarr_ops \<Rightarrow> hash_ops \<Rightarrow> (nat \<Rightarrow> string list \<times> string list \<times> commit_args) \<Rightarrow> commit_state \<Rightarrow> commit_state \<Rightarrow> bool"
where
  "commit_run z h job = (commit_step z h job)\<^sup>*\<^sup>*"

text \<open>How a change below a path looks from the path.\<close>

lemma fs_get_put_below: "r \<noteq> [] \<Longrightarrow> fs_get p (fs_put (p @ r) new e) = map_option (fs_put r new) (fs_get p e)"
proof (induction p arbitrary: e)
  case (Cons k ks)
  then obtain x xs where "ks @ r = x # xs" by (cases "ks @ r") auto
  with Cons show ?case by (cases e) (auto simp: update_conv' split: option.splits)
qed simp

lemma store_at_put_below:
  "r \<noteq> [] \<Longrightarrow> store_at (map_option (fs_put (p @ r) new) store) p = map_option (fs_put r new) (store_at store p)"
  by (cases store) (simp_all add: store_at_def fs_get_put_below)

lemma store_at_append: "store_at store (p @ r) = Option.bind (store_at store p) (fs_get r)"
  by (cases store) (auto simp: store_at_def fs_get_append split: option.splits)

lemma path_cases:
  obtains (apart) "apart k c" | (below) r where "k = c @ r" "r \<noteq> []" | (above) r where "c = k @ r"
proof -
  have "apart k c \<or> (\<exists>r. k = c @ r \<and> r \<noteq> []) \<or> (\<exists>r. c = k @ r)"
    by (induction k c rule: apart.induct) auto
  then show thesis using that by blast
qed

lemma fs_put_dir: "\<exists>kids'. fs_put (k # ks) new (FsDir kids) = FsDir kids'"
  by (cases ks) (auto split: option.splits)

lemma zarr_json_put:
  assumes "r \<noteq> []" "r \<noteq> [''zarr.json'']"
  shows "zarr_json (fs_put r new e) = zarr_json e"
proof (cases "(r, new, e)" rule: fs_put.cases)
  case (4 k k' ks new' kids)
  show ?thesis
  proof (cases "map_of kids k")
    case (Some c)
    obtain kids' where "c = FsDir b \<Longrightarrow> fs_put (k' # ks) new c = FsDir kids'" for b
      using fs_put_dir [of k' ks new] by (cases c) auto
    with 4 Some show ?thesis by (cases c) (auto simp: zarr_json_def update_conv')
  qed (use 4 in simp)
qed (use assms in \<open>auto simp: zarr_json_def update_conv' delete_conv' split: option.splits\<close>)

lemma fs_kids_put: "r \<noteq> [] \<Longrightarrow> fs_kids e \<noteq> [] \<Longrightarrow> fs_kids (fs_put r (Some n) e) \<noteq> []"
proof (cases "(r, Some n, e)" rule: fs_put.cases)
  case (3 k new kids)
  then show ?thesis by (cases kids) (auto split: if_splits)
next
  case (4 k k' ks new kids)
  moreover assume "fs_kids e \<noteq> []"
  ultimately show ?thesis by (cases kids) (auto split: option.splits if_splits)
qed auto

text \<open>No node above the path is a committed one, and the parent is a zarr node.\<close>

definition open_above :: "fs_node option \<Rightarrow> string list \<Rightarrow> bool" where
  "open_above store key \<longleftrightarrow> key \<noteq> []
     \<and> (\<exists>e. store_at store (butlast key) = Some e \<and> zarr_json e \<noteq> None)
     \<and> (\<forall>p r. key = p @ r \<and> p \<noteq> [] \<and> r \<noteq> [] \<longrightarrow>
          (\<exists>e. store_at store p = Some e \<and> fs_kids e \<noteq> [] \<and> \<not> has_commit_attr (Some e)))"

lemma zarr_json_kids: "zarr_json e \<noteq> None \<Longrightarrow> fs_kids e \<noteq> []"
  by (auto simp: zarr_json_def)

lemma fs_get_kids: "fs_get (x # xs) e = Some c \<Longrightarrow> fs_kids e \<noteq> []"
  by auto

lemma check_prefix_open:
  assumes "key \<noteq> []" "check_prefix key store = None"
  shows "open_above store key"
proof -
  let ?parent = "butlast key"
  obtain e where e: "store_at store ?parent = Some e" "zarr_json e \<noteq> None"
    using assms(2) by (cases "store_at store ?parent") (auto simp: check_prefix_def Let_def split: option.splits)
  have none: "filter (\<lambda>depth. has_commit_attr (store_at store (take depth ?parent))) [1..<length ?parent + 1] = []"
    using assms(2) e by (auto simp: check_prefix_def Let_def split: option.splits list.splits)
  have "\<exists>c. store_at store p = Some c \<and> fs_kids c \<noteq> [] \<and> \<not> has_commit_attr (Some c)"
    if pr: "key = p @ r" "p \<noteq> []" "r \<noteq> []" for p r
  proof -
    have parent: "?parent = p @ butlast r" using pr by (simp add: butlast_append)
    then have bound: "store_at store (p @ butlast r) = Some e" using e(1) by simp
    then obtain c where c: "store_at store p = Some c" "fs_get (butlast r) c = Some e"
      unfolding store_at_append by (cases "store_at store p") auto
    have "fs_kids c \<noteq> []"
      using c(2) zarr_json_kids [OF e(2)] by (cases "butlast r") (auto dest: fs_get_kids)
    moreover have "length p \<in> set [1..<length ?parent + 1]" using parent pr(2) by (cases p) auto
    with none have "\<not> has_commit_attr (store_at store (take (length p) ?parent))"
      unfolding filter_empty_conv by blast
    then have "\<not> has_commit_attr (Some c)" using parent c(1) by simp
    ultimately show ?thesis using c(1) by blast
  qed
  with assms(1) e show ?thesis unfolding open_above_def by blast
qed

text \<open>A rename onto a key, as the second half of a commit does it, with what it found there.\<close>

definition renamed_onto :: "string list \<Rightarrow> fs_node option \<Rightarrow> fs_node option \<Rightarrow> bool" where
  "renamed_onto key store store' \<longleftrightarrow>
     (\<exists>dir. store_at store key \<in> {None, Some (FsDir [])} \<and> store' = map_option (fs_put key (Some dir)) store)"

lemma renamed_nonempty:
  assumes "renamed_onto key store store'" "store_at store p = Some e" "fs_kids e \<noteq> []"
  shows "apart key p \<or> (\<exists>r. key = p @ r \<and> r \<noteq> [])"
proof (cases rule: path_cases [of key p])
  case (above r)
  have "store_at store key \<noteq> None" using assms(2) above by (auto simp: store_at_append split: bind_splits)
  with assms(1) have "store_at store key = Some (FsDir [])" by (auto simp: renamed_onto_def)
  with assms(2,3) above have False by (cases r) (auto simp: store_at_append)
  then show ?thesis ..
qed auto

lemma renamed_keeps_node:
  assumes "renamed_onto key store store'" "store_at store p = Some e" "fs_kids e \<noteq> []" "key \<noteq> p @ [''zarr.json''] \<or> zarr_json e \<noteq> None"
  obtains e' where "store_at store' p = Some e'" "fs_kids e' \<noteq> []" "zarr_json e' = zarr_json e"
proof -
  obtain dir where dir: "store_at store key \<in> {None, Some (FsDir [])}" "store' = map_option (fs_put key (Some dir)) store"
    using assms(1) by (auto simp: renamed_onto_def)
  from renamed_nonempty [OF assms(1-3)] show thesis
  proof
    assume "apart key p"
    with dir(2) assms(2,3) show thesis by (intro that [of e]) (simp_all add: store_at_put_apart)
  next
    assume "\<exists>r. key = p @ r \<and> r \<noteq> []"
    then obtain r where r: "key = p @ r" "r \<noteq> []" by blast
    have "r \<noteq> [''zarr.json'']"
    proof
      assume bad: "r = [''zarr.json'']"
      with assms(4) r have "zarr_json e \<noteq> None" by simp
      then have "\<exists>c. fs_get r e = Some (FsFile c)" using bad by (auto simp: zarr_json_def split: option.splits fs_node.splits)
      with dir(1) assms(2) r(1) show False by (auto simp: store_at_append)
    qed
    then have "zarr_json (fs_put r (Some dir) e) = zarr_json e" by (rule zarr_json_put [OF r(2)])
    with dir(2) r assms(2) fs_kids_put [OF r(2) assms(3)] show thesis
      by (intro that [of "fs_put r (Some dir) e"]) (simp_all add: store_at_put_below)
  qed
qed

lemma has_commit_attr_json: "zarr_json e = zarr_json e' \<Longrightarrow> has_commit_attr (Some e) = has_commit_attr (Some e')"
  by (simp add: has_commit_attr_def)

lemma renamed_keeps_open:
  assumes "renamed_onto key store store'" "open_above store key" "open_above store other"
  shows "open_above store' other"
proof -
  have parent: "zarr_json e \<noteq> None" if "key = p @ [''zarr.json'']" "store_at store p = Some e" for p e
    using assms(2) that by (auto simp: open_above_def)
  obtain e where e: "store_at store (butlast other) = Some e" "zarr_json e \<noteq> None"
    using assms(3) by (auto simp: open_above_def)
  obtain e' where e': "store_at store' (butlast other) = Some e'" "zarr_json e' = zarr_json e"
    using renamed_keeps_node [OF assms(1) e(1) zarr_json_kids [OF e(2)]] e(2) by blast
  have "\<exists>c. store_at store' p = Some c \<and> fs_kids c \<noteq> [] \<and> \<not> has_commit_attr (Some c)"
    if pr: "other = p @ r" "p \<noteq> []" "r \<noteq> []" for p r
  proof -
    obtain c where c: "store_at store p = Some c" "fs_kids c \<noteq> []" "\<not> has_commit_attr (Some c)"
      using assms(3) pr unfolding open_above_def by blast
    obtain c' where "store_at store' p = Some c'" "fs_kids c' \<noteq> []" "zarr_json c' = zarr_json c"
      using renamed_keeps_node [OF assms(1) c(1,2)] parent [OF _ c(1)] by blast
    with c(3) has_commit_attr_json [of c' c] show ?thesis by blast
  qed
  with assms(3) e e' show ?thesis unfolding open_above_def by metis
qed

lemma renamed_keeps_committed:
  assumes "renamed_onto key store store'" "open_above store key" "path \<noteq> []" "store_at store path = Some e" "has_commit_attr (Some e)"
  shows "store_at store' path = Some e"
proof -
  have "fs_kids e \<noteq> []" using assms(5) by (intro zarr_json_kids) (auto simp: has_commit_attr_def split: option.splits)
  from renamed_nonempty [OF assms(1,4) this] show ?thesis
  proof
    assume "apart key path"
    with assms(1,4) show ?thesis by (auto simp: renamed_onto_def store_at_put_apart)
  next
    assume "\<exists>r. key = path @ r \<and> r \<noteq> []"
    with assms(2-5) show ?thesis unfolding open_above_def by fastforce
  qed
qed

lemma commit_prepare_refused_store:
  "commit_prepare z h key staged ca st = (st', Inl e) \<Longrightarrow> du_store st' = du_store st"
  by (auto simp: commit_prepare_def Let_def remove_staged_def split: sum.splits option.splits)

lemma commit_publish_store:
  assumes "commit_publish z h key staged ca prep st = (st', out)"
  shows "du_store st' = du_store st \<or> renamed_onto key (du_store st) (du_store st')"
proof -
  obtain rd cd where "prep = (rd, cd)" by (cases prep)
  with assms have "commit_publish z h key staged ca (rd, cd) st = (st', out)" by simp
  then show ?thesis
    by (cases rule: commit_publishE) (auto simp: renamed_onto_def)
qed

definition prepared_ok :: "(nat \<Rightarrow> string list \<times> string list \<times> commit_args) \<Rightarrow> commit_state \<Rightarrow> bool" where
  "prepared_ok job = (\<lambda>(st, ws). \<forall>w prep. ws w = Some prep \<longrightarrow> open_above (du_store st) (fst (job w)))"

lemma commit_step_keeps:
  assumes "commit_step z h job s s'" "prepared_ok job s"
  shows "prepared_ok job s' \<and> (\<forall>path e. path \<noteq> [] \<and> store_at (du_store (fst s)) path = Some e \<and> has_commit_attr (Some e)
    \<longrightarrow> store_at (du_store (fst s')) path = Some e)"
  using assms
proof (induction rule: commit_step.induct)
  case (prepare w key staged ca st st' prep ws)
  obtain rd cd where prep: "prep = (rd, cd)" by (cases prep)
  obtain dir' where p: "key \<noteq> []" "check_prefix key (du_store st) = None"
      "st' = st\<lparr>du_staging := fs_put staged (Some dir') (du_staging st)\<rparr>"
    using prepare(2) [unfolded prep] by (rule commit_prepareE)
  then show ?case using check_prefix_open [OF p(1,2)] prepare(1,3) p(3) by (simp add: prepared_ok_def)
next
  case (refuse w key staged ca st st' e ws)
  then show ?case using commit_prepare_refused_store [OF refuse(2)] by (simp add: prepared_ok_def)
next
  case (publish w key staged ca ws prep st st' out)
  have open_key: "open_above (du_store st) key" using publish(1,2,4) by (cases prep) (force simp: prepared_ok_def)
  show ?case
  proof (cases "du_store st' = du_store st")
    case True
    then show ?thesis using publish(4) by (simp add: prepared_ok_def)
  next
    case False
    with commit_publish_store [OF publish(3)] have ren: "renamed_onto key (du_store st) (du_store st')" by blast
    show ?thesis
      using publish(4) renamed_keeps_open [OF ren open_key] renamed_keeps_committed [OF ren open_key]
      by (auto simp: prepared_ok_def)
  qed
qed

lemma commit_run_keeps:
  assumes "commit_run z h job s s'" "prepared_ok job s"
  shows "prepared_ok job s' \<and> (\<forall>path e. path \<noteq> [] \<and> store_at (du_store (fst s)) path = Some e \<and> has_commit_attr (Some e)
    \<longrightarrow> store_at (du_store (fst s')) path = Some e)"
  using assms(1) unfolding commit_run_def
  by (induction rule: rtranclp_induct) (use assms(2) commit_step_keeps in blast)+

text \<open>A commit whose first half was done before the key was committed does not get onto the key or below it.\<close>

lemma prepared_stays_off:
  assumes "prepared_ok job (st, ws)" "ws w = Some prep" "job w = (key @ r, staged, ca)" "key \<noteq> []"
    and "store_at (du_store st) key = Some e" "has_commit_attr (Some e)"
    and "commit_publish z h (key @ r) staged ca prep st = (st', out)"
  shows "out \<noteq> Inr (Committed rec)"
proof -
  obtain rd cd where prep: "prep = (rd, cd)" by (cases prep)
  have "open_above (du_store st) (fst (job w))" using assms(1,2) unfolding prepared_ok_def by auto
  then have "open_above (du_store st) (key @ r)" using assms(3) by simp
  then have r: "r = []" using assms(4-6) by (auto simp: open_above_def)
  have "fs_kids e \<noteq> []" using assms(6) by (intro zarr_json_kids) (auto simp: has_commit_attr_def split: option.splits)
  with assms(7) show ?thesis unfolding prep
    by (cases rule: commit_publishE) (use assms(5) r in auto)
qed

lemma record_has_attr:
  assumes "zarr_laws z" "read_record z h e = Inr (Some rec)"
  shows "has_commit_attr (Some e)"
proof -
  obtain a data where a: "zr_attrs z e = Inr a" "obj_get a COMMIT_ATTR = JObj data"
    using assms(2) unfolding read_record_iff
    by (auto simp: read_record_status_def split: option.splits file_content.splits json.splits sum.splits if_splits)
  then have "map_of a COMMIT_ATTR \<noteq> None" by (cases "map_of a COMMIT_ATTR") (simp_all add: obj_get_def)
  then have "COMMIT_ATTR \<in> fst ` set a" by (simp add: map_of_eq_None_iff)
  moreover obtain d where "zarr_json e = Some (JsonText (JObj d))" "json_pairs (obj_get d ''attributes'') = a"
    using zarr_laws.json_of_attrs [OF assms(1) a(1)] by blast
  ultimately show ?thesis by (auto simp: has_commit_attr_def json_pairs_def split: json.splits)
qed

text \<open>
  C32. However the halves of any number of commits are interleaved, a key keeps its directory from the moment it is
  committed: with other writers prepared for the same key or for keys below it, no later step changes anything at it or
  inside it, and no such writer's commit succeeds.
\<close>

theorem commits_keep_committed_keys:
  assumes "zarr_laws z" "commit_run z h job (st, \<lambda>_. None) (st1, ws1)"
    and "key \<noteq> []" "store_at (du_store st1) key = Some e" "read_record z h e = Inr (Some rec)"
    and "commit_run z h job (st1, ws1) (st2, ws2)"
  shows "(\<forall>r. store_at (du_store st2) (key @ r) = store_at (du_store st1) (key @ r))
    \<and> (\<forall>w r staged ca prep st3 out rec'. ws2 w = Some prep \<and> job w = (key @ r, staged, ca)
        \<and> commit_publish z h (key @ r) staged ca prep st2 = (st3, out) \<longrightarrow> out \<noteq> Inr (Committed rec'))"
proof -
  have attr: "has_commit_attr (Some e)" using record_has_attr [OF assms(1,5)] .
  have ok1: "prepared_ok job (st1, ws1)"
    using commit_run_keeps [OF assms(2)] by (simp add: prepared_ok_def)
  from commit_run_keeps [OF assms(6) ok1] have ok2: "prepared_ok job (st2, ws2)"
    and "store_at (du_store st2) key = Some e"
    using assms(3,4) attr by auto
  with assms(4) have "store_at (du_store st2) (key @ r) = store_at (du_store st1) (key @ r)" for r
    by (simp add: store_at_append)
  with prepared_stays_off [OF ok2 _ _ assms(3) \<open>store_at (du_store st2) key = Some e\<close> attr] show ?thesis by blast
qed

section \<open>Quarantine\<close>

lemma fs_mkdir_dir: "fs_mkdir ks e = Inr e' \<Longrightarrow> \<exists>p. fs_get ks e' = Some p \<and> is_fs_dir p"
  by (induction ks e arbitrary: e' rule: fs_mkdir.induct) (auto simp: res_simps update_conv')

lemma store_at_parent:
  assumes "store_at store key = Some g" "key \<noteq> []"
  shows "\<exists>p. store_at store (butlast key) = Some p \<and> is_fs_dir p"
  using assms fs_get_parent by (cases store) (auto simp: store_at_def)

lemma fs_put_parent:
  assumes "fs_get (butlast key) e = Some p" "is_fs_dir p" "key \<noteq> []"
  shows "\<exists>p'. fs_get (butlast key) (fs_put key new e) = Some p' \<and> is_fs_dir p'"
proof -
  have "fs_get (butlast key) (fs_put (butlast key @ [last key]) new e) = map_option (fs_put [last key] new) (fs_get (butlast key) e)"
    by (rule fs_get_put_below) simp
  with assms show ?thesis by (cases p) auto
qed

lemma quarantine_moveE:
  assumes "quarantine_move fsync key dest st = (st', out)" "key \<noteq> []" "dest \<noteq> []"
  obtains (stayed) "du_store st' = du_store st" "out \<noteq> Inr True" "out = Inr False \<Longrightarrow> store_at (du_store st) key = None"
  | (moved) g where "store_at (du_store st) key = Some g" "fs_get dest (du_quarantine st') = Some g"
    "du_store st' = map_option (fs_put key None) (du_store st)" "store_at (du_store st') key = None"
    "\<exists>p. store_at (du_store st') (butlast key) = Some p \<and> is_fs_dir p"
    "out = (case fsync of Some e \<Rightarrow> Inl e | None \<Rightarrow> Inr True)"
proof (cases "\<exists>q g. fs_mkdir (butlast dest) (du_quarantine st) = Inr q \<and> store_at (du_store st) key = Some g \<and> fs_get dest q \<in> {None, Some (FsDir [])}")
  case False
  with assms(1) have "du_store st' = du_store st \<and> out \<noteq> Inr True \<and> (out = Inr False \<longrightarrow> store_at (du_store st) key = None)"
    unfolding quarantine_move_def by (auto split: sum.splits option.splits if_splits)
  then show thesis by (intro stayed) simp_all
next
  case True
  then obtain q g where q: "fs_mkdir (butlast dest) (du_quarantine st) = Inr q" "store_at (du_store st) key = Some g"
      "fs_get dest q \<in> {None, Some (FsDir [])}"
    by blast
  with assms(1) have st': "st' = st\<lparr>du_store := map_option (fs_put key None) (du_store st), du_quarantine := fs_put dest (Some g) q\<rparr>"
      "out = (case fsync of Some e \<Rightarrow> Inl e | None \<Rightarrow> Inr True)"
    by (auto simp: quarantine_move_def)
  obtain p where p: "store_at (du_store st) (butlast key) = Some p" "is_fs_dir p"
    using store_at_parent [OF q(2) assms(2)] by blast
  obtain top where top: "du_store st = Some top" using q(2) by (cases "du_store st") (simp_all add: store_at_def)
  obtain d where d: "fs_get (butlast dest) q = Some d" "is_fs_dir d" using fs_mkdir_dir [OF q(1)] by blast
  have "fs_get dest (fs_put dest (Some g) q) = Some g" by (rule fs_get_put_same [OF assms(3) d])
  moreover have "store_at (map_option (fs_put key None) (du_store st)) key = None"
    using store_at_put [OF assms(2) p, of None] .
  moreover have "\<exists>p. store_at (map_option (fs_put key None) (du_store st)) (butlast key) = Some p \<and> is_fs_dir p"
    using fs_put_parent [OF _ p(2) assms(2), of top None] p(1) top by (simp add: store_at_def)
  ultimately show thesis using q st' by (intro moved [of g]) simp_all
qed

text \<open>Whether a directory can be renamed to the key.\<close>

definition key_free :: "fs_node option \<Rightarrow> string list \<Rightarrow> bool" where
  "key_free store key = (store_at store key \<in> {None, Some (FsDir [])} \<and> dir_at store (butlast key))"

text \<open>The check of what was moved, when it was not meant to be moved: it goes back, or both are kept.\<close>

lemma quarantine_settle_race:
  assumes "quarantine_settle z h fsync key dest expected st = (st', out)" "key \<noteq> []"
    and "fs_get dest (du_quarantine st) = Some g" "meant_to_move z h expected g = Inr False"
  obtains e where "out = Inl e"
    "if key_free (du_store st) key then du_store st' = map_option (fs_put key (Some g)) (du_store st) \<and> store_at (du_store st') key = Some g
     else st' = st"
    "key_free (du_store st) key \<Longrightarrow> fsync = None \<Longrightarrow> class_of e = QuarantineRaceError"
    "store_at (du_store st) key = Some (FsDir (k # ks)) \<Longrightarrow> class_of e = QuarantineRaceError"
proof (cases "key_free (du_store st) key")
  case True
  then obtain p where p: "store_at (du_store st) (butlast key) = Some p" "is_fs_dir p" by (auto simp: key_free_def)
  note put = store_at_put [OF assms(2) p, of "Some g"]
  from True assms(1,3,4) put that show thesis
    by (auto simp: quarantine_settle_def key_free_def)
next
  case False
  with assms(1,3,4) that show thesis
    by (auto simp: quarantine_settle_def key_free_def split: option.splits fs_node.splits list.splits if_splits)
qed

lemma quarantine_dest_nonempty [simp]: "quarantine_dest key token \<noteq> []"
  by (simp add: quarantine_dest_def)

text \<open>Every way in which a call of \<open>quarantine\<close> ends, when nothing runs in between.\<close>

lemma quarantine_cases:
  assumes "quarantine z h fsync1 fsync2 key expected token st = (st', out)"
  obtains (untouched) "du_store st' = du_store st" "\<And>dest. out \<noteq> Inr (Some dest)"
  | (moved) g where "store_at (du_store st) key = Some g" "store_at (du_store st') key = None"
      "fs_get (quarantine_dest key token) (du_quarantine st') = Some g" "du_store st' = map_option (fs_put key None) (du_store st)"
      "(\<exists>e. out = Inl e) \<or> out = Inr (Some (quarantine_dest key token))"
  | (restored) g e where "store_at (du_store st) key = Some g" "store_at (du_store st') key = Some g"
      "du_store st' = map_option (fs_put key (Some g) \<circ> fs_put key None) (du_store st)" "out = Inl e"
proof (cases "quarantine_check z h (du_store st) key")
  case (Inl e)
  with assms untouched show thesis by (auto simp: quarantine_def)
next
  case (Inr go)
  let ?dest = "quarantine_dest key token"
  have key: "key \<noteq> []" using Inr key_path_eq by (auto simp: quarantine_check_def res_simps)
  show thesis
  proof (cases go)
    case False
    with Inr assms show thesis by (intro untouched) (auto simp: quarantine_def)
  next
    case True
    obtain st1 r where mv: "quarantine_move fsync1 key ?dest st = (st1, r)" by (cases "quarantine_move fsync1 key ?dest st")
    have run: "(case r of Inl e \<Rightarrow> (st1, Inl e) | Inr True \<Rightarrow> quarantine_settle z h fsync2 key ?dest expected st1 | Inr False \<Rightarrow> (st1, Inr None)) = (st', out)"
      using assms Inr True mv by (simp add: quarantine_def)
    from mv key quarantine_dest_nonempty show thesis
    proof (cases rule: quarantine_moveE)
      case stayed
      with run show thesis by (intro untouched) (auto split: sum.splits bool.splits)
    next
      case (moved g)
      show thesis
      proof (cases fsync1)
        case (Some e)
        with run moved that(2) [of g] show thesis by auto
      next
        case None
        with run moved(6) have settle: "quarantine_settle z h fsync2 key ?dest expected st1 = (st', out)" by simp
        show thesis
        proof (cases "meant_to_move z h expected g = Inr False")
          case False
          with settle moved(1-5) that(2) [of g] show thesis
            by (cases "meant_to_move z h expected g") (auto simp: quarantine_settle_def split: bool.splits)
        next
          case True
          have free: "key_free (du_store st1) key" using moved(4,5) by (simp add: key_free_def)
          from quarantine_settle_race [OF settle key moved(2) True]
          obtain e where "out = Inl e" "du_store st' = map_option (fs_put key (Some g)) (du_store st1)" "store_at (du_store st') key = Some g"
            using free by metis
          with moved(1,3) show thesis by (intro restored [of g e]) (simp_all add: option.map_comp)
        qed
      qed
    qed
  qed
qed

text \<open>
  Quarantine deletes nothing: what was at the key is at the key still, or at the path that was made for it; every
  key apart from it keeps its directory; and after a move the lookup finds the key missing, so that it can be
  committed again.
\<close>

theorem quarantine_never_deletes:
  assumes "quarantine z h fsync1 fsync2 key expected token st = (st', out)"
  shows "(store_at (du_store st') key = store_at (du_store st) key
           \<or> fs_get (quarantine_dest key token) (du_quarantine st') = store_at (du_store st) key)
    \<and> (\<forall>path. apart key path \<longrightarrow> store_at (du_store st') path = store_at (du_store st) path)
    \<and> (\<forall>dest. out = Inr (Some dest) \<longrightarrow> fs_get dest (du_quarantine st') = store_at (du_store st) key
          \<and> (\<forall>digest verify. zarr_lookup z h (du_store st') key digest verify = Inr ZMissing))"
proof -
  have key: "key_path key = Inr key" if "out = Inr (Some dest)" for dest
    using assms that key_path_eq by (auto simp: quarantine_def quarantine_check_def res_simps split: sum.splits bool.splits)
  from assms show ?thesis
  proof (cases rule: quarantine_cases)
    case (moved g)
    have "zarr_lookup z h (du_store st') key digest verify = Inr ZMissing" if "out = Inr (Some dest)" for dest digest verify
      using key [OF that] moved(2) by (simp add: zarr_lookup_def)
    with moved show ?thesis by (auto simp: store_at_put_apart)
  next
    case (restored g e)
    have "store_at (du_store st') path = store_at (du_store st) path" if "apart key path" for path
      unfolding restored(3) option.map_comp [symmetric] using that by (simp add: store_at_put_apart)
    with restored show ?thesis by auto
  qed auto
qed

text \<open>
  C34. A group whose content matches its record that a quarantine has moved out, after a judgement of any age, and while
  others may have committed anything since: a caller who stated no digest or the digest of the group gets an error, and the
  group is put back when its key is still free, or stays in the quarantine beside the newer group at its key, which is kept;
  for a caller who wanted another digest the group is the stale one that was meant, and it stays in the quarantine.
\<close>

theorem quarantine_refuses_valid:
  assumes "quarantine_move None key dest st1 = (st2, Inr True)" "key \<noteq> []" "dest \<noteq> []"
    and "store_at (du_store st1) key = Some g" "group_is_valid z h g = Inr True" "read_record z h g = Inr (Some rec)"
    and "fs_get dest (du_quarantine st3) = fs_get dest (du_quarantine st2)"
    and "quarantine_settle z h None key dest expected st3 = (st4, out)"
  shows "if expected = None \<or> map_option JStr expected = Some (cr_input_digest rec)
    then (\<exists>e. out = Inl e
      \<and> (if key_free (du_store st3) key then store_at (du_store st4) key = Some g \<and> class_of e = QuarantineRaceError
         else du_store st4 = du_store st3 \<and> fs_get dest (du_quarantine st4) = Some g)
      \<and> (\<forall>k ks. store_at (du_store st3) key = Some (FsDir (k # ks)) \<longrightarrow> class_of e = QuarantineRaceError))
    else out = Inr (Some dest) \<and> st4 = st3 \<and> fs_get dest (du_quarantine st4) = Some g"
proof -
  from assms(1-3) have at: "fs_get dest (du_quarantine st3) = Some g"
    by (cases rule: quarantine_moveE) (use assms(4,7) in auto)
  show ?thesis
  proof (cases "expected = None \<or> map_option JStr expected = Some (cr_input_digest rec)")
    case True
    then have "meant_to_move z h expected g = Inr False" using assms(5,6) by (auto simp: meant_to_move_def)
    from quarantine_settle_race [OF assms(8,2) at this] obtain e where e: "out = Inl e"
      "if key_free (du_store st3) key then du_store st4 = map_option (fs_put key (Some g)) (du_store st3) \<and> store_at (du_store st4) key = Some g
       else st4 = st3"
      "key_free (du_store st3) key \<Longrightarrow> class_of e = QuarantineRaceError"
      "store_at (du_store st3) key = Some (FsDir (k # ks)) \<Longrightarrow> class_of e = QuarantineRaceError" for k ks
      by (metis (no_types))
    with True at show ?thesis by auto
  next
    case False
    then have "meant_to_move z h expected g = Inr True" using assms(5,6) by (auto simp: meant_to_move_def)
    with False at assms(8) show ?thesis by (auto simp: quarantine_settle_def)
  qed
qed

section \<open>The staging directory\<close>

text \<open>Which entries a sweep takes away, and which of those it reports.\<close>

definition gc_swept :: "(string \<Rightarrow> rat option) \<Rightarrow> (string \<Rightarrow> bool) \<Rightarrow> rat \<Rightarrow> rat \<Rightarrow> string list \<Rightarrow> string \<times> fs_node \<Rightarrow> bool" where
  "gc_swept mtime fails now older_than exclude = (\<lambda>(name, child). name \<notin> set exclude \<and> is_fs_dir child
     \<and> (case mtime name of None \<Rightarrow> False | Some m \<Rightarrow> older_than < now - m) \<and> (gc_suffixed name \<or> \<not> fails name))"

lemma gc_fold:
  "fold (gc_staging_step mtime fails now older_than exclude) xs (FsDir kids, removed) =
     (let swept = filter (gc_swept mtime fails now older_than exclude) xs in
      (FsDir (filter (\<lambda>kv. fst kv \<notin> fst ` set swept) kids), removed @ map fst (filter (\<lambda>kv. \<not> gc_suffixed (fst kv)) swept)))"
proof (induction xs arbitrary: kids removed)
  case (Cons x xs)
  obtain name child where x: "x = (name, child)" by (cases x)
  have delete: "AList.delete name kids = filter (\<lambda>kv. fst kv \<noteq> name) kids"
    by (induction kids) auto
  show ?case
    unfolding x fold_simps gc_staging_step_def prod.case
    using Cons [unfolded gc_staging_step_def]
    by (auto simp: gc_swept_def delete Let_def conj_commute not_less split: option.splits intro!: arg_cong [where f = FsDir] filter_cong)
qed (simp add: Let_def)

text \<open>
  A sweep of the staging directory takes away exactly the old directories that are not excluded and whose rename is
  granted, reports those that are not another collector's, and leaves every other entry and the store alone.
\<close>

theorem gc_staging_sweeps:
  assumes "du_staging st = FsDir kids" "distinct (map fst kids)"
  shows "gc_staging mtime fails now older_than exclude st =
    (st\<lparr>du_staging := FsDir (filter (\<lambda>kv. \<not> gc_swept mtime fails now older_than exclude kv) kids)\<rparr>,
     sort (map fst (filter (\<lambda>kv. gc_swept mtime fails now older_than exclude kv \<and> \<not> gc_suffixed (fst kv)) kids)))"
proof -
  let ?swept = "gc_swept mtime fails now older_than exclude"
  let ?sorted = "sort_key fst kids"
  have kept: "filter (\<lambda>kv. fst kv \<notin> fst ` set (filter ?swept ?sorted)) kids = filter (\<lambda>kv. \<not> ?swept kv) kids"
    using assms(2) by (intro filter_cong) (auto simp: image_iff dest: eq_key_imp_eq_value)
  have "sort (map fst (filter (\<lambda>kv. \<not> gc_suffixed (fst kv)) (filter ?swept ?sorted)))
      = sort (map fst (filter (\<lambda>kv. ?swept kv \<and> \<not> gc_suffixed (fst kv)) kids))"
    by (rule properties_for_sort) (simp_all add: conj_commute filter_sort)
  with kept show ?thesis by (simp add: gc_staging_def assms(1) gc_fold Let_def)
qed

section \<open>A store created and opened\<close>

lemma open_store_reads:
  assumes "zarr_laws z" "zr_attrs z e = Inr attrs" "obj_get attrs STORE_ATTR = JObj (store_fields identity digest creator now version)"
  shows "open_store z h payload prefixes (Some e) =
    bind_res (canonical_digest h (json_pairs (normalize_json h (JObj payload)))) (\<lambda>expected.
      if digest \<noteq> expected
      then Inl (Exn StoreIdentityMismatch ''''
        [ArgStrs (map fst payload)])
      else bind_res (check_prefixes z e prefixes) (\<lambda>_. Inr (store_fields identity digest creator now version)))"
proof -
  obtain d where "zarr_json e = Some (JsonText (JObj d))" using zarr_laws.json_of_attrs [OF assms(1,2)] by blast
  then have "''zarr.json'' \<in> fst ` set (fs_kids e)"
    by (auto simp: zarr_json_def split: option.splits dest!: map_of_SomeD intro: rev_image_eqI)
  moreover have "get_default (store_fields identity digest creator now version) ''identity_payload'' (JObj []) = JObj identity"
      "obj_get (store_fields identity digest creator now version) ''identity_digest'' = JStr digest"
    by (simp_all add: store_fields_def get_default_def obj_get_def)
  ultimately show ?thesis
    using assms(2,3) by (simp add: open_store_def json_pairs_def cong: if_cong)
qed

lemma check_prefixes_ok:
  "\<forall>p \<in> set prefixes. key_path p = Inr p \<and> zr_item z e p = Inr () \<Longrightarrow> check_prefixes z e prefixes = Inr ()"
  by (induction prefixes) auto

text \<open>
  C36. A store that was created can be opened with the identity and the prefixes it was created with, and an identity of
  another digest is refused. The creator that finds a store leaves it as it is.
\<close>

theorem create_then_open:
  assumes "zarr_group_laws z" "create_store z h payload creator now version prefixes writer st = (st', Inr created)"
  shows "if created
    then (\<exists>digest. canonical_digest h (json_pairs (normalize_json h (JObj payload))) = Inr digest
      \<and> open_store z h payload prefixes (du_store st')
          = Inr (store_fields (json_pairs (normalize_json h (JObj payload))) digest creator now version)
      \<and> (\<forall>other digest'. canonical_digest h (json_pairs (normalize_json h (JObj other))) = Inr digest' \<and> digest' \<noteq> digest
          \<longrightarrow> (\<exists>args. open_store z h other prefixes (du_store st') = Inl (Exn StoreIdentityMismatch '''' args))))
    else du_store st' = du_store st"
proof (cases created)
  case False
  with assms(2) show ?thesis
    by (auto simp: create_store_def Let_def split: sum.splits prod.splits option.splits fs_node.splits list.splits)
next
  case True
  let ?identity = "json_pairs (normalize_json h (JObj payload))"
  obtain top where top: "stage_root z h payload creator now version prefixes = (top, None)" "du_store st' = Some top"
    using assms(2) True
    by (auto simp: create_store_def Let_def split: sum.splits prod.splits option.splits fs_node.splits list.splits)
  obtain digest e where d: "canonical_digest h ?identity = Inr digest"
      "zr_set_attr z (zr_new z) STORE_ATTR (JObj (store_fields ?identity digest creator now version)) = Inr e"
      "require_groups z prefixes e = (top, None)"
    using top(1) by (auto simp: stage_root_def Let_def split: sum.splits)
  have laws: "zarr_laws z" using assms(1) by (rule zarr_group_laws.axioms)
  have "zr_attrs z e = Inr [(STORE_ATTR, JObj (store_fields ?identity digest creator now version))]"
    using zarr_laws.set_attr_group [OF laws d(2)] zarr_group_laws.new_attrs [OF assms(1)] by auto
  with zarr_group_laws.require_groups_ok [OF assms(1) d(3)]
  have top_ok: "zr_attrs z top = Inr [(STORE_ATTR, JObj (store_fields ?identity digest creator now version))]"
    "check_prefixes z top prefixes = Inr ()"
    by (auto intro: check_prefixes_ok)
  have opens: "open_store z h other prefixes (Some top) =
    bind_res (canonical_digest h (json_pairs (normalize_json h (JObj other)))) (\<lambda>expected.
      if digest \<noteq> expected
      then Inl (Exn StoreIdentityMismatch ''''
        [ArgStrs (map fst other)])
      else Inr (store_fields ?identity digest creator now version))" for other
    using open_store_reads [OF laws top_ok(1), of ?identity digest creator now version h other prefixes] top_ok(2)
    by (simp add: obj_get_def cong: if_cong)
  show ?thesis using True d(1) top(2) opens by auto
qed

section \<open>Concrete runs\<close>

definition demo_hash :: hash_ops where
  "demo_hash = \<lparr>ho_sha = (\<lambda>ts. replicate (length ts) CHR ''x''), ho_nfc = (\<lambda>s. s)\<rparr>"

definition demo_zarr :: zarr_ops where
  "demo_zarr = v3_ops (\<lambda>e. Inl (Exn BaseZarrError ''no array here'' []))"

definition demo_group :: "(string \<times> fs_node) list \<Rightarrow> fs_node" where
  "demo_group kids = FsDir ((''zarr.json'', v3_group_doc) # kids)"

definition demo_durable :: durable where
  "demo_durable = \<lparr>du_store = Some (demo_group [(''a'', demo_group [])]),
     du_staging = FsDir [(''s'', demo_group []), (''t'', demo_group [])], du_quarantine = FsDir []\<rparr>"

definition demo_commit :: "string \<Rightarrow> commit_args" where
  "demo_commit digest = \<lparr>ca_input_digest = digest, ca_input_payload = [], ca_meta = [], ca_run_id = ''r'', ca_env = [],
     ca_now = ''2026'', ca_verify_duplicate = True, ca_fsync_staged = None, ca_fsync_parent = None\<rparr>"

definition demo_committed :: durable where
  "demo_committed = fst (commit_key demo_zarr demo_hash [''a'', ''k''] [''s''] (demo_commit ''d'') demo_durable)"

lemma demo_laws: "zarr_laws demo_zarr" "zarr_group_laws demo_zarr"
  unfolding demo_zarr_def by (rule v3.zarr_laws_axioms, rule v3g.zarr_group_laws_axioms)

lemma ok_result: "is_ok (snd x) \<Longrightarrow> x = (fst x, Inr (projr (snd x)))"
  by (cases x; cases "snd x") auto

lemma demo_commit_runs:
  "commit_key demo_zarr demo_hash [''a'', ''k''] [''s''] (demo_commit ''d'') demo_durable
    = (demo_committed, Inr (projr (snd (commit_key demo_zarr demo_hash [''a'', ''k''] [''s''] (demo_commit ''d'') demo_durable))))"
proof -
  have "is_ok (snd (commit_key demo_zarr demo_hash [''a'', ''k''] [''s''] (demo_commit ''d'') demo_durable))" by code_simp
  from ok_result [OF this] show ?thesis unfolding demo_committed_def .
qed

definition demo_group_k :: fs_node where
  "demo_group_k = the (store_at (du_store demo_committed) [''a'', ''k''])"

definition demo_record :: commit_record where
  "demo_record = the (projr (read_record demo_zarr demo_hash demo_group_k))"

lemma demo_group_k_at: "store_at (du_store demo_committed) [''a'', ''k''] = Some demo_group_k"
  by code_simp

lemma demo_record_at:
  "read_record demo_zarr demo_hash demo_group_k = Inr (Some demo_record)" "group_is_valid demo_zarr demo_hash demo_group_k = Inr True"
  "cr_input_digest demo_record = JStr ''d''"
  by code_simp+

theorem commit_then_lookup_witness:
  "\<exists>rec path. zarr_lookup demo_zarr demo_hash (du_store demo_committed) [''a'', ''k''] ''d'' True = Inr (ZReuse rec path)
    \<and> zarr_lookup demo_zarr demo_hash (du_store demo_committed) [''a'', ''k''] ''e'' True = Inr (ZStale rec)"
proof -
  note run = commit_then_lookup [OF demo_laws(1) demo_commit_runs]
  have "ca_input_digest (demo_commit ''d'') = ''d''" "ca_verify_duplicate (demo_commit ''d'')" by (simp_all add: demo_commit_def)
  with run show ?thesis by auto
qed

text \<open>Two writers of one key: both are prepared before the first is published.\<close>

definition race_job :: "nat \<Rightarrow> string list \<times> string list \<times> commit_args" where
  "race_job w = ([''a'', ''k''], if w = 0 then [''s''] else [''t''], demo_commit (if w = 0 then ''d'' else ''e''))"

definition race_prep0 :: "durable \<times> ((string \<times> json) list \<times> string) res" where
  "race_prep0 = commit_prepare demo_zarr demo_hash [''a'', ''k''] [''s''] (demo_commit ''d'') demo_durable"

definition race_prep1 :: "durable \<times> ((string \<times> json) list \<times> string) res" where
  "race_prep1 = commit_prepare demo_zarr demo_hash [''a'', ''k''] [''t''] (demo_commit ''e'') (fst race_prep0)"

definition race_pub0 :: "durable \<times> commit_outcome res" where
  "race_pub0 = commit_publish demo_zarr demo_hash [''a'', ''k''] [''s''] (demo_commit ''d'') (projr (snd race_prep0)) (fst race_prep1)"

definition race_pub1 :: "durable \<times> commit_outcome res" where
  "race_pub1 = commit_publish demo_zarr demo_hash [''a'', ''k''] [''t''] (demo_commit ''e'') (projr (snd race_prep1)) (fst race_pub0)"

lemma race_ok: "is_ok (snd race_prep0)" "is_ok (snd race_prep1)" "store_at (du_store (fst race_pub0)) [''a'', ''k''] = Some demo_group_k"
  by code_simp+

lemma race_run:
  "commit_run demo_zarr demo_hash race_job (demo_durable, \<lambda>_. None) (fst race_pub0, (\<lambda>_. None)(1 := Some (projr (snd race_prep1))))"
  "commit_run demo_zarr demo_hash race_job (fst race_pub0, (\<lambda>_. None)(1 := Some (projr (snd race_prep1)))) (fst race_pub1, \<lambda>_. None)"
proof -
  let ?none = "(\<lambda>_. None) :: nat \<Rightarrow> prepared option" and ?p0 = "projr (snd race_prep0)" and ?p1 = "projr (snd race_prep1)"
  let ?step = "commit_step demo_zarr demo_hash race_job"
  have job: "race_job 0 = ([''a'', ''k''], [''s''], demo_commit ''d'')" "race_job 1 = ([''a'', ''k''], [''t''], demo_commit ''e'')"
    by (simp_all add: race_job_def)
  have 1: "?step (demo_durable, ?none) (fst race_prep0, ?none(0 := Some ?p0))"
    using job(1) by (rule commit_step.prepare) (use ok_result [OF race_ok(1)] race_prep0_def in simp)
  have 2: "?step (fst race_prep0, ?none(0 := Some ?p0)) (fst race_prep1, (?none(0 := Some ?p0))(1 := Some ?p1))"
    using job(2) by (rule commit_step.prepare) (use ok_result [OF race_ok(2)] race_prep1_def in simp)
  have "?step (fst race_prep1, (?none(0 := Some ?p0))(1 := Some ?p1)) (fst race_pub0, ((?none(0 := Some ?p0))(1 := Some ?p1))(0 := None))"
    using job(1) by (rule commit_step.publish [where out = "snd race_pub0"]) (simp_all add: race_pub0_def)
  moreover have "((?none(0 := Some ?p0))(1 := Some ?p1))(0 := None) = ?none(1 := Some ?p1)" by auto
  ultimately have 3: "?step (fst race_prep1, (?none(0 := Some ?p0))(1 := Some ?p1)) (fst race_pub0, ?none(1 := Some ?p1))" by simp
  have "?step (fst race_pub0, ?none(1 := Some ?p1)) (fst race_pub1, (?none(1 := Some ?p1))(1 := None))"
    using job(2) by (rule commit_step.publish [where out = "snd race_pub1"]) (simp_all add: race_pub1_def)
  moreover have "(?none(1 := Some ?p1))(1 := None) = ?none" by auto
  ultimately have 4: "?step (fst race_pub0, ?none(1 := Some ?p1)) (fst race_pub1, ?none)" by simp
  show "commit_run demo_zarr demo_hash race_job (demo_durable, ?none) (fst race_pub0, ?none(1 := Some ?p1))"
    unfolding commit_run_def
    using 1 2 3 by (meson converse_rtranclp_into_rtranclp r_into_rtranclp)
  show "commit_run demo_zarr demo_hash race_job (fst race_pub0, ?none(1 := Some ?p1)) (fst race_pub1, ?none)"
    unfolding commit_run_def using 4 by (rule r_into_rtranclp)
qed

theorem commits_keep_committed_keys_witness:
  "store_at (du_store (fst race_pub1)) [''a'', ''k''] = Some demo_group_k"
proof -
  have "[''a'', ''k''] \<noteq> []" by simp
  from commits_keep_committed_keys [OF demo_laws(1) race_run(1) this race_ok(3) demo_record_at(1) race_run(2)]
  have "store_at (du_store (fst race_pub1)) ([''a'', ''k''] @ []) = store_at (du_store (fst race_pub0)) ([''a'', ''k''] @ [])" by blast
  then show ?thesis by (simp add: race_ok(3))
qed

definition demo_quarantine :: "durable \<times> string list option res" where
  "demo_quarantine = quarantine demo_zarr demo_hash None None [''a'', ''k''] (Some ''other'') ''0'' demo_committed"

theorem quarantine_never_deletes_witness:
  "fs_get [''a'', ''k-0''] (du_quarantine (fst demo_quarantine)) = Some demo_group_k
    \<and> zarr_lookup demo_zarr demo_hash (du_store (fst demo_quarantine)) [''a'', ''k''] ''d'' True = Inr ZMissing"
proof -
  have "quarantine demo_zarr demo_hash None None [''a'', ''k''] (Some ''other'') ''0'' demo_committed
      = (fst demo_quarantine, Inr (Some [''a'', ''k-0'']))"
    by code_simp
  from quarantine_never_deletes [OF this] show ?thesis by (simp add: demo_group_k_at)
qed

text \<open>A quarantine of the committed key, and another commit of it before the check of what was moved.\<close>

definition demo_moved :: "durable \<times> bool res" where
  "demo_moved = quarantine_move None [''a'', ''k''] [''a'', ''k-0''] demo_committed"

definition demo_retaken :: durable where
  "demo_retaken = fst (commit_key demo_zarr demo_hash [''a'', ''k''] [''t''] (demo_commit ''e'') (fst demo_moved))"

theorem quarantine_refuses_valid_witness:
  "\<exists>st out. quarantine_settle demo_zarr demo_hash None [''a'', ''k''] [''a'', ''k-0''] (Some ''d'') demo_retaken = (st, Inl out)
     \<and> class_of out = QuarantineRaceError
     \<and> fs_get [''a'', ''k-0''] (du_quarantine st) = Some demo_group_k
     \<and> zarr_lookup demo_zarr demo_hash (du_store st) [''a'', ''k''] ''e'' False \<noteq> Inr ZMissing"
proof -
  let ?settle = "quarantine_settle demo_zarr demo_hash None [''a'', ''k''] [''a'', ''k-0''] (Some ''d'') demo_retaken"
  have moved: "quarantine_move None [''a'', ''k''] [''a'', ''k-0''] demo_committed = (fst demo_moved, Inr True)" by code_simp
  have kept: "fs_get [''a'', ''k-0''] (du_quarantine demo_retaken) = fs_get [''a'', ''k-0''] (du_quarantine (fst demo_moved))" by code_simp
  have "is_fs_dir (the (store_at (du_store demo_retaken) [''a'', ''k'']))" "fs_kids (the (store_at (du_store demo_retaken) [''a'', ''k''])) \<noteq> []"
    "store_at (du_store demo_retaken) [''a'', ''k''] \<noteq> None"
    by code_simp+
  then obtain k ks where at: "store_at (du_store demo_retaken) [''a'', ''k''] = Some (FsDir (k # ks))"
    by (cases "the (store_at (du_store demo_retaken) [''a'', ''k''])"; cases "fs_kids (the (store_at (du_store demo_retaken) [''a'', ''k'']))") auto
  have there: "is_ok (zarr_lookup demo_zarr demo_hash (du_store demo_retaken) [''a'', ''k''] ''e'' False)
    \<and> zarr_lookup demo_zarr demo_hash (du_store demo_retaken) [''a'', ''k''] ''e'' False \<noteq> Inr ZMissing" by code_simp
  have ne: "[''a'', ''k''] \<noteq> []" "[''a'', ''k-0''] \<noteq> []" by simp_all
  have expected: "Some ''d'' = None \<or> map_option JStr (Some ''d'') = Some (cr_input_digest demo_record)" using demo_record_at(3) by simp
  have taken: "\<not> key_free (du_store demo_retaken) [''a'', ''k'']" using at by (simp add: key_free_def)
  note q = quarantine_refuses_valid [OF moved ne demo_group_k_at demo_record_at(2,1) kept prod.collapse [symmetric, of ?settle]]
  from q [unfolded if_P [OF expected] if_not_P [OF taken]]
  obtain e where e: "snd ?settle = Inl e" "du_store (fst ?settle) = du_store demo_retaken"
      "fs_get [''a'', ''k-0''] (du_quarantine (fst ?settle)) = Some demo_group_k" "class_of e = QuarantineRaceError"
    using at by blast
  have "?settle = (fst ?settle, Inl e)" using e(1) by (simp add: prod_eq_iff)
  with e(2-4) there show ?thesis by metis
qed

definition demo_create :: "durable \<times> bool res" where
  "demo_create = create_store demo_zarr demo_hash [(''name'', JStr ''s'')] ''r'' ''2026'' ''1.0'' [[''a''], [''b'', ''c'']] ''w''
     \<lparr>du_store = None, du_staging = FsDir [], du_quarantine = FsDir []\<rparr>"

theorem create_then_open_witness:
  "is_ok (open_store demo_zarr demo_hash [(''name'', JStr ''s'')] [[''a''], [''b'', ''c'']] (du_store (fst demo_create)))"
proof -
  have "create_store demo_zarr demo_hash [(''name'', JStr ''s'')] ''r'' ''2026'' ''1.0'' [[''a''], [''b'', ''c'']] ''w''
      \<lparr>du_store = None, du_staging = FsDir [], du_quarantine = FsDir []\<rparr> = (fst demo_create, Inr True)"
    by code_simp
  from create_then_open [OF demo_laws(2) this] show ?thesis by auto
qed

text \<open>
  The check that no group above a key is committed is made before the rename and not with it: a quarantine of the still
  empty prefix and a commit of the prefix as a key in between let the rename put a key inside a committed group, whose
  content then no longer matches its record.
\<close>

theorem quarantined_prefix_breaks_a_commit:
  "(let z = demo_zarr; h = demo_hash;
        (st1, prepared) = commit_prepare z h [''a'', ''k''] [''s''] (demo_commit ''d'') demo_durable;
        (st2, moved) = quarantine z h None None [''a''] None ''0'' st1;
        (st3, first) = commit_key z h [''a''] [''t''] (demo_commit ''e'') st2;
        (st4, second) = commit_publish z h [''a'', ''k''] [''s''] (demo_commit ''d'') (projr prepared) st3
    in moved = Inr (Some [''a-0'']) \<and> is_ok first \<and> is_ok second
     \<and> is_ok (zarr_lookup z h (du_store st3) [''a''] ''e'' True)
     \<and> zarr_lookup z h (du_store st4) [''a''] ''e'' True = Inr (ZCorrupt ''content digest mismatch'')
     \<and> committed_keys z h (du_store st4) [] = Inr [[''a'']])"
  by code_simp

end
