(* ===== verification/Unit_Zarr.thy ===== *)
theory Unit_Zarr
  imports Unit_Index Zarr_Durable
begin

text \<open>
  The unit index over a durable store: \<open>ZarrCommitAdapter\<close> of \<open>run/unit_index.py\<close>. A unit is a key of the store, its locator the
  key's path. The last sections list the keys of a store and join the two components: what is committed and has a row is
  answered by the index.
\<close>

section \<open>The adapter\<close>

text \<open>\<open>"/".join(key)\<close> and \<open>locator.split("/")\<close>.\<close>

fun slash_join :: "string list \<Rightarrow> string" where
  "slash_join [] = []"
| "slash_join [p] = p"
| "slash_join (p # ps) = p @ ''/'' @ slash_join ps"

definition slash_split :: "string \<Rightarrow> string list" where
  "slash_split = split_at (\<lambda>c. c = CHR ''/'')"

text \<open>The digests and the run of a record are texts.\<close>

definition json_str_of :: "json \<Rightarrow> string" where
  "json_str_of j = (case j of JStr s \<Rightarrow> s | _ \<Rightarrow> [])"

definition core_from_commit :: "string \<Rightarrow> commit_record \<Rightarrow> core_record" where
  "core_from_commit locator r =
     \<lparr>co_unit_key = locator, co_input_digest = json_str_of (cr_input_digest r), co_content_digest = json_str_of (cr_content_digest r),
      co_record_digest = json_str_of (cr_record_digest r), co_run_id = json_str_of (cr_run_id r)\<rparr>"

definition zarr_find :: "zarr_ops \<Rightarrow> hash_ops \<Rightarrow> fs_node option \<Rightarrow> (string \<times> core_record) list res" where
  "zarr_find z h store =
     bind_res (committed_keys z h store []) (\<lambda>keys.
     bind_res (traverse_res (\<lambda>key. bind_res (key_path key) (\<lambda>path.
       case store_at store path of
         None \<Rightarrow> Inr []
       | Some e \<Rightarrow> bind_res (read_record z h e) (\<lambda>r. Inr (case r of
           None \<Rightarrow> []
         | Some rec \<Rightarrow> [(slash_join path, core_from_commit (slash_join path) rec)])))) keys)
       (\<lambda>found. Inr (concat found)))"

text \<open>\<open>stores\<close> gives the directory that a store's name leads to.\<close>

definition zarr_classify ::
  "path_ops \<Rightarrow> zarr_ops \<Rightarrow> hash_ops \<Rightarrow> (string \<Rightarrow> fs_node option) \<Rightarrow> string \<Rightarrow> string \<Rightarrow> string \<Rightarrow> bool \<Rightarrow> lookup_result res"
where
  "zarr_classify po z h stores store locator input_digest verify =
     (case zarr_lookup z h (stores store) (slash_split locator) input_digest verify of
        Inl e \<Rightarrow> if class_of e = ValueError then Inr (Corrupt (''illegal zarr_commit locator '' @ locator)) else Inl e
      | Inr (ZReuse rec _) \<Rightarrow> bind_res (canonical_store po store) (\<lambda>s. Inr (IndexReuse s locator (core_from_commit locator rec)))
      | Inr (ZStale rec) \<Rightarrow> bind_res (canonical_store po store) (\<lambda>s. Inr (IndexStale s locator (core_from_commit locator rec)))
      | Inr ZMissing \<Rightarrow> Inr Missing
      | Inr (ZCorrupt reason) \<Rightarrow> Inr (Corrupt reason))"

lemma split_at_join:
  assumes "\<forall>p \<in> set ps. CHR ''/'' \<notin> set p" "ps \<noteq> []"
  shows "slash_split (slash_join ps) = ps"
proof -
  have plain: "split_at (\<lambda>c. c = CHR ''/'') p = [p]" if "CHR ''/'' \<notin> set p" for p
    using that by (induction p) auto
  have sep: "split_at (\<lambda>c. c = CHR ''/'') (p @ CHR ''/'' # rest) = p # split_at (\<lambda>c. c = CHR ''/'') rest"
    if "CHR ''/'' \<notin> set p" for p rest
    using that by (induction p) auto
  show ?thesis
    using assms unfolding slash_split_def
    by (induction ps rule: slash_join.induct) (simp_all add: plain sep)
qed

lemma key_path_split: "key_path key = Inr path \<Longrightarrow> slash_split (slash_join key) = key"
  by (rule split_at_join) (auto simp: key_path_def bad_part_def filter_empty_conv split: if_splits list.splits)

section \<open>The keys of a store\<close>

fun fs_wf :: "fs_node \<Rightarrow> bool" where
  "fs_wf (FsFile c) = True"
| "fs_wf (FsDir kids) = (distinct (map fst kids) \<and> (\<forall>kv \<in> set kids. fs_wf (snd kv)))"

definition committed_node :: "zarr_ops \<Rightarrow> hash_ops \<Rightarrow> fs_node \<Rightarrow> bool" where
  "committed_node z h e = (case read_record z h e of Inr (Some _) \<Rightarrow> True | _ \<Rightarrow> False)"

lemma committed_node_iff: "committed_node z h e \<longleftrightarrow> (\<exists>rec. read_record z h e = Inr (Some rec))"
  by (auto simp: committed_node_def split: sum.splits option.splits)

text \<open>A committed group that lies in no other.\<close>

fun top_committed :: "zarr_ops \<Rightarrow> hash_ops \<Rightarrow> fs_node \<Rightarrow> string list \<Rightarrow> bool" where
  "top_committed z h e [] = committed_node z h e"
| "top_committed z h e (k # ks) = (\<not> committed_node z h e
     \<and> (case map_of (fs_kids e) k of None \<Rightarrow> False | Some c \<Rightarrow> top_committed z h c ks))"

lemma committed_file: "\<not> committed_node z h (FsFile c)"
  by (simp add: committed_node_iff read_record_def read_record_status_def zarr_json_def)

lemma walk_keys_mem:
  assumes "fs_wf e" "walk_keys z h path e = Inr ks"
  shows "k \<in> set ks \<longleftrightarrow> (\<exists>r. k = path @ r \<and> top_committed z h e r)"
  using assms
proof (induction z h path e arbitrary: ks k rule: walk_keys.induct)
  case (1 z h path c)
  have "\<not> top_committed z h (FsFile c) r" for r
    by (cases r) (simp_all add: committed_file)
  with 1 show ?case by simp
next
  case (2 z h path kids)
  show ?case
  proof (cases "committed_node z h (FsDir kids)")
    case True
    then have "ks = [path]" using 2(3) by (auto simp: committed_node_iff)
    moreover have "top_committed z h (FsDir kids) r \<longleftrightarrow> r = []" for r
      by (cases r) (simp_all add: True)
    ultimately show ?thesis by auto
  next
    case False
    then obtain kss where kss: "read_record z h (FsDir kids) = Inr None" "ks = concat kss"
        "list_all2 (\<lambda>kv ks. walk_keys z h (path @ [fst kv]) (snd kv) = Inr ks) (sort_key fst kids) kss"
      using 2(3) by (auto simp: committed_node_iff res_simps split: option.splits)
    have child: "k \<in> set ks' \<longleftrightarrow> (\<exists>r. k = path @ fst kv # r \<and> top_committed z h (snd kv) r)"
      if "kv \<in> set kids" "walk_keys z h (path @ [fst kv]) (snd kv) = Inr ks'" for kv ks'
      using "2.IH" [OF kss(1) refl, of kv ks' k] that "2.prems"(1) by auto
    have "k \<in> set ks \<longleftrightarrow> (\<exists>kv \<in> set kids. \<exists>r. k = path @ fst kv # r \<and> top_committed z h (snd kv) r)"
    proof
      assume "k \<in> set ks"
      then obtain ks' where "ks' \<in> set kss" "k \<in> set ks'" using kss(2) by auto
      moreover from list_all2_pick(2) [OF kss(3) this(1)]
      obtain kv where "kv \<in> set kids" "walk_keys z h (path @ [fst kv]) (snd kv) = Inr ks'" by auto
      ultimately show "\<exists>kv \<in> set kids. \<exists>r. k = path @ fst kv # r \<and> top_committed z h (snd kv) r" using child by blast
    next
      assume "\<exists>kv \<in> set kids. \<exists>r. k = path @ fst kv # r \<and> top_committed z h (snd kv) r"
      then obtain kv where kv: "kv \<in> set kids" "\<exists>r. k = path @ fst kv # r \<and> top_committed z h (snd kv) r" by blast
      then obtain ks' where ks': "ks' \<in> set kss" "walk_keys z h (path @ [fst kv]) (snd kv) = Inr ks'"
        using list_all2_pick(1) [OF kss(3), of kv] by auto
      from child [OF kv(1) ks'(2)] kv(2) have "k \<in> set ks'" by blast
      with ks'(1) kss(2) show "k \<in> set ks" by auto
    qed
    also have "\<dots> \<longleftrightarrow> (\<exists>r. k = path @ r \<and> top_committed z h (FsDir kids) r)"
    proof -
      have "top_committed z h (FsDir kids) r \<longleftrightarrow> (\<exists>kv \<in> set kids. \<exists>r'. r = fst kv # r' \<and> top_committed z h (snd kv) r')" for r
      proof (cases r)
        case (Cons a rs)
        have "(\<exists>c. map_of kids a = Some c \<and> top_committed z h c rs) \<longleftrightarrow> (\<exists>c. (a, c) \<in> set kids \<and> top_committed z h c rs)"
          using "2.prems"(1) by simp
        also have "\<dots> \<longleftrightarrow> (\<exists>kv \<in> set kids. \<exists>r'. r = fst kv # r' \<and> top_committed z h (snd kv) r')"
          unfolding Cons by force
        finally show ?thesis by (cases "map_of kids a") (simp_all add: Cons False)
      qed (simp add: False)
      then show ?thesis by blast
    qed
    finally show ?thesis .
  qed
qed

text \<open>
  The listing of a store: the keys below a prefix are, in order, the committed groups there that lie in no other
  committed group.
\<close>

theorem committed_keys_lists_top_groups:
  assumes "committed_keys z h store pre = Inr keys" "store_at store pre = Some e" "fs_wf e"
  shows "sorted keys \<and> (\<forall>key. key \<in> set keys \<longleftrightarrow> (\<exists>r. key = pre @ r \<and> top_committed z h e r))"
proof -
  have path: "(if pre = [] then Inr [] else key_path pre) = Inr path \<Longrightarrow> path = pre" for path
    using key_path_eq by (auto split: if_splits)
  obtain ks where "walk_keys z h pre e = Inr ks" "keys = sort ks"
    using assms(1,2) path by (auto simp: committed_keys_def res_simps)
  with walk_keys_mem [OF assms(3) this(1)] show ?thesis by simp
qed

section \<open>A committed unit and its row\<close>

lemma committed_classify:
  assumes "zarr_lookup z h (stores s) key input_digest verify = Inr (ZReuse rec path)" "key_path key = Inr key"
    and "cr_input_digest rec = JStr input_digest" "canonical_store po s = Inr s'"
  shows "zarr_classify po z h stores s (slash_join key) input_digest verify
    = Inr (IndexReuse s' (slash_join key) (core_from_commit (slash_join key) rec))"
  using assms key_path_split [OF assms(2)] by (simp add: zarr_classify_def)

lemma lookup_reuse_digest:
  assumes "zarr_lookup z h store key input_digest verify = Inr (ZReuse rec path)"
  shows "key_path key = Inr key \<and> cr_input_digest rec = JStr input_digest"
proof -
  have key: "key_path key = Inr key" using assms key_path_eq [of key] by (auto simp: zarr_lookup_def bind_res_eq_Inr)
  obtain e where e: "store_at store key = Some e"
    using assms key by (cases "store_at store key") (simp_all add: zarr_lookup_def)
  obtain cr where "read_record_status z h e = Inr (Inr cr)"
    using assms key e by (cases "read_record_status z h e"; cases "projr (read_record_status z h e)") (simp_all add: zarr_lookup_def)
  with assms key e have "cr_input_digest cr = JStr input_digest" "cr = rec"
    by (simp_all add: zarr_lookup_def split: if_split_asm sum.split_asm)
  with key show ?thesis by simp
qed

text \<open>
  C35. The two halves of a unit's life joined: once a commit of the unit succeeded and any readable file of the index holds
  its row, a lookup in the index answers with a reusable copy of this unit and this input; no row is trusted, the
  record in the store is read.
\<close>

theorem committed_and_indexed_is_reused:
  assumes "zarr_laws z" "commit_key z h key staged ca st = (st', Inr (Committed rec))"
    and "load_index po fs = Inr snap" "(p, f) \<in> set (index_files fs)" "r \<in> set (rows_of (fl_data f))"
    and "ix_unit_key r = slash_join key" "ix_locator r = slash_join key" "ix_adapter r = ''zarr_commit''"
    and "canonical_store po store = Inr (ix_store r)" "canonical_store po (ix_store r) = Inr (ix_store r)"
    and "stores (ix_store r) = du_store st'" "table ''zarr_commit'' = Some (zarr_classify po z h stores)"
    and "\<forall>r'. (\<exists>(p, f)\<in>set (index_files fs). r' \<in> set (rows_of (fl_data f))) \<and> read_key r' = read_key r
           \<longrightarrow> ix_unit_key r' = ix_unit_key r \<and> ix_adapter r' = ix_adapter r"
    and "\<forall>row\<in>set (unit_rows snap (ix_store r) (slash_join key)).
           row_outcome table (slash_join key) (ca_input_digest ca) True row \<noteq> None"
  shows "\<exists>s l core. index_lookup po table snap store (slash_join key) (ca_input_digest ca) True = Inr (IndexReuse s l core)
    \<and> co_unit_key core = slash_join key \<and> co_input_digest core = ca_input_digest ca"
proof -
  have looked: "zarr_lookup z h (stores (ix_store r)) key (ca_input_digest ca) True = Inr (ZReuse rec key)"
    using commit_lookup [OF assms(1,2)] assms(11) by simp
  note key = lookup_reuse_digest [OF looked]
  have "zarr_classify po z h stores (ix_store r) (slash_join key) (ca_input_digest ca) True
      = Inr (IndexReuse (ix_store r) (slash_join key) (core_from_commit (slash_join key) rec))"
    using committed_classify [of z h stores "ix_store r", OF looked] key assms(10) by blast
  then have "row_outcome table (slash_join key) (ca_input_digest ca) True r
      = Some (IndexReuse (ix_store r) (slash_join key) (core_from_commit (slash_join key) rec))"
    using key by (simp add: row_outcome_def assms(7,8,12) checked_result_def core_from_commit_def json_str_of_def)
  then obtain r' where r': "r' \<in> set (unit_rows snap (ix_store r) (slash_join key))"
      "row_outcome table (slash_join key) (ca_input_digest ca) True r'
        = Some (IndexReuse (ix_store r) (slash_join key) (core_from_commit (slash_join key) rec))"
    using unit_row_copy [OF assms(3-5,13)] unfolding assms(6) by metis
  from index_lookup_reuses [OF assms(9) r'(1) assms(14) r'(2)] show ?thesis .
qed

section \<open>Concrete runs\<close>

definition demo_keys :: "string list list" where
  "demo_keys = [[''a'', ''k'']]"

theorem committed_keys_lists_top_groups_witness:
  "sorted demo_keys \<and> top_committed demo_zarr demo_hash (the (store_at (du_store demo_committed) [''a''])) [''k'']"
proof -
  have keys: "committed_keys demo_zarr demo_hash (du_store demo_committed) [''a''] = Inr demo_keys" by code_simp
  have at_a: "store_at (du_store demo_committed) [''a''] = Some (the (store_at (du_store demo_committed) [''a'']))" by code_simp
  have "fs_wf (the (store_at (du_store demo_committed) [''a'']))" by code_simp
  note listed = committed_keys_lists_top_groups [OF keys at_a this]
  have "[''a'', ''k''] \<in> set demo_keys" by (simp add: demo_keys_def)
  with listed show ?thesis by auto
qed

definition demo_unit_row :: index_row where
  "demo_unit_row = (demo_row ''a/k'' ''c1'')\<lparr>ix_locator := ''a/k'', ix_input_digest := ''d''\<rparr>"

definition demo_unit_file :: seg_file where
  "demo_unit_file = \<lparr>fl_ino = 1, fl_mtime = 0, fl_data = IndexRow_to_json_line demo_unit_row\<rparr>"

definition demo_unit_index :: index_fs where
  "demo_unit_index = \<lparr>xf_segments = [(''n1-7-nojob-0-ab.jsonl'', demo_unit_file)], xf_sealed = [], xf_rebuilt = [],
     xf_archive = [], xf_manifests = []\<rparr>"

definition demo_unit_snapshot :: index_snapshot where
  "demo_unit_snapshot = projr (load_index plain_paths demo_unit_index)"

definition demo_unit_table :: adapter_table where
  "demo_unit_table name = (if name = ''zarr_commit''
     then Some (zarr_classify plain_paths demo_zarr demo_hash (\<lambda>s. du_store demo_committed)) else None)"

lemma demo_unit_load: "load_index plain_paths demo_unit_index = Inr demo_unit_snapshot"
  by code_simp

lemma demo_unit_files: "index_files demo_unit_index = [(''segments/n1-7-nojob-0-ab.jsonl'', demo_unit_file)]"
  by (simp add: index_files_def index_listing_def jsonl_files_def jsonl_def demo_unit_index_def prefix_of_def)

lemma demo_unit_rows: "rows_of (fl_data demo_unit_file) = [demo_unit_row]"
  by code_simp

lemma demo_unit_row_fields:
  "ix_store demo_unit_row = ''/data/s.zarr''" "ix_unit_key demo_unit_row = ''a/k''" "ix_locator demo_unit_row = ''a/k''"
  "ix_adapter demo_unit_row = ''zarr_commit''"
  by (simp_all add: demo_unit_row_def demo_row_def)

lemma demo_unit_store: "canonical_store plain_paths ''/data/s.zarr'' = Inr ''/data/s.zarr''"
  by code_simp

lemma demo_unit_snapshot_rows: "unit_rows demo_unit_snapshot ''/data/s.zarr'' ''a/k'' = [demo_unit_row]"
  by code_simp

lemma demo_unit_outcome: "row_outcome demo_unit_table ''a/k'' ''d'' True demo_unit_row \<noteq> None"
  by code_simp

lemma demo_unit_committed:
  "commit_key demo_zarr demo_hash [''a'', ''k''] [''s''] (demo_commit ''d'') demo_durable = (demo_committed, Inr (Committed demo_record))"
proof -
  have "projr (snd (commit_key demo_zarr demo_hash [''a'', ''k''] [''s''] (demo_commit ''d'') demo_durable)) = Committed demo_record"
    by code_simp
  with demo_commit_runs show ?thesis by (simp only:)
qed

theorem committed_and_indexed_is_reused_witness:
  "\<exists>s l core. index_lookup plain_paths demo_unit_table demo_unit_snapshot ''/data/s.zarr'' ''a/k'' ''d'' True = Inr (IndexReuse s l core)
    \<and> co_unit_key core = ''a/k'' \<and> co_input_digest core = ''d''"
proof -
  note row = demo_unit_row_fields
  have join: "slash_join [''a'', ''k''] = ''a/k''" by simp
  have args: "ca_input_digest (demo_commit ''d'') = ''d''" by (simp add: demo_commit_def)
  have table: "demo_unit_table ''zarr_commit''
      = Some (zarr_classify plain_paths demo_zarr demo_hash (\<lambda>s. du_store demo_committed))"
    by (simp add: demo_unit_table_def)
  have "(''segments/n1-7-nojob-0-ab.jsonl'', demo_unit_file) \<in> set (index_files demo_unit_index)"
      "demo_unit_row \<in> set (rows_of (fl_data demo_unit_file))"
    unfolding demo_unit_files demo_unit_rows by (rule list.set_intros)+
  note found = committed_and_indexed_is_reused [where stores = "\<lambda>s. du_store demo_committed" and table = demo_unit_table,
      OF demo_laws(1) demo_unit_committed demo_unit_load this, unfolded join row args]
  have copies: "\<forall>r'. (\<exists>(p, f)\<in>set (index_files demo_unit_index). r' \<in> set (rows_of (fl_data f))) \<and> read_key r' = read_key demo_unit_row
      \<longrightarrow> ix_unit_key r' = ''a/k'' \<and> ix_adapter r' = ''zarr_commit''"
    unfolding demo_unit_files using demo_unit_rows row by auto
  have "\<forall>row\<in>set (unit_rows demo_unit_snapshot ''/data/s.zarr'' ''a/k''). row_outcome demo_unit_table ''a/k'' ''d'' True row \<noteq> None"
    unfolding demo_unit_snapshot_rows using demo_unit_outcome by simp
  from found [OF refl refl refl demo_unit_store demo_unit_store refl table copies this] show ?thesis .
qed

end
