(* ===== verification/Graph_Metadata.thy ===== *)
theory Graph_Metadata
  imports Python_Values
begin

text \<open>
  The slots of node metadata: \<open>composition/node_metadata.py\<close>.

  A TOML document is its decoded tables. What a schema that was loaded looks like is \<open>schema_ok\<close>, and what metadata it accepts
  is said slot by slot by \<open>conforms\<close>, without the order in which the code looks.
\<close>

section \<open>The schema\<close>

record slot_def =
  sd_id :: string
  sd_required :: bool
  sd_type :: string
  sd_min_length :: "nat option"
  sd_values :: "string list option"
  sd_fields :: "(string \<times> string) list option"
  sd_item_type :: "string option"

record node_schema =
  ns_version :: string
  ns_schema_version :: string
  ns_slots :: "slot_def list"

definition KNOWN_SLOT_TYPES :: "string list" where
  "KNOWN_SLOT_TYPES = [''string'', ''array'', ''object'', ''enum'']"

definition value_error :: "string \<Rightarrow> exn_arg list \<Rightarrow> exn" where
  "value_error msg args = Exn ValueError msg args"

definition require_str :: "(string \<times> json) list \<Rightarrow> string \<Rightarrow> string res" where
  "require_str d key = (case obj_get d key of
     JStr s \<Rightarrow> if blank s then Inl (value_error ''missing or empty string field'' [ArgStr key]) else Inr (strip s)
   | _ \<Rightarrow> Inl (value_error ''missing or empty string field'' [ArgStr key]))"

definition list_entry :: "string \<Rightarrow> json \<Rightarrow> string res" where
  "list_entry key item = (case item of
     JStr s \<Rightarrow> if blank s then Inl (value_error ''entries must be non-empty strings'' [ArgStr key]) else Inr (strip s)
   | _ \<Rightarrow> Inl (value_error ''entries must be non-empty strings'' [ArgStr key]))"

definition require_str_list :: "(string \<times> json) list \<Rightarrow> string \<Rightarrow> string list res" where
  "require_str_list d key = (case obj_get d key of
     JArr (x # xs) \<Rightarrow> traverse_res (list_entry key) (x # xs)
   | _ \<Rightarrow> Inl (value_error ''must be a non-empty list'' [ArgStr key]))"

definition slot_min_length :: "(string \<times> json) list \<Rightarrow> nat option res" where
  "slot_min_length raw = (case map_of raw ''min_length'' of
     None \<Rightarrow> Inr None
   | Some (JInt i) \<Rightarrow> if i < 1 then Inl (value_error ''min_length must be a positive integer'' []) else Inr (Some (nat i))
   | Some (JBool b) \<Rightarrow> if b then Inr (Some 1) else Inl (value_error ''min_length must be a positive integer'' [])
   | Some _ \<Rightarrow> Inl (value_error ''min_length must be a positive integer'' []))"

definition slot_values :: "string \<Rightarrow> (string \<times> json) list \<Rightarrow> string list option res" where
  "slot_values slot_type raw =
     (if slot_type \<noteq> ''enum'' then Inr None
      else case obj_get raw ''values'' of
        JArr (x # xs) \<Rightarrow> bind_res (require_str_list raw ''values'') (\<lambda>vs. Inr (Some vs))
      | _ \<Rightarrow> Inl (value_error ''enum slot requires a non-empty values list'' []))"

fun slot_field_loop :: "(string \<times> string) list \<Rightarrow> (string \<times> json) list \<Rightarrow> (string \<times> string) list res" where
  "slot_field_loop acc [] = Inr acc"
| "slot_field_loop acc ((name, ty) # rest) =
     (if blank name then Inl (value_error ''invalid object field name'' [])
      else if ty \<noteq> JStr ''string'' then Inl (value_error ''unsupported field type'' [ArgStr name])
      else slot_field_loop (AList.update (strip name) ''string'' acc) rest)"

definition slot_fields :: "string \<Rightarrow> (string \<times> json) list \<Rightarrow> (string \<times> string) list option res" where
  "slot_fields slot_type raw =
     (if slot_type \<noteq> ''object'' then Inr None
      else case obj_get raw ''fields'' of
        JObj (x # xs) \<Rightarrow> bind_res (slot_field_loop [] (x # xs)) (\<lambda>fs. Inr (Some fs))
      | _ \<Rightarrow> Inl (value_error ''object slot requires a non-empty fields table'' []))"

definition slot_item_type :: "string \<Rightarrow> (string \<times> json) list \<Rightarrow> string option res" where
  "slot_item_type slot_type raw =
     (if slot_type \<noteq> ''array'' then Inr None
      else bind_res (require_str raw ''item_type'') (\<lambda>t.
        if t \<noteq> ''citation'' then Inl (value_error ''unknown array item_type'' [ArgStr t]) else Inr (Some t)))"

definition parse_slot :: "(string \<times> json) list \<Rightarrow> slot_def res" where
  "parse_slot raw =
     bind_res (require_str raw ''id'') (\<lambda>slot_id.
     bind_res (require_str raw ''type'') (\<lambda>slot_type.
       if slot_type \<notin> set KNOWN_SLOT_TYPES then Inl (value_error ''unknown slot type'' [ArgStr slot_type])
       else (case obj_get raw ''required'' of
         JBool required \<Rightarrow>
           bind_res (slot_min_length raw) (\<lambda>min_length.
           bind_res (slot_values slot_type raw) (\<lambda>vs.
           bind_res (slot_fields slot_type raw) (\<lambda>fs.
           bind_res (slot_item_type slot_type raw) (\<lambda>item_type.
             Inr \<lparr>sd_id = slot_id, sd_required = required, sd_type = slot_type, sd_min_length = min_length,
                  sd_values = vs, sd_fields = fs, sd_item_type = item_type\<rparr>))))
       | _ \<Rightarrow> Inl (value_error ''required must be a boolean'' []))))"

text \<open>The pattern \<open>^\d+\.\d+\.\d+(-[A-Za-z0-9.]+)?$\<close>, on a string without surrounding white space.\<close>

definition is_digit :: "char \<Rightarrow> bool" where
  "is_digit c = (digit_val c \<noteq> None)"

definition digit_run :: "string \<Rightarrow> (string \<times> string) option" where
  "digit_run s = (let run = takeWhile is_digit s in if run = [] then None else Some (run, dropWhile is_digit s))"

definition tag_char :: "char \<Rightarrow> bool" where
  "tag_char c = (let n = of_char c :: nat in 48 \<le> n \<and> n \<le> 57 \<or> 65 \<le> n \<and> n \<le> 90 \<or> 97 \<le> n \<and> n \<le> 122 \<or> n = 46)"

definition semver :: "string \<Rightarrow> bool" where
  "semver s = (case digit_run s of
     Some (_, c # s1) \<Rightarrow> c = CHR ''.'' \<and> (case digit_run s1 of
       Some (_, c # s2) \<Rightarrow> c = CHR ''.'' \<and> (case digit_run s2 of
         Some (_, rest) \<Rightarrow> (case rest of [] \<Rightarrow> True | c # tag \<Rightarrow> c = CHR ''-'' \<and> tag \<noteq> [] \<and> list_all tag_char tag)
       | None \<Rightarrow> False)
     | _ \<Rightarrow> False)
   | _ \<Rightarrow> False)"

definition table_slot :: "json \<Rightarrow> slot_def res" where
  "table_slot item = (case item of JObj raw \<Rightarrow> parse_slot raw | _ \<Rightarrow> Inl (value_error ''slots must be tables'' []))"

definition load_node_metadata_schema :: "(string \<times> json) list \<Rightarrow> node_schema res" where
  "load_node_metadata_schema data = (case obj_get data ''schema'' of
     JObj schema_raw \<Rightarrow>
       bind_res (require_str schema_raw ''version'') (\<lambda>version.
         if \<not> semver version then Inl (value_error ''schema: invalid semver'' [ArgStr version])
         else bind_res (require_str schema_raw ''schema_version'') (\<lambda>schema_version.
           case obj_get data ''slots'' of
             JArr (x # xs) \<Rightarrow>
               bind_res (traverse_res table_slot (x # xs)) (\<lambda>slots.
                 if \<not> distinct (map sd_id slots) then Inl (value_error ''duplicate slot ids in node_metadata_schema'' [])
                 else Inr \<lparr>ns_version = version, ns_schema_version = schema_version, ns_slots = slots\<rparr>)
           | _ \<Rightarrow> Inl (value_error ''slots must be a non-empty list'' [])))
   | _ \<Rightarrow> Inl (value_error ''missing [schema] table'' []))"

section \<open>Checking metadata\<close>

definition has_text :: "(string \<times> json) list \<Rightarrow> string \<Rightarrow> bool" where
  "has_text d key = (case obj_get d key of JStr s \<Rightarrow> \<not> blank s | _ \<Rightarrow> False)"

definition validate_citation :: "json \<Rightarrow> unit res" where
  "validate_citation item = (case item of
     JObj d \<Rightarrow>
       if \<not> (has_text d ''doi'' \<or> has_text d ''url'' \<or> has_text d ''text'')
       then Inl (value_error ''citation requires at least one of doi, url, text'' []) else Inr ()
   | _ \<Rightarrow> Inl (value_error ''citation must be an object'' []))"

definition check_all :: "('a \<Rightarrow> unit res) \<Rightarrow> 'a list \<Rightarrow> unit res" where
  "check_all f xs = bind_res (traverse_res f xs) (\<lambda>_. Inr ())"

definition validate_slot_value :: "slot_def \<Rightarrow> json \<Rightarrow> unit res" where
  "validate_slot_value slot v =
     (if sd_type slot = ''string'' then
        (case v of
           JStr s \<Rightarrow>
             (case sd_min_length slot of
                Some n \<Rightarrow> if length (strip s) < n then Inl (value_error ''string shorter than min_length'' []) else Inr ()
              | None \<Rightarrow> Inr ())
         | _ \<Rightarrow> Inl (value_error ''expected string'' []))
      else if sd_type slot = ''enum'' then
        (case v of
           JStr s \<Rightarrow>
             if s \<in> set (case sd_values slot of None \<Rightarrow> [] | Some vs \<Rightarrow> vs) then Inr ()
             else Inl (value_error ''expected one of'' [])
         | _ \<Rightarrow> Inl (value_error ''expected one of'' []))
      else if sd_type slot = ''array'' then
        (case v of
           JArr xs \<Rightarrow> if sd_item_type slot = Some ''citation'' then check_all validate_citation xs else Inr ()
         | _ \<Rightarrow> Inl (value_error ''expected array'' []))
      else if sd_type slot = ''object'' then
        (case v of
           JObj d \<Rightarrow>
             check_all (\<lambda>field. if has_text d field then Inr () else Inl (value_error ''expected non-empty string'' [ArgStr field]))
               (case sd_fields slot of None \<Rightarrow> [] | Some fs \<Rightarrow> map fst fs)
         | _ \<Rightarrow> Inl (value_error ''expected object'' []))
      else Inl (value_error ''unsupported slot type'' [ArgStr (sd_type slot)]))"

text \<open>The slot of a name: the last of the schema with it.\<close>

definition slot_by_id :: "node_schema \<Rightarrow> string \<Rightarrow> slot_def option" where
  "slot_by_id schema k = map_of (rev (map (\<lambda>s. (sd_id s, s)) (ns_slots schema))) k"

definition known_slot :: "node_schema \<Rightarrow> json \<Rightarrow> bool" where
  "known_slot schema k = (case k of JStr s \<Rightarrow> s \<in> sd_id ` set (ns_slots schema) | _ \<Rightarrow> False)"

text \<open>
  \<open>validate_node_metadata\<close> of what \<open>dict(metadata)\<close> is. The unknown keys are sorted for the message, which raises when they
  cannot be compared.
\<close>

definition validate_node_metadata :: "node_schema \<Rightarrow> (json \<times> json) list \<Rightarrow> unit res" where
  "validate_node_metadata schema metadata =
     (let unknown = filter (\<lambda>k. \<not> known_slot schema k) (map fst metadata) in
      if unknown \<noteq> [] then
        (if sortable unknown then Inl (value_error ''unknown metadata slots'' [])
         else Inl (Exn TypeError ''not supported between instances'' []))
      else bind_res (check_all (\<lambda>slot.
          if sd_required slot \<and> JStr (sd_id slot) \<notin> fst ` set metadata
          then Inl (value_error ''missing required slot'' [ArgStr (sd_id slot)]) else Inr ()) (ns_slots schema)) (\<lambda>_.
        check_all (\<lambda>(k, v). case k of
            JStr s \<Rightarrow> (case slot_by_id schema s of Some slot \<Rightarrow> validate_slot_value slot v | None \<Rightarrow> Inr ())
          | _ \<Rightarrow> Inr ()) metadata))"

text \<open>The schema that ships with the package.\<close>

definition default_schema_doc :: "(string \<times> json) list" where
  "default_schema_doc =
     [(''schema'', JObj [(''version'', JStr ''0.1.0''), (''schema_version'', JStr ''1'')]),
      (''slots'', JArr
        [JObj [(''id'', JStr ''nl_description''), (''required'', JBool True), (''type'', JStr ''string''), (''min_length'', JInt 1)],
         JObj [(''id'', JStr ''mathjax_label''), (''required'', JBool False), (''type'', JStr ''string'')],
         JObj [(''id'', JStr ''citations''), (''required'', JBool False), (''type'', JStr ''array''), (''item_type'', JStr ''citation'')],
         JObj [(''id'', JStr ''script_usage''), (''required'', JBool False), (''type'', JStr ''object''),
           (''fields'', JObj [(''language'', JStr ''string''), (''excerpt'', JStr ''string'')])],
         JObj [(''id'', JStr ''audit_verdict''), (''required'', JBool False), (''type'', JStr ''enum''),
           (''values'', JArr [JStr ''PASS'', JStr ''FAIL'', JStr ''NEEDS_WORK''])],
         JObj [(''id'', JStr ''bathos_sidecar_ref''), (''required'', JBool False), (''type'', JStr ''string''),
           (''description'', JStr ''Path relative to repository root'')]])]"

section \<open>What a loaded schema is\<close>

definition stripped_text :: "string \<Rightarrow> bool" where
  "stripped_text s \<longleftrightarrow> \<not> blank s \<and> strip s = s"

definition slot_ok :: "slot_def \<Rightarrow> bool" where
  "slot_ok s \<longleftrightarrow> stripped_text (sd_id s) \<and> sd_min_length s \<noteq> Some 0
     \<and> (sd_type s = ''string'' \<and> sd_values s = None \<and> sd_fields s = None \<and> sd_item_type s = None
      \<or> sd_type s = ''enum'' \<and> (\<exists>vs. sd_values s = Some vs \<and> vs \<noteq> [] \<and> list_all stripped_text vs) \<and> sd_fields s = None
          \<and> sd_item_type s = None
      \<or> sd_type s = ''object'' \<and> (\<exists>fs. sd_fields s = Some fs \<and> fs \<noteq> [] \<and> distinct (map fst fs)
          \<and> list_all (\<lambda>kv. stripped_text (fst kv) \<and> snd kv = ''string'') fs) \<and> sd_values s = None \<and> sd_item_type s = None
      \<or> sd_type s = ''array'' \<and> sd_item_type s = Some ''citation'' \<and> sd_values s = None \<and> sd_fields s = None)"

definition schema_ok :: "node_schema \<Rightarrow> bool" where
  "schema_ok ns \<longleftrightarrow> semver (ns_version ns) \<and> stripped_text (ns_schema_version ns) \<and> ns_slots ns \<noteq> []
     \<and> distinct (map sd_id (ns_slots ns)) \<and> list_all slot_ok (ns_slots ns)"

lemma dropWhile_snoc: "\<not> P c \<Longrightarrow> dropWhile P (xs @ [c]) = dropWhile P xs @ [c]"
  by (induction xs) auto

lemma dropWhile_twice: "dropWhile P (dropWhile P xs) = dropWhile P xs"
  by (induction xs) auto

lemma strip_idem: "strip (strip s) = strip s"
proof (cases "dropWhile py_space s")
  case Nil
  then show ?thesis unfolding strip_def Nil by simp
next
  case (Cons c cs)
  then have c: "\<not> py_space c" by (metis hd_dropWhile list.distinct(1) list.sel(1))
  have s: "strip s = c # rev (dropWhile py_space (rev cs))"
    using dropWhile_snoc [of py_space, OF c, of "rev cs"] by (simp add: strip_def Cons)
  have "dropWhile py_space (dropWhile py_space (rev cs)) = dropWhile py_space (rev cs)"
    by (rule dropWhile_twice)
  then show ?thesis
    using c dropWhile_snoc [of py_space, OF c, of "dropWhile py_space (rev cs)"] unfolding s by (simp add: strip_def)
qed

lemma stripped_text_strip: "\<not> blank s \<Longrightarrow> stripped_text (strip s)"
  using strip_eq_Nil [of s] strip_eq_Nil [of "strip s"] by (simp add: stripped_text_def strip_idem)

lemma require_str_stripped: "require_str d key = Inr s \<Longrightarrow> stripped_text s"
  by (auto simp: require_str_def stripped_text_strip split: json.split_asm if_split_asm)

lemma require_str_list_ok: "require_str_list d key = Inr vs \<Longrightarrow> vs \<noteq> [] \<and> list_all stripped_text vs"
proof -
  assume vs: "require_str_list d key = Inr vs"
  then obtain x xs where "obj_get d key = JArr (x # xs)" "list_all2 (\<lambda>i v. list_entry key i = Inr v) (x # xs) vs"
    by (auto simp: require_str_list_def traverse_res_eq_Inr simp del: traverse_res.simps split: json.split_asm list.split_asm)
  moreover have "stripped_text v" if "list_entry key i = Inr v" for i v
    using that by (auto simp: list_entry_def stripped_text_strip split: json.split_asm if_split_asm)
  ultimately show ?thesis by (auto simp: list_all_iff dest: list_all2_pick(2))
qed

lemma slot_field_loop_ok:
  assumes "slot_field_loop acc raw = Inr fs" "distinct (map fst acc)" "list_all (\<lambda>kv. stripped_text (fst kv) \<and> snd kv = ''string'') acc"
    and "acc \<noteq> [] \<or> raw \<noteq> []"
  shows "fs \<noteq> [] \<and> distinct (map fst fs) \<and> list_all (\<lambda>kv. stripped_text (fst kv) \<and> snd kv = ''string'') fs"
  using assms
proof (induction acc raw rule: slot_field_loop.induct)
  case (2 acc name ty rest)
  have ok: "list_all (\<lambda>kv. stripped_text (fst kv) \<and> snd kv = ''string'') (AList.update k ''string'' acc)"
    if "stripped_text k" "list_all (\<lambda>kv. stripped_text (fst kv) \<and> snd kv = ''string'') acc" for k
    using that by (induction acc) auto
  have nonempty: "AList.update (strip name) ''string'' acc \<noteq> []" by (rule update_nonempty)
  from 2 nonempty show ?case
    by (auto simp: distinct_update intro!: ok stripped_text_strip split: if_split_asm)
qed simp

lemma parse_slot_ok: "parse_slot raw = Inr s \<Longrightarrow> slot_ok s"
proof -
  assume "parse_slot raw = Inr s"
  note parsed = this
  obtain required where "obj_get raw ''required'' = JBool required"
    using parsed by (cases "obj_get raw ''required''") (simp_all add: parse_slot_def res_simps)
  with parsed obtain slot_id slot_type m vs fs item where p:
      "require_str raw ''id'' = Inr slot_id" "slot_type \<in> set KNOWN_SLOT_TYPES" "slot_min_length raw = Inr m"
      "slot_values slot_type raw = Inr vs" "slot_fields slot_type raw = Inr fs" "slot_item_type slot_type raw = Inr item"
      "s = \<lparr>sd_id = slot_id, sd_required = required, sd_type = slot_type, sd_min_length = m, sd_values = vs, sd_fields = fs,
         sd_item_type = item\<rparr>"
    by (auto simp: parse_slot_def bind_res_eq_Inr guard_eq_Inr)
  have m: "m \<noteq> Some 0" using p(3) by (auto simp: slot_min_length_def split: option.split_asm json.split_asm if_split_asm)
  have vs: "if slot_type = ''enum'' then \<exists>v. vs = Some v \<and> v \<noteq> [] \<and> list_all stripped_text v else vs = None"
    using p(4) require_str_list_ok by (auto simp: slot_values_def res_simps split: json.split_asm list.split_asm if_split_asm)
  have fs: "if slot_type = ''object'' then \<exists>f. fs = Some f \<and> f \<noteq> [] \<and> distinct (map fst f)
      \<and> list_all (\<lambda>kv. stripped_text (fst kv) \<and> snd kv = ''string'') f else fs = None"
    using p(5) slot_field_loop_ok [of "[]"]
    by (auto simp: slot_fields_def bind_res_eq_Inr simp del: slot_field_loop.simps split: json.split_asm list.split_asm if_split_asm)
  have item: "if slot_type = ''array'' then item = Some ''citation'' else item = None"
    using p(6) by (auto simp: slot_item_type_def res_simps split: if_split_asm)
  have types: "slot_type = ''string'' \<or> slot_type = ''enum'' \<or> slot_type = ''object'' \<or> slot_type = ''array''"
    using p(2) by (auto simp: KNOWN_SLOT_TYPES_def)
  show ?thesis
    using types by (elim disjE) (use require_str_stripped [OF p(1)] m vs fs item in \<open>simp_all add: slot_ok_def p(7)\<close>)
qed

lemma load_schema_ok: "load_node_metadata_schema data = Inr ns \<Longrightarrow> schema_ok ns"
proof -
  assume "load_node_metadata_schema data = Inr ns"
  then obtain version sv x xs slots where p: "semver version" "stripped_text sv" "list_all2 (\<lambda>i s. table_slot i = Inr s) (x # xs) slots"
      "distinct (map sd_id slots)" "ns = \<lparr>ns_version = version, ns_schema_version = sv, ns_slots = slots\<rparr>"
    by (cases "obj_get data ''schema''"; cases "obj_get data ''slots''"; cases "case obj_get data ''slots'' of JArr xs \<Rightarrow> xs | _ \<Rightarrow> []")
      (auto simp: load_node_metadata_schema_def bind_res_eq_Inr traverse_res_eq_Inr simp del: traverse_res.simps
        dest!: require_str_stripped split: if_split_asm)
  have "slot_ok s" if "table_slot i = Inr s" for i s
    using that parse_slot_ok by (auto simp: table_slot_def split: json.split_asm)
  then have "list_all slot_ok slots" using p(3) by (auto simp: list_all_iff dest!: list_all2_pick(2))
  with p show ?thesis by (auto simp: schema_ok_def)
qed

text \<open>
  What a slot takes, by its type; a slot of a type outside the known ones takes nothing.
\<close>

definition cites :: "json \<Rightarrow> bool" where
  "cites item \<longleftrightarrow> (\<exists>d. item = JObj d \<and> (has_text d ''doi'' \<or> has_text d ''url'' \<or> has_text d ''text''))"

definition takes :: "slot_def \<Rightarrow> json \<Rightarrow> bool" where
  "takes slot v \<longleftrightarrow>
     (if sd_type slot = ''string'' then \<exists>s. v = JStr s \<and> (case sd_min_length slot of None \<Rightarrow> True | Some n \<Rightarrow> n \<le> length (strip s))
      else if sd_type slot = ''enum'' then \<exists>s vs. v = JStr s \<and> sd_values slot = Some vs \<and> s \<in> set vs
      else if sd_type slot = ''array'' then \<exists>xs. v = JArr xs \<and> (sd_item_type slot = Some ''citation'' \<longrightarrow> list_all cites xs)
      else if sd_type slot = ''object'' then \<exists>d. v = JObj d \<and> (\<forall>fs. sd_fields slot = Some fs \<longrightarrow> list_all (\<lambda>kv. has_text d (fst kv)) fs)
      else False)"

definition conforms :: "node_schema \<Rightarrow> (json \<times> json) list \<Rightarrow> bool" where
  "conforms ns metadata \<longleftrightarrow>
     (\<forall>(k, v) \<in> set metadata. \<exists>slot \<in> set (ns_slots ns). k = JStr (sd_id slot) \<and> takes slot v)
     \<and> (\<forall>slot \<in> set (ns_slots ns). sd_required slot \<longrightarrow> JStr (sd_id slot) \<in> fst ` set metadata)"

lemma check_all_iff: "check_all f xs = Inr u \<longleftrightarrow> (\<forall>x \<in> set xs. f x = Inr ())"
proof -
  have "is_ok (traverse_res f xs) \<longleftrightarrow> (\<forall>x \<in> set xs. f x = Inr ())"
    by (induction xs) (auto simp: is_ok_iff res_simps)
  then show ?thesis by (auto simp: check_all_def res_simps is_ok_iff)
qed

lemma validate_citation_iff: "validate_citation item = Inr u \<longleftrightarrow> cites item"
  by (auto simp: validate_citation_def cites_def split: json.splits)

lemma validate_slot_value_iff: "validate_slot_value slot v = Inr u \<longleftrightarrow> takes slot v"
proof -
  have fields: "(check_all (\<lambda>field. if has_text d field then Inr () else Inl (value_error ''expected non-empty string'' [ArgStr field])) fs = Inr u)
      \<longleftrightarrow> (\<forall>field \<in> set fs. has_text d field)" for d fs and u :: unit
    by (auto simp: check_all_iff split: if_splits)
  show ?thesis
    unfolding validate_slot_value_def takes_def
    by (cases v; cases "sd_values slot"; cases "sd_fields slot"; cases "sd_min_length slot")
      (simp_all add: check_all_iff [where f = validate_citation] fields validate_citation_iff list_all_iff not_less)
qed

lemma slot_by_id_mem: "schema_ok ns \<Longrightarrow> slot_by_id ns k = Some slot \<longleftrightarrow> slot \<in> set (ns_slots ns) \<and> sd_id slot = k"
  by (auto simp: slot_by_id_def schema_ok_def rev_map [symmetric] map_of_eq_Some_iff comp_def distinct_map inj_on_def)

lemma known_slot_iff: "known_slot ns k \<longleftrightarrow> (\<exists>slot \<in> set (ns_slots ns). k = JStr (sd_id slot))"
  by (auto simp: known_slot_def split: json.splits)

lemma validate_iff_conforms:
  assumes "schema_ok ns"
  shows "validate_node_metadata ns metadata = Inr u \<longleftrightarrow> conforms ns metadata"
proof -
  let ?check = "\<lambda>(k, v). case k of
      JStr s \<Rightarrow> (case slot_by_id ns s of Some slot \<Rightarrow> validate_slot_value slot v | None \<Rightarrow> Inr ())
    | _ \<Rightarrow> Inr ()"
  have check: "?check (k, v) = Inr () \<longleftrightarrow> (\<exists>slot \<in> set (ns_slots ns). k = JStr (sd_id slot) \<and> takes slot v)"
    if "known_slot ns k" for k v
  proof -
    obtain slot where slot: "slot \<in> set (ns_slots ns)" "k = JStr (sd_id slot)" using \<open>known_slot ns k\<close> by (auto simp: known_slot_iff)
    have uniq: "slot' = slot" if "slot' \<in> set (ns_slots ns)" "sd_id slot = sd_id slot'" for slot'
      using assms that slot(1) by (auto simp: schema_ok_def distinct_map inj_on_def)
    have "slot_by_id ns (sd_id slot) = Some slot" using slot_by_id_mem [OF assms] slot(1) by simp
    then have "?check (k, v) = Inr () \<longleftrightarrow> takes slot v" by (simp add: slot(2) validate_slot_value_iff)
    moreover have "(\<exists>slot' \<in> set (ns_slots ns). JStr (sd_id slot) = JStr (sd_id slot') \<and> takes slot' v) \<longleftrightarrow> takes slot v"
      using slot(1) uniq unfolding json.inject by blast
    ultimately show ?thesis unfolding slot(2) by blast
  qed
  have required: "check_all (\<lambda>slot. if sd_required slot \<and> JStr (sd_id slot) \<notin> fst ` set metadata
      then Inl (value_error ''missing required slot'' [ArgStr (sd_id slot)]) else Inr ()) (ns_slots ns) = Inr u
    \<longleftrightarrow> (\<forall>slot \<in> set (ns_slots ns). sd_required slot \<longrightarrow> JStr (sd_id slot) \<in> fst ` set metadata)" for u :: unit
    unfolding check_all_iff by (auto split: if_splits)
  show ?thesis
  proof (cases "\<forall>kv \<in> set metadata. known_slot ns (fst kv)")
    case True
    then have "filter (\<lambda>k. \<not> known_slot ns k) (map fst metadata) = []" by (auto simp: filter_empty_conv)
    then have "validate_node_metadata ns metadata = bind_res (check_all (\<lambda>slot. if sd_required slot \<and> JStr (sd_id slot) \<notin> fst ` set metadata
      then Inl (value_error ''missing required slot'' [ArgStr (sd_id slot)]) else Inr ()) (ns_slots ns)) (\<lambda>_. check_all ?check metadata)"
      by (simp add: validate_node_metadata_def)
    then have "validate_node_metadata ns metadata = Inr u \<longleftrightarrow>
        (\<forall>slot \<in> set (ns_slots ns). sd_required slot \<longrightarrow> JStr (sd_id slot) \<in> fst ` set metadata)
        \<and> (\<forall>kv \<in> set metadata. ?check kv = Inr ())"
      by (simp only: bind_res_eq_Inr required check_all_iff [of ?check]) simp
    also have "(\<forall>kv \<in> set metadata. ?check kv = Inr ())
        \<longleftrightarrow> (\<forall>(k, v) \<in> set metadata. \<exists>slot \<in> set (ns_slots ns). k = JStr (sd_id slot) \<and> takes slot v)"
    proof (rule ball_cong [OF refl])
      fix kv assume "kv \<in> set metadata"
      with True check [of "fst kv" "snd kv"]
      show "?check kv = Inr () \<longleftrightarrow> (case kv of (k, v) \<Rightarrow> \<exists>slot \<in> set (ns_slots ns). k = JStr (sd_id slot) \<and> takes slot v)"
        by (simp add: case_prod_beta)
    qed
    also have "(\<forall>slot \<in> set (ns_slots ns). sd_required slot \<longrightarrow> JStr (sd_id slot) \<in> fst ` set metadata) \<and> \<dots>
        \<longleftrightarrow> conforms ns metadata"
      unfolding conforms_def by (rule conj_commute)
    finally show ?thesis .
  next
    case False
    then have "filter (\<lambda>k. \<not> known_slot ns k) (map fst metadata) \<noteq> []" by (auto simp: filter_empty_conv)
    moreover obtain k v where "(k, v) \<in> set metadata" "\<not> known_slot ns k" using False by force
    then have "\<not> conforms ns metadata" unfolding conforms_def by (auto simp: known_slot_iff dest!: bspec [of "set metadata" _ "(k, v)"])
    ultimately show ?thesis by (simp add: validate_node_metadata_def Let_def)
  qed
qed

lemma traverse_res_Inl: "traverse_res f xs = Inl e \<Longrightarrow> \<exists>x \<in> set xs. f x = Inl e"
  by (induction xs) (auto simp: res_simps)

lemma check_all_Inl: "check_all f xs = Inl e \<Longrightarrow> \<exists>x \<in> set xs. f x = Inl e"
  by (auto simp: check_all_def bind_res_eq_Inl dest: traverse_res_Inl)

lemma validate_slot_value_error: "validate_slot_value slot v = Inl e \<Longrightarrow> class_of e = ValueError"
  by (auto simp: validate_slot_value_def value_error_def validate_citation_def dest!: check_all_Inl
      split: json.split_asm option.split_asm if_split_asm)

lemma validate_error:
  assumes "validate_node_metadata ns metadata = Inl e" "list_all (\<lambda>kv. is_str (fst kv)) metadata"
  shows "class_of e = ValueError"
proof -
  have "sortable (filter (\<lambda>k. \<not> known_slot ns k) (map fst metadata))"
    using assms(2) by (auto simp: sortable_def list_all_iff)
  with assms(1) show ?thesis
    by (auto simp: validate_node_metadata_def Let_def bind_res_eq_Inl value_error_def dest!: check_all_Inl
        split: if_split_asm json.split_asm option.split_asm intro: validate_slot_value_error)
qed

text \<open>
  C37. Whatever document is loaded as a schema, every slot of it is well formed for its type, metadata is accepted exactly
  when it conforms to the slots, and metadata with string keys is refused with a \<open>ValueError\<close> and nothing else.
\<close>

theorem loaded_schema_checks_types:
  assumes "load_node_metadata_schema data = Inr ns"
  shows "schema_ok ns \<and> (\<forall>metadata. validate_node_metadata ns metadata = Inr () \<longleftrightarrow> conforms ns metadata)
    \<and> (\<forall>kvs e. validate_node_metadata ns (map (\<lambda>(k, v). (JStr k, v)) kvs) = Inl e \<longrightarrow> class_of e = ValueError)"
proof (intro conjI allI impI)
  show ok: "schema_ok ns" using assms by (rule load_schema_ok)
  show "validate_node_metadata ns metadata = Inr () \<longleftrightarrow> conforms ns metadata" for metadata
    by (rule validate_iff_conforms [OF ok])
  show "class_of e = ValueError" if "validate_node_metadata ns (map (\<lambda>(k, v). (JStr k, v)) kvs) = Inl e" for kvs e
    using validate_error [OF that] by (auto simp: list_all_iff case_prod_beta)
qed

definition default_schema :: node_schema where
  "default_schema = projr (load_node_metadata_schema default_schema_doc)"

lemma default_schema_loads: "load_node_metadata_schema default_schema_doc = Inr default_schema"
  by code_simp

text \<open>What that document loads as, for evaluation.\<close>

lemma default_schema_code [code]:
  "default_schema = \<lparr>ns_version = ''0.1.0'', ns_schema_version = ''1'', ns_slots =
     [\<lparr>sd_id = ''nl_description'', sd_required = True, sd_type = ''string'', sd_min_length = Some 1, sd_values = None,
       sd_fields = None, sd_item_type = None\<rparr>,
      \<lparr>sd_id = ''mathjax_label'', sd_required = False, sd_type = ''string'', sd_min_length = None, sd_values = None,
       sd_fields = None, sd_item_type = None\<rparr>,
      \<lparr>sd_id = ''citations'', sd_required = False, sd_type = ''array'', sd_min_length = None, sd_values = None,
       sd_fields = None, sd_item_type = Some ''citation''\<rparr>,
      \<lparr>sd_id = ''script_usage'', sd_required = False, sd_type = ''object'', sd_min_length = None, sd_values = None,
       sd_fields = Some [(''language'', ''string''), (''excerpt'', ''string'')], sd_item_type = None\<rparr>,
      \<lparr>sd_id = ''audit_verdict'', sd_required = False, sd_type = ''enum'', sd_min_length = None, sd_values = Some [''PASS'', ''FAIL'', ''NEEDS_WORK''],
       sd_fields = None, sd_item_type = None\<rparr>,
      \<lparr>sd_id = ''bathos_sidecar_ref'', sd_required = False, sd_type = ''string'', sd_min_length = None, sd_values = None,
       sd_fields = None, sd_item_type = None\<rparr>]\<rparr>"
  by code_simp

theorem loaded_schema_checks_types_witness:
  "schema_ok default_schema
    \<and> (validate_node_metadata default_schema [(JStr ''nl_description'', JStr ''x''), (JStr ''audit_verdict'', JStr ''PASS'')] = Inr ())
        = conforms default_schema [(JStr ''nl_description'', JStr ''x''), (JStr ''audit_verdict'', JStr ''PASS'')]"
  using loaded_schema_checks_types [OF default_schema_loads] by blast

end
