(* ===== verification/Graph_Model.thy ===== *)
theory Graph_Model
  imports Graph_Metadata
begin

text \<open>
  Graphs of host-side steps and their JSON form: \<open>composition/graph.py\<close> and \<open>composition/serialize.py\<close>.

  A callable is an object of the type \<open>'o\<close>; what Python's import system and \<open>inspect\<close> say of objects is the record \<open>py_imports\<close>:
  importing a module runs it and may raise anything, and so may reading an attribute of it.
  Ids may be any JSON value. A node keeps \<open>dict(metadata)\<close>, whose keys are strings once it was validated.
\<close>

record 'o py_imports =
  im_module :: "'o \<Rightarrow> string"
  im_qualname :: "'o \<Rightarrow> string"
  im_import :: "string \<Rightarrow> unit res"
  im_getattr :: "string \<Rightarrow> string \<Rightarrow> 'o res"
  im_callable :: "'o \<Rightarrow> bool"

section \<open>Nodes and graphs\<close>

record 'o graph_node =
  gn_id :: json
  gn_callable :: 'o
  gn_metadata :: "(string \<times> json) list"
  gn_frozen :: json
  gn_constructed :: json

definition json_text :: "json \<Rightarrow> string" where
  "json_text j = (case j of JStr s \<Rightarrow> s | _ \<Rightarrow> [])"

definition str_items :: "(json \<times> json) list \<Rightarrow> (string \<times> json) list" where
  "str_items kvs = map (\<lambda>(k, v). (json_text k, v)) kvs"

definition HostPrepGraphNode_init :: "json \<Rightarrow> 'o \<Rightarrow> json \<Rightarrow> json \<Rightarrow> 'o graph_node res" where
  "HostPrepGraphNode_init node_id callable_ref metadata frozen =
     bind_res (py_dict metadata) (\<lambda>kvs.
     bind_res (validate_node_metadata default_schema kvs) (\<lambda>_.
       Inr \<lparr>gn_id = node_id, gn_callable = callable_ref, gn_metadata = str_items kvs, gn_frozen = frozen, gn_constructed = JBool True\<rparr>))"

datatype 'o node_attr =
    Set_id json | Set_callable_ref 'o | Set_metadata "(string \<times> json) list" | Set_frozen json | Set_constructed json | Set_unknown string

definition frozen_error :: exn where
  "frozen_error = Exn (OtherError ''FrozenNodeError'') ''cannot set an attribute on a frozen HostPrepGraphNode'' []"

definition node_setattr :: "'o graph_node \<Rightarrow> 'o node_attr \<Rightarrow> 'o graph_node res" where
  "node_setattr n a =
     (if truthy (gn_constructed n) \<and> truthy (gn_frozen n) then Inl frozen_error
      else case a of
        Set_id j \<Rightarrow> Inr (n\<lparr>gn_id := j\<rparr>)
      | Set_callable_ref c \<Rightarrow> Inr (n\<lparr>gn_callable := c\<rparr>)
      | Set_metadata md \<Rightarrow> Inr (n\<lparr>gn_metadata := md\<rparr>)
      | Set_frozen j \<Rightarrow> Inr (n\<lparr>gn_frozen := j\<rparr>)
      | Set_constructed j \<Rightarrow> Inr (n\<lparr>gn_constructed := j\<rparr>)
      | Set_unknown name \<Rightarrow> Inl (Exn AttributeError ''object has no attribute'' [ArgStr name]))"

record graph_edge =
  ge_src :: json
  ge_dst :: json

record 'o prep_graph =
  pg_nodes :: "'o graph_node list"
  pg_edges :: "graph_edge list"

text \<open>Python's \<open>1 == True == 1.0\<close>: ids are compared by this value.\<close>

definition id_key :: "json \<Rightarrow> json" where
  "id_key j = (case j of
     JBool b \<Rightarrow> JFloat (Finite (if b then 1 else 0))
   | JInt i \<Rightarrow> JFloat (Finite (of_int i))
   | _ \<Rightarrow> j)"

definition construction_error :: "string \<Rightarrow> 'a res" where
  "construction_error msg = Inl (Exn (OtherError ''GraphConstructionError'') msg [])"

definition unhashable_error :: "'a res" where
  "unhashable_error = Inl (Exn TypeError ''unhashable type'' [])"

definition check_endpoint :: "json set \<Rightarrow> json \<Rightarrow> unit res" where
  "check_endpoint known j =
     (if \<not> hashable j then unhashable_error
      else if id_key j \<notin> known then construction_error ''edge references an unknown node id'' else Inr ())"

definition HostPrepGraph_init :: "'o graph_node list \<Rightarrow> graph_edge list \<Rightarrow> 'o prep_graph res" where
  "HostPrepGraph_init nodes edges =
     (let ids = map gn_id nodes;
          keys = map id_key ids;
          dupes = filter (\<lambda>i. 1 < length (filter (\<lambda>k. k = id_key i) keys)) ids
      in if list_ex (\<lambda>i. \<not> hashable i) dupes then unhashable_error
         else if dupes \<noteq> [] then
           (if sortable (remdups (map id_key dupes)) then construction_error ''duplicate node ids''
            else Inl (Exn TypeError ''not supported between instances'' []))
         else if list_ex (\<lambda>i. \<not> hashable i) ids then unhashable_error
         else bind_res (check_all (\<lambda>e. bind_res (check_endpoint (set keys) (ge_src e)) (\<lambda>_. check_endpoint (set keys) (ge_dst e))) edges)
           (\<lambda>_. Inr \<lparr>pg_nodes = nodes, pg_edges = edges\<rparr>))"

section \<open>Import paths\<close>

definition serialization_error :: "string \<Rightarrow> 'a res" where
  "serialization_error msg = Inl (Exn (OtherError ''GraphSerializationError'') msg [])"

text \<open>\<open>importlib.import_module\<close> under \<open>except ImportError\<close>: any other exception of the import goes through.\<close>

definition import_module :: "'o py_imports \<Rightarrow> string \<Rightarrow> string \<Rightarrow> unit res" where
  "import_module w m msg = (case im_import w m of
     Inl e \<Rightarrow> if class_of e \<in> {OtherError ''ImportError'', OtherError ''ModuleNotFoundError''} then serialization_error msg else Inl e
   | Inr _ \<Rightarrow> Inr ())"

lemma import_module_ok: "import_module w m msg = Inr u \<longleftrightarrow> im_import w m = Inr ()"
  by (simp add: import_module_def serialization_error_def split: sum.split)

definition callable_to_import_path :: "'o py_imports \<Rightarrow> 'o \<Rightarrow> string res" where
  "callable_to_import_path w fn =
     (if im_module w fn = [] \<or> im_qualname w fn = [] then serialization_error ''callable has no __module__/__qualname__''
      else if CHR ''.'' \<in> set (im_qualname w fn) \<or> CHR ''<'' \<in> set (im_qualname w fn)
        then serialization_error ''callable is not a plain top-level module attribute''
      else bind_res (import_module w (im_module w fn) ''module could not be re-imported'') (\<lambda>_.
        let stray = serialization_error ''does not resolve back to the same object'' in
        case im_getattr w (im_module w fn) (im_qualname w fn) of
          Inl e \<Rightarrow> if class_of e = AttributeError then stray else Inl e
        | Inr resolved \<Rightarrow> if resolved \<noteq> fn then stray else Inr (im_module w fn @ '':'' @ im_qualname w fn)))"

text \<open>\<open>path.rpartition(":")\<close> of a path with a colon.\<close>

definition rpartition_colon :: "string \<Rightarrow> string \<times> string" where
  "rpartition_colon path =
     (let attr = rev (takeWhile (\<lambda>c. c \<noteq> CHR '':'') (rev path)) in (take (length path - length attr - 1) path, attr))"

definition resolve_import_path :: "'o py_imports \<Rightarrow> json \<Rightarrow> 'o res" where
  "resolve_import_path w j = (case j of
     JStr path \<Rightarrow>
       if CHR '':'' \<notin> set path then serialization_error ''malformed import path''
       else (let (module_name, attr_name) = rpartition_colon path in
         if module_name = [] \<or> attr_name = [] then serialization_error ''malformed import path: empty module or attribute name''
         else bind_res (import_module w module_name ''cannot import module'') (\<lambda>_. case im_getattr w module_name attr_name of
             Inl e \<Rightarrow> if class_of e = AttributeError then serialization_error ''module has no such attribute'' else Inl e
           | Inr fn \<Rightarrow> if \<not> im_callable w fn then serialization_error ''resolved object is not callable'' else Inr fn))
   | _ \<Rightarrow> serialization_error ''callable_ref must be a string import path'')"

section \<open>JSON documents\<close>

definition GRAPH_SCHEMA_VERSION :: int where
  "GRAPH_SCHEMA_VERSION = 1"

definition MIN_SUPPORTED_GRAPH_SCHEMA_VERSION :: int where
  "MIN_SUPPORTED_GRAPH_SCHEMA_VERSION = 1"

definition serialize_node :: "'o py_imports \<Rightarrow> 'o graph_node \<Rightarrow> json res" where
  "serialize_node w n =
     bind_res (callable_to_import_path w (gn_callable n)) (\<lambda>path.
       Inr (JObj [(''id'', gn_id n), (''callable_ref'', JStr path), (''metadata'', JObj (gn_metadata n)), (''frozen'', gn_frozen n)]))"

definition deserialize_node :: "'o py_imports \<Rightarrow> json \<Rightarrow> 'o graph_node res" where
  "deserialize_node w data = (case data of
     JObj d \<Rightarrow>
       if ''id'' \<notin> fst ` set d \<or> ''callable_ref'' \<notin> fst ` set d \<or> ''metadata'' \<notin> fst ` set d
       then Inl (value_error ''node missing required field'' [])
       else bind_res (resolve_import_path w (obj_get d ''callable_ref'')) (\<lambda>fn.
         HostPrepGraphNode_init (obj_get d ''id'') fn (obj_get d ''metadata'')
           (case map_of d ''frozen'' of None \<Rightarrow> JBool False | Some j \<Rightarrow> j))
   | _ \<Rightarrow> Inl (value_error ''node must be a JSON object'' []))"

definition edge_json :: "graph_edge \<Rightarrow> json" where
  "edge_json e = JObj [(''src'', ge_src e), (''dst'', ge_dst e)]"

definition serialize_graph :: "'o py_imports \<Rightarrow> 'o prep_graph \<Rightarrow> json res" where
  "serialize_graph w g =
     bind_res (traverse_res (serialize_node w) (pg_nodes g)) (\<lambda>nodes.
       Inr (JObj [(''schema_version'', JInt GRAPH_SCHEMA_VERSION), (''nodes'', JArr nodes), (''edges'', JArr (map edge_json (pg_edges g)))]))"

definition deserialize_edge :: "json \<Rightarrow> graph_edge res" where
  "deserialize_edge j = (case j of
     JObj d \<Rightarrow>
       if ''src'' \<in> fst ` set d \<and> ''dst'' \<in> fst ` set d
       then Inr \<lparr>ge_src = obj_get d ''src'', ge_dst = obj_get d ''dst''\<rparr>
       else Inl (value_error ''edge must be a JSON object with src and dst'' [])
   | _ \<Rightarrow> Inl (value_error ''edge must be a JSON object with src and dst'' []))"

definition schema_version_error :: "string \<Rightarrow> 'a res" where
  "schema_version_error msg = Inl (Exn (OtherError ''SchemaVersionError'') msg [])"

definition check_schema_version :: "(string \<times> json) list \<Rightarrow> unit res" where
  "check_schema_version d = (case map_of d ''schema_version'' of
     None \<Rightarrow> schema_version_error ''missing required field: schema_version''
   | Some (JInt version) \<Rightarrow>
       if version < MIN_SUPPORTED_GRAPH_SCHEMA_VERSION then schema_version_error ''older than the minimum supported version''
       else if version > GRAPH_SCHEMA_VERSION then schema_version_error ''newer than the current version''
       else Inr ()
   | Some _ \<Rightarrow> schema_version_error ''schema_version must be an int'')"

definition deserialize_graph :: "'o py_imports \<Rightarrow> json \<Rightarrow> 'o prep_graph res" where
  "deserialize_graph w data = (case data of
     JObj d \<Rightarrow>
       bind_res (check_schema_version d) (\<lambda>_.
         case map_of d ''nodes'' of
           None \<Rightarrow> Inl (value_error ''missing required field: nodes'' [])
         | Some (JArr raw_nodes) \<Rightarrow>
             bind_res (traverse_res (deserialize_node w) raw_nodes) (\<lambda>nodes.
               case (case map_of d ''edges'' of None \<Rightarrow> JArr [] | Some j \<Rightarrow> j) of
                 JArr raw_edges \<Rightarrow> bind_res (traverse_res deserialize_edge raw_edges) (HostPrepGraph_init nodes)
               | _ \<Rightarrow> Inl (value_error ''edges must be a list'' []))
         | Some _ \<Rightarrow> Inl (value_error ''nodes must be a list'' []))
   | _ \<Rightarrow> Inl (value_error ''graph document must be a JSON object'' []))"

section \<open>Well-formed graphs\<close>

text \<open>What construction establishes of a node and of a graph, as long as nobody sets an attribute.\<close>

definition md_items :: "(string \<times> json) list \<Rightarrow> (json \<times> json) list" where
  "md_items md = map (\<lambda>(k, v). (JStr k, v)) md"

definition node_ok :: "'o graph_node \<Rightarrow> bool" where
  "node_ok n \<longleftrightarrow> conforms default_schema (md_items (gn_metadata n)) \<and> gn_constructed n = JBool True"

definition graph_ok :: "'o prep_graph \<Rightarrow> bool" where
  "graph_ok g \<longleftrightarrow> list_all node_ok (pg_nodes g)
     \<and> list_all (\<lambda>n. hashable (gn_id n)) (pg_nodes g) \<and> distinct (map (id_key \<circ> gn_id) (pg_nodes g))
     \<and> list_all (\<lambda>e. hashable (ge_src e) \<and> hashable (ge_dst e)
          \<and> {id_key (ge_src e), id_key (ge_dst e)} \<subseteq> (id_key \<circ> gn_id) ` set (pg_nodes g)) (pg_edges g)"

lemma default_schema_ok: "schema_ok default_schema"
  by (rule load_schema_ok [OF default_schema_loads])

lemma str_items_json_items [simp]: "str_items (md_items md) = md"
  by (simp add: str_items_def md_items_def json_text_def comp_def case_prod_beta)

lemma md_items_str_items: "conforms default_schema kvs \<Longrightarrow> md_items (str_items kvs) = kvs"
  by (force simp: conforms_def md_items_def str_items_def json_text_def comp_def case_prod_beta intro: map_idI)

lemma HostPrepGraphNode_init_iff:
  "HostPrepGraphNode_init i c metadata frozen = Inr n \<longleftrightarrow>
     (\<exists>kvs. py_dict metadata = Inr kvs \<and> conforms default_schema kvs \<and>
       n = \<lparr>gn_id = i, gn_callable = c, gn_metadata = str_items kvs, gn_frozen = frozen, gn_constructed = JBool True\<rparr>)"
  by (auto simp: HostPrepGraphNode_init_def bind_res_eq_Inr validate_iff_conforms [OF default_schema_ok])

lemma node_init_ok: "HostPrepGraphNode_init i c metadata frozen = Inr n \<Longrightarrow> node_ok n \<and> gn_id n = i \<and> gn_callable n = c \<and> gn_frozen n = frozen"
  by (auto simp: HostPrepGraphNode_init_iff node_ok_def md_items_str_items)

lemma node_rebuilt: "node_ok n \<Longrightarrow> HostPrepGraphNode_init (gn_id n) (gn_callable n) (JObj (gn_metadata n)) (gn_frozen n) = Inr n"
  by (auto simp: HostPrepGraphNode_init_iff node_ok_def simp flip: md_items_def intro: exI [of _ "md_items (gn_metadata n)"])

lemma no_dupes_iff: "filter (\<lambda>i. 1 < length (filter (\<lambda>k. k = f i) (map f xs))) xs = [] \<longleftrightarrow> distinct (map f xs)"
proof -
  have "distinct ks \<longleftrightarrow> (\<forall>k \<in> set ks. length (filter (\<lambda>x. x = k) ks) \<le> 1)" for ks :: "'b list"
  proof (induction ks)
    case (Cons a ks)
    have "length (filter (\<lambda>x. x = a) ks) = 0 \<longleftrightarrow> a \<notin> set ks" by (auto simp: filter_empty_conv)
    moreover have "length (filter (\<lambda>x. x = k) (a # ks)) \<le> 1 \<longleftrightarrow> length (filter (\<lambda>x. x = k) ks) \<le> 1" if "k \<in> set ks" "a \<notin> set ks" for k
      using that by auto
    ultimately show ?case using Cons.IH by auto
  qed simp
  from this [of "map f xs"] show ?thesis by (auto simp: filter_empty_conv not_less)
qed

lemma check_endpoint_iff: "check_endpoint known j = Inr u \<longleftrightarrow> hashable j \<and> id_key j \<in> known"
  by (simp add: check_endpoint_def unhashable_error_def construction_error_def)

lemma HostPrepGraph_init_iff:
  "HostPrepGraph_init nodes edges = Inr g \<longleftrightarrow> g = \<lparr>pg_nodes = nodes, pg_edges = edges\<rparr>
     \<and> list_all (\<lambda>n. hashable (gn_id n)) nodes \<and> distinct (map (id_key \<circ> gn_id) nodes)
     \<and> list_all (\<lambda>e. hashable (ge_src e) \<and> hashable (ge_dst e)
          \<and> {id_key (ge_src e), id_key (ge_dst e)} \<subseteq> (id_key \<circ> gn_id) ` set nodes) edges"
proof -
  let ?dupes = "filter (\<lambda>i. 1 < length (filter (\<lambda>k. k = id_key i) (map id_key (map gn_id nodes)))) (map gn_id nodes)"
  have dup: "?dupes = [] \<longleftrightarrow> distinct (map (id_key \<circ> gn_id) nodes)"
    using no_dupes_iff [of id_key "map gn_id nodes"] by simp
  have edges: "check_all (\<lambda>e. bind_res (check_endpoint (set (map id_key (map gn_id nodes))) (ge_src e))
        (\<lambda>_. check_endpoint (set (map id_key (map gn_id nodes))) (ge_dst e))) edges = Inr u
      \<longleftrightarrow> list_all (\<lambda>e. hashable (ge_src e) \<and> hashable (ge_dst e)
          \<and> {id_key (ge_src e), id_key (ge_dst e)} \<subseteq> (id_key \<circ> gn_id) ` set nodes) edges" for u :: unit
    by (auto simp: check_all_iff bind_res_eq_Inr check_endpoint_iff list_all_iff image_comp comp_def)
  show ?thesis
  proof (cases "?dupes = []")
    case True
    have eq: "HostPrepGraph_init nodes edges = (if list_ex (\<lambda>i. \<not> hashable i) (map gn_id nodes) then unhashable_error
        else bind_res (check_all (\<lambda>e. bind_res (check_endpoint (set (map id_key (map gn_id nodes))) (ge_src e))
          (\<lambda>_. check_endpoint (set (map id_key (map gn_id nodes))) (ge_dst e))) edges)
          (\<lambda>_. Inr \<lparr>pg_nodes = nodes, pg_edges = edges\<rparr>))"
      unfolding HostPrepGraph_init_def Let_def True by simp
    have built: "bind_res (check_all (\<lambda>e. bind_res (check_endpoint (set (map id_key (map gn_id nodes))) (ge_src e))
          (\<lambda>_. check_endpoint (set (map id_key (map gn_id nodes))) (ge_dst e))) edges)
          (\<lambda>_. Inr \<lparr>pg_nodes = nodes, pg_edges = edges\<rparr>) = Inr g
      \<longleftrightarrow> g = \<lparr>pg_nodes = nodes, pg_edges = edges\<rparr> \<and> list_all (\<lambda>e. hashable (ge_src e) \<and> hashable (ge_dst e)
          \<and> {id_key (ge_src e), id_key (ge_dst e)} \<subseteq> (id_key \<circ> gn_id) ` set nodes) edges"
      unfolding bind_res_eq_Inr [where m = "check_all f xs" for f xs] edges by blast
    have hashables: "list_ex (\<lambda>i. \<not> hashable i) (map gn_id nodes) \<longleftrightarrow> \<not> list_all (\<lambda>n. hashable (gn_id n)) nodes"
      by (auto simp: list_ex_iff list_all_iff)
    show ?thesis
    proof (cases "list_all (\<lambda>n. hashable (gn_id n)) nodes")
      case True
      have "distinct (map (id_key \<circ> gn_id) nodes)" using dup \<open>?dupes = []\<close> by blast
      with True show ?thesis unfolding eq hashables by (simp only: built simp_thms if_False)
    next
      case False
      then show ?thesis unfolding eq hashables by (simp add: unhashable_error_def)
    qed
  next
    case False
    then have "HostPrepGraph_init nodes edges \<noteq> Inr g"
      unfolding HostPrepGraph_init_def Let_def unhashable_error_def construction_error_def by simp
    with False dup show ?thesis by simp
  qed
qed

lemma graph_init_ok: "HostPrepGraph_init nodes edges = Inr g \<Longrightarrow> list_all node_ok nodes \<Longrightarrow> graph_ok g"
  by (auto simp: HostPrepGraph_init_iff graph_ok_def)

lemma graph_rebuilt: "graph_ok g \<Longrightarrow> HostPrepGraph_init (pg_nodes g) (pg_edges g) = Inr g"
  by (simp add: HostPrepGraph_init_iff graph_ok_def)

section \<open>The round trip\<close>

lemma rpartition_join: "CHR '':'' \<notin> set q \<Longrightarrow> rpartition_colon (m @ '':'' @ q) = (m, q)"
proof -
  assume "CHR '':'' \<notin> set q"
  then have "takeWhile (\<lambda>c. c \<noteq> CHR '':'') (rev q @ CHR '':'' # rev m) = rev q"
    by (subst takeWhile_append2) auto
  then show ?thesis by (simp add: rpartition_colon_def)
qed

text \<open>What the callable of a node must be for its import path to lead back to it.\<close>

definition reloadable :: "'o py_imports \<Rightarrow> 'o \<Rightarrow> bool" where
  "reloadable w fn \<longleftrightarrow> im_callable w fn \<and> CHR '':'' \<notin> set (im_qualname w fn)"

lemma import_path_roundtrip:
  "callable_to_import_path w fn = Inr path \<Longrightarrow> reloadable w fn \<Longrightarrow> resolve_import_path w (JStr path) = Inr fn"
  by (auto simp: callable_to_import_path_def resolve_import_path_def reloadable_def serialization_error_def rpartition_join
      bind_res_eq_Inr import_module_ok Let_def simp del: append.simps split: if_split_asm sum.split_asm)

lemma node_roundtrip:
  assumes "serialize_node w n = Inr j" "node_ok n" "reloadable w (gn_callable n)"
  shows "deserialize_node w j = Inr n"
proof -
  obtain path where "callable_to_import_path w (gn_callable n) = Inr path"
      "j = JObj [(''id'', gn_id n), (''callable_ref'', JStr path), (''metadata'', JObj (gn_metadata n)), (''frozen'', gn_frozen n)]"
    using assms(1) by (auto simp: serialize_node_def bind_res_eq_Inr)
  with import_path_roundtrip [OF _ assms(3)] node_rebuilt [OF assms(2)] show ?thesis
    by (simp add: deserialize_node_def obj_get_def)
qed

lemma edges_roundtrip: "traverse_res deserialize_edge (map edge_json edges) = Inr edges"
  by (induction edges) (simp_all add: edge_json_def deserialize_edge_def obj_get_def)

lemma graph_reread:
  assumes "graph_ok g" "serialize_graph w g = Inr doc" "\<forall>n \<in> set (pg_nodes g). reloadable w (gn_callable n)"
  shows "deserialize_graph w doc = Inr g"
proof -
  obtain js where js: "traverse_res (serialize_node w) (pg_nodes g) = Inr js"
      "doc = JObj [(''schema_version'', JInt GRAPH_SCHEMA_VERSION), (''nodes'', JArr js), (''edges'', JArr (map edge_json (pg_edges g)))]"
    using assms(2) by (auto simp: serialize_graph_def bind_res_eq_Inr)
  have "traverse_res (deserialize_node w) js = Inr (pg_nodes g)" if "traverse_res (serialize_node w) ns = Inr js"
      "set ns \<subseteq> set (pg_nodes g)" "ns = pg_nodes g" for ns
  proof -
    have "list_all2 (\<lambda>n j. serialize_node w n = Inr j) (pg_nodes g) js" using js(1) by (simp add: traverse_res_eq_Inr)
    then have "list_all2 (\<lambda>j n. deserialize_node w j = Inr n) js (pg_nodes g)"
      using assms(1,3) by (auto simp: list_all2_conv_all_nth graph_ok_def list_all_length intro!: node_roundtrip)
    then show ?thesis by (simp add: traverse_res_eq_Inr)
  qed
  with js(1) have "traverse_res (deserialize_node w) js = Inr (pg_nodes g)" by blast
  with edges_roundtrip graph_rebuilt [OF assms(1)] show ?thesis
    by (simp add: js(2) deserialize_graph_def check_schema_version_def GRAPH_SCHEMA_VERSION_def MIN_SUPPORTED_GRAPH_SCHEMA_VERSION_def)
qed

text \<open>
  C38. A graph that is well formed and can be written is read back as the same graph, whatever its ids, its metadata and its
  flags, when the names of its callables have no colon; writing what was read gives the same document.
\<close>

theorem graph_roundtrip:
  assumes "graph_ok g" "serialize_graph w g = Inr doc" "\<forall>n \<in> set (pg_nodes g). reloadable w (gn_callable n)"
  shows "deserialize_graph w doc = Inr g \<and> bind_res (deserialize_graph w doc) (serialize_graph w) = Inr doc"
  using graph_reread [OF assms] assms(2) by simp_all

lemma accepted_graph:
  assumes "deserialize_graph w doc = Inr g"
  shows "graph_ok g \<and> (\<exists>d. doc = JObj d \<and> map_of d ''schema_version'' = Some (JInt 1))
    \<and> (\<forall>n \<in> set (pg_nodes g). im_callable w (gn_callable n))"
proof -
  obtain d where d: "doc = JObj d" "check_schema_version d = Inr ()"
    using assms by (cases doc) (auto simp: deserialize_graph_def bind_res_eq_Inr)
  obtain raw where raw: "map_of d ''nodes'' = Some (JArr raw)"
    using assms d by (cases "map_of d ''nodes''"; cases "the (map_of d ''nodes'')") (simp_all add: deserialize_graph_def)
  obtain nodes where nodes: "traverse_res (deserialize_node w) raw = Inr nodes"
    using assms d raw by (auto simp: deserialize_graph_def bind_res_eq_Inr)
  obtain edges where g: "HostPrepGraph_init nodes edges = Inr g"
    using assms d raw nodes by (auto simp: deserialize_graph_def bind_res_eq_Inr split: json.split_asm)
  have node: "node_ok n \<and> im_callable w (gn_callable n)" if "n \<in> set nodes" for n
  proof -
    obtain j where "deserialize_node w j = Inr n" using list_all2_pick(2) [OF nodes [unfolded traverse_res_eq_Inr] \<open>n \<in> set nodes\<close>] by blast
    then obtain i p md fr fn where "resolve_import_path w p = Inr fn" "HostPrepGraphNode_init i fn md fr = Inr n"
      by (cases j) (auto simp: deserialize_node_def bind_res_eq_Inr split: if_split_asm)
    with node_init_ok [OF this(2)] show ?thesis
      by (cases p) (auto simp: resolve_import_path_def serialization_error_def bind_res_eq_Inr split: if_split_asm prod.split_asm sum.split_asm)
  qed
  have "map_of d ''schema_version'' = Some (JInt 1)"
    using d(2) by (auto simp: check_schema_version_def schema_version_error_def GRAPH_SCHEMA_VERSION_def
        MIN_SUPPORTED_GRAPH_SCHEMA_VERSION_def split: option.split_asm json.split_asm if_split_asm)
  with d(1) node g graph_init_ok [OF g] show ?thesis
    by (auto simp: list_all_iff HostPrepGraph_init_iff)
qed

text \<open>
  C39. Whatever document is accepted, its version is the supported one and the graph it gives is well formed: metadata that
  conforms to the schema, unique ids and edges between them.
\<close>

theorem accepted_documents_are_graphs:
  assumes "deserialize_graph w doc = Inr g"
  shows "graph_ok g \<and> (\<exists>d. doc = JObj d \<and> map_of d ''schema_version'' = Some (JInt 1))
    \<and> (\<forall>n \<in> set (pg_nodes g). im_callable w (gn_callable n))"
  using assms by (rule accepted_graph)

end
