(* ===== verification/Graph_Validate.thy ===== *)
theory Graph_Validate
  imports Graph_Model Stage_Pipeline
begin

text \<open>
  The validation gate and the author of graphs: \<open>composition/validate.py\<close>, \<open>composition/author.py\<close> and the finding filter
  of \<open>jaxlint_runner.py\<close>.

  What \<open>inspect\<close> says of a callable and what \<open>jaxlint\<close> prints for a file are the record \<open>checkers\<close>; a run of \<open>jaxlint\<close> may
  answer differently every time, so it is given the log of the runs before it, which the state keeps beside the cache.
\<close>

section \<open>Lint findings of a callable\<close>

datatype lint_output = Lint_blank | Lint_garbage | Lint_json json

record 'o checkers =
  ck_signature :: "'o \<Rightarrow> string option"
  ck_sourcefile :: "'o \<Rightarrow> string option"
  ck_sourcelines :: "'o \<Rightarrow> (nat \<times> int) option"
  ck_jaxlint :: "string list \<Rightarrow> string \<Rightarrow> lint_output res"
  ck_str :: "json \<Rightarrow> string"

definition run_jaxlint_json :: "'o checkers \<Rightarrow> string list \<Rightarrow> string \<Rightarrow> (string \<times> json) list list res" where
  "run_jaxlint_json w runs file =
     bind_res (ck_jaxlint w runs file) (\<lambda>out. Inr (case out of
       Lint_json (JArr xs) \<Rightarrow> List.map_filter (\<lambda>f. case f of JObj d \<Rightarrow> Some d | _ \<Rightarrow> None) xs
     | _ \<Rightarrow> []))"

text \<open>\<open>str(x)\<close> of a value that is not a string neither starts with \<open>JL\<close> nor is \<open>error\<close>.\<close>

definition is_jl_error :: "(string \<times> json) list \<Rightarrow> bool" where
  "is_jl_error f \<longleftrightarrow>
     (case obj_get f ''rule_id'' of JStr s \<Rightarrow> take 2 s = ''JL'' | _ \<Rightarrow> False)
     \<and> (case obj_get f ''severity'' of JStr s \<Rightarrow> lower s = ''error'' | _ \<Rightarrow> False)"

definition finding_line :: "(string \<times> json) list \<Rightarrow> int option" where
  "finding_line f = (case obj_get f ''line'' of JInt i \<Rightarrow> Some i | _ \<Rightarrow> None)"

record lint_state =
  ls_cache :: "(string \<times> (string \<times> json) list list) list"
  ls_runs :: "string list"

definition lint_file :: "'o checkers \<Rightarrow> lint_state \<Rightarrow> string \<Rightarrow> ((string \<times> json) list list \<times> lint_state) res" where
  "lint_file w st file = (case map_of (ls_cache st) file of
     Some fs \<Rightarrow> Inr (fs, st)
   | None \<Rightarrow> bind_res (run_jaxlint_json w (ls_runs st) file) (\<lambda>findings.
       let fs = filter is_jl_error findings
       in Inr (fs, \<lparr>ls_cache = ls_cache st @ [(file, fs)], ls_runs = ls_runs st @ [file]\<rparr>)))"

definition in_lines :: "(nat \<times> int) option \<Rightarrow> (string \<times> json) list \<Rightarrow> bool" where
  "in_lines source f = (case source of
     None \<Rightarrow> True
   | Some (count, start_line) \<Rightarrow> (case finding_line f of
       None \<Rightarrow> True
     | Some line \<Rightarrow> start_line \<le> line \<and> line \<le> start_line + int count - 1))"

definition jaxlint_errors_for :: "'o checkers \<Rightarrow> lint_state \<Rightarrow> 'o \<Rightarrow> ((string \<times> json) list list \<times> lint_state) res" where
  "jaxlint_errors_for w st fn = (case ck_sourcefile w fn of
     None \<Rightarrow> Inr ([], st)
   | Some file \<Rightarrow> bind_res (lint_file w st file) (\<lambda>(fs, st'). Inr (filter (in_lines (ck_sourcelines w fn)) fs, st')))"

section \<open>The gate\<close>

datatype verdict = PASS | NEEDS_WORK | FAIL

primrec verdict_rank :: "verdict \<Rightarrow> nat" where
  "verdict_rank PASS = 0"
| "verdict_rank NEEDS_WORK = 1"
| "verdict_rank FAIL = 2"

primrec verdict_text :: "verdict \<Rightarrow> string" where
  "verdict_text PASS = ''PASS''"
| "verdict_text NEEDS_WORK = ''NEEDS_WORK''"
| "verdict_text FAIL = ''FAIL''"

record node_failure =
  nf_node_id :: json
  nf_check :: string
  nf_message :: string

definition lint_message :: "'o checkers \<Rightarrow> (string \<times> json) list \<Rightarrow> string" where
  "lint_message w f = (case map_of f ''message'' of
     None \<Rightarrow> ''jaxlint JL error''
   | Some (JStr s) \<Rightarrow> s
   | Some j \<Rightarrow> ck_str w j)"

definition rebuild_node :: "'o graph_node \<Rightarrow> verdict \<Rightarrow> 'o graph_node res" where
  "rebuild_node n v =
     HostPrepGraphNode_init (gn_id n) (gn_callable n)
       (JObj (AList.update ''audit_verdict'' (JStr (verdict_text v)) (gn_metadata n))) (gn_frozen n)"

definition signature_failures :: "'o checkers \<Rightarrow> 'o graph_node \<Rightarrow> node_failure list" where
  "signature_failures w n = (case ck_signature w (gn_callable n) of
     None \<Rightarrow> []
   | Some msg \<Rightarrow> [\<lparr>nf_node_id = gn_id n, nf_check = ''eval_shape_consistency_proxy'', nf_message = msg\<rparr>])"

definition lint_failure :: "'o checkers \<Rightarrow> 'o graph_node \<Rightarrow> (string \<times> json) list \<Rightarrow> node_failure" where
  "lint_failure w n f = \<lparr>nf_node_id = gn_id n, nf_check = ''jaxlint'', nf_message = lint_message w f\<rparr>"

definition downgrade :: "verdict \<Rightarrow> (string \<times> json) list \<Rightarrow> verdict" where
  "downgrade v f = (if verdict_rank NEEDS_WORK > verdict_rank v then NEEDS_WORK else v)"

definition check_node ::
  "'o checkers \<Rightarrow> verdict \<Rightarrow> lint_state \<Rightarrow> 'o graph_node \<Rightarrow> ('o graph_node \<times> node_failure list \<times> lint_state) res"
where
  "check_node w start st n =
     bind_res (jaxlint_errors_for w st (gn_callable n)) (\<lambda>(fs, st').
     bind_res (rebuild_node n (foldl downgrade (if ck_signature w (gn_callable n) \<noteq> None then FAIL else start) fs)) (\<lambda>n'.
       Inr (n', signature_failures w n @ map (lint_failure w n) fs, st')))"

fun check_nodes ::
  "'o checkers \<Rightarrow> verdict \<Rightarrow> lint_state \<Rightarrow> 'o graph_node list \<Rightarrow> ('o graph_node list \<times> node_failure list \<times> lint_state) res"
where
  "check_nodes w start st [] = Inr ([], [], st)"
| "check_nodes w start st (n # ns) =
     bind_res (check_node w start st n) (\<lambda>(n', fails, st1).
     bind_res (check_nodes w start st1 ns) (\<lambda>(ns', fails', st2). Inr (n' # ns', fails @ fails', st2)))"

record 'o validation_result =
  vr_graph :: "'o prep_graph"
  vr_failures :: "node_failure list"
  vr_passed :: bool

definition exn_text :: "exn \<Rightarrow> string" where
  "exn_text e = (case e of Exn c msg args \<Rightarrow> msg)"

definition topology_failure :: "node_failure option" where
  "topology_failure = (case validate_plan_topology [] ([] :: (string \<times> (unit, unit, unit) axis_boundary) list) False of
     Inr _ \<Rightarrow> None
   | Inl e \<Rightarrow> Some \<lparr>nf_node_id = JStr [], nf_check = ''plan_topology'', nf_message = exn_text e\<rparr>)"

definition validate_graph :: "'o checkers \<Rightarrow> 'o prep_graph \<Rightarrow> ('o validation_result \<times> string list) res" where
  "validate_graph w g =
     (let failures = (case topology_failure of None \<Rightarrow> [] | Some f \<Rightarrow> [f]);
          start = (if topology_failure \<noteq> None then FAIL else PASS)
      in bind_res (check_nodes w start \<lparr>ls_cache = [], ls_runs = []\<rparr> (pg_nodes g)) (\<lambda>(nodes, fails, st).
         bind_res (HostPrepGraph_init nodes (pg_edges g)) (\<lambda>g'.
           Inr (\<lparr>vr_graph = g', vr_failures = failures @ fails, vr_passed = (failures @ fails = [])\<rparr>, ls_runs st))))"

section \<open>What the gate writes\<close>

definition lint_found :: "'o checkers \<Rightarrow> (string \<rightharpoonup> (string \<times> json) list list) \<Rightarrow> 'o \<Rightarrow> (string \<times> json) list list" where
  "lint_found w lint fn = (case ck_sourcefile w fn of
     None \<Rightarrow> []
   | Some file \<Rightarrow> filter (in_lines (ck_sourcelines w fn)) (case lint file of None \<Rightarrow> [] | Some fs \<Rightarrow> fs))"

definition verdict_of :: "'o checkers \<Rightarrow> (string \<rightharpoonup> (string \<times> json) list list) \<Rightarrow> 'o \<Rightarrow> verdict" where
  "verdict_of w lint fn =
     (if ck_signature w fn \<noteq> None then FAIL else if lint_found w lint fn \<noteq> [] then NEEDS_WORK else PASS)"

definition with_verdict :: "verdict \<Rightarrow> 'o graph_node \<Rightarrow> 'o graph_node" where
  "with_verdict v n = n\<lparr>gn_metadata := AList.update ''audit_verdict'' (JStr (verdict_text v)) (gn_metadata n)\<rparr>"

definition node_failures :: "'o checkers \<Rightarrow> (string \<rightharpoonup> (string \<times> json) list list) \<Rightarrow> 'o graph_node \<Rightarrow> node_failure list" where
  "node_failures w lint n = signature_failures w n @ map (lint_failure w n) (lint_found w lint (gn_callable n))"

lemma no_topology_failure [simp]: "topology_failure = None"
  by (simp add: topology_failure_def validate_plan_topology_def)

lemma downgrades: "foldl downgrade v fs = (if fs \<noteq> [] \<and> v = PASS then NEEDS_WORK else v)"
  by (induction fs arbitrary: v) (auto simp: downgrade_def split: verdict.splits, (case_tac v; simp)+)

lemma audit_slot:
  "find (\<lambda>s. sd_id s = ''audit_verdict'') (ns_slots default_schema)
    = Some \<lparr>sd_id = ''audit_verdict'', sd_required = False, sd_type = ''enum'', sd_min_length = None,
        sd_values = Some [''PASS'', ''FAIL'', ''NEEDS_WORK''], sd_fields = None, sd_item_type = None\<rparr>"
  by code_simp

lemma md_items_update: "md_items (AList.update k v md) = AList.update (JStr k) v (md_items md)"
  by (induction md) (auto simp: md_items_def)

lemma update_in_insert: "set (AList.update k v kvs) \<subseteq> insert (k, v) (set kvs)"
  by (induction kvs) auto

lemma find_mem: "find P xs = Some x \<Longrightarrow> x \<in> set xs"
  by (auto simp: find_Some_iff)

lemma audit_verdict_takes:
  "\<exists>slot \<in> set (ns_slots default_schema). JStr ''audit_verdict'' = JStr (sd_id slot) \<and> takes slot (JStr (verdict_text v))"
proof -
  obtain slot where slot: "slot \<in> set (ns_slots default_schema)" "sd_id slot = ''audit_verdict''"
      "sd_type slot = ''enum''" "sd_values slot = Some [''PASS'', ''FAIL'', ''NEEDS_WORK'']"
    by (rule that [OF find_mem [OF audit_slot]]) simp_all
  have "takes slot (JStr (verdict_text v))" by (cases v) (simp_all add: takes_def slot)
  with slot(1,2) show ?thesis by (intro bexI [of _ slot]) simp_all
qed

lemma update_keys: "fst ` set (AList.update k v kvs) = insert k (fst ` set kvs)"
  by (induction kvs) auto

lemma conforms_with_verdict:
  assumes "conforms default_schema (md_items md)"
  shows "conforms default_schema (md_items (AList.update ''audit_verdict'' (JStr (verdict_text v)) md))"
  unfolding conforms_def md_items_update update_keys
proof (intro conjI ballI impI)
  fix kv assume "kv \<in> set (AList.update (JStr ''audit_verdict'') (JStr (verdict_text v)) (md_items md))"
  then consider "kv = (JStr ''audit_verdict'', JStr (verdict_text v))" | "kv \<in> set (md_items md)"
    by (drule_tac subsetD [OF update_in_insert]) (erule insertE)
  then show "case kv of (k, v) \<Rightarrow> \<exists>slot \<in> set (ns_slots default_schema). k = JStr (sd_id slot) \<and> takes slot v"
  proof cases
    case 1
    show ?thesis unfolding 1 prod.case by (rule audit_verdict_takes)
  next
    case 2
    with assms show ?thesis unfolding conforms_def by (elim conjE) (erule (1) bspec)
  qed
next
  fix slot assume "slot \<in> set (ns_slots default_schema)" "sd_required slot"
  with assms have "JStr (sd_id slot) \<in> fst ` set (md_items md)" unfolding conforms_def by blast
  then show "JStr (sd_id slot) \<in> insert (JStr ''audit_verdict'') (fst ` set (md_items md))" by (rule insertI2)
qed

lemma rebuild_with_verdict: "node_ok n \<Longrightarrow> rebuild_node n v = Inr (with_verdict v n)"
  using node_rebuilt [of "with_verdict v n"] conforms_with_verdict [of "gn_metadata n" v]
  by (simp add: rebuild_node_def with_verdict_def node_ok_def)

lemma with_verdict_ok: "node_ok n \<Longrightarrow> node_ok (with_verdict v n)"
  by (simp add: node_ok_def with_verdict_def conforms_with_verdict)

lemma with_verdict_sels [simp]: "gn_id (with_verdict v n) = gn_id n" "gn_callable (with_verdict v n) = gn_callable n"
  by (simp_all add: with_verdict_def)

section \<open>The cache\<close>

text \<open>Every file of the cache was linted once, in the order of the log, and its entry is what that run said.\<close>

definition lint_ok :: "'o checkers \<Rightarrow> lint_state \<Rightarrow> bool" where
  "lint_ok w st \<longleftrightarrow> map fst (ls_cache st) = ls_runs st \<and> distinct (ls_runs st)
     \<and> (\<forall>i < length (ls_runs st). \<exists>fs. run_jaxlint_json w (take i (ls_runs st)) (ls_runs st ! i) = Inr fs
          \<and> snd (ls_cache st ! i) = filter is_jl_error fs)"

definition lint_map :: "lint_state \<Rightarrow> string \<rightharpoonup> (string \<times> json) list list" where
  "lint_map st = map_of (ls_cache st)"

lemma lint_file_step:
  assumes "lint_file w st file = Inr (fs, st')" "lint_ok w st"
  shows "lint_ok w st'" "lint_map st \<subseteq>\<^sub>m lint_map st'" "lint_map st' file = Some fs"
    "set (ls_runs st') = insert file (set (ls_runs st))"
proof -
  consider "map_of (ls_cache st) file = Some fs" "st' = st"
    | found where "map_of (ls_cache st) file = None" "run_jaxlint_json w (ls_runs st) file = Inr found" "fs = filter is_jl_error found"
        "st' = \<lparr>ls_cache = ls_cache st @ [(file, fs)], ls_runs = ls_runs st @ [file]\<rparr>"
    using assms(1) by (auto simp: lint_file_def Let_def bind_res_eq_Inr split: option.split_asm)
  then have "lint_ok w st' \<and> lint_map st \<subseteq>\<^sub>m lint_map st' \<and> lint_map st' file = Some fs
      \<and> set (ls_runs st') = insert file (set (ls_runs st))"
  proof cases
    case 1
    then have "(file, fs) \<in> set (ls_cache st)" by (simp add: map_of_SomeD)
    then have "file \<in> set (ls_runs st)" using assms(2) by (metis fst_conv image_eqI lint_ok_def set_map)
    with 1 assms(2) show ?thesis by (auto simp: lint_map_def)
  next
    case 2
    have len: "length (ls_cache st) = length (ls_runs st)" using assms(2) by (metis lint_ok_def length_map)
    have fresh: "file \<notin> set (ls_runs st)" using 2(1) assms(2) by (simp add: lint_ok_def map_of_eq_None_iff flip: set_map)
    have "lint_ok w st'"
      using assms(2) 2(2,3) fresh len by (auto simp: 2(4) lint_ok_def nth_append less_Suc_eq)
    moreover have "lint_map st \<subseteq>\<^sub>m lint_map st'" "lint_map st' file = Some fs"
      using 2(1) by (auto simp: 2(4) lint_map_def map_le_def map_add_def split: option.splits)
    ultimately show ?thesis by (simp add: 2(4))
  qed
  then show "lint_ok w st'" "lint_map st \<subseteq>\<^sub>m lint_map st'" "lint_map st' file = Some fs"
    "set (ls_runs st') = insert file (set (ls_runs st))" by blast+
qed

definition linted :: "'o checkers \<Rightarrow> lint_state \<Rightarrow> 'o \<Rightarrow> bool" where
  "linted w st fn \<longleftrightarrow> set_option (ck_sourcefile w fn) \<subseteq> dom (lint_map st)"

lemma lint_found_mono:
  "linted w st fn \<Longrightarrow> lint_map st \<subseteq>\<^sub>m lint_map st' \<Longrightarrow> lint_found w (lint_map st') fn = lint_found w (lint_map st) fn"
  by (auto simp: linted_def lint_found_def map_le_def split: option.splits)

lemma jaxlint_step:
  assumes "jaxlint_errors_for w st fn = Inr (fs, st')" "lint_ok w st"
  shows "lint_ok w st'" "lint_map st \<subseteq>\<^sub>m lint_map st'" "fs = lint_found w (lint_map st') fn" "linted w st' fn"
    "set (ls_runs st') = set (ls_runs st) \<union> set_option (ck_sourcefile w fn)"
  using assms by (auto simp: jaxlint_errors_for_def bind_res_eq_Inr linted_def lint_found_def split: option.split_asm dest: lint_file_step)

lemma check_node_step:
  assumes "check_node w PASS st n = Inr (n', fails, st')" "lint_ok w st" "node_ok n"
  shows "lint_ok w st'" "lint_map st \<subseteq>\<^sub>m lint_map st'" "linted w st' (gn_callable n)"
    "n' = with_verdict (verdict_of w (lint_map st') (gn_callable n)) n" "fails = node_failures w (lint_map st') n"
    "set (ls_runs st') = set (ls_runs st) \<union> set_option (ck_sourcefile w (gn_callable n))"
proof -
  obtain fs where fs: "jaxlint_errors_for w st (gn_callable n) = Inr (fs, st')"
      "n' = with_verdict (foldl downgrade (if ck_signature w (gn_callable n) \<noteq> None then FAIL else PASS) fs) n"
      "fails = signature_failures w n @ map (lint_failure w n) fs"
    using assms(1) by (auto simp: check_node_def bind_res_eq_Inr rebuild_with_verdict [OF assms(3)])
  note step = jaxlint_step [OF fs(1) assms(2)]
  show "lint_ok w st'" "lint_map st \<subseteq>\<^sub>m lint_map st'" "linted w st' (gn_callable n)"
    "set (ls_runs st') = set (ls_runs st) \<union> set_option (ck_sourcefile w (gn_callable n))" using step by blast+
  show "n' = with_verdict (verdict_of w (lint_map st') (gn_callable n)) n" "fails = node_failures w (lint_map st') n"
    using fs(2,3) step(3) by (simp_all add: downgrades verdict_of_def node_failures_def)
qed

lemma check_nodes_result:
  assumes "check_nodes w PASS st ns = Inr (ns', fails, st')" "lint_ok w st" "list_all node_ok ns"
  shows "lint_ok w st' \<and> lint_map st \<subseteq>\<^sub>m lint_map st'
    \<and> ns' = map (\<lambda>n. with_verdict (verdict_of w (lint_map st') (gn_callable n)) n) ns
    \<and> fails = concat (map (node_failures w (lint_map st')) ns)
    \<and> set (ls_runs st') = set (ls_runs st) \<union> (\<Union>n \<in> set ns. set_option (ck_sourcefile w (gn_callable n)))"
  using assms
proof (induction ns arbitrary: st ns' fails)
  case Nil
  then show ?case by simp
next
  case (Cons n ns)
  from Cons.prems(1) obtain n' f1 st1 ns1 f2 where step: "check_node w PASS st n = Inr (n', f1, st1)"
      and rest: "check_nodes w PASS st1 ns = Inr (ns1, f2, st')" and eq: "ns' = n' # ns1" "fails = f1 @ f2"
    by (auto simp: bind_res_eq_Inr)
  have ok: "node_ok n" "list_all node_ok ns" using Cons.prems(3) by simp_all
  note s = check_node_step [OF step Cons.prems(2) ok(1)]
  note IH = Cons.IH [OF rest s(1) ok(2)]
  have same: "lint_found w (lint_map st') (gn_callable n) = lint_found w (lint_map st1) (gn_callable n)"
    using lint_found_mono [OF s(3)] IH by blast
  have "verdict_of w (lint_map st') (gn_callable n) = verdict_of w (lint_map st1) (gn_callable n)"
      "node_failures w (lint_map st') n = node_failures w (lint_map st1) n"
    unfolding verdict_of_def node_failures_def same by (rule refl)+
  with s IH eq show ?case by (auto intro: map_le_trans)
qed

lemma check_nodes_total:
  assumes "\<And>runs file. is_ok (ck_jaxlint w runs file)" "list_all node_ok ns"
  shows "is_ok (check_nodes w start st ns)"
  using assms(2)
proof (induction ns arbitrary: st)
  case (Cons n ns)
  have lint: "is_ok (lint_file w st path)" for path
    using assms(1) [of "ls_runs st" path]
    by (auto simp: lint_file_def run_jaxlint_json_def is_ok_iff Let_def split: option.splits)
  have "is_ok (jaxlint_errors_for w st (gn_callable n))"
    unfolding jaxlint_errors_for_def
  proof (cases "ck_sourcefile w (gn_callable n)")
    case (Some path)
    obtain fs st' where "lint_file w st path = Inr (fs, st')" using lint [of path] by (auto simp: is_ok_iff)
    with Some show "is_ok (case ck_sourcefile w (gn_callable n) of None \<Rightarrow> Inr ([], st)
        | Some file \<Rightarrow> bind_res (lint_file w st file) (\<lambda>(fs, st'). Inr (filter (in_lines (ck_sourcelines w (gn_callable n))) fs, st')))"
      by simp
  qed simp
  then obtain fs st' where "jaxlint_errors_for w st (gn_callable n) = Inr (fs, st')" by (auto simp: is_ok_iff)
  moreover obtain ns' fails st'' where "check_nodes w start st' ns = Inr (ns', fails, st'')"
    using Cons.IH [of st'] Cons.prems by (auto simp: is_ok_iff)
  ultimately show ?case using Cons.prems by (simp add: check_node_def rebuild_with_verdict)
qed simp

section \<open>What the gate promises\<close>

definition lint_told :: "'o checkers \<Rightarrow> string list \<Rightarrow> (string \<rightharpoonup> (string \<times> json) list list) \<Rightarrow> bool" where
  "lint_told w runs lint \<longleftrightarrow> dom lint = set runs
     \<and> (\<forall>i < length runs. \<exists>fs. run_jaxlint_json w (take i runs) (runs ! i) = Inr fs \<and> lint (runs ! i) = Some (filter is_jl_error fs))"

lemma lint_ok_told:
  assumes "lint_ok w st"
  shows "lint_told w (ls_runs st) (lint_map st)"
proof -
  have len: "length (ls_cache st) = length (ls_runs st)" using assms by (metis lint_ok_def length_map)
  have fst_nth: "fst (ls_cache st ! i) = ls_runs st ! i" if "i < length (ls_runs st)" for i
    using assms that len by (metis lint_ok_def nth_map)
  have "lint_map st (ls_runs st ! i) = Some (snd (ls_cache st ! i))" if "i < length (ls_runs st)" for i
    unfolding lint_map_def
  proof (rule map_of_is_SomeI)
    show "distinct (map fst (ls_cache st))" using assms by (simp add: lint_ok_def)
    show "(ls_runs st ! i, snd (ls_cache st ! i)) \<in> set (ls_cache st)"
      using that len fst_nth [OF that] by (metis nth_mem prod.collapse)
  qed
  moreover have "dom (lint_map st) = set (ls_runs st)"
    using assms by (metis dom_map_of_conv_image_fst lint_map_def lint_ok_def set_map)
  ultimately show ?thesis using assms unfolding lint_told_def lint_ok_def by metis
qed

lemma verdict_passes: "verdict_of w lint fn = PASS \<longleftrightarrow> ck_signature w fn = None \<and> lint_found w lint fn = []"
  by (simp add: verdict_of_def)

lemma node_failures_empty: "node_failures w lint n = [] \<longleftrightarrow> verdict_of w lint (gn_callable n) = PASS"
  by (auto simp: node_failures_def signature_failures_def verdict_passes split: option.splits)

lemma graph_ok_with_verdicts:
  assumes "graph_ok g"
  shows "graph_ok \<lparr>pg_nodes = map (\<lambda>n. with_verdict (f n) n) (pg_nodes g), pg_edges = pg_edges g\<rparr>"
  using assms by (auto simp: graph_ok_def list.pred_map comp_def image_image list_all_iff with_verdict_ok)

lemma validate_graph_result:
  assumes "graph_ok g" "validate_graph w g = Inr (r, runs)"
  obtains st where "lint_ok w st" "runs = ls_runs st"
    "vr_graph r = \<lparr>pg_nodes = map (\<lambda>n. with_verdict (verdict_of w (lint_map st) (gn_callable n)) n) (pg_nodes g), pg_edges = pg_edges g\<rparr>"
    "vr_failures r = concat (map (node_failures w (lint_map st)) (pg_nodes g))"
    "vr_passed r \<longleftrightarrow> vr_failures r = []"
    "set runs = (\<Union>n \<in> set (pg_nodes g). set_option (ck_sourcefile w (gn_callable n)))"
proof -
  have nodes_ok: "list_all node_ok (pg_nodes g)" using assms(1) by (simp add: graph_ok_def)
  have empty: "lint_ok w \<lparr>ls_cache = [], ls_runs = []\<rparr>" by (simp add: lint_ok_def)
  obtain ns fails st g' where run: "check_nodes w PASS \<lparr>ls_cache = [], ls_runs = []\<rparr> (pg_nodes g) = Inr (ns, fails, st)"
      and init: "HostPrepGraph_init ns (pg_edges g) = Inr g'"
      and r: "r = \<lparr>vr_graph = g', vr_failures = fails, vr_passed = (fails = [])\<rparr>" "runs = ls_runs st"
    using assms(2) by (auto simp: validate_graph_def Let_def bind_res_eq_Inr)
  note res = check_nodes_result [OF run empty nodes_ok]
  have "vr_graph r = \<lparr>pg_nodes = ns, pg_edges = pg_edges g\<rparr>" using init r(1) by (simp add: HostPrepGraph_init_iff)
  with res r show thesis by (intro that [of st]) (simp_all add: conj_commute)
qed

text \<open>
  C40. The gate gives back the graph it was given with a verdict written into every node and nothing else changed: its ids,
  callables, flags, edges and other metadata. A callable that cannot be inspected fails, one with an error finding in its own
  lines needs work, and a graph passes when all its nodes do. Each source file is linted once, whatever \<open>jaxlint\<close> says.
\<close>

theorem validate_graph_writes_verdicts:
  assumes "graph_ok g" "validate_graph w g = Inr (r, runs)"
  shows "\<exists>lint. lint_told w runs lint \<and> distinct runs
    \<and> set runs = (\<Union>n \<in> set (pg_nodes g). set_option (ck_sourcefile w (gn_callable n)))
    \<and> vr_graph r = \<lparr>pg_nodes = map (\<lambda>n. with_verdict (verdict_of w lint (gn_callable n)) n) (pg_nodes g), pg_edges = pg_edges g\<rparr>
    \<and> graph_ok (vr_graph r)
    \<and> vr_failures r = concat (map (node_failures w lint) (pg_nodes g))
    \<and> vr_passed r = list_all (\<lambda>n. verdict_of w lint (gn_callable n) = PASS) (pg_nodes g)"
proof -
  obtain st where st: "lint_ok w st" "runs = ls_runs st"
      "vr_graph r = \<lparr>pg_nodes = map (\<lambda>n. with_verdict (verdict_of w (lint_map st) (gn_callable n)) n) (pg_nodes g), pg_edges = pg_edges g\<rparr>"
      "vr_failures r = concat (map (node_failures w (lint_map st)) (pg_nodes g))" "vr_passed r \<longleftrightarrow> vr_failures r = []"
      "set runs = (\<Union>n \<in> set (pg_nodes g). set_option (ck_sourcefile w (gn_callable n)))"
    by (rule validate_graph_result [OF assms]) blast
  have "vr_passed r = list_all (\<lambda>n. verdict_of w (lint_map st) (gn_callable n) = PASS) (pg_nodes g)"
    using st(4,5) by (simp add: list_all_iff node_failures_empty)
  moreover have "distinct runs" using st(1,2) by (simp add: lint_ok_def)
  moreover have "graph_ok (vr_graph r)" unfolding st(3) by (rule graph_ok_with_verdicts [OF assms(1)])
  moreover have "lint_told w runs (lint_map st)" unfolding st(2) by (rule lint_ok_told [OF st(1)])
  ultimately show ?thesis using st(3,4,6) by blast
qed

lemma validate_graph_total:
  assumes "graph_ok g" "\<And>runs file. is_ok (ck_jaxlint w runs file)"
  shows "\<exists>r runs. validate_graph w g = Inr (r, runs)"
proof -
  have nodes_ok: "list_all node_ok (pg_nodes g)" using assms(1) by (simp add: graph_ok_def)
  obtain ns fails st where run: "check_nodes w PASS \<lparr>ls_cache = [], ls_runs = []\<rparr> (pg_nodes g) = Inr (ns, fails, st)"
    using check_nodes_total [where ns = "pg_nodes g" and w = w, OF assms(2) nodes_ok] unfolding is_ok_iff by (metis prod.exhaust)
  have "lint_ok w \<lparr>ls_cache = [], ls_runs = []\<rparr>" by (simp add: lint_ok_def)
  note res = check_nodes_result [OF run this nodes_ok]
  have "HostPrepGraph_init ns (pg_edges g) = Inr \<lparr>pg_nodes = ns, pg_edges = pg_edges g\<rparr>"
    using graph_rebuilt [OF graph_ok_with_verdicts [OF assms(1)]] res by simp
  with run show ?thesis by (simp add: validate_graph_def Let_def)
qed

end
