(* ===== verification/Graph_Author.thy ===== *)
theory Graph_Author
  imports Graph_Validate
begin

text \<open>
  Authoring graphs and the command-line verbs on graph documents: \<open>composition/author.py\<close>, \<open>cli/graph_author_verb.py\<close> and
  \<open>cli/graph_verb.py\<close>.

  The draws of \<open>Random(seed)\<close> are a function of their position. A file is read as the JSON value of its text, and the outcome of a
  verb is what it wrote, what it printed and how it ended.
\<close>

section \<open>The template generator\<close>

datatype example = Example_increment | Example_double | Example_square | Example_negate

primrec example_call :: "example \<Rightarrow> int \<Rightarrow> int" where
  "example_call Example_increment x = x + 1"
| "example_call Example_double x = x * 2"
| "example_call Example_square x = x * x"
| "example_call Example_negate x = - x"

definition EXAMPLE_CALLABLES :: "example list" where
  "EXAMPLE_CALLABLES = [Example_increment, Example_double, Example_square, Example_negate]"

definition node_name :: "nat \<Rightarrow> string" where
  "node_name i = CHR ''n'' # decimal i"

definition authored_node :: "'o py_imports \<Rightarrow> nat \<Rightarrow> 'o \<Rightarrow> 'o graph_node res" where
  "authored_node w i fn =
     HostPrepGraphNode_init (JStr (node_name i)) fn
       (JObj [(''nl_description'', JStr (''auto-authored candidate node wrapping '' @ im_module w fn @ '':'' @ im_qualname w fn))])
       (JBool False)"

definition generate :: "'o py_imports \<Rightarrow> (example \<Rightarrow> 'o) \<Rightarrow> (nat \<Rightarrow> nat) \<Rightarrow> json \<Rightarrow> 'o prep_graph res" where
  "generate w ob draw num_nodes = (case num_nodes of
     JInt n \<Rightarrow>
       if n < 1 then Inl (value_error ''num_nodes must be an int >= 1'' [])
       else bind_res (traverse_res
           (\<lambda>i. authored_node w i (ob (EXAMPLE_CALLABLES ! (draw i mod length EXAMPLE_CALLABLES)))) [0..<nat n]) (\<lambda>nodes.
         HostPrepGraph_init nodes
           (map (\<lambda>i. \<lparr>ge_src = JStr (node_name i), ge_dst = JStr (node_name (i + 1))\<rparr>) [0..<nat n - 1]))
   | _ \<Rightarrow> Inl (value_error ''num_nodes must be an int >= 1'' []))"

section \<open>The verbs\<close>

datatype verb_exit = Returns | Exit_message exn | Exit_code int | Raises exn

record verb_outcome =
  vo_written :: "json option"
  vo_printed :: "json option"
  vo_exit :: verb_exit

definition failure_json :: "node_failure \<Rightarrow> json" where
  "failure_json f =
     JObj [(''node_id'', nf_node_id f), (''check'', JStr (nf_check f)), (''message'', JStr (nf_message f))]"

definition envelope :: "'o validation_result \<Rightarrow> json" where
  "envelope r = JObj [(''schema_version'', JInt 1), (''failure_count'', JInt (int (length (vr_failures r)))),
     (''failures'', JArr (map failure_json (vr_failures r)))]"

text \<open>\<open>dump_graph\<close>: the document and the error of the write, if there is one.\<close>

definition dump_graph :: "'o py_imports \<Rightarrow> (json \<Rightarrow> unit res) \<Rightarrow> 'o prep_graph \<Rightarrow> json res" where
  "dump_graph w put g = bind_res (serialize_graph w g) (\<lambda>doc. bind_res (put doc) (\<lambda>_. Inr doc))"

definition load_graph :: "'o py_imports \<Rightarrow> json res \<Rightarrow> 'o prep_graph res" where
  "load_graph w file = bind_res file (deserialize_graph w)"

definition reported :: "'o validation_result \<Rightarrow> json \<Rightarrow> verb_outcome" where
  "reported r doc = \<lparr>vo_written = Some doc, vo_printed = Some (envelope r),
     vo_exit = (if vr_passed r then Returns else Exit_code 1)\<rparr>"

definition ended :: "verb_exit \<Rightarrow> verb_outcome" where
  "ended e = \<lparr>vo_written = None, vo_printed = None, vo_exit = e\<rparr>"

definition GRAPH_LOAD_ERRORS :: "exn_class list" where
  "GRAPH_LOAD_ERRORS = [OtherError ''SchemaVersionError'', OtherError ''GraphSerializationError'',
     OtherError ''GraphConstructionError'', ValueError, OSError, FileNotFoundError, FileExistsError]"

definition run_graph_validate :: "'o py_imports \<Rightarrow> 'o checkers \<Rightarrow> json res \<Rightarrow> (json \<Rightarrow> unit res) \<Rightarrow> verb_outcome" where
  "run_graph_validate w c file put = (case load_graph w file of
     Inl e \<Rightarrow> ended (if class_of e \<in> set GRAPH_LOAD_ERRORS then Exit_message e else Raises e)
   | Inr g \<Rightarrow> (case validate_graph c g of
       Inl e \<Rightarrow> ended (Raises e)
     | Inr (r, runs) \<Rightarrow> (case dump_graph w put (vr_graph r) of
         Inl e \<Rightarrow> ended (Raises e)
       | Inr doc \<Rightarrow> reported r doc)))"

definition run_graph_author ::
  "'o py_imports \<Rightarrow> (example \<Rightarrow> 'o) \<Rightarrow> (nat \<Rightarrow> nat) \<Rightarrow> 'o checkers \<Rightarrow> json \<Rightarrow> (json \<Rightarrow> unit res) \<Rightarrow> verb_outcome"
where
  "run_graph_author w ob draw c num_nodes put = (case generate w ob draw num_nodes of
     Inl e \<Rightarrow> ended (if class_of e = ValueError then Exit_message e else Raises e)
   | Inr g \<Rightarrow> (case validate_graph c g of
       Inl e \<Rightarrow> ended (Raises e)
     | Inr (r, runs) \<Rightarrow> (case dump_graph w put (vr_graph r) of
         Inl e \<Rightarrow> ended (if class_of e \<in> {OSError, FileNotFoundError, FileExistsError} then Exit_message e else Raises e)
       | Inr doc \<Rightarrow> reported r doc)))"

section \<open>Authored graphs\<close>

lemma node_name_inj [simp]: "node_name i = node_name j \<longleftrightarrow> i = j"
proof -
  have "i = j" if "decimal i = decimal j"
    using digits_val_decimal [of 0 i, unfolded that] digits_val_decimal [of 0 j] by simp
  then show ?thesis by (auto simp: node_name_def)
qed

definition described_node :: "'o py_imports \<Rightarrow> nat \<Rightarrow> 'o \<Rightarrow> 'o graph_node" where
  "described_node w i fn = \<lparr>gn_id = JStr (node_name i), gn_callable = fn,
     gn_metadata = [(''nl_description'', JStr (''auto-authored candidate node wrapping '' @ im_module w fn @ '':'' @ im_qualname w fn))],
     gn_frozen = JBool False, gn_constructed = JBool True\<rparr>"

lemma description_slot:
  "find (\<lambda>s. sd_id s = ''nl_description'') (ns_slots default_schema)
    = Some \<lparr>sd_id = ''nl_description'', sd_required = True, sd_type = ''string'', sd_min_length = Some 1,
        sd_values = None, sd_fields = None, sd_item_type = None\<rparr>"
  by code_simp

lemma only_description_required:
  "list_all (\<lambda>s. sd_required s \<longrightarrow> sd_id s = ''nl_description'') (ns_slots default_schema)"
  by code_simp

lemma strip_starts: "\<not> py_space c \<Longrightarrow> strip (c # s) \<noteq> []"
  by (simp add: strip_def)

lemma described_ok: "node_ok (described_node w i fn)"
proof -
  obtain slot where slot: "slot \<in> set (ns_slots default_schema)" "sd_id slot = ''nl_description''"
      "sd_type slot = ''string''" "sd_min_length slot = Some 1"
    by (rule that [OF find_mem [OF description_slot]]) simp_all
  have "\<not> py_space (CHR ''a'')" by code_simp
  then have "takes slot (JStr (''auto-authored candidate node wrapping '' @ t))" for t
    using strip_starts [of "CHR ''a''" "''uto-authored candidate node wrapping '' @ t"]
    by (simp add: takes_def slot Suc_le_eq)
  with slot only_description_required show ?thesis
    by (auto simp: node_ok_def described_node_def conforms_def md_items_def list_all_iff intro!: bexI [of _ slot])
qed

lemma authored_node_eq: "authored_node w i fn = Inr (described_node w i fn)"
  using node_rebuilt [OF described_ok [of w i fn]] by (simp add: authored_node_def described_node_def)

definition chain :: "nat \<Rightarrow> graph_edge list" where
  "chain n = map (\<lambda>i. \<lparr>ge_src = JStr (node_name i), ge_dst = JStr (node_name (i + 1))\<rparr>) [0..<n - 1]"

lemma chain_graph:
  assumes "map gn_id ns = map (JStr \<circ> node_name) [0..<n]"
  shows "HostPrepGraph_init ns (chain n) = Inr \<lparr>pg_nodes = ns, pg_edges = chain n\<rparr>"
proof -
  have key: "id_key (JStr s) = JStr s" for s by (simp add: id_key_def)
  have keys: "map (id_key \<circ> gn_id) ns = map (JStr \<circ> node_name) [0..<n]"
    using arg_cong [OF assms, of "map id_key"] by (simp add: comp_def key)
  then have "distinct (map (id_key \<circ> gn_id) ns)" by (simp add: distinct_map inj_on_def)
  moreover have "list_all (\<lambda>j. hashable j) (map gn_id ns)" unfolding assms by (simp add: list_all_iff)
  moreover have "(id_key \<circ> gn_id) ` set ns = (JStr \<circ> node_name) ` {0..<n}" using arg_cong [OF keys, of set] by simp
  ultimately show ?thesis by (auto simp: HostPrepGraph_init_iff chain_def list_all_iff key list.pred_map comp_def)
qed

lemma generate_eq:
  assumes "1 \<le> n"
  shows "generate w ob draw (JInt n) = Inr \<lparr>pg_nodes = map (\<lambda>i. described_node w i
      (ob (EXAMPLE_CALLABLES ! (draw i mod length EXAMPLE_CALLABLES)))) [0..<nat n], pg_edges = chain (nat n)\<rparr>"
  using assms chain_graph [of "map (\<lambda>i. described_node w i (ob (EXAMPLE_CALLABLES ! (draw i mod length EXAMPLE_CALLABLES)))) [0..<nat n]" "nat n"]
  by (simp add: generate_def authored_node_eq traverse_res_total [where g = "\<lambda>i. described_node w i (f i)" for f] chain_def
      described_node_def comp_def)

section \<open>A linter that keeps its answers\<close>

definition steady_lint :: "'o checkers \<Rightarrow> (string \<Rightarrow> lint_output) \<Rightarrow> bool" where
  "steady_lint c lint \<longleftrightarrow> (\<forall>runs file. ck_jaxlint c runs file = Inr (lint file))"

definition steady_map :: "'o checkers \<Rightarrow> string \<rightharpoonup> (string \<times> json) list list" where
  "steady_map c file = Some (filter is_jl_error (projr (run_jaxlint_json c [] file)))"

lemma lint_found_cong:
  "(\<And>file. ck_sourcefile w fn = Some file \<Longrightarrow> lint file = lint' file) \<Longrightarrow> lint_found w lint fn = lint_found w lint' fn"
  by (simp add: lint_found_def split: option.split)

lemma steady_result:
  assumes "steady_lint c lint" "graph_ok g" "validate_graph c g = Inr (r, runs)"
  shows "r = \<lparr>vr_graph = \<lparr>pg_nodes = map (\<lambda>n. with_verdict (verdict_of c (steady_map c) (gn_callable n)) n) (pg_nodes g), pg_edges = pg_edges g\<rparr>,
    vr_failures = concat (map (node_failures c (steady_map c)) (pg_nodes g)),
    vr_passed = (concat (map (node_failures c (steady_map c)) (pg_nodes g)) = [])\<rparr>"
proof -
  obtain st where st: "lint_ok c st" "runs = ls_runs st"
      "vr_graph r = \<lparr>pg_nodes = map (\<lambda>n. with_verdict (verdict_of c (lint_map st) (gn_callable n)) n) (pg_nodes g), pg_edges = pg_edges g\<rparr>"
      "vr_failures r = concat (map (node_failures c (lint_map st)) (pg_nodes g))" "vr_passed r \<longleftrightarrow> vr_failures r = []"
      "set runs = (\<Union>n \<in> set (pg_nodes g). set_option (ck_sourcefile c (gn_callable n)))"
    by (rule validate_graph_result [OF assms(2,3)]) blast
  have told: "lint_told c runs (lint_map st)" unfolding st(2) by (rule lint_ok_told [OF st(1)])
  have same: "run_jaxlint_json c ys path = run_jaxlint_json c [] path" for ys path
    using assms(1) by (simp add: run_jaxlint_json_def steady_lint_def)
  have map: "lint_map st path = steady_map c path" if "path \<in> set runs" for path
  proof -
    obtain i where i: "i < length runs" "path = runs ! i" using \<open>path \<in> set runs\<close> by (auto simp: in_set_conv_nth)
    then obtain fs where "run_jaxlint_json c (take i runs) path = Inr fs" "lint_map st path = Some (filter is_jl_error fs)"
      using told unfolding lint_told_def by blast
    then show ?thesis by (simp add: same [of "take i runs"] steady_map_def)
  qed
  have found: "lint_found c (lint_map st) (gn_callable n) = lint_found c (steady_map c) (gn_callable n)" if "n \<in> set (pg_nodes g)" for n
    by (rule lint_found_cong, rule map) (use that st(6) in auto)
  then have "vr_failures r = concat (map (node_failures c (steady_map c)) (pg_nodes g))"
    unfolding st(4) by (intro arg_cong [of _ _ concat] map_cong refl) (simp add: node_failures_def)
  moreover have "vr_graph r = \<lparr>pg_nodes = map (\<lambda>n. with_verdict (verdict_of c (steady_map c) (gn_callable n)) n) (pg_nodes g), pg_edges = pg_edges g\<rparr>"
    unfolding st(3) using found by (simp add: verdict_of_def)
  ultimately show ?thesis using st(5) by simp
qed

lemma with_verdict_idem [simp]: "with_verdict v (with_verdict v n) = with_verdict v n"
  by (simp add: with_verdict_def)

lemma node_failures_with_verdict [simp]: "node_failures c lint (with_verdict v n) = node_failures c lint n"
proof -
  have "lint_failure c (with_verdict v n) = lint_failure c n" by (rule ext) (simp add: lint_failure_def)
  then show ?thesis by (simp add: node_failures_def signature_failures_def split: option.split)
qed

lemma steady_total: "steady_lint c lint \<Longrightarrow> is_ok (ck_jaxlint c runs path)"
  by (simp add: steady_lint_def)

lemma revalidated:
  assumes "steady_lint c lint" "graph_ok g" "validate_graph c g = Inr (r, runs)"
  shows "graph_ok (vr_graph r)" "\<exists>runs'. validate_graph c (vr_graph r) = Inr (r, runs')"
proof -
  note r = steady_result [OF assms]
  have graph: "vr_graph r = \<lparr>pg_nodes = map (\<lambda>n. with_verdict (verdict_of c (steady_map c) (gn_callable n)) n) (pg_nodes g), pg_edges = pg_edges g\<rparr>"
    by (subst r) simp
  show ok: "graph_ok (vr_graph r)" unfolding graph by (rule graph_ok_with_verdicts [OF assms(2)])
  obtain r' runs' where again: "validate_graph c (vr_graph r) = Inr (r', runs')"
    using validate_graph_total [OF ok, of c] steady_total [OF assms(1)] by blast
  have "r' = r"
    by (subst steady_result [OF assms(1) ok again], subst (3) r) (simp add: graph comp_def)
  with again show "\<exists>runs'. validate_graph c (vr_graph r) = Inr (r, runs')" by blast
qed

section \<open>The verbs on documents\<close>

lemma loaded_graph:
  assumes "load_graph w stored = Inr g"
  shows "graph_ok g"
  using assms accepted_graph [of w _ g] by (auto simp: load_graph_def bind_res_eq_Inr)

lemma written_by_validate:
  assumes "vo_written (run_graph_validate w c stored put) = Some doc"
  obtains g r runs where "load_graph w stored = Inr g" "validate_graph c g = Inr (r, runs)"
    "serialize_graph w (vr_graph r) = Inr doc" "put doc = Inr ()" "run_graph_validate w c stored put = reported r doc"
  using assms
  by (auto simp: run_graph_validate_def ended_def dump_graph_def bind_res_eq_Inr reported_def split: sum.split_asm prod.split_asm)

lemma verb_on_graph:
  assumes "load_graph w stored = Inr g" "validate_graph c g = Inr (r, runs)" "serialize_graph w (vr_graph r) = Inr doc" "put doc = Inr ()"
  shows "run_graph_validate w c stored put = reported r doc"
  using assms by (simp add: run_graph_validate_def dump_graph_def)

lemma reload_validated:
  assumes "steady_lint c lint" "graph_ok g" "validate_graph c g = Inr (r, runs)" "serialize_graph w (vr_graph r) = Inr doc"
    "\<forall>n \<in> set (pg_nodes g). reloadable w (gn_callable n)"
  shows "load_graph w (Inr doc) = Inr (vr_graph r)"
proof -
  have "\<forall>n \<in> set (pg_nodes (vr_graph r)). reloadable w (gn_callable n)"
    using assms(5) by (subst steady_result [OF assms(1,2,3)]) simp
  then have "deserialize_graph w doc = Inr (vr_graph r)"
    by (rule graph_reread [OF revalidated(1) [OF assms(1,2,3)] assms(4)])
  then show ?thesis by (simp add: load_graph_def)
qed

text \<open>
  When \<open>graph-validate\<close> has written a document, running it again on that document, with a linter that answers as before,
  prints the same report, ends the same way and writes the same document.
\<close>

theorem graph_validate_is_idempotent:
  assumes "steady_lint c lint" "load_graph w stored = Inr g" "\<forall>n \<in> set (pg_nodes g). reloadable w (gn_callable n)"
    "vo_written (run_graph_validate w c stored put) = Some doc"
  shows "run_graph_validate w c (Inr doc) put = run_graph_validate w c stored put"
proof -
  obtain r runs where r: "validate_graph c g = Inr (r, runs)" "serialize_graph w (vr_graph r) = Inr doc" "put doc = Inr ()"
      "run_graph_validate w c stored put = reported r doc"
    by (rule written_by_validate [OF assms(4)]) (simp add: assms(2))
  have ok: "graph_ok g" by (rule loaded_graph [OF assms(2)])
  obtain runs' where "validate_graph c (vr_graph r) = Inr (r, runs')" using revalidated(2) [OF assms(1) ok r(1)] by blast
  from verb_on_graph [where put = put, OF reload_validated [OF assms(1) ok r(1,2) assms(3)] this r(2,3)] r(4) show ?thesis by simp
qed

text \<open>The world in which the callables of the pool can be imported and pass the checks.\<close>

definition pool_known :: "'o py_imports \<Rightarrow> (example \<Rightarrow> 'o) \<Rightarrow> bool" where
  "pool_known w ob \<longleftrightarrow> (\<forall>e. is_ok (callable_to_import_path w (ob e)) \<and> reloadable w (ob e))"

definition pool_clean :: "'o checkers \<Rightarrow> (example \<Rightarrow> 'o) \<Rightarrow> bool" where
  "pool_clean c ob \<longleftrightarrow> (\<forall>e. verdict_of c (steady_map c) (ob e) = PASS)"

lemma serializes:
  assumes "\<forall>n \<in> set (pg_nodes g). is_ok (callable_to_import_path w (gn_callable n))"
  shows "is_ok (serialize_graph w g)"
proof -
  have "is_ok (traverse_res (serialize_node w) ns)" if "\<forall>n \<in> set ns. is_ok (callable_to_import_path w (gn_callable n))" for ns
    using that by (induction ns) (auto simp: serialize_node_def is_ok_iff)
  from this [OF assms] show ?thesis by (auto simp: serialize_graph_def is_ok_iff)
qed

text \<open>
  For every seed and every positive number of nodes, \<open>graph-author\<close> writes a chain of that many nodes which
  \<open>graph-validate\<close> then accepts without changing it, when the example callables can be imported and are clean and the file
  can be written. Every other number of nodes is refused with a message.
\<close>

theorem authored_graphs_validate:
  assumes "steady_lint c lint" "pool_known w ob" "pool_clean c ob" "\<And>doc. put doc = Inr ()"
  shows "(\<exists>n r doc. num_nodes = JInt n \<and> 1 \<le> n \<and> vr_passed r \<and> vr_failures r = []
      \<and> map gn_id (pg_nodes (vr_graph r)) = map (JStr \<circ> node_name) [0..<nat n] \<and> pg_edges (vr_graph r) = chain (nat n)
      \<and> run_graph_author w ob draw c num_nodes put = reported r doc
      \<and> load_graph w (Inr doc) = Inr (vr_graph r)
      \<and> run_graph_validate w c (Inr doc) put = reported r doc)
    \<or> (\<forall>n \<ge> 1. num_nodes \<noteq> JInt n)
      \<and> (\<exists>e. class_of e = ValueError \<and> run_graph_author w ob draw c num_nodes put = ended (Exit_message e))"
proof (cases "\<exists>n \<ge> 1. num_nodes = JInt n")
  case False
  then have "\<exists>e. class_of e = ValueError \<and> generate w ob draw num_nodes = Inl e"
    by (cases num_nodes) (auto simp: generate_def value_error_def)
  with False show ?thesis by (auto simp: run_graph_author_def)
next
  case True
  then obtain n where n: "1 \<le> n" "num_nodes = JInt n" by blast
  define g where "g = \<lparr>pg_nodes = map (\<lambda>i. described_node w i
      (ob (EXAMPLE_CALLABLES ! (draw i mod length EXAMPLE_CALLABLES)))) [0..<nat n], pg_edges = chain (nat n)\<rparr>"
  have gen: "generate w ob draw num_nodes = Inr g" unfolding n(2) g_def by (rule generate_eq [OF n(1)])
  have pool: "verdict_of c (steady_map c) (gn_callable x) = PASS \<and> is_ok (callable_to_import_path w (gn_callable x))
      \<and> reloadable w (gn_callable x)" if "x \<in> set (pg_nodes g)" for x
    using that assms(2,3) by (auto simp: g_def described_node_def pool_known_def pool_clean_def)
  have "list_all node_ok (pg_nodes g)" by (auto simp: g_def list_all_iff described_ok)
  moreover have ids: "map gn_id (pg_nodes g) = map (JStr \<circ> node_name) [0..<nat n]" by (simp add: g_def described_node_def comp_def)
  ultimately have ok: "graph_ok g"
    using graph_init_ok [OF chain_graph [OF ids]] by (simp add: g_def)
  obtain r runs where r: "validate_graph c g = Inr (r, runs)"
    using validate_graph_total [OF ok, of c] steady_total [OF assms(1)] by blast
  note eq = steady_result [OF assms(1) ok r]
  have graph: "vr_graph r = \<lparr>pg_nodes = map (with_verdict PASS) (pg_nodes g), pg_edges = chain (nat n)\<rparr>"
    using assms(3) by (subst eq) (auto simp: pool_clean_def g_def described_node_def)
  have no_fails: "concat (map (node_failures c (steady_map c)) (pg_nodes g)) = []"
    using pool by (simp add: node_failures_empty)
  have fails: "vr_failures r = []" by (subst eq) (simp add: no_fails)
  have passed: "vr_passed r" by (subst eq) (simp add: no_fails)
  have "is_ok (serialize_graph w (vr_graph r))"
    by (rule serializes) (use pool in \<open>simp add: graph\<close>)
  then obtain doc where doc: "serialize_graph w (vr_graph r) = Inr doc" by (auto simp: is_ok_iff)
  have load: "load_graph w (Inr doc) = Inr (vr_graph r)"
    by (rule reload_validated [OF assms(1) ok r doc]) (use pool in simp)
  obtain runs' where again: "validate_graph c (vr_graph r) = Inr (r, runs')" using revalidated(2) [OF assms(1) ok r] by blast
  have validated: "run_graph_validate w c (Inr doc) put = reported r doc"
    by (rule verb_on_graph [OF load again doc assms(4)])
  have authored: "run_graph_author w ob draw c num_nodes put = reported r doc"
    by (simp add: run_graph_author_def gen r dump_graph_def doc assms(4))
  have "map gn_id (pg_nodes (vr_graph r)) = map (JStr \<circ> node_name) [0..<nat n]" "pg_edges (vr_graph r) = chain (nat n)"
    using ids by (simp_all add: graph comp_def)
  with n passed fails load validated authored show ?thesis
    by (intro disjI1 exI [of _ n] exI [of _ r] exI [of _ doc] conjI)
qed

section \<open>Concrete runs\<close>

text \<open>A world whose callables are the names of one module; an alias leads to a lambda.\<close>

definition names_world :: "string py_imports" where
  "names_world = \<lparr>im_module = (\<lambda>_. ''m''), im_qualname = (\<lambda>fn. if fn = ''alias'' then ''<lambda>'' else fn),
     im_import = (\<lambda>m. if m = ''m'' then Inr () else Inl (Exn (OtherError ''ModuleNotFoundError'') ''No module named'' [])),
     im_getattr = (\<lambda>_ a. Inr a), im_callable = (\<lambda>_. True)\<rparr>"

definition pool_name :: "example \<Rightarrow> string" where
  "pool_name e = (case e of Example_increment \<Rightarrow> ''inc'' | Example_double \<Rightarrow> ''dbl'' | Example_square \<Rightarrow> ''sq'' | Example_negate \<Rightarrow> ''neg'')"

text \<open>Every callable is in \<open>m.py\<close>; the one finding of the file is in lines 3 and 4, which are those of \<open>sq2\<close>.\<close>

definition one_finding :: "string checkers" where
  "one_finding = \<lparr>ck_signature = (\<lambda>_. None), ck_sourcefile = (\<lambda>_. Some ''m.py''),
     ck_sourcelines = (\<lambda>fn. Some (2, if fn = ''sq2'' then 3 else 1)),
     ck_jaxlint = (\<lambda>_ _. Inr (Lint_json (JArr [JObj [(''rule_id'', JStr ''JL001''), (''severity'', JStr ''Error''), (''line'', JInt 4),
       (''message'', JStr ''m'')]]))), ck_str = (\<lambda>_. [])\<rparr>"

definition node_doc :: "string \<Rightarrow> string \<Rightarrow> json" where
  "node_doc i path = JObj [(''id'', JStr i), (''callable_ref'', JStr path), (''metadata'', JObj [(''nl_description'', JStr ''d'')])]"

definition graph_doc :: "json list \<Rightarrow> json list \<Rightarrow> json" where
  "graph_doc nodes edges = JObj [(''schema_version'', JInt 1), (''nodes'', JArr nodes), (''edges'', JArr edges)]"

definition two_nodes :: json where
  "two_nodes = graph_doc [node_doc ''a'' ''m:sq'', node_doc ''b'' ''m:sq2''] [JObj [(''src'', JStr ''a''), (''dst'', JStr ''b'')]]"

definition two_graph :: "string prep_graph" where
  "two_graph = projr (deserialize_graph names_world two_nodes)"

lemma two_graph_loads: "deserialize_graph names_world two_nodes = Inr two_graph"
  by code_simp

lemma two_graph_validates:
  "validate_graph one_finding two_graph = Inr (fst (projr (validate_graph one_finding two_graph)), [''m.py''])"
  by code_simp

lemma two_graph_serializes: "serialize_graph names_world two_graph = Inr (projr (serialize_graph names_world two_graph))"
  by code_simp

lemma two_graph_reloadable: "\<forall>n \<in> set (pg_nodes two_graph). reloadable names_world (gn_callable n)"
  by code_simp

lemma one_finding_steady: "steady_lint one_finding (\<lambda>_. Lint_json (JArr [JObj [(''rule_id'', JStr ''JL001''), (''severity'', JStr ''Error''),
    (''line'', JInt 4), (''message'', JStr ''m'')]]))"
  by (simp add: steady_lint_def one_finding_def)

lemma two_graph_written: "\<exists>doc. vo_written (run_graph_validate names_world one_finding (Inr two_nodes) (\<lambda>_. Inr ())) = Some doc"
proof -
  have ok: "graph_ok two_graph" using accepted_graph [OF two_graph_loads] by blast
  obtain r where r: "validate_graph one_finding two_graph = Inr (r, [''m.py''])" using two_graph_validates by blast
  have "\<forall>n \<in> set (pg_nodes two_graph). is_ok (callable_to_import_path names_world (gn_callable n))" by code_simp
  then have "is_ok (serialize_graph names_world (vr_graph r))"
    by (intro serializes) (subst steady_result [OF one_finding_steady ok r], simp)
  then obtain doc where "serialize_graph names_world (vr_graph r) = Inr doc" by (auto simp: is_ok_iff)
  moreover have "load_graph names_world (Inr two_nodes) = Inr two_graph" using two_graph_loads by (simp add: load_graph_def)
  ultimately show ?thesis using verb_on_graph [OF _ r, where put = "\<lambda>_. Inr ()"] by (simp add: reported_def)
qed

theorem graph_validate_is_idempotent_witness:
  "\<exists>doc. vo_written (run_graph_validate names_world one_finding (Inr two_nodes) (\<lambda>_. Inr ())) = Some doc
    \<and> run_graph_validate names_world one_finding (Inr doc) (\<lambda>_. Inr ())
      = run_graph_validate names_world one_finding (Inr two_nodes) (\<lambda>_. Inr ())"
proof -
  obtain doc where doc: "vo_written (run_graph_validate names_world one_finding (Inr two_nodes) (\<lambda>_. Inr ())) = Some doc"
    using two_graph_written by blast
  have "load_graph names_world (Inr two_nodes) = Inr two_graph" using two_graph_loads by (simp add: load_graph_def)
  from graph_validate_is_idempotent [OF one_finding_steady this two_graph_reloadable doc] doc show ?thesis by blast
qed

theorem authored_graphs_validate_witness:
  "\<exists>(r :: string validation_result) doc. run_graph_author names_world pool_name (\<lambda>i. i) one_finding (JInt 2) (\<lambda>_. Inr ()) = reported r doc \<and> vr_passed r"
proof -
  have known: "pool_known names_world pool_name" unfolding pool_known_def
    by (rule allI, rename_tac e, case_tac e) (simp_all add: names_world_def pool_name_def callable_to_import_path_def import_module_def reloadable_def)
  have "verdict_of one_finding (steady_map one_finding) (pool_name e) = PASS" for e
    by (cases e) (simp_all add: pool_name_def, code_simp+)
  then have clean: "pool_clean one_finding pool_name" by (simp add: pool_clean_def)
  show ?thesis
    using authored_graphs_validate [where put = "\<lambda>_. Inr ()" and num_nodes = "JInt 2" and draw = "\<lambda>i. i",
      OF one_finding_steady known clean refl]
    by (elim disjE) (blast, drule conjunct1, drule spec [of _ 2], simp)
qed

text \<open>The results of the checks on the two nodes.\<close>

theorem validate_graph_writes_verdicts_witness:
  "\<exists>lint. vr_failures (fst (projr (validate_graph one_finding two_graph))) = concat (map (node_failures one_finding lint) (pg_nodes two_graph))"
  using validate_graph_writes_verdicts [OF _ two_graph_validates] accepted_graph [OF two_graph_loads] by blast

theorem graph_roundtrip_witness:
  "deserialize_graph names_world (projr (serialize_graph names_world two_graph)) = Inr two_graph"
  using graph_roundtrip [OF _ two_graph_serializes two_graph_reloadable] accepted_graph [OF two_graph_loads] by blast

theorem accepted_documents_are_graphs_witness: "graph_ok two_graph"
  using accepted_documents_are_graphs [OF two_graph_loads] by blast

text \<open>
  The verb's own promise, that a malformed document ends in a message, does not hold of every document: one whose metadata
  is a number, and one with an edge from a list, end in a \<open>TypeError\<close>; one whose callable is a module attribute that holds a
  lambda is accepted and ends in a serialization error after the linter has run.
\<close>

theorem graph_validate_tracebacks:
  "(\<exists>e. run_graph_validate names_world one_finding (Inr (graph_doc [JObj [(''id'', JStr ''a''), (''callable_ref'', JStr ''m:sq''),
      (''metadata'', JInt 5)]] [])) put = ended (Raises e) \<and> class_of e = TypeError)
    \<and> (\<exists>e. run_graph_validate names_world one_finding (Inr (graph_doc [node_doc ''a'' ''m:sq''] [JObj [(''src'', JArr []), (''dst'', JStr ''a'')]])) put
      = ended (Raises e) \<and> class_of e = TypeError)
    \<and> (\<exists>e. run_graph_validate names_world one_finding (Inr (graph_doc [node_doc ''a'' ''m:alias''] [])) put = ended (Raises e)
      \<and> class_of e = OtherError ''GraphSerializationError'')"
proof (intro conjI)
  have "load_graph names_world (Inr (graph_doc [JObj [(''id'', JStr ''a''), (''callable_ref'', JStr ''m:sq''), (''metadata'', JInt 5)]] []))
      = Inl (Exn TypeError ''object is not iterable'' [])" by code_simp
  then show "\<exists>e. run_graph_validate names_world one_finding (Inr (graph_doc [JObj [(''id'', JStr ''a''), (''callable_ref'', JStr ''m:sq''),
      (''metadata'', JInt 5)]] [])) put = ended (Raises e) \<and> class_of e = TypeError"
    by (simp add: run_graph_validate_def GRAPH_LOAD_ERRORS_def ended_def)
next
  have "load_graph names_world (Inr (graph_doc [node_doc ''a'' ''m:sq''] [JObj [(''src'', JArr []), (''dst'', JStr ''a'')]]))
      = Inl (Exn TypeError ''unhashable type'' [])" by code_simp
  then show "\<exists>e. run_graph_validate names_world one_finding (Inr (graph_doc [node_doc ''a'' ''m:sq''] [JObj [(''src'', JArr []), (''dst'', JStr ''a'')]])) put
      = ended (Raises e) \<and> class_of e = TypeError"
    by (simp add: run_graph_validate_def GRAPH_LOAD_ERRORS_def ended_def)
next
  define g where "g = projr (load_graph names_world (Inr (graph_doc [node_doc ''a'' ''m:alias''] [])))"
  have load: "load_graph names_world (Inr (graph_doc [node_doc ''a'' ''m:alias''] [])) = Inr g" unfolding g_def by code_simp
  have ok: "graph_ok g" by (rule loaded_graph [OF load])
  obtain r runs where r: "validate_graph one_finding g = Inr (r, runs)"
    using validate_graph_total [OF ok, of one_finding] steady_total [OF one_finding_steady] by blast
  have "map gn_callable (pg_nodes g) = [''alias'']" unfolding g_def by code_simp
  then have "map gn_callable (pg_nodes (vr_graph r)) = [''alias'']"
    by (subst steady_result [OF one_finding_steady ok r]) (simp add: comp_def)
  then obtain n where "pg_nodes (vr_graph r) = [n]" "gn_callable n = ''alias''" by (auto simp: map_eq_Cons_conv)
  then have "\<exists>e. serialize_graph names_world (vr_graph r) = Inl e \<and> class_of e = OtherError ''GraphSerializationError''"
    by (simp add: serialize_graph_def serialize_node_def callable_to_import_path_def import_module_def names_world_def serialization_error_def)
  then show "\<exists>e. run_graph_validate names_world one_finding (Inr (graph_doc [node_doc ''a'' ''m:alias''] [])) put = ended (Raises e)
      \<and> class_of e = OtherError ''GraphSerializationError''"
    by (auto simp: run_graph_validate_def dump_graph_def load r)
qed

end
