(* ===== verification/Spec2Isabelle.thy ===== *)
theory Spec2Isabelle
  imports Tiling_Bucket Tiling_Dedup Tiling_Planner Stage_Pipeline Telemetry_Compact Unit_Refine Unit_Rebuild Unit_Zarr Graph_Author
begin

text \<open>
  \<^bold>\<open>Scope.\<close> This library verifies the core of \<^verbatim>\<open>xtrax\<close>, a Python package of execution
  infrastructure for JAX programs. A program of xtrax is a set of named axes; the batch planner gives
  every axis a strategy (\<^verbatim>\<open>Vmap\<close>, \<^verbatim>\<open>ChunkedMap\<close>, \<^verbatim>\<open>Scan\<close>, \<^verbatim>\<open>DedupGather\<close>, \<^verbatim>\<open>WhileCarry\<close>, \<^verbatim>\<open>Bucket\<close>)
  under a memory budget, the topology validator accepts or rejects the plan, and the dispatcher and the stage executor
  run it. Around a run, the telemetry ledger records what was executed and decides which runs may be cited, and the unit
  index, which many processes share without a lock, says where the finished units of a run are.
  The paths below are relative to \<^verbatim>\<open>src/src/xtrax\<close>.

  \<^bold>\<open>Theories.\<close>

  \<^item> \<^verbatim>\<open>Xtrax_Prelude\<close>: the result type \<^verbatim>\<open>'a res = exn + 'a\<close> (an exception is a class, a message and its
    arguments), its monad laws and the collection \<^verbatim>\<open>res_simps\<close>, insertion-ordered dictionaries as association lists,
    \<^verbatim>\<open>bisect_left\<close>, and arrays in row-major order with their blocks along an axis.

  \<^item> \<^verbatim>\<open>Tiling_Bucket\<close>: \<^verbatim>\<open>tiling/bucket.py\<close> and \<^verbatim>\<open>BucketIterator\<close> of \<^verbatim>\<open>tiling/iterator.py\<close>. The bucket that is
    selected is the least one that fits, padding and trimming are inverse, a rung keeps every valid entry, and the
    iterator yields what \<^verbatim>\<open>bucketize\<close> yields.

  \<^item> \<^verbatim>\<open>Tiling_Strategy\<close>: \<^verbatim>\<open>tiling/strategy.py\<close>, \<^verbatim>\<open>carry.py\<close>, \<^verbatim>\<open>dedup.py\<close> and \<^verbatim>\<open>roles.py\<close>: the strategies as a
    datatype, \<^verbatim>\<open>DedupSpec\<close> with its constructor checks, its conversion to a \<^verbatim>\<open>DedupGather\<close> strategy.

  \<^item> \<^verbatim>\<open>Tiling_Dedup\<close>: \<^verbatim>\<open>tiling/dedup_synthesis.py\<close>. The locale \<^verbatim>\<open>row_unique\<close> states what the code relies on of
    \<^verbatim>\<open>np.unique\<close>; \<^verbatim>\<open>exact_stage\<close>, \<^verbatim>\<open>synthesize_dedup_spec\<close>, \<^verbatim>\<open>verify_dedup_spec\<close> and \<^verbatim>\<open>merge_dedup_specs\<close> are shown
    correct against the rows of the batch, and a synthesised specification passes verification.

  \<^item> \<^verbatim>\<open>Tiling_Transforms\<close>: \<^verbatim>\<open>transforms/map.py\<close> and \<^verbatim>\<open>transforms/scan.py\<close>. The locale \<^verbatim>\<open>jax_map_laws\<close> states when
    \<^verbatim>\<open>jax.vmap\<close> and \<^verbatim>\<open>jax.lax.map\<close> are the plain map; it promises nothing where the code works around defects
    (a length-1 axis, a length-1 last chunk, zero-size outputs of a batched \<^verbatim>\<open>lax.map\<close>). It is interpreted on a
    reference implementation and on one that raises in exactly those cases, so \<^verbatim>\<open>chunked_map_is_map\<close> shows that
    every workaround is in place.

  \<^item> \<^verbatim>\<open>Tiling_Dispatch\<close>: \<^verbatim>\<open>tiling/dispatch.py\<close> and the other iterators. All mapping strategies are the plain map;
    loops that may not end are values of an option type, and the two bounded loops are shown to return.

  \<^item> \<^verbatim>\<open>Tiling_Plan\<close> (model) and \<^verbatim>\<open>Tiling_Planner\<close> (proofs): \<^verbatim>\<open>tiling/plan.py\<close>, \<^verbatim>\<open>budget.py\<close> and \<^verbatim>\<open>estimators.py\<close>,
    with warnings and the one-time log as recorded events of a planner environment. The planner is shown to keep
    one decision per axis, to stay in its budget, to raise \<^verbatim>\<open>BudgetInfeasibleError\<close> only when nothing is left to
    demote, and not to lose feasibility by dedup.

  \<^item> \<^verbatim>\<open>Stage_Pipeline\<close>: \<^verbatim>\<open>stages/boundaries.py\<close>, \<^verbatim>\<open>topology.py\<close> and \<^verbatim>\<open>executor.py\<close>. Taps and sinks record events;
    the executor is shown to return the tapped results with their events in element order, and a validated plan runs.

  \<^item> \<^verbatim>\<open>Python_Values\<close>: the parts of Python's library that the record-keeping code uses: white space and stripping,
    decimal numerals with \<^verbatim>\<open>int(...)\<close> as their inverse, decoded JSON values with truthiness, hashability, the
    constructor \<^verbatim>\<open>dict(...)\<close> and key sorting, and directories with their sorted \<^verbatim>\<open>*.jsonl\<close> files.

  \<^item> \<^verbatim>\<open>Telemetry_Record\<close>: \<^verbatim>\<open>telemetry/record.py\<close> and \<^verbatim>\<open>migrate.py\<close>: \<^verbatim>\<open>IRRef\<close>, \<^verbatim>\<open>RunProvenance\<close> and
    \<^verbatim>\<open>RunLedgerRecord\<close> with their constructor checks, reading, writing and upgrading of rows. A row that was read is
    written and read back unchanged up to the order of keys.

  \<^item> \<^verbatim>\<open>Telemetry_Provenance\<close>: the capture half of \<^verbatim>\<open>telemetry/record.py\<close>. The outcomes of git, of the optional package
    \<^verbatim>\<open>cisternal\<close>, of the environment probes and of \<^verbatim>\<open>resolve_distribution\<close> are fields of the record \<^verbatim>\<open>world\<close>;
    capture is shown to return for all of them.

  \<^item> \<^verbatim>\<open>Telemetry_Ledger\<close>: \<^verbatim>\<open>telemetry/ledger.py\<close> and \<^verbatim>\<open>claims.py\<close>. An open \<^verbatim>\<open>RunLedger\<close> is a state machine with the
    reachability relation \<^verbatim>\<open>ledger_reach\<close>; it writes exactly one row, and leaving its \<^verbatim>\<open>with\<close> block records the run.

  \<^item> \<^verbatim>\<open>Telemetry_Store\<close>: \<^verbatim>\<open>telemetry/store.py\<close>, \<^verbatim>\<open>ir.py\<close> and \<^verbatim>\<open>callback.py\<close>. The locale \<^verbatim>\<open>blob_laws\<close> states what the
    store relies on of the digest and the codecs (collisions are not excluded); the store refines a map from digests
    to texts, and a run whose status stayed \<^verbatim>\<open>complete\<close> has all its blobs.

  \<^item> \<^verbatim>\<open>Telemetry_Compact\<close>: \<^verbatim>\<open>telemetry/compact.py\<close>. The file operations of a compaction are a list, so that a crash
    is a prefix of it; at every prefix the latest row of every run and kind is kept. The locale \<^verbatim>\<open>row_codec\<close> is the
    contract of the row format, interpreted on the functions of \<^verbatim>\<open>Telemetry_Ledger\<close>.

  \<^item> \<^verbatim>\<open>Unit_Liveness\<close>: \<^verbatim>\<open>run/writer_liveness.py\<close> and the pass runner of \<^verbatim>\<open>run/unit_index.py\<close>. A segment is a list of
    pieces: line breaks, whole JSON lines and torn fragments, so its size is the number of pieces. UNKNOWN is never dead,
    and a pass runs each scheduler command at most once.

  \<^item> \<^verbatim>\<open>Unit_Index\<close>: the rows, the segment writer (every write may stop after any part of it), parsing, snapshots and
    \<^verbatim>\<open>lookup\<close> of \<^verbatim>\<open>run/unit_index.py\<close>. Floats are exact rationals with infinities and NaN; \<^verbatim>\<open>float(int)\<close> rounds
    to 53 bits and overflows. A lookup finds a verifying copy whenever a readable file names one.

  \<^item> \<^verbatim>\<open>Unit_Compact\<close>: collapsing rows, manifests, archiving (the work list ends) and sealing: one pass of \<^verbatim>\<open>compact\<close>
    on an index that nobody else changes. Temporary files are left out, a write by \<^verbatim>\<open>os.replace\<close> is one step.

  \<^item> \<^verbatim>\<open>Unit_Protocol\<close>: writers, compactors, rebuilds and crashes interleaved, as the step function \<^verbatim>\<open>pstep\<close> with
    its reachable states \<^verbatim>\<open>preach\<close>. The invariant \<^verbatim>\<open>pinv\<close> says that every file that ever was in the index is
    still there or has its rows in a newer sealed file; so no row is lost. With reused writer ids this fails.

  \<^item> \<^verbatim>\<open>Unit_Refine\<close>: the pass of \<^verbatim>\<open>Unit_Compact\<close> is a run of \<^verbatim>\<open>Unit_Protocol\<close>, when the scheduler and the trailer
    are right about the writers that run.

  \<^item> \<^verbatim>\<open>Unit_Scan\<close>: \<^verbatim>\<open>_scan\<close> while the index changes: each look of an attempt sees its own state of a run.

  \<^item> \<^verbatim>\<open>Unit_Rebuild\<close>: \<^verbatim>\<open>new_writer_id\<close> and \<^verbatim>\<open>rebuild\<close>.


  \<^item> \<^verbatim>\<open>Run_Digest\<close>: \<^verbatim>\<open>run/digest.py\<close> and \<^verbatim>\<open>zarr_integrity.py\<close>: canonical digests of JSON values, and the pieces a zarr
    hierarchy is digested as. SHA-256 is a function of these pieces; nothing is assumed of it.

  \<^item> \<^verbatim>\<open>Zarr_Commit\<close> (model), \<^verbatim>\<open>Zarr_Laws\<close> and \<^verbatim>\<open>Zarr_Durable\<close> (proofs): \<^verbatim>\<open>run/zarr_commit.py\<close> on directory trees. The
    locales \<^verbatim>\<open>zarr_laws\<close> and \<^verbatim>\<open>zarr_group_laws\<close> state what is relied on of the package \<^verbatim>\<open>zarr\<close>, and are interpreted on a
    reader of version-3 metadata. A commit is found by a lookup, commits keep the keys that were committed, quarantine takes
    no valid group away. The check of the prefix and the rename are not one step, which is shown to matter.

  \<^item> \<^verbatim>\<open>Unit_Zarr\<close>: \<^verbatim>\<open>ZarrCommitAdapter\<close> of \<^verbatim>\<open>run/unit_index.py\<close>: a unit that was committed and indexed is reused.

  \<^item> \<^verbatim>\<open>Graph_Metadata\<close> and \<^verbatim>\<open>Graph_Model\<close>: \<^verbatim>\<open>composition/node_metadata.py\<close>, \<^verbatim>\<open>graph.py\<close> and \<^verbatim>\<open>serialize.py\<close>. What metadata a
    loaded schema accepts is said slot by slot; construction establishes \<^verbatim>\<open>graph_ok\<close>, and documents and graphs are shown to
    be inverse. The import system is the record \<^verbatim>\<open>py_imports\<close>.

  \<^item> \<^verbatim>\<open>Graph_Validate\<close> and \<^verbatim>\<open>Graph_Author\<close>: \<^verbatim>\<open>composition/validate.py\<close>, \<^verbatim>\<open>author.py\<close> and the verbs \<^verbatim>\<open>graph-validate\<close> and
    \<^verbatim>\<open>graph-author\<close>. The verdicts are given by the last state of the lint cache, in which every file was linted once.
  \<^item> This theory: the properties that span components, from the synthesis of a dedup specification to the
    dispatch of a function through it.

  \<^bold>\<open>Modelling choices.\<close> Python integers are \<^typ>\<open>int\<close>; JAX counters are \<^verbatim>\<open>int32\<close> with wrap-around written out;
  fractions of memory are exact rationals in place of floats. A pytree whose leaves share a leading axis is the list of its
  elements. Functions of JAX and NumPy (\<^verbatim>\<open>vmap\<close>, \<^verbatim>\<open>lax.map\<close>, \<^verbatim>\<open>lax.scan\<close>, \<^verbatim>\<open>lax.while_loop\<close>, \<^verbatim>\<open>eval_shape\<close>,
  \<^verbatim>\<open>np.unique\<close>, \<^verbatim>\<open>np.linspace\<close>, \<^verbatim>\<open>jnp.pad\<close>, byte conversion) and user callables are parameters, with the laws they
  satisfy as locales or named hypotheses; every law has an interpretation on a concrete implementation.
  Reasons given in a plan are a datatype instead of formatted text, and exception messages keep their constant part with
  the formatted values as arguments.

  A text file of the ledger is the list of its lines, decoded; it ends with a line break. The outcome of a write, the size of a file
  and the clock are arguments of the operations that depend on them, and a write that fails leaves no partial line.
  Ledger segments have canonical five-digit names below 99999, as the code gives them.

  \<^bold>\<open>Fuel.\<close> \<^verbatim>\<open>chunked_map\<close> calls itself through \<^verbatim>\<open>_chunked_map_without_zero_size\<close>; the model runs it with depth 2,
  which is enough since the second call has no zero-size outputs, and exhausting the depth is a value
  (\<^verbatim>\<open>RecursionError\<close>) that \<^verbatim>\<open>chunked_map_is_map\<close> excludes. All other loops are structural recursions, or use
  \<^verbatim>\<open>while_option\<close> with a proof that a result is returned.

  \<^bold>\<open>Not modelled.\<close> Floating-point comparison of compiled programs (\<^verbatim>\<open>verify_dedup_outputs\<close>), the parts of xtrax that
  rewrite jaxprs (\<^verbatim>\<open>intent\<close>, \<^verbatim>\<open>inference\<close>), that drive external compilers (\<^verbatim>\<open>export\<close>), that train
  (\<^verbatim>\<open>engine\<close>, \<^verbatim>\<open>training\<close>) or measure (\<^verbatim>\<open>profiling\<close>), and command-line and repository tooling: they
  call packages that are not part of the repository in almost every step.
\<close>

section \<open>Dedup from synthesis to dispatch\<close>

text \<open>The elements of a batch along its axis: row \<open>i\<close> of every leaf.\<close>

definition batch_elements :: "(array_kind \<times> 'e leaf_array) list \<Rightarrow> nat \<Rightarrow> nat \<Rightarrow> 'e list list list" where
  "batch_elements ls axis n = map (\<lambda>i. map (\<lambda>l. leaf_rows (la_array (snd l)) axis n ! i) ls) [0..<n]"

lemma synthesized_gather_sound:
  assumes laws: "row_unique np_unique" "native_bytes ops typed"
    and leaves: "\<forall>l\<in>set leaves. leaf_wf l \<and> leaf_typed typed l" "n \<le> 2 ^ 31" "validate_batch_leaves leaves axis = Inr (ls, n)"
    and syn: "synthesize_dedup_spec np_unique stride ops leaves axis threshold msr muk existing = Inr res"
      "sr_spec res = Some spec"
    and dg: "takes_rows index_x" "takes_rows index_y" "to_dedup_gather index_x index_y spec = Inr dg"
  shows "gather_sound dg (batch_elements ls (nat axis) n)"
proof -
  have "is_ok (verify_dedup_spec ops spec leaves axis)"
    using synthesize_verifies [OF laws leaves(1) _ syn] leaves(2,3)
    by (auto simp: stack_batch_leaves_def res_simps)
  then obtain vr where vr: "verify_dedup_spec ops spec leaves axis = Inr vr" by (auto simp: is_ok_iff)
  from verify_sound [OF laws(2) leaves(1) vr] leaves(3)
  have canon: "canonical_row spec i < n"
      "leaf_rows (la_array (snd l)) (nat axis) n ! i = leaf_rows (la_array (snd l)) (nat axis) n ! canonical_row spec i"
    if "i < n" "l \<in> set ls" for l i
    using that by auto
  have struct: "check_spec_structure spec n = Inr ()"
    using vr leaves(3) by (auto simp: verify_dedup_spec_def res_simps)
  have post: "DedupSpec_post_init spec = Inr spec" "ds_dedup_fn spec = None" "ds_gather_fn spec = None"
    using synthesize_dedup_spec_Some [OF syn] by metis+
  show ?thesis
  proof (rule to_dedup_gather_sound [OF dg(3) post dg(1,2)])
    show "\<forall>i<length (batch_elements ls (nat axis) n). batch_elements ls (nat axis) n
        ! nat (ds_unique_indices spec ! nat (ds_index_map spec ! i)) = batch_elements ls (nat axis) n ! i"
      using canon canonical_row_bound [OF struct] by (auto simp: batch_elements_def simp flip: canonical_row_def)
  qed (use struct in \<open>auto simp: check_spec_structure_Inr batch_elements_def\<close>)
qed

text \<open>
  C1. End to end: when \<open>synthesize_dedup_spec\<close> finds a dedup specification for a batch, dispatching any
  traceable function over the batch through the \<open>DedupGather\<close> strategy made from it returns what
  the function returns on every row, although the function was run on the distinct rows only.
\<close>

theorem synthesized_dispatch_is_map:
  assumes "row_unique np_unique" "native_bytes ops typed"
    and "\<forall>l\<in>set leaves. leaf_wf l \<and> leaf_typed typed l" "n \<le> 2 ^ 31" "validate_batch_leaves leaves axis = Inr (ls, n)"
    and "synthesize_dedup_spec np_unique stride ops leaves axis threshold msr muk existing = Inr res"
    and "sr_spec res = Some spec"
    and "takes_rows index_x" "takes_rows index_y" "to_dedup_gather index_x index_y spec = Inr dg"
    and "jax_map_laws J" "mappable fn (batch_elements ls (nat axis) n)"
  shows "axis_dispatch J z scan while_loop (DedupGather dg) (Some fn) (batch_elements ls (nat axis) n) init
    = Some (Inr (Mapped (map fn (batch_elements ls (nat axis) n))))"
  using jax_map_laws.axis_dispatch_maps [OF assms(11,12), of "DedupGather dg"]
    synthesized_gather_sound [OF assms(1-10)] by simp

definition element_total :: "bytes list list \<Rightarrow> int tree" where
  "element_total e =
     [\<lparr>ol_struct = \<lparr>ls_shape = [1], ls_dtype = ''int32'', ls_extended = False\<rparr>,
       ol_data = [int (sum_list (concat (concat e)))]\<rparr>]"

definition pair_gather :: "(bytes list list, int tree) dedup_gather" where
  "pair_gather = \<lparr>dg_unique_indices = [0, 1], dg_index_map = [0, 1, 0, 0], dg_k = 2, dg_k_bucket = 2,
     dg_dedup_fn = default_dedup_fn take_rows, dg_gather_fn = default_gather_fn take_rows\<rparr>"

definition pair_arrays :: "(array_kind \<times> bytes leaf_array) list" where
  "pair_arrays =
     [(OnHost, \<lparr>la_array = \<lparr>nd_shape = [4], nd_data = [[7], [3], [7], [7]]\<rparr>, la_dtype = IntT 4\<rparr>),
      (OnDevice, \<lparr>la_array = \<lparr>nd_shape = [4, 1], nd_data = [[6, 0, 0, 2], [5, 0, 0, 5], [6, 0, 0, 2], [6, 0, 0, 2]]\<rparr>, la_dtype = IntT 32\<rparr>),
      (OnDevice, \<lparr>la_array = \<lparr>nd_shape = [4], nd_data = replicate 4 [1, 2, 3, 4, 5, 6, 7, 8]\<rparr>, la_dtype = ComplexT 64\<rparr>)]"

theorem synthesized_dispatch_is_map_witness:
  "axis_dispatch faulty_jax 0 (\<lambda>_ c _ _ _ _. Inr (c :: unit, [])) while_option (DedupGather pair_gather)
     (Some element_total) (batch_elements pair_arrays (nat 0) 4) None
   = Some (Inr (Mapped (map element_total (batch_elements pair_arrays (nat 0) 4))))"
proof (rule synthesized_dispatch_is_map [OF sorted_unique.row_unique_axioms raw_bytes.native_bytes_axioms pair_leaves_wf _
      _ pair_synthesized _ takes_rows_take_rows takes_rows_take_rows _ faulty_jax.jax_map_laws_axioms])
  show "(4::nat) \<le> 2 ^ 31" by simp
  show "validate_batch_leaves pair_leaves 0 = Inr (pair_arrays, 4)" by code_simp
  show "sr_spec pair_result = Some pair_spec" by (simp add: pair_result_def)
  show "to_dedup_gather take_rows take_rows pair_spec = Inr pair_gather"
    by (simp add: to_dedup_gather_def pair_spec_def pair_gather_def pair_stages(4))
  show "mappable element_total (batch_elements pair_arrays (nat 0) 4)"
    unfolding mappable_def
    by (rule exI [of _ "map ol_struct (element_total [])"]) (simp add: traces_def element_total_def leaf_ok_def)
qed

end
